(* ===== verification/Attadipa_Prelude.thy ===== *)
theory Attadipa_Prelude
  imports Main "HOL-Library.Word"
begin

text \<open>
  The vocabulary every component of the model shares: names for the machine integers of the
  C++ sources, the little-endian splitting and joining of bytes, reads and writes of a
  fixed-size array, and the collections of rewrite rules that carry the component proofs.

  A C++ \<open>std::uintN_t\<close> is an \<open>N word\<close>; \<open>std::size_t\<close> values that only index a buffer of
  a known small size are \<open>nat\<close>. A \<open>std::intN_t\<close> that is only stored and copied is the word
  with the same bits; one that is compared or computed with is an \<open>int\<close> with its range
  written out.
\<close>

unbundle bit_operations_syntax

type_synonym u8 = "8 word"
type_synonym u16 = "16 word"
type_synonym u32 = "32 word"
type_synonym u64 = "64 word"

type_synonym bytes = "u8 list"

named_theorems unat_rules \<open>how \<^const>\<open>unat\<close> distributes over the model's operations\<close>
named_theorems frame_rules \<open>fields an operation leaves alone\<close>
named_theorems inv_rules \<open>operations keep their component's invariant\<close>

section \<open>Words\<close>

text \<open>A counter that stops at its maximum instead of wrapping, as the clamps of the sources do.\<close>

definition clamp_u32 :: "u64 \<Rightarrow> u32" where
  "clamp_u32 x = (if x > 0xFFFFFFFF then 0xFFFFFFFF else ucast x)"

lemma word_less_unat: "a < b \<longleftrightarrow> unat a < unat b" for a b :: "'a::len word"
  by (simp add: word_less_nat_alt)

lemma word_le_unat: "a \<le> b \<longleftrightarrow> unat a \<le> unat b" for a b :: "'a::len word"
  by (simp add: word_le_nat_alt)

lemma word_eq_unat: "a = b \<longleftrightarrow> unat a = unat b" for a b :: "'a::len word"
  by (simp add: word_unat_eq_iff)

lemmas word_unat = word_less_unat word_le_unat word_eq_unat

lemma unat_clamp_u32 [unat_rules]: "unat (clamp_u32 x) = min (unat x) (2 ^ 32 - 1)"
proof (cases "x > 0xFFFFFFFF")
  case True
  then have "unat x > 0xFFFFFFFF" by (simp add: word_less_nat_alt)
  with True show ?thesis by (simp add: clamp_u32_def)
next
  case False
  then have "unat x \<le> 0xFFFFFFFF" by (simp add: word_le_nat_alt not_less)
  with False show ?thesis
    by (simp add: clamp_u32_def unsigned_ucast_eq take_bit_nat_eq_self)
qed

lemma unat_sub_le [unat_rules]: "b \<le> a \<Longrightarrow> unat (a - b) = unat a - unat b"
  for a b :: "'a::len word"
  by (simp add: unat_sub)

lemma unat_bound: "unat w \<le> 2 ^ LENGTH('a) - 1" for w :: "'a::len word"
proof -
  have "unat w < 2 ^ LENGTH('a)" by (rule unsigned_less)
  then show ?thesis by linarith
qed

lemma unat_plus_one: "w + 1 \<noteq> 0 \<Longrightarrow> unat (w + 1) = unat w + 1" for w :: "'a::len word"
  using unatSuc [of w] by (simp add: add.commute)

lemma plus_one_zero: "w + 1 = 0 \<Longrightarrow> unat w = 2 ^ LENGTH('a) - 1" for w :: "'a::len word"
proof -
  assume "w + 1 = 0"
  then have "(unat w + 1) mod 2 ^ LENGTH('a) = 0"
    by (metis unat_word_ariths(1) unat_0 unat_1)
  moreover have "unat w + 1 \<le> 2 ^ LENGTH('a)" by (metis Suc_eq_plus1 Suc_leI unsigned_less)
  ultimately show ?thesis by (metis add_diff_cancel_right' le_neq_implies_less mod_less add_is_0 zero_neq_one)
qed

lemma unat_upcast:
  fixes x :: "'a::len word"
  assumes "LENGTH('a) \<le> LENGTH('b)"
  shows "unat (ucast x :: 'b::len word) = unat x"
proof -
  have "unat x < 2 ^ LENGTH('a)" by (rule unsigned_less)
  also have "\<dots> \<le> 2 ^ LENGTH('b)" using assms by (intro power_increasing) auto
  finally show ?thesis by (simp add: unsigned_ucast_eq take_bit_nat_eq_self)
qed

lemma and_not_self_zero: "a AND NOT b = 0 \<longleftrightarrow> a AND b = a" for a b :: "'a::len word"
  by (auto simp: bit_eq_iff bit_simps)

lemma xor_right_cancel: "a XOR k = b XOR k \<longleftrightarrow> a = b" for a b k :: "'a::len word"
  by (auto simp: bit_eq_iff bit_xor_iff)

lemma xor_left_cancel: "k XOR a = k XOR b \<longleftrightarrow> a = b" for a b k :: "'a::len word"
  by (auto simp: bit_eq_iff bit_xor_iff)

lemma ucast_and_ff: "ucast (l AND 0xFF) = (ucast (l::'a::len word) :: u8)"
proof -
  have "l AND 0xFF = take_bit 8 l" by (simp add: take_bit_eq_mask mask_eq_exp_minus_1)
  then show ?thesis by (auto intro!: bit_word_eqI simp: bit_simps)
qed

section \<open>Little-endian bytes\<close>

text \<open>
  \<open>put_le n w\<close> are the \<open>n\<close> bytes the sources write for \<open>w\<close>, least significant first;
  \<open>get_le\<close> joins bytes back. The component theories show that the shifts and masks the
  code spells out compute these.
\<close>

definition byte_of :: "nat \<Rightarrow> 'a::len word \<Rightarrow> u8" where
  "byte_of i w = ucast (drop_bit (8 * i) w)"

definition put_le :: "nat \<Rightarrow> 'a::len word \<Rightarrow> bytes" where
  "put_le n w = map (\<lambda>i. byte_of i w) [0..<n]"

fun get_le :: "bytes \<Rightarrow> 'a::len word" where
  "get_le [] = 0"
| "get_le (b # bs) = ucast b OR push_bit 8 (get_le bs)"

lemma bit_byte_of: "bit (byte_of i w) n \<longleftrightarrow> n < 8 \<and> bit w (8 * i + n)"
  by (auto simp: byte_of_def bit_simps dest: bit_imp_le_length)

lemma length_put_le [simp]: "length (put_le n w) = n"
  by (simp add: put_le_def)

lemma nth_put_le [simp]: "i < n \<Longrightarrow> put_le n w ! i = byte_of i w"
  by (simp add: put_le_def)

lemma bit_get_le:
  "bit (get_le bs :: 'a::len word) n \<longleftrightarrow>
     n < LENGTH('a) \<and> n div 8 < length bs \<and> bit (bs ! (n div 8)) (n mod 8)"
proof (induction bs arbitrary: n)
  case Nil
  then show ?case by simp
next
  case (Cons b bs)
  show ?case
  proof (cases "n < 8")
    case True
    then show ?thesis by (auto simp: bit_simps dest: bit_imp_le_length)
  next
    case False
    then obtain m where n: "n = m + 8" by (metis le_add_diff_inverse2 not_less)
    have "\<not> bit b (m + 8)" using bit_imp_le_length [of b "m + 8"] by auto
    moreover have "(m + 8) div 8 = Suc (m div 8)" by simp
    ultimately show ?thesis using Cons.IH [of m] by (auto simp: n bit_simps)
  qed
qed

lemma get_put_le: "LENGTH('a) \<le> 8 * n \<Longrightarrow> get_le (put_le n w) = (w :: 'a::len word)"
  by (rule bit_word_eqI) (auto simp: bit_get_le bit_byte_of less_mult_imp_div_less mult.commute
      intro: less_le_trans dest: bit_imp_le_length)

lemma put_get_le:
  assumes "8 * length bs \<le> LENGTH('a)"
  shows "put_le (length bs) (get_le bs :: 'a::len word) = bs"
proof (rule nth_equalityI)
  fix i assume "i < length (put_le (length bs) (get_le bs :: 'a word))"
  then have i: "i < length bs" by simp
  show "put_le (length bs) (get_le bs :: 'a word) ! i = bs ! i"
  proof (rule bit_word_eqI)
    fix n assume "n < LENGTH(8)"
    then have n: "n < 8" by simp
    with i assms have "8 * i + n < LENGTH('a)" by simp
    with n i show "bit (put_le (length bs) (get_le bs :: 'a word) ! i) n = bit (bs ! i) n"
      by (simp add: bit_byte_of bit_get_le)
  qed
qed simp

lemma put_le_2: "put_le 2 w = [ucast w, ucast (drop_bit 8 w)]"
  by (simp add: put_le_def byte_of_def upt_rec)

section \<open>Fixed-size arrays\<close>

text \<open>
  \<open>write_at xs i ys\<close> is the array \<open>xs\<close> after \<open>memcpy(xs + i, ys, length ys)\<close>. The code
  only copies inside the array, which each use shows.
\<close>

definition write_at :: "'a list \<Rightarrow> nat \<Rightarrow> 'a list \<Rightarrow> 'a list" where
  "write_at xs i ys = take i xs @ ys @ drop (i + length ys) xs"

lemma length_write_at [simp]:
  "i + length ys \<le> length xs \<Longrightarrow> length (write_at xs i ys) = length xs"
  by (simp add: write_at_def)

lemma take_write_at [simp]:
  "i + length ys \<le> length xs \<Longrightarrow> take (i + length ys) (write_at xs i ys) = take i xs @ ys"
  by (simp add: write_at_def)

lemma take_write_at_0 [simp]: "take (length ys) (write_at xs 0 ys) = ys"
  by (simp add: write_at_def)

lemma write_at_Nil [simp]: "write_at xs i [] = xs"
  by (simp add: write_at_def)

section \<open>Loops over an enumeration\<close>

lemma fold_keeps: "(\<And>x s. P s \<Longrightarrow> P (f x s)) \<Longrightarrow> P s \<Longrightarrow> P (fold f xs s)"
  by (induction xs arbitrary: s) auto

end
