(* ===== verification/Interfaces.thy ===== *)
theory Interfaces
  imports Attadipa_Prelude
begin

text \<open>
  The contracts that several components of the model share, each a locale whose lemmas are
  proved once here and used through an interpretation in the theory of the component that
  provides the operations:

  \<^item> \<open>guarded_ops\<close>: a component whose operations all keep its invariant, so that every
    state reached by a list of operations satisfies it;
  \<^item> \<open>bounded_fifo\<close>: a ring buffer of a fixed capacity that refuses the newest item when it
    is full (\<open>link::FrameQueue\<close>, \<open>core::InputQueue\<close>);
  \<^item> \<open>stream_parser\<close>: a resynchronising parser over a byte stream whose decisions do not
    change when more bytes arrive behind the ones it judged (\<open>link::Decoder\<close>).
\<close>

section \<open>Operations that keep an invariant\<close>

fun run_ops :: "('op \<Rightarrow> 's \<Rightarrow> 's) \<Rightarrow> 'op list \<Rightarrow> 's \<Rightarrow> 's" where
  "run_ops step [] s = s"
| "run_ops step (x # xs) s = run_ops step xs (step x s)"

lemma run_ops_append: "run_ops step (xs @ ys) s = run_ops step ys (run_ops step xs s)"
  by (induction xs arbitrary: s) auto

locale guarded_ops =
  fixes step :: "'op \<Rightarrow> 's \<Rightarrow> 's"
    and inv :: "'s \<Rightarrow> bool"
  assumes step_inv: "inv s \<Longrightarrow> inv (step x s)"
begin

lemma run_inv: "inv s \<Longrightarrow> inv (run_ops step xs s)"
  by (induction xs arbitrary: s) (auto intro: step_inv)

text \<open>A relation that is reflexive, transitive and kept by every step from a good state.\<close>

lemma run_rel:
  assumes "inv s" and "\<And>s. inv s \<Longrightarrow> R s s"
    and "\<And>s t u. R s t \<Longrightarrow> R t u \<Longrightarrow> R s u"
    and "\<And>s x. inv s \<Longrightarrow> R s (step x s)"
  shows "R s (run_ops step xs s)"
  using assms(1)
proof (induction xs arbitrary: s)
  case Nil
  then show ?case by (simp add: assms(2))
next
  case (Cons x xs)
  from Cons.prems have "R s (step x s)" by (rule assms(4))
  moreover from Cons.prems have "R (step x s) (run_ops step xs (step x s))"
    by (intro Cons.IH step_inv)
  ultimately show ?case by (simp add: assms(3))
qed

end

section \<open>A bounded first-in first-out queue\<close>

text \<open>
  \<open>abs q\<close> is the list of queued items, oldest first. \<open>push\<close> answers whether the item was
  taken, \<open>pop\<close> the oldest item if there is one; \<open>legal\<close> says which items a push accepts at all.
\<close>

locale bounded_fifo =
  fixes push :: "'a \<Rightarrow> 'q \<Rightarrow> bool \<times> 'q"
    and pop :: "'q \<Rightarrow> 'a option \<times> 'q"
    and abs :: "'q \<Rightarrow> 'a list"
    and inv :: "'q \<Rightarrow> bool"
    and cap :: nat
    and legal :: "'a \<Rightarrow> bool"
  assumes abs_bound: "inv q \<Longrightarrow> length (abs q) \<le> cap"
    and push_ok: "inv q \<Longrightarrow> legal x \<Longrightarrow> length (abs q) < cap \<Longrightarrow>
      fst (push x q) \<and> abs (snd (push x q)) = abs q @ [x]"
    and push_full: "inv q \<Longrightarrow> \<not> (legal x \<and> length (abs q) < cap) \<Longrightarrow>
      \<not> fst (push x q) \<and> abs (snd (push x q)) = abs q"
    and push_inv: "inv q \<Longrightarrow> inv (snd (push x q))"
    and pop_empty: "inv q \<Longrightarrow> abs q = [] \<Longrightarrow> fst (pop q) = None \<and> abs (snd (pop q)) = []"
    and pop_some: "inv q \<Longrightarrow> abs q = x # xs \<Longrightarrow> fst (pop q) = Some x \<and> abs (snd (pop q)) = xs"
    and pop_inv: "inv q \<Longrightarrow> inv (snd (pop q))"
begin

lemmas fifo_laws = push_ok push_full push_inv pop_empty pop_some pop_inv

lemma push_accepted: "inv q \<Longrightarrow> fst (push x q) \<longleftrightarrow> legal x \<and> length (abs q) < cap"
  using push_ok push_full by blast

end

text \<open>A mixed trace of pushes and pops; the trace records what each operation answered.\<close>

datatype 'a queue_op = Push 'a | Pop
datatype 'a queue_answer = Taken 'a | Refused 'a | Got 'a | Empty

fun queue_run ::
  "('a \<Rightarrow> 'q \<Rightarrow> bool \<times> 'q) \<Rightarrow> ('q \<Rightarrow> 'a option \<times> 'q) \<Rightarrow> 'a queue_op list \<Rightarrow> 'q
    \<Rightarrow> 'a queue_answer list \<times> 'q" where
  "queue_run push pop [] q = ([], q)"
| "queue_run push pop (Push x # ops) q =
     (let (ok, q') = push x q; (as, q'') = queue_run push pop ops q'
      in ((if ok then Taken x else Refused x) # as, q''))"
| "queue_run push pop (Pop # ops) q =
     (let (r, q') = pop q; (as, q'') = queue_run push pop ops q'
      in ((case r of Some x \<Rightarrow> Got x | None \<Rightarrow> Empty) # as, q''))"

fun taken :: "'a queue_answer list \<Rightarrow> 'a list" where
  "taken [] = []"
| "taken (Taken x # as) = x # taken as"
| "taken (_ # as) = taken as"

fun got :: "'a queue_answer list \<Rightarrow> 'a list" where
  "got [] = []"
| "got (Got x # as) = x # got as"
| "got (_ # as) = got as"

fun refused :: "'a queue_answer list \<Rightarrow> 'a list" where
  "refused [] = []"
| "refused (Refused x # as) = x # refused as"
| "refused (_ # as) = refused as"

context bounded_fifo
begin

lemma queue_run_inv: "inv q \<Longrightarrow> inv (snd (queue_run push pop ops q))"
proof (induction ops arbitrary: q)
  case (Cons op ops)
  then show ?case
    using push_inv pop_inv by (cases op) (auto simp: split_beta Let_def)
qed simp

text \<open>
  What went in comes out, in order: the items popped, then the items still held, are the
  items held before followed by the items taken.
\<close>

lemma queue_run_order:
  "inv q \<Longrightarrow>
     got (fst (queue_run push pop ops q)) @ abs (snd (queue_run push pop ops q))
       = abs q @ taken (fst (queue_run push pop ops q))"
proof (induction ops arbitrary: q)
  case (Cons op ops)
  show ?case
  proof (cases op)
    case (Push x)
    have i: "inv (snd (push x q))" using Cons.prems by (rule push_inv)
    show ?thesis
      using Cons.IH [OF i] push_ok [OF Cons.prems, of x] push_full [OF Cons.prems, of x] Push
      by (cases "legal x \<and> length (abs q) < cap") (auto simp: split_beta Let_def)
  next
    case Pop
    have i: "inv (snd (pop q))" using Cons.prems by (rule pop_inv)
    show ?thesis
      using Cons.IH [OF i] pop_empty [OF Cons.prems] pop_some [OF Cons.prems] Pop
      by (cases "abs q") (auto simp: split_beta Let_def)
  qed
qed simp

end

section \<open>Resynchronising parsers\<close>

text \<open>
  One decision of a parser over the bytes it holds: wait for more, throw a number of bytes
  away, or hand over a frame that takes a number of bytes. \<open>scan\<close> repeats the decision until
  it is to wait: the frames handed over and the bytes left.
\<close>

datatype 'f verdict = Wait | Skip nat | Emit 'f nat

function scan :: "('b list \<Rightarrow> 'f verdict) \<Rightarrow> 'b list \<Rightarrow> 'f list \<times> 'b list" where
  "scan judge xs =
     (case judge xs of
        Wait \<Rightarrow> ([], xs)
      | Skip n \<Rightarrow> (if 0 < n \<and> n \<le> length xs then scan judge (drop n xs) else ([], xs))
      | Emit f n \<Rightarrow>
          (if 0 < n \<and> n \<le> length xs
           then (let (fs, r) = scan judge (drop n xs) in (f # fs, r)) else ([], xs)))"
  by pat_completeness auto
termination
  by (relation "measure (\<lambda>(judge, xs). length xs)") auto

declare scan.simps [simp del]

locale stream_parser =
  fixes judge :: "'b list \<Rightarrow> 'f verdict"
  assumes skip_bound: "judge xs = Skip n \<Longrightarrow> 0 < n \<and> n \<le> length xs"
    and emit_bound: "judge xs = Emit f n \<Longrightarrow> 0 < n \<and> n \<le> length xs"
    and skip_stable: "judge xs = Skip n \<Longrightarrow> judge (xs @ ys) = Skip n"
    and emit_stable: "judge xs = Emit f n \<Longrightarrow> judge (xs @ ys) = Emit f n"
begin

lemma scan_wait: "judge xs = Wait \<Longrightarrow> scan judge xs = ([], xs)"
  by (simp add: scan.simps)

lemma scan_skip: "judge xs = Skip n \<Longrightarrow> scan judge xs = scan judge (drop n xs)"
  using skip_bound by (subst scan.simps) auto

lemma scan_emit:
  "judge xs = Emit f n \<Longrightarrow>
     scan judge xs = (f # fst (scan judge (drop n xs)), snd (scan judge (drop n xs)))"
  using emit_bound by (subst scan.simps) (auto simp: split_beta)

lemma scan_induct [case_names Wait Skip Emit]:
  assumes "\<And>xs. judge xs = Wait \<Longrightarrow> P xs"
    and "\<And>xs n. judge xs = Skip n \<Longrightarrow> n \<le> length xs \<Longrightarrow> P (drop n xs) \<Longrightarrow> P xs"
    and "\<And>xs f n. judge xs = Emit f n \<Longrightarrow> n \<le> length xs \<Longrightarrow> P (drop n xs) \<Longrightarrow> P xs"
  shows "P xs"
proof (induction "length xs" arbitrary: xs rule: less_induct)
  case less
  have shorter: "P (drop n xs)" if "0 < n \<and> n \<le> length xs" for n
    using that by (intro less) auto
  show ?case
    using assms skip_bound emit_bound shorter by (cases "judge xs") blast+
qed

text \<open>Bytes that arrive later never change what was handed over before.\<close>

lemma scan_append:
  "scan judge (xs @ ys) =
     (fst (scan judge xs) @ fst (scan judge (snd (scan judge xs) @ ys)),
      snd (scan judge (snd (scan judge xs) @ ys)))"
proof (induction xs rule: scan_induct)
  case (Wait xs)
  then show ?case by (simp add: scan_wait)
next
  case (Skip xs n)
  then show ?case by (simp add: scan_skip [OF Skip(1)] scan_skip [OF skip_stable [OF Skip(1)]])
next
  case (Emit xs f n)
  then show ?case by (simp add: scan_emit [OF Emit(1)] scan_emit [OF emit_stable [OF Emit(1)]])
qed

lemma scan_residue_waits: "judge (snd (scan judge xs)) = Wait"
  by (induction xs rule: scan_induct) (auto simp: scan_wait scan_skip scan_emit)

lemma length_scan_residue: "length (snd (scan judge xs)) \<le> length xs"
  by (induction xs rule: scan_induct) (auto simp: scan_wait scan_skip scan_emit)

end

text \<open>Feeding a stream in pieces: each piece is appended to what the last one left.\<close>

fun scan_chunks :: "('b list \<Rightarrow> 'f verdict) \<Rightarrow> 'b list \<Rightarrow> 'b list list \<Rightarrow> 'f list \<times> 'b list" where
  "scan_chunks judge r [] = ([], r)"
| "scan_chunks judge r (c # cs) =
     (let (fs, r') = scan judge (r @ c); (gs, r'') = scan_chunks judge r' cs in (fs @ gs, r''))"

context stream_parser
begin

lemma scan_chunks_concat:
  "judge r = Wait \<Longrightarrow> scan_chunks judge r cs = scan judge (r @ concat cs)"
proof (induction cs arbitrary: r)
  case Nil
  then show ?case by (simp add: scan_wait)
next
  case (Cons c cs)
  have w: "judge (snd (scan judge (r @ c))) = Wait" by (rule scan_residue_waits)
  show ?case
    using Cons.IH [OF w] scan_append [of "r @ c" "concat cs"]
    by (simp add: split_beta Let_def)
qed

end

end
