(* ===== verification/Frame_Codec.thy ===== *)
theory Frame_Codec
  imports Interfaces
begin

text \<open>
  The byte-stream framing of \<open>link/src/frame_codec.cpp\<close>: the CRC, \<open>encode\<close>, and the
  resynchronising \<open>Decoder\<close> with its fixed buffer of \<open>kCapacity\<close> bytes, together with the
  drain loop of \<open>sim/debug_server.cpp\<close> that a transport hands to \<open>Decoder::feed\<close>.

  A nullable pointer with a length is an option of a byte list and that length; an output
  buffer is passed in and returned.
\<close>

section \<open>Constants\<close>

definition kSync0 :: u8 where "kSync0 = 0xF1"
definition kSync1 :: u8 where "kSync1 = 0x5E"

definition kHeaderBytes :: nat where "kHeaderBytes = 5"
definition kTrailerBytes :: nat where "kTrailerBytes = 2"
definition kOverheadBytes :: nat where "kOverheadBytes = kHeaderBytes + kTrailerBytes"
definition kMaxPayload :: nat where "kMaxPayload = 192"
definition kMaxFrame :: nat where "kMaxFrame = kMaxPayload + kOverheadBytes"
definition kCapacity :: nat where "kCapacity = kMaxFrame + 1"

lemmas frame_sizes [simp] =
  kHeaderBytes_def kTrailerBytes_def kOverheadBytes_def kMaxPayload_def kMaxFrame_def kCapacity_def

section \<open>The checks\<close>

definition length_check :: "u16 \<Rightarrow> u8" where
  "length_check len = ucast ((len AND 0xFF) XOR drop_bit 8 len XOR 0x5A)"

definition crc_bit :: "u16 \<Rightarrow> u16" where
  "crc_bit crc = (if crc AND 0x8000 \<noteq> 0 then push_bit 1 crc XOR 0x1021 else push_bit 1 crc)"

definition crc_byte :: "u16 \<Rightarrow> u8 \<Rightarrow> u16" where
  "crc_byte crc b = (crc_bit ^^ 8) (crc XOR push_bit 8 (ucast b))"

definition crc16_ccitt :: "bytes \<Rightarrow> u16" where
  "crc16_ccitt data = foldl crc_byte 0xFFFF data"

section \<open>Encoding\<close>

definition encode :: "bytes option \<Rightarrow> nat \<Rightarrow> bytes option \<Rightarrow> nat \<Rightarrow> nat \<times> bytes option" where
  "encode payload len out capacity =
     (if len > kMaxPayload then (0, out)
      else case out of
        None \<Rightarrow> (0, out)
      | Some buf \<Rightarrow>
          if capacity < len + kOverheadBytes then (0, out)
          else if payload = None \<and> len \<noteq> 0 then (0, out)
          else
            let l = (of_nat len :: u16);
                b1 = buf[0 := kSync0, 1 := kSync1, 2 := ucast (l AND 0xFF),
                         3 := ucast (drop_bit 8 l), 4 := length_check l];
                b2 = (if len \<noteq> 0 then write_at b1 kHeaderBytes (take len (the payload)) else b1);
                crc = crc16_ccitt (take (len + 3) (drop 2 b2));
                b3 = b2[kHeaderBytes + len := ucast (crc AND 0xFF),
                        kHeaderBytes + len + 1 := ucast (drop_bit 8 crc)]
            in (len + kOverheadBytes, Some b3))"

section \<open>The decoder\<close>

datatype frame_status = Delivered | NoFrame | Incomplete | OutputTooSmall

record frame_result =
  status :: frame_status
  result_length :: nat

definition exhausted :: "frame_result \<Rightarrow> bool" where
  "exhausted r \<longleftrightarrow> status r = NoFrame \<or> status r = Incomplete"

record decoder_stats =
  frames :: u32
  resyncs :: u32
  bad_length :: u32
  bad_crc :: u32
  input_dropped :: u32

record decoder =
  buffer :: bytes
  dsize :: nat
  dstats :: decoder_stats

definition new_decoder :: decoder where
  "new_decoder = \<lparr>buffer = replicate kCapacity 0, dsize = 0,
     dstats = \<lparr>frames = 0, resyncs = 0, bad_length = 0, bad_crc = 0, input_dropped = 0\<rparr>\<rparr>"

definition push :: "bytes option \<Rightarrow> nat \<Rightarrow> decoder \<Rightarrow> nat \<times> decoder" where
  "push data len d =
     (case data of
        None \<Rightarrow> (0, d)
      | Some bs \<Rightarrow>
          if len = 0 then (0, d)
          else
            let room = kCapacity - dsize d;
                accepted = (if len < room then len else room)
            in (accepted,
                if accepted \<noteq> 0
                then d\<lparr>buffer := write_at (buffer d) (dsize d) (take accepted bs),
                       dsize := dsize d + accepted\<rparr>
                else d))"

definition discard_front :: "nat \<Rightarrow> decoder \<Rightarrow> decoder" where
  "discard_front n d =
     (if n \<ge> dsize d then d\<lparr>dsize := 0\<rparr>
      else d\<lparr>buffer := write_at (buffer d) 0 (take (dsize d - n) (drop n (buffer d))),
             dsize := dsize d - n\<rparr>)"

definition reset :: "decoder \<Rightarrow> decoder" where
  "reset d = d\<lparr>dsize := 0\<rparr>"

definition count_resync :: "decoder \<Rightarrow> decoder" where
  "count_resync d = d\<lparr>dstats := (dstats d)\<lparr>resyncs := resyncs (dstats d) + 1\<rparr>\<rparr>"

definition count_bad_length :: "decoder \<Rightarrow> decoder" where
  "count_bad_length d = d\<lparr>dstats := (dstats d)\<lparr>bad_length := bad_length (dstats d) + 1\<rparr>\<rparr>"

definition count_bad_crc :: "decoder \<Rightarrow> decoder" where
  "count_bad_crc d = d\<lparr>dstats := (dstats d)\<lparr>bad_crc := bad_crc (dstats d) + 1\<rparr>\<rparr>"

definition count_frame :: "decoder \<Rightarrow> decoder" where
  "count_frame d = d\<lparr>dstats := (dstats d)\<lparr>frames := frames (dstats d) + 1\<rparr>\<rparr>"

lemma dsize_counts [simp]:
  "dsize (count_resync d) = dsize d" "dsize (count_bad_length d) = dsize d"
  "dsize (count_bad_crc d) = dsize d" "dsize (count_frame d) = dsize d"
  by (simp_all add: count_resync_def count_bad_length_def count_bad_crc_def count_frame_def)

lemma dsize_discard_front [simp]: "dsize (discard_front n d) = dsize d - n"
  by (simp add: discard_front_def)

text \<open>The 16-bit length a header declares, and the three tests on a header.\<close>

definition declared16 :: "bytes \<Rightarrow> u16" where
  "declared16 b = ucast (b ! 2) OR push_bit 8 (ucast (b ! 3))"

definition header_ok :: "bytes \<Rightarrow> bool" where
  "header_ok b \<longleftrightarrow> b ! 0 = kSync0 \<and> b ! 1 = kSync1 \<and> b ! 4 = length_check (declared16 b)"

definition crc_expected :: "bytes \<Rightarrow> nat \<Rightarrow> u16" where
  "crc_expected b declared = crc16_ccitt (take (declared + 3) (drop 2 b))"

definition crc_actual :: "bytes \<Rightarrow> nat \<Rightarrow> u16" where
  "crc_actual b declared =
     ucast (b ! (kHeaderBytes + declared)) OR push_bit 8 (ucast (b ! (kHeaderBytes + declared + 1)))"

text \<open>\<open>Decoder::next\<close>: each turn of its loop returns or discards one byte.\<close>

function next_frame :: "bytes option \<Rightarrow> nat \<Rightarrow> decoder \<Rightarrow> frame_result \<times> bytes option \<times> decoder" where
  "next_frame out capacity d =
     (if dsize d < kHeaderBytes
      then (\<lparr>status = (if dsize d = 0 then NoFrame else Incomplete), result_length = 0\<rparr>, out, d)
      else
        let declared = unat (declared16 (buffer d));
            needed = kHeaderBytes + declared + kTrailerBytes
        in
          if \<not> header_ok (buffer d) then next_frame out capacity (discard_front 1 (count_resync d))
          else if declared > kMaxPayload
          then next_frame out capacity (discard_front 1 (count_resync (count_bad_length d)))
          else if dsize d < needed
          then (\<lparr>status = Incomplete, result_length = 0\<rparr>, out, d)
          else if crc_expected (buffer d) declared \<noteq> crc_actual (buffer d) declared
          then next_frame out capacity (discard_front 1 (count_resync (count_bad_crc d)))
          else if declared \<noteq> 0 \<and> (out = None \<or> capacity < declared)
          then (\<lparr>status = OutputTooSmall, result_length = declared\<rparr>, out, d)
          else
            (\<lparr>status = Delivered, result_length = declared\<rparr>,
             (if declared \<noteq> 0
              then map_option (\<lambda>o'. write_at o' 0 (take declared (drop kHeaderBytes (buffer d)))) out
              else out),
             count_frame (discard_front needed d)))"
  by pat_completeness auto
termination
  by (relation "measure (\<lambda>(out, capacity, d). dsize d)") auto

declare next_frame.simps [simp del]

text \<open>
  The drain a transport gives to \<open>feed\<close> (\<open>DebugServer::dispatch_ready\<close>): \<open>next\<close> into a
  buffer of \<open>kMaxPayload\<close> bytes until it is exhausted, each payload handed to the sink. The
  loop is bounded by the bytes held, since every delivery takes at least \<open>kOverheadBytes\<close>.
\<close>

function dispatch_ready :: "(bytes \<Rightarrow> 's \<Rightarrow> 's) \<Rightarrow> bytes \<Rightarrow> decoder \<times> 's \<Rightarrow> decoder \<times> 's" where
  "dispatch_ready handle payload (d, s) =
     (case next_frame (Some payload) kMaxPayload d of
        (r, out, d') \<Rightarrow>
          if exhausted r then (d', s)
          else if status r = OutputTooSmall then (d', s)
          else if dsize d' < dsize d
          then dispatch_ready handle (the out) (d', handle (take (result_length r) (the out)) s)
          else (d', s))"
  by pat_completeness auto
termination
  by (relation "measure (\<lambda>(handle, payload, d, s). dsize d)") auto

declare dispatch_ready.simps [simp del]

text \<open>\<open>Decoder::feed\<close>: drain, offer, repeat; what a drain cannot make room for is counted.\<close>

function feed_loop ::
  "(decoder \<times> 's \<Rightarrow> decoder \<times> 's) \<Rightarrow> bytes \<Rightarrow> nat \<Rightarrow> nat \<Rightarrow> decoder \<times> 's \<Rightarrow> nat \<times> decoder \<times> 's" where
  "feed_loop drain data len at ds =
     (if at < len
      then
        let (d, s) = drain ds;
            (taken, d') = push (Some (drop at data)) (len - at) d
        in if taken = 0 then (at, d', s) else feed_loop drain data len (at + taken) (d', s)
      else (at, ds))"
  by pat_completeness auto
termination
  by (relation "measure (\<lambda>(drain, data, len, at, ds). len - at)") auto

declare feed_loop.simps [simp del]

definition feed ::
  "(decoder \<times> 's \<Rightarrow> decoder \<times> 's) \<Rightarrow> bytes \<Rightarrow> nat \<Rightarrow> decoder \<times> 's \<Rightarrow> nat \<times> decoder \<times> 's" where
  "feed drain data len ds =
     (let (at, ds1) = feed_loop drain data len 0 ds;
          (d, s) = drain ds1;
          st = dstats d
      in (at, d\<lparr>dstats := st\<lparr>input_dropped := input_dropped st + of_nat (len - at)\<rparr>\<rparr>, s))"

section \<open>The bytes the decoder holds\<close>

definition decoder_inv :: "decoder \<Rightarrow> bool" where
  "decoder_inv d \<longleftrightarrow> length (buffer d) = kCapacity \<and> dsize d \<le> kCapacity"

definition held :: "decoder \<Rightarrow> bytes" where
  "held d = take (dsize d) (buffer d)"

lemma length_held [simp]: "decoder_inv d \<Longrightarrow> length (held d) = dsize d"
  by (simp add: decoder_inv_def held_def)

lemma new_decoder_inv [inv_rules]: "decoder_inv new_decoder"
  by (simp add: decoder_inv_def new_decoder_def)

lemma held_new_decoder [simp]: "held new_decoder = []"
  by (simp add: held_def new_decoder_def)

lemma new_decoder_fields [simp]: "dsize new_decoder = 0" "input_dropped (dstats new_decoder) = 0"
  by (simp_all add: new_decoder_def)

lemma held_counts [simp]:
  "held (count_resync d) = held d" "held (count_bad_length d) = held d"
  "held (count_bad_crc d) = held d" "held (count_frame d) = held d"
  by (simp_all add: held_def count_resync_def count_bad_length_def count_bad_crc_def count_frame_def)

lemma inv_counts [simp, inv_rules]:
  "decoder_inv (count_resync d) = decoder_inv d" "decoder_inv (count_bad_length d) = decoder_inv d"
  "decoder_inv (count_bad_crc d) = decoder_inv d" "decoder_inv (count_frame d) = decoder_inv d"
  by (simp_all add: decoder_inv_def count_resync_def count_bad_length_def count_bad_crc_def
      count_frame_def)

lemma held_dstats [simp, frame_rules]:
  "held (d\<lparr>dstats := x\<rparr>) = held d" "decoder_inv (d\<lparr>dstats := x\<rparr>) = decoder_inv d"
  by (simp_all add: held_def decoder_inv_def)

lemma input_dropped_frame [simp, frame_rules]:
  "input_dropped (dstats (count_resync d)) = input_dropped (dstats d)"
  "input_dropped (dstats (count_bad_length d)) = input_dropped (dstats d)"
  "input_dropped (dstats (count_bad_crc d)) = input_dropped (dstats d)"
  "input_dropped (dstats (count_frame d)) = input_dropped (dstats d)"
  "input_dropped (dstats (discard_front n d)) = input_dropped (dstats d)"
  by (simp_all add: count_resync_def count_bad_length_def count_bad_crc_def count_frame_def
      discard_front_def)

lemma discard_front_inv [simp, inv_rules]: "decoder_inv d \<Longrightarrow> decoder_inv (discard_front n d)"
  by (auto simp: decoder_inv_def discard_front_def)

lemma held_discard_front [simp]: "decoder_inv d \<Longrightarrow> held (discard_front n d) = drop n (held d)"
  by (auto simp: decoder_inv_def held_def discard_front_def write_at_def drop_take min_def)

lemma push_spec:
  assumes "decoder_inv d" and "len \<le> length bs"
  shows "decoder_inv (snd (push (Some bs) len d))"
    and "fst (push (Some bs) len d) = min len (kCapacity - dsize d)"
    and "held (snd (push (Some bs) len d)) = held d @ take (min len (kCapacity - dsize d)) bs"
    and "dstats (snd (push (Some bs) len d)) = dstats d"
  using assms by (auto simp: push_def decoder_inv_def held_def Let_def write_at_def min_def)

section \<open>What one turn of the loop decides\<close>

definition judge :: "bytes \<Rightarrow> bytes verdict" where
  "judge xs =
     (if length xs < kHeaderBytes then Wait
      else
        let declared = unat (declared16 xs);
            needed = kHeaderBytes + declared + kTrailerBytes
        in
          if \<not> header_ok xs then Skip 1
          else if declared > kMaxPayload then Skip 1
          else if length xs < needed then Wait
          else if crc_expected xs declared \<noteq> crc_actual xs declared then Skip 1
          else Emit (take declared (drop kHeaderBytes xs)) needed)"

lemma header_append [simp]:
  assumes "kHeaderBytes \<le> length xs"
  shows "declared16 (xs @ ys) = declared16 xs" and "header_ok (xs @ ys) = header_ok xs"
proof -
  have nth: "(xs @ ys) ! i = xs ! i" if "i < 5" for i
    using assms that by (simp add: nth_append_left)
  show "declared16 (xs @ ys) = declared16 xs" "header_ok (xs @ ys) = header_ok xs"
    by (simp_all add: declared16_def header_ok_def nth)
qed

lemma crc_append [simp]:
  "kHeaderBytes + n + kTrailerBytes \<le> length xs \<Longrightarrow> crc_expected (xs @ ys) n = crc_expected xs n"
  "kHeaderBytes + n + kTrailerBytes \<le> length xs \<Longrightarrow> crc_actual (xs @ ys) n = crc_actual xs n"
  by (simp_all add: crc_expected_def crc_actual_def nth_append)

interpretation frame_stream: stream_parser judge
proof unfold_locales
  fix xs ys :: bytes and n f
  show "judge xs = Skip n \<Longrightarrow> 0 < n \<and> n \<le> length xs"
    by (auto simp: judge_def Let_def split: if_splits)
  show "judge xs = Emit f n \<Longrightarrow> 0 < n \<and> n \<le> length xs"
    by (auto simp: judge_def Let_def split: if_splits)
  show "judge xs = Skip n \<Longrightarrow> judge (xs @ ys) = Skip n"
    by (simp add: judge_def Let_def split: if_splits)
  show "judge xs = Emit f n \<Longrightarrow> judge (xs @ ys) = Emit f n"
    by (simp add: judge_def Let_def split: if_splits)
qed

lemma buffer_held:
  assumes "decoder_inv d"
  shows "buffer d = held d @ drop (dsize d) (buffer d)"
  by (simp add: held_def)

lemma header_held:
  assumes "decoder_inv d" and "kHeaderBytes \<le> dsize d"
  shows "declared16 (buffer d) = declared16 (held d)" and "header_ok (buffer d) = header_ok (held d)"
  using assms by (metis buffer_held length_held header_append)+

lemma crc_held:
  assumes "decoder_inv d" and "kHeaderBytes + n + kTrailerBytes \<le> dsize d"
  shows "crc_expected (buffer d) n = crc_expected (held d) n"
    and "crc_actual (buffer d) n = crc_actual (held d) n"
  using assms by (metis buffer_held length_held crc_append)+

text \<open>\<open>next\<close> follows the decisions of \<open>judge\<close> on the bytes held.\<close>

lemma next_frame_wait:
  assumes "decoder_inv d" and "judge (held d) = Wait"
  shows "exhausted (fst (next_frame out cap d)) \<and> snd (next_frame out cap d) = (out, d)"
  using assms
  by (auto simp: judge_def Let_def exhausted_def header_held crc_held next_frame.simps [of out cap d]
      split: if_splits)

lemma judge_skip_one: "judge xs = Skip n \<Longrightarrow> n = 1"
  by (auto simp: judge_def Let_def split: if_splits)

lemma next_frame_skip_step:
  assumes "decoder_inv d" and "judge (held d) = Skip n"
  shows "\<exists>e. held e = held d \<and> decoder_inv e \<and> dsize e = dsize d \<and>
    input_dropped (dstats e) = input_dropped (dstats d) \<and>
    next_frame out cap d = next_frame out cap (discard_front 1 e)"
proof -
  have sz: "kHeaderBytes \<le> dsize d" using assms by (auto simp: judge_def split: if_splits)
  note h = header_held [OF assms(1) sz]
  let ?n = "unat (declared16 (buffer d))"
  consider "\<not> header_ok (buffer d)" | "header_ok (buffer d)" "?n > kMaxPayload"
    | "header_ok (buffer d)" "\<not> ?n > kMaxPayload" "kHeaderBytes + ?n + kTrailerBytes \<le> dsize d"
      "crc_expected (buffer d) ?n \<noteq> crc_actual (buffer d) ?n"
    using assms crc_held [OF assms(1), of ?n]
    by (auto simp: judge_def Let_def h [symmetric] split: if_splits)
  then show ?thesis
  proof cases
    case 1
    with sz have "next_frame out cap d = next_frame out cap (discard_front 1 (count_resync d))"
      by (simp add: next_frame.simps [of out cap d])
    with assms(1) show ?thesis by (intro exI [of _ "count_resync d"]) simp
  next
    case 2
    with sz have "next_frame out cap d =
        next_frame out cap (discard_front 1 (count_resync (count_bad_length d)))"
      by (simp add: next_frame.simps [of out cap d])
    with assms(1) show ?thesis
      by (intro exI [of _ "count_resync (count_bad_length d)"]) simp
  next
    case 3
    with sz have "next_frame out cap d =
        next_frame out cap (discard_front 1 (count_resync (count_bad_crc d)))"
      by (simp add: next_frame.simps [of out cap d] Let_def)
    with assms(1) show ?thesis
      by (intro exI [of _ "count_resync (count_bad_crc d)"]) simp
  qed
qed

lemma next_frame_skip:
  assumes "decoder_inv d" and "judge (held d) = Skip n"
  shows "\<exists>d'. decoder_inv d' \<and> held d' = drop n (held d) \<and> dsize d' < dsize d \<and>
    input_dropped (dstats d') = input_dropped (dstats d) \<and>
    next_frame out cap d = next_frame out cap d'"
proof -
  obtain e where e: "held e = held d" "decoder_inv e" "dsize e = dsize d"
      "input_dropped (dstats e) = input_dropped (dstats d)"
      "next_frame out cap d = next_frame out cap (discard_front 1 e)"
    using next_frame_skip_step [OF assms] by blast
  moreover have "n = 1" and "0 < dsize d"
    using judge_skip_one [OF assms(2)] frame_stream.skip_bound [OF assms(2)] assms(1) by auto
  ultimately show ?thesis by (intro exI [of _ "discard_front 1 e"]) simp
qed

lemma next_frame_emit:
  assumes "decoder_inv d" and "judge (held d) = Emit f n"
  shows "length f \<le> kMaxPayload" and "n = length f + kOverheadBytes"
    and "f \<noteq> [] \<Longrightarrow> (case out of None \<Rightarrow> True | Some _ \<Rightarrow> cap < length f) \<Longrightarrow>
      next_frame out cap d = (\<lparr>status = OutputTooSmall, result_length = length f\<rparr>, out, d)"
    and "f = [] \<or> (\<exists>o'. out = Some o' \<and> length f \<le> cap) \<Longrightarrow>
      next_frame out cap d =
        (\<lparr>status = Delivered, result_length = length f\<rparr>,
         map_option (\<lambda>o'. write_at o' 0 f) out, count_frame (discard_front n d))"
proof -
  have sz: "kHeaderBytes \<le> dsize d" using assms by (auto simp: judge_def split: if_splits)
  note h = header_held [OF assms(1) sz]
  let ?n = "unat (declared16 (buffer d))"
  have n: "header_ok (buffer d)" "?n \<le> kMaxPayload" "kHeaderBytes + ?n + kTrailerBytes \<le> dsize d"
      "crc_expected (buffer d) ?n = crc_actual (buffer d) ?n"
      "f = take ?n (drop kHeaderBytes (held d))" "n = kHeaderBytes + ?n + kTrailerBytes"
    using assms crc_held [OF assms(1), of ?n]
    by (auto simp: judge_def Let_def h [symmetric] split: if_splits)
  have f: "f = take ?n (drop kHeaderBytes (buffer d))"
    using n(3,5) by (simp add: held_def drop_take min_def)
  have len: "length f = ?n"
    using n(3) assms(1) by (simp add: n(5))
  show "length f \<le> kMaxPayload" and "n = length f + kOverheadBytes"
    using n(2,6) len by simp_all
  have sz5: "\<not> dsize d < kHeaderBytes" using sz by simp
  have un: "next_frame out cap d =
     (if ?n \<noteq> 0 \<and> (out = None \<or> cap < ?n)
      then (\<lparr>status = OutputTooSmall, result_length = ?n\<rparr>, out, d)
      else (\<lparr>status = Delivered, result_length = ?n\<rparr>,
         (if ?n \<noteq> 0 then map_option (\<lambda>o'. write_at o' 0 f) out else out),
         count_frame (discard_front (kHeaderBytes + ?n + kTrailerBytes) d)))"
    using n(1-4) sz5 f by (subst next_frame.simps) (simp add: Let_def del: frame_sizes)
  show "f \<noteq> [] \<Longrightarrow> (case out of None \<Rightarrow> True | Some _ \<Rightarrow> cap < length f) \<Longrightarrow>
      next_frame out cap d = (\<lparr>status = OutputTooSmall, result_length = length f\<rparr>, out, d)"
    using un [folded len] by (cases out) auto
  show "next_frame out cap d =
        (\<lparr>status = Delivered, result_length = length f\<rparr>,
         map_option (\<lambda>o'. write_at o' 0 f) out, count_frame (discard_front n d))"
    if "f = [] \<or> (\<exists>o'. out = Some o' \<and> length f \<le> cap)"
    using un [folded len] n(6) [folded len] that by (cases out; cases "f = []") auto
qed

section \<open>Draining and feeding follow the scan\<close>

lemma next_frame_scan:
  assumes "decoder_inv d" and "length o' = kMaxPayload"
  shows "\<exists>r out' d'. next_frame (Some o') kMaxPayload d = (r, Some out', d') \<and> decoder_inv d' \<and>
    length out' = kMaxPayload \<and> input_dropped (dstats d') = input_dropped (dstats d) \<and>
    (exhausted r \<and> scan judge (held d) = ([], held d') \<or>
     status r = Delivered \<and> dsize d' < dsize d \<and>
     scan judge (held d) =
       (take (result_length r) out' # fst (scan judge (held d')), snd (scan judge (held d'))))"
  using assms
proof (induction "dsize d" arbitrary: d rule: less_induct)
  case less
  show ?case
  proof (cases "judge (held d)")
    case Wait
    then show ?thesis
      using next_frame_wait [OF less.prems(1) Wait, of "Some o'" kMaxPayload] less.prems
      by (cases "next_frame (Some o') kMaxPayload d") (auto simp: frame_stream.scan_wait)
  next
    case (Skip n)
    obtain d1 where d1: "decoder_inv d1" "held d1 = drop n (held d)" "dsize d1 < dsize d"
        "input_dropped (dstats d1) = input_dropped (dstats d)"
        "next_frame (Some o') kMaxPayload d = next_frame (Some o') kMaxPayload d1"
      using next_frame_skip [OF less.prems(1) Skip] by blast
    from less.hyps [OF d1(3) d1(1) less.prems(2)] d1 show ?thesis
      by (auto simp: frame_stream.scan_skip [OF Skip]; fastforce)
  next
    case (Emit f n)
    note e = next_frame_emit(1) [OF less.prems(1) Emit]
      next_frame_emit(4) [OF less.prems(1) Emit, where out = "Some o'" and cap = kMaxPayload]
    have "0 < n" "n \<le> dsize d"
      using frame_stream.emit_bound [OF Emit] less.prems(1) by auto
    moreover have "next_frame (Some o') kMaxPayload d =
        (\<lparr>status = Delivered, result_length = length f\<rparr>, Some (write_at o' 0 f),
         count_frame (discard_front n d))"
      using e by simp
    ultimately show ?thesis
      using less.prems e(1)
      by (auto simp: frame_stream.scan_emit [OF Emit])
  qed
qed

lemma exhausted_status: "exhausted r \<Longrightarrow> status r \<noteq> Delivered"
  by (auto simp: exhausted_def)

lemma delivered_status: "status r = Delivered \<Longrightarrow> \<not> exhausted r \<and> status r \<noteq> OutputTooSmall"
  by (auto simp: exhausted_def)

lemma dispatch_ready_scan:
  assumes "decoder_inv d" and "length payload = kMaxPayload"
  shows "\<exists>d'. dispatch_ready handle payload (d, s) = (d', fold handle (fst (scan judge (held d))) s) \<and>
    decoder_inv d' \<and> held d' = snd (scan judge (held d)) \<and>
    input_dropped (dstats d') = input_dropped (dstats d)"
  using assms
proof (induction "dsize d" arbitrary: d s payload rule: less_induct)
  case less
  obtain r out' d1 where n: "next_frame (Some payload) kMaxPayload d = (r, Some out', d1)"
      "decoder_inv d1" "length out' = kMaxPayload"
      "input_dropped (dstats d1) = input_dropped (dstats d)"
      "exhausted r \<and> scan judge (held d) = ([], held d1) \<or>
       status r = Delivered \<and> dsize d1 < dsize d \<and>
       scan judge (held d) =
         (take (result_length r) out' # fst (scan judge (held d1)), snd (scan judge (held d1)))"
    using next_frame_scan [OF less.prems] by blast
  from n(5) show ?case
  proof
    assume "exhausted r \<and> scan judge (held d) = ([], held d1)"
    with n show ?thesis by (simp add: dispatch_ready.simps [of handle payload d s])
  next
    assume D: "status r = Delivered \<and> dsize d1 < dsize d \<and> scan judge (held d) =
         (take (result_length r) out' # fst (scan judge (held d1)), snd (scan judge (held d1)))"
    then have "dispatch_ready handle payload (d, s) =
        dispatch_ready handle out' (d1, handle (take (result_length r) out') s)"
      using n(1) delivered_status [of r] by (simp add: dispatch_ready.simps [of handle payload d s])
    with less.hyps [of d1 out' "handle (take (result_length r) out') s"] D n show ?thesis by auto
  qed
qed

text \<open>What is left after a drain leaves room for at least one more byte.\<close>

lemma wait_has_room: "judge xs = Wait \<Longrightarrow> length xs < kCapacity"
  by (auto simp: judge_def Let_def split: if_splits)

lemma feed_loop_scan:
  assumes "decoder_inv d" and "length payload = kMaxPayload" and "at \<le> length data"
  shows "\<exists>d' fs. feed_loop (dispatch_ready handle payload) data (length data) at (d, s) =
      (length data, d', fold handle fs s) \<and> decoder_inv d' \<and>
    input_dropped (dstats d') = input_dropped (dstats d) \<and>
    scan judge (held d @ drop at data) =
      (fs @ fst (scan judge (held d')), snd (scan judge (held d')))"
  using assms
proof (induction "length data - at" arbitrary: d s at rule: less_induct)
  case less
  let ?drain = "dispatch_ready handle payload"
  show ?case
  proof (cases "at < length data")
    case False
    with less.prems show ?thesis
      by (intro exI [of _ d] exI [of _ "[]"]) (simp add: feed_loop.simps)
  next
    case True
    obtain d1 where d1: "?drain (d, s) = (d1, fold handle (fst (scan judge (held d))) s)"
        "decoder_inv d1" "held d1 = snd (scan judge (held d))"
        "input_dropped (dstats d1) = input_dropped (dstats d)"
      using dispatch_ready_scan [OF less.prems(1,2), where handle = handle and s = s] by blast
    let ?s1 = "fold handle (fst (scan judge (held d))) s"
    obtain k d2 where p: "push (Some (drop at data)) (length data - at) d1 = (k, d2)"
      by (cases "push (Some (drop at data)) (length data - at) d1")
    note ps = push_spec [OF d1(2), of "length data - at" "drop at data", unfolded p, simplified]
    have "judge (held d1) = Wait" by (simp add: d1(3) frame_stream.scan_residue_waits)
    from wait_has_room [OF this] have room: "dsize d1 < kCapacity" by (simp add: d1(2))
    then have k: "k \<noteq> 0" "k = min (length data - at) (kCapacity - dsize d1)"
      using True ps by auto
    have "feed_loop ?drain data (length data) at (d, s) =
        feed_loop ?drain data (length data) (at + k) (d2, ?s1)"
      using True k(1) p d1(1)
      by (simp add: feed_loop.simps [of ?drain data "length data" at "(d, s)"])
    moreover obtain d' fs where r:
        "feed_loop ?drain data (length data) (at + k) (d2, ?s1) =
           (length data, d', fold handle fs ?s1)" "decoder_inv d'"
        "input_dropped (dstats d') = input_dropped (dstats d2)"
        "scan judge (held d2 @ drop (at + k) data) =
           (fs @ fst (scan judge (held d')), snd (scan judge (held d')))"
      using less.hyps [of "at + k" d2 ?s1] k True ps less.prems by fastforce
    moreover have "held d2 @ drop (at + k) data = held d1 @ drop at data"
      using ps k(2) by (metis append.assoc append_take_drop_id drop_drop add.commute)
    ultimately show ?thesis
      using d1 ps frame_stream.scan_append [of "held d" "drop at data"]
      by (intro exI [of _ d'] exI [of _ "fst (scan judge (held d)) @ fs"]) simp
  qed
qed

lemma feed_scan:
  assumes "decoder_inv d" and "length payload = kMaxPayload"
  shows "\<exists>d'. feed (dispatch_ready handle payload) data (length data) (d, s) =
      (length data, d', fold handle (fst (scan judge (held d @ data))) s) \<and>
    decoder_inv d' \<and> held d' = snd (scan judge (held d @ data)) \<and>
    input_dropped (dstats d') = input_dropped (dstats d)"
proof -
  let ?drain = "dispatch_ready handle payload"
  obtain d1 fs where f: "feed_loop ?drain data (length data) 0 (d, s) =
      (length data, d1, fold handle fs s)" "decoder_inv d1"
      "input_dropped (dstats d1) = input_dropped (dstats d)"
      "scan judge (held d @ data) = (fs @ fst (scan judge (held d1)), snd (scan judge (held d1)))"
    using feed_loop_scan [OF assms, where at = 0 and data = data and handle = handle and s = s,
        simplified] by blast
  obtain d2 where d2: "?drain (d1, fold handle fs s) =
      (d2, fold handle (fst (scan judge (held d1))) (fold handle fs s))" "decoder_inv d2"
      "held d2 = snd (scan judge (held d1))" "input_dropped (dstats d2) = input_dropped (dstats d1)"
    using dispatch_ready_scan [OF f(2) assms(2), where handle = handle and s = "fold handle fs s"]
    by blast
  show ?thesis
    by (intro exI [of _ "d2\<lparr>dstats := (dstats d2)\<lparr>input_dropped := input_dropped (dstats d2) + 0\<rparr>\<rparr>"])
       (simp add: feed_def f(1-3) d2 f(4) Let_def)
qed

section \<open>The CRC tells any two bytes apart\<close>

lemma and_bit15: "c AND 0x8000 \<noteq> 0 \<longleftrightarrow> bit (c::u16) 15"
  using and_exp_eq_0_iff_not_bit [of c 15] by simp
lemma crc_bit_low: "bit (crc_bit c) 0 = bit c 15"
  unfolding crc_bit_def and_bit15 by (simp only: bit_simps split: if_split) simp

lemma push_bit_1_eq: "push_bit 1 c = push_bit 1 d \<Longrightarrow> bit c 15 = bit d 15 \<Longrightarrow> c = (d::u16)"
proof (rule bit_word_eqI)
  fix n assume p: "push_bit 1 c = push_bit 1 d" and t: "bit c 15 = bit d 15" and n: "n < LENGTH(16)"
  show "bit c n = bit d n"
  proof (cases "n = 15")
    case False
    with n have "n + 1 < 16" by simp
    moreover have "bit (push_bit 1 c) (n + 1) = bit (push_bit 1 d) (n + 1)" by (simp only: p)
    ultimately show ?thesis by (simp only: bit_simps) simp
  qed (simp add: t)
qed

lemma crc_bit_inj: "crc_bit c = crc_bit d \<Longrightarrow> c = d"
proof -
  assume e: "crc_bit c = crc_bit d"
  then have t: "bit c 15 = bit d 15" by (metis crc_bit_low)
  with e have "push_bit 1 c = push_bit 1 d"
    by (auto simp: crc_bit_def and_bit15 xor_right_cancel split: if_splits)
  then show ?thesis using t by (rule push_bit_1_eq)
qed

lemma crc_bit_pow_inj: "(crc_bit ^^ n) c = (crc_bit ^^ n) d \<Longrightarrow> c = d"
  by (induction n arbitrary: c d) (auto dest: crc_bit_inj)

lemma crc_byte_inj_crc: "crc_byte c b = crc_byte d b \<Longrightarrow> c = d"
  by (auto simp: crc_byte_def xor_right_cancel dest: crc_bit_pow_inj)

lemma push_8_inj: "push_bit 8 (ucast a :: u16) = push_bit 8 (ucast b) \<Longrightarrow> a = (b::u8)"
proof (rule bit_word_eqI)
  fix n assume p: "push_bit 8 (ucast a :: u16) = push_bit 8 (ucast b)" and n: "n < LENGTH(8)"
  have "bit (push_bit 8 (ucast a :: u16)) (n + 8) = bit (push_bit 8 (ucast b :: u16)) (n + 8)"
    by (simp add: p)
  with n show "bit a n = bit b n" by (simp add: bit_simps)
qed

lemma crc_byte_inj_byte: "crc_byte c a = crc_byte c b \<Longrightarrow> a = b"
  by (auto simp: crc_byte_def xor_left_cancel dest!: crc_bit_pow_inj push_8_inj)

lemma foldl_crc_inj: "foldl crc_byte c xs = foldl crc_byte d xs \<Longrightarrow> c = d"
  by (induction xs arbitrary: c d) (auto dest: crc_byte_inj_crc)

lemma crc_one_byte: "crc16_ccitt (u @ [a] @ v) = crc16_ccitt (u @ [b] @ v) \<longleftrightarrow> a = b"
  by (auto simp: crc16_ccitt_def dest!: foldl_crc_inj crc_byte_inj_byte)


section \<open>The bytes of a frame\<close>

definition frame_header :: "nat \<Rightarrow> bytes" where
  "frame_header n =
     (let l = of_nat n :: u16 in [ucast l, ucast (drop_bit 8 l), length_check l])"

definition frame_crc :: "bytes \<Rightarrow> u16" where
  "frame_crc p = crc16_ccitt (frame_header (length p) @ p)"

definition frame_bytes :: "bytes \<Rightarrow> bytes" where
  "frame_bytes p = [kSync0, kSync1] @ frame_header (length p) @ p @
     [ucast (frame_crc p), ucast (drop_bit 8 (frame_crc p))]"

lemma length_frame_header [simp]: "length (frame_header n) = 3"
  by (simp add: frame_header_def Let_def)

lemma length_frame_bytes [simp]: "length (frame_bytes p) = length p + kOverheadBytes"
  by (simp add: frame_bytes_def)

lemma le16_join [simp]: "ucast (ucast w :: u8) OR push_bit 8 (ucast (ucast (drop_bit 8 w) :: u8)) = (w::u16)"
  by (rule bit_word_eqI) (auto simp: bit_simps)

lemma le16_split_lo: "ucast (ucast (a::u8) OR push_bit 8 (ucast (b::u8)) :: u16) = a"
  by (rule bit_word_eqI) (auto simp: bit_simps)

lemma le16_split_hi: "ucast (drop_bit 8 (ucast (a::u8) OR push_bit 8 (ucast (b::u8)) :: u16)) = b"
  by (rule bit_word_eqI) (auto simp: bit_simps dest: bit_imp_le_length)

lemma encode_writes:
  assumes "len \<le> kMaxPayload" "len \<le> length p" "len + kOverheadBytes \<le> cap" "cap \<le> length buf"
  shows "encode (Some p) len (Some buf) cap =
    (len + kOverheadBytes, Some (frame_bytes (take len p) @ drop (len + kOverheadBytes) buf))"
proof -
  let ?l = "of_nat len :: u16"
  let ?five = "[kSync0, kSync1, ucast ?l, ucast (drop_bit 8 ?l), length_check ?l]"
  have "5 \<le> length buf" using assms by simp
  then obtain b0 b1 b2 b3 b4 rest where buf: "buf = b0 # b1 # b2 # b3 # b4 # rest"
    by (auto simp: numeral_eq_Suc Suc_le_length_iff)
  obtain x y rest' where rest: "drop len rest = x # y # rest'"
    using assms buf by (cases "drop len rest"; cases "tl (drop len rest)") (auto simp: drop_eq_Nil2 tl_drop dest!: arg_cong [where f = length])
  have hd5: "buf[0 := kSync0, 1 := kSync1, 2 := ucast (?l AND 0xFF), 3 := ucast (drop_bit 8 ?l),
      4 := length_check ?l] = ?five @ rest"
    by (simp add: buf ucast_and_ff numeral_eq_Suc)
  have w: "(if len \<noteq> 0 then write_at (?five @ rest) kHeaderBytes (take len p) else ?five @ rest) =
      ?five @ take len p @ x # y # rest'"
    using assms rest by (cases "len = 0") (auto simp: write_at_def min_def numeral_eq_Suc)
  have d: "drop (len + kOverheadBytes) buf = rest'"
  proof -
    have "drop (len + kOverheadBytes) buf = drop 2 (drop len rest)" by (simp add: buf add.commute numeral_eq_Suc)
    then show ?thesis by (simp add: rest numeral_eq_Suc)
  qed
  let ?crc = "crc16_ccitt ([ucast ?l, ucast (drop_bit 8 ?l), length_check ?l] @ take len p)"
  have span: "take (len + 3) (drop 2 (?five @ take len p @ x # y # rest')) =
      [ucast ?l, ucast (drop_bit 8 ?l), length_check ?l] @ take len p"
    using assms by (simp add: numeral_eq_Suc)
  have c: "\<not> len > kMaxPayload" "\<not> cap < len + kOverheadBytes" using assms by simp_all
  have "encode (Some p) len (Some buf) cap =
      (len + kOverheadBytes, Some ((?five @ take len p @ x # y # rest')
         [kHeaderBytes + len := ucast (?crc AND 0xFF),
          kHeaderBytes + len + 1 := ucast (drop_bit 8 ?crc)]))"
    by (simp only: encode_def Let_def option.case option.sel hd5 w c span if_False
        option.distinct simp_thms)
  also have "\<dots> = (len + kOverheadBytes, Some (frame_bytes (take len p) @ rest'))"
    using assms by (simp add: frame_bytes_def frame_crc_def frame_header_def Let_def ucast_and_ff list_update_append min_def)
  finally show ?thesis by (simp only: d)
qed

text \<open>The fields of five header bytes, a payload and two CRC bytes.\<close>

lemma length_check_bytes: "length_check (ucast lo OR push_bit 8 (ucast hi)) = lo XOR hi XOR 0x5A"
proof -
  have "length_check w = ucast w XOR ucast (drop_bit 8 w) XOR 0x5A" for w
    by (simp add: length_check_def unsigned_xor_eq ucast_and_ff)
  then show ?thesis by (simp only: le16_split_lo le16_split_hi)
qed

lemma parts_header:
  "declared16 (s0 # s1 # lo # hi # chk # ys) = ucast lo OR push_bit 8 (ucast hi)"
  "header_ok (s0 # s1 # lo # hi # chk # ys) \<longleftrightarrow>
     s0 = kSync0 \<and> s1 = kSync1 \<and> chk = lo XOR hi XOR 0x5A"
  by (simp_all add: declared16_def header_ok_def length_check_bytes)

lemma parts_crc:
  "crc_expected (s0 # s1 # lo # hi # chk # p @ x # y # ys) (length p) =
     crc16_ccitt (lo # hi # chk # p)"
  "crc_actual (s0 # s1 # lo # hi # chk # p @ x # y # ys) (length p) =
     ucast x OR push_bit 8 (ucast y)"
proof -
  have "length p + 3 = Suc (Suc (Suc (length p)))" by simp
  then show "crc_expected (s0 # s1 # lo # hi # chk # p @ x # y # ys) (length p) =
      crc16_ccitt (lo # hi # chk # p)"
    by (simp only: crc_expected_def) simp
qed (simp add: crc_actual_def nth_append)

lemma judge_parts:
  assumes "unat (ucast lo OR push_bit 8 (ucast hi) :: u16) = length p" and "length p \<le> kMaxPayload"
  shows "judge (s0 # s1 # lo # hi # chk # p @ x # y # ys) =
    (if s0 = kSync0 \<and> s1 = kSync1 \<and> chk = lo XOR hi XOR 0x5A \<and>
        crc16_ccitt (lo # hi # chk # p) = ucast x OR push_bit 8 (ucast y)
     then Emit p (length p + kOverheadBytes) else Skip 1)"
  using assms by (simp add: judge_def Let_def parts_header parts_crc)

lemma judge_bad_header:
  assumes "\<not> (s0 = kSync0 \<and> s1 = kSync1 \<and> chk = lo XOR hi XOR 0x5A)"
  shows "judge (s0 # s1 # lo # hi # chk # ys) = Skip 1"
  using assms by (simp add: judge_def Let_def parts_header)

lemma frame_parts:
  assumes "length p \<le> kMaxPayload"
  obtains lo hi chk x y where
    "frame_bytes p = kSync0 # kSync1 # lo # hi # chk # p @ [x, y]"
    "unat (ucast lo OR push_bit 8 (ucast hi) :: u16) = length p"
    "chk = lo XOR hi XOR 0x5A"
    "crc16_ccitt (lo # hi # chk # p) = ucast x OR push_bit 8 (ucast y)"
proof -
  let ?l = "of_nat (length p) :: u16"
  have "unat ?l = length p" using assms by (simp add: unat_of_nat take_bit_nat_eq_self)
  moreover have "length_check ?l = ucast ?l XOR ucast (drop_bit 8 ?l) XOR 0x5A"
    by (metis length_check_bytes le16_join)
  ultimately show ?thesis
    by (intro that [of "ucast ?l" "ucast (drop_bit 8 ?l)" "length_check ?l"
          "ucast (frame_crc p)" "ucast (drop_bit 8 (frame_crc p))"])
       (simp_all add: frame_bytes_def frame_header_def Let_def frame_crc_def)
qed

text \<open>What \<open>encode\<close> writes is accepted whatever follows it.\<close>

lemma judge_frame:
  assumes "length p \<le> kMaxPayload"
  shows "judge (frame_bytes p @ rest) = Emit p (length p + kOverheadBytes)"
proof -
  obtain lo hi chk x y where f: "frame_bytes p = kSync0 # kSync1 # lo # hi # chk # p @ [x, y]"
    "unat (ucast lo OR push_bit 8 (ucast hi) :: u16) = length p"
    "chk = lo XOR hi XOR 0x5A"
    "crc16_ccitt (lo # hi # chk # p) = ucast x OR push_bit 8 (ucast y)"
    using frame_parts [OF assms] .
  then show ?thesis using judge_parts [OF f(2) assms] by simp
qed

text \<open>Only what \<open>encode\<close> writes is accepted.\<close>

lemma judge_emit_frame:
  assumes "judge xs = Emit f n"
  shows "length f \<le> kMaxPayload" and "n = length f + kOverheadBytes"
    and "xs = frame_bytes f @ drop n xs"
proof -
  let ?n = "unat (declared16 xs)"
  have j: "kHeaderBytes \<le> length xs" "header_ok xs" "?n \<le> kMaxPayload"
      "kHeaderBytes + ?n + kTrailerBytes \<le> length xs" "crc_expected xs ?n = crc_actual xs ?n"
      "f = take ?n (drop kHeaderBytes xs)" "n = kHeaderBytes + ?n + kTrailerBytes"
    using assms by (auto simp: judge_def Let_def split: if_splits)
  then have len: "length f = ?n" by simp
  then show "length f \<le> kMaxPayload" and n: "n = length f + kOverheadBytes" using j by simp_all
  obtain s0 s1 lo hi chk r where r: "xs = s0 # s1 # lo # hi # chk # r"
    using j(1) by (auto simp: numeral_eq_Suc Suc_le_length_iff)
  have "2 \<le> length (drop ?n r)" using j(4) r by simp
  then obtain x y ys where rest: "drop ?n r = x # y # ys"
    by (cases "drop ?n r"; cases "tl (drop ?n r)") auto
  have "f = take ?n r" using j(6) r by simp
  then have xs: "xs = s0 # s1 # lo # hi # chk # f @ x # y # ys"
    using r rest append_take_drop_id [of ?n r] by simp
  have l: "of_nat (length f) = (ucast lo OR push_bit 8 (ucast hi) :: u16)"
    using len by (simp add: r parts_header)
  have hdr: "s0 = kSync0" "s1 = kSync1" "frame_header (length f) = [lo, hi, chk]"
    unfolding frame_header_def Let_def l le16_split_lo le16_split_hi length_check_bytes
    using j(2) by (simp_all add: r parts_header)
  have "frame_crc f = ucast x OR push_bit 8 (ucast y)"
    using j(5) [folded len] parts_crc [of s0 s1 lo hi chk f x y ys]
    by (simp add: frame_crc_def hdr(3) xs [symmetric])
  then have fb: "frame_bytes f = [kSync0, kSync1, lo, hi, chk] @ f @ [x, y]"
    unfolding frame_bytes_def hdr(3) by (simp only: le16_split_lo le16_split_hi append.simps)
  have "drop n xs = ys" by (simp add: xs n numeral_eq_Suc)
  then show "xs = frame_bytes f @ drop n xs" by (simp add: fb xs hdr)
qed

text \<open>A frame with any one byte changed is rejected at its first byte.\<close>

lemma judge_corrupt_frame:
  assumes "length p \<le> kMaxPayload" and "i < length (frame_bytes p)" and "b \<noteq> frame_bytes p ! i"
  shows "judge ((frame_bytes p)[i := b] @ rest) = Skip 1"
proof -
  obtain lo hi chk x y where f: "frame_bytes p = kSync0 # kSync1 # lo # hi # chk # p @ [x, y]"
    "unat (ucast lo OR push_bit 8 (ucast hi) :: u16) = length p"
    "chk = lo XOR hi XOR 0x5A"
    "crc16_ccitt (lo # hi # chk # p) = ucast x OR push_bit 8 (ucast y)"
    using frame_parts [OF assms(1)] .
  have "i < length p + 7" using assms(2) by simp
  then have "i < 5 \<or> (\<exists>j. i = 5 + j \<and> j < length p) \<or> i = 5 + length p \<or> i = 6 + length p"
    by presburger
  then consider "i < 5" | j where "i = 5 + j" "j < length p" | "i = 5 + length p" | "i = 6 + length p"
    by blast
  then show ?thesis
  proof cases
    case 1
    then have "i = 0 \<or> i = 1 \<or> i = 2 \<or> i = 3 \<or> i = 4" by auto
    then show ?thesis
      using assms(3) f(3)
      by (auto simp: f(1) numeral_eq_Suc judge_bad_header xor_left_cancel xor_right_cancel)
  next
    case (2 j)
    let ?q = "p[j := b]"
    have q: "p = take j p @ [p ! j] @ drop (Suc j) p" "?q = take j p @ [b] @ drop (Suc j) p"
      using 2(2) by (simp_all add: id_take_nth_drop upd_conv_take_nth_drop)
    have "b \<noteq> p ! j" using assms(3) 2 by (simp add: f(1) nth_append)
    then have "crc16_ccitt (lo # hi # chk # ?q) \<noteq> crc16_ccitt (lo # hi # chk # p)"
      using crc_one_byte [of "lo # hi # chk # take j p" b "drop (Suc j) p" "p ! j"] q by simp
    then show ?thesis
      using judge_parts [of lo hi ?q kSync0 kSync1 chk x y rest] assms(1) f 2
      by (simp add: list_update_append)
  next
    case 3
    have "b \<noteq> x" using assms(3) 3 by (simp add: f(1) nth_append)
    then have "ucast b OR push_bit 8 (ucast y) \<noteq> (ucast x OR push_bit 8 (ucast y) :: u16)"
      by (metis le16_split_lo)
    then show ?thesis
      using judge_parts [of lo hi p kSync0 kSync1 chk b y rest] assms(1) f 3
      by (simp add: list_update_append)
  next
    case 4
    have "b \<noteq> y" using assms(3) 4 by (simp add: f(1) nth_append)
    then have "ucast x OR push_bit 8 (ucast b) \<noteq> (ucast x OR push_bit 8 (ucast y) :: u16)"
      by (metis le16_split_hi)
    then show ?thesis
      using judge_parts [of lo hi p kSync0 kSync1 chk x b rest] assms(1) f 4
      by (simp add: list_update_append)
  qed
qed

section \<open>Streams of frames\<close>

lemma scan_frames:
  assumes "\<forall>p \<in> set ps. length p \<le> kMaxPayload"
  shows "scan judge (concat (map frame_bytes ps) @ rest) =
    (ps @ fst (scan judge rest), snd (scan judge rest))"
  using assms
proof (induction ps)
  case (Cons p ps)
  have "judge (frame_bytes p @ concat (map frame_bytes ps) @ rest) = Emit p (length p + kOverheadBytes)"
    using Cons.prems by (intro judge_frame) simp
  with Cons show ?case by (simp add: frame_stream.scan_emit)
qed simp

lemma scan_emits_short: "f \<in> set (fst (scan judge xs)) \<Longrightarrow> length f + kOverheadBytes \<le> length xs"
proof (induction xs rule: frame_stream.scan_induct)
  case (Wait xs)
  then show ?case by (simp add: frame_stream.scan_wait)
next
  case (Skip xs n)
  then show ?case by (force simp: frame_stream.scan_skip [OF Skip(1)])
next
  case (Emit xs g n)
  then show ?case
    using judge_emit_frame(2) [OF Emit(1)] by (force simp: frame_stream.scan_emit [OF Emit(1)])
qed

text \<open>\<open>feed\<close> called once per chunk the transport read.\<close>

fun feed_chunks :: "(bytes \<Rightarrow> 's \<Rightarrow> 's) \<Rightarrow> bytes \<Rightarrow> bytes list \<Rightarrow> decoder \<times> 's \<Rightarrow> decoder \<times> 's" where
  "feed_chunks handle payload [] ds = ds"
| "feed_chunks handle payload (c # cs) ds =
     feed_chunks handle payload cs (snd (feed (dispatch_ready handle payload) c (length c) ds))"

lemma feed_chunks_scan:
  assumes "decoder_inv d" and "length payload = kMaxPayload"
  shows "\<exists>d'. feed_chunks handle payload cs (d, s) =
      (d', fold handle (fst (scan_chunks judge (held d) cs)) s) \<and>
    decoder_inv d' \<and> held d' = snd (scan_chunks judge (held d) cs) \<and>
    input_dropped (dstats d') = input_dropped (dstats d)"
  using assms
proof (induction cs arbitrary: d s)
  case (Cons c cs)
  obtain d1 where d1: "feed (dispatch_ready handle payload) c (length c) (d, s) =
      (length c, d1, fold handle (fst (scan judge (held d @ c))) s)" "decoder_inv d1"
      "held d1 = snd (scan judge (held d @ c))" "input_dropped (dstats d1) = input_dropped (dstats d)"
    using feed_scan [OF Cons.prems, where handle = handle and s = s and data = c] by blast
  show ?case
    using Cons.IH [OF d1(2) Cons.prems(2), of "fold handle (fst (scan judge (held d @ c))) s"] d1
    by (auto simp: split_beta Let_def)
qed simp

text \<open>A fresh decoder with the drain's buffer, collecting the payloads it hands over.\<close>

definition collect :: "bytes \<Rightarrow> bytes list \<Rightarrow> bytes list" where
  "collect p ps = ps @ [p]"

lemma fold_collect: "fold collect fs ps = ps @ fs"
  by (induction fs arbitrary: ps) (auto simp: collect_def)

definition receive :: "bytes list \<Rightarrow> decoder \<times> bytes list" where
  "receive chunks = feed_chunks collect (replicate kMaxPayload 0) chunks (new_decoder, [])"

lemma receive_scan:
  "\<exists>d. receive chunks = (d, fst (scan judge (concat chunks))) \<and> decoder_inv d \<and>
    held d = snd (scan judge (concat chunks)) \<and> input_dropped (dstats d) = 0"
proof -
  have "length (replicate kMaxPayload (0::u8)) = kMaxPayload" by simp
  moreover have "judge [] = Wait" by (simp add: judge_def)
  moreover have "input_dropped (dstats new_decoder) = 0" by (simp add: new_decoder_def)
  ultimately show ?thesis
    using feed_chunks_scan [OF new_decoder_inv, where payload = "replicate kMaxPayload 0" and
        handle = collect and s = "[]" and cs = chunks]
    by (auto simp: receive_def fold_collect frame_stream.scan_chunks_concat)
qed

section \<open>Properties of the framing\<close>

text \<open>The bytes \<open>encode\<close> puts on the wire for a payload, into a buffer of \<open>kMaxFrame\<close> bytes.\<close>

definition wire :: "bytes \<Rightarrow> bytes" where
  "wire p = (case encode (Some p) (length p) (Some (replicate kMaxFrame 0)) kMaxFrame of
     (n, Some out) \<Rightarrow> take n out | (n, None) \<Rightarrow> [])"

lemma wire_frame: "length p \<le> kMaxPayload \<Longrightarrow> wire p = frame_bytes p"
  using encode_writes [of "length p" p kMaxFrame "replicate kMaxFrame 0"]
  by (simp add: wire_def)

lemma scan_emits_frames:
  "f \<in> set (fst (scan judge xs)) \<Longrightarrow>
     length f \<le> kMaxPayload \<and> (\<exists>pre post. xs = pre @ frame_bytes f @ post)"
proof (induction xs rule: frame_stream.scan_induct)
  case (Wait xs)
  then show ?case by (simp add: frame_stream.scan_wait)
next
  case (Skip xs n)
  then have "length f \<le> kMaxPayload" "\<exists>pre post. drop n xs = pre @ frame_bytes f @ post"
    by (simp_all add: frame_stream.scan_skip [OF Skip(1)])
  then show ?case by (metis append.assoc append_take_drop_id)
next
  case (Emit xs g n)
  note g = judge_emit_frame [OF Emit(1)]
  show ?case
  proof (cases "f = g")
    case True
    then show ?thesis using g by (metis append_Nil)
  next
    case False
    with Emit have "length f \<le> kMaxPayload" "\<exists>pre post. drop n xs = pre @ frame_bytes f @ post"
      by (simp_all add: frame_stream.scan_emit [OF Emit(1)])
    then show ?thesis by (metis append.assoc append_take_drop_id)
  qed
qed

text \<open>
  C2. However the transport cuts the byte stream into reads, feeding the pieces hands over the
  same payloads in the same order, and leaves the same bytes waiting, as feeding the whole
  stream at once; no byte is ever given up on.
\<close>

theorem framing_ignores_fragmentation:
  "snd (receive chunks) = snd (receive [concat chunks]) \<and>
   held (fst (receive chunks)) = held (fst (receive [concat chunks])) \<and>
   input_dropped (dstats (fst (receive chunks))) = 0"
  using receive_scan [of chunks] receive_scan [of "[concat chunks]"] by auto

text \<open>
  C3. Payloads of at most \<open>kMaxPayload\<close> bytes, the empty one included, come back exactly and
  in order from the frames \<open>encode\<close> writes for them, however the stream is cut.
\<close>

theorem framing_roundtrip:
  assumes "\<forall>p \<in> set ps. length p \<le> kMaxPayload" and "concat chunks = concat (map wire ps)"
  shows "snd (receive chunks) = ps \<and> held (fst (receive chunks)) = []"
proof -
  have "map wire ps = map frame_bytes ps" using assms(1) by (simp add: wire_frame)
  with assms(2) have "concat chunks = concat (map frame_bytes ps)" by metis
  then show ?thesis
    using receive_scan [of chunks] scan_frames [OF assms(1), of "[]"]
    by (auto simp: frame_stream.scan_wait judge_def)
qed

theorem framing_roundtrip_witness:
  "snd (receive [take 4 (wire [7, 8, 9]), drop 4 (wire [7, 8, 9]) @ wire []]) = [[7, 8, 9], []]"
  using framing_roundtrip [of "[[7, 8, 9], []]"
      "[take 4 (wire [7, 8, 9]), drop 4 (wire [7, 8, 9]) @ wire []]"] by simp

text \<open>
  C4. The decoder never manufactures a frame: every payload it hands over, out of any bytes at
  all, stands in the stream as the complete frame \<open>encode\<close> writes for it.
\<close>

theorem framing_invents_nothing:
  assumes "f \<in> set (snd (receive chunks))"
  shows "length f \<le> kMaxPayload \<and> (\<exists>pre post. concat chunks = pre @ wire f @ post)"
  using assms receive_scan [of chunks] scan_emits_frames [of f "concat chunks"] wire_frame [of f]
  by auto

theorem framing_invents_nothing_witness:
  "\<exists>pre post. [0xF1, 0] @ wire [1] = pre @ wire [1 :: u8] @ post"
proof -
  have "judge ([0xF1, 0] @ frame_bytes [1]) = Skip 1" "judge ([0] @ frame_bytes [1]) = Skip 1"
    by (simp_all add: judge_bad_header frame_bytes_def frame_header_def Let_def kSync0_def kSync1_def)
  then have "snd (receive [[0xF1, 0] @ wire [1]]) = [[1]]"
    using receive_scan [of "[[0xF1, 0] @ wire [1]]"] scan_frames [of "[[1]]" "[]"]
    by (auto simp: wire_frame frame_stream.scan_skip frame_stream.scan_wait judge_def [of "[]"])
  then show ?thesis
    using framing_invents_nothing [of "[1]" "[[0xF1, 0] @ wire [1]]"] by simp
qed

text \<open>
  One corrupted byte anywhere in a frame, header, payload or CRC, is detected: fed the
  damaged frame, the decoder hands over neither its payload nor anything as long.
\<close>

theorem framing_detects_corruption:
  assumes "length p \<le> kMaxPayload" and "i < length (wire p)" and "b \<noteq> wire p ! i"
    and "concat chunks = (wire p)[i := b]"
  shows "\<forall>f \<in> set (snd (receive chunks)). length f < length p"
proof -
  note w = wire_frame [OF assms(1)]
  have s: "judge ((frame_bytes p)[i := b]) = Skip 1"
    using judge_corrupt_frame [OF assms(1), of i b "[]"] assms(2,3) by (simp add: w)
  have "set (snd (receive chunks)) = set (fst (scan judge (drop 1 ((frame_bytes p)[i := b]))))"
    using receive_scan [of chunks] frame_stream.scan_skip [OF s] assms(4) w by auto
  then show ?thesis using scan_emits_short by fastforce
qed

theorem framing_detects_corruption_witness:
  "list_all (\<lambda>f. length f < 3) (snd (receive [(wire [1, 2, 3])[6 := 7]]))"
proof -
  have "wire [1, 2, 3] ! 6 = 2"
    by (simp add: wire_frame frame_bytes_def frame_header_def Let_def)
  then show ?thesis
    using framing_detects_corruption [of "[1, 2, 3]" 6 7 "[(wire [1, 2, 3])[6 := 7]]"]
    by (simp add: wire_frame numeral_3_eq_3 list_all_iff)
qed

text \<open>
  \<open>encode\<close> is all or nothing. Given buffers as long as their stated sizes, it either
  returns 0 and leaves the output untouched (payload too long, no output or too small an
  output, no payload to copy) or writes one whole frame and nothing after it.
\<close>

theorem encode_all_or_nothing:
  assumes "\<And>p. payload = Some p \<Longrightarrow> len \<le> length p" and "\<And>buf. out = Some buf \<Longrightarrow> cap \<le> length buf"
  shows "encode payload len out cap =
    (if len > kMaxPayload \<or> out = None \<or> cap < len + kOverheadBytes \<or> (payload = None \<and> len \<noteq> 0)
     then (0, out)
     else (len + kOverheadBytes,
       Some (frame_bytes (case payload of None \<Rightarrow> [] | Some p \<Rightarrow> take len p) @
         drop (len + kOverheadBytes) (the out))))"
proof -
  consider "len > kMaxPayload \<or> out = None \<or> cap < len + kOverheadBytes \<or> (payload = None \<and> len \<noteq> 0)"
    | p buf where "len \<le> kMaxPayload" "out = Some buf" "len + kOverheadBytes \<le> cap" "payload = Some p"
    | buf where "out = Some buf" "kOverheadBytes \<le> cap" "payload = None" "len = 0"
    by (cases out; cases payload) force+
  then show ?thesis
  proof cases
    case 1
    then show ?thesis by (auto simp: encode_def split: option.split)
  next
    case (2 p buf)
    then show ?thesis using encode_writes [of len p cap buf] assms by auto
  next
    case (3 buf)
    then have "encode payload len out cap = encode (Some []) 0 (Some buf) cap"
      by (simp add: encode_def)
    then show ?thesis using 3 encode_writes [of 0 "[]" cap buf] assms by auto
  qed
qed

theorem encode_all_or_nothing_witness:
  "encode (Some [5]) 1 (Some (replicate 9 0)) 9 = (8, Some (frame_bytes [5] @ [0]))"
  using encode_all_or_nothing [of "Some [5]" 1 "Some (replicate 9 0)" 9] by simp

text \<open>
  \<open>OutputTooSmall\<close> loses nothing and says how to go on: the caller's buffer is untouched,
  and coming back with the room it names delivers a frame that was waiting whole.
\<close>

theorem too_small_then_delivered:
  assumes "decoder_inv d" and "next_frame out cap d = (r, out', d')" and "status r = OutputTooSmall"
    and "result_length r \<le> length buf"
  shows "out' = out \<and> (\<exists>f d''. length f = result_length r \<and> held d' = frame_bytes f @ held d'' \<and>
    next_frame (Some buf) (result_length r) d' =
      (\<lparr>status = Delivered, result_length = result_length r\<rparr>,
       Some (f @ drop (result_length r) buf), d''))"
  using assms
proof (induction "dsize d" arbitrary: d rule: less_induct)
  case less
  show ?case
  proof (cases "judge (held d)")
    case Wait
    then show ?thesis
      using next_frame_wait [OF less.prems(1) Wait, of out cap] less.prems by (auto simp: exhausted_def)
  next
    case (Skip n)
    then show ?thesis
      using next_frame_skip [OF less.prems(1) Skip, of out cap] less.hyps less.prems(2-4) by metis
  next
    case (Emit f n)
    note e = next_frame_emit [OF less.prems(1) Emit]
    have "\<not> (f = [] \<or> (\<exists>o'. out = Some o' \<and> length f \<le> cap))"
      using e(4) [where out = out and cap = cap] less.prems(2,3) by auto
    then have n: "r = \<lparr>status = OutputTooSmall, result_length = length f\<rparr>" "out' = out" "d' = d"
      using e(3) [where out = out and cap = cap] less.prems(2) by (auto split: option.splits)
    have "next_frame (Some buf) (length f) d =
        (\<lparr>status = Delivered, result_length = length f\<rparr>, Some (f @ drop (length f) buf),
         count_frame (discard_front n d))"
      using e(4) [where out = "Some buf" and cap = "length f"] by (simp add: write_at_def)
    moreover have "held d = frame_bytes f @ held (count_frame (discard_front n d))"
      using judge_emit_frame(3) [OF Emit] less.prems(1) by simp
    ultimately show ?thesis using n by auto
  qed
qed

theorem too_small_then_delivered_witness:
  "\<exists>f d''. length f = 1 \<and>
     held (snd (push (Some (frame_bytes [4])) 8 new_decoder)) = frame_bytes f @ held d''"
proof -
  let ?d = "snd (push (Some (frame_bytes [4])) 8 new_decoder)"
  have "decoder_inv ?d" "held ?d = frame_bytes [4] @ []"
    using push_spec [OF new_decoder_inv, of 8 "frame_bytes [4]"] by simp_all
  then have "next_frame None 0 ?d = (\<lparr>status = OutputTooSmall, result_length = 1\<rparr>, None, ?d)"
    using next_frame_emit(3) [of ?d "[4]" 8, where out = None and cap = 0] judge_frame [of "[4]" "[]"] by simp
  with \<open>decoder_inv ?d\<close> show ?thesis
    using too_small_then_delivered [of ?d None 0 _ None ?d "[0]"] by auto
qed

end
