(* ===== verification/Ring_Buffer.thy ===== *)
theory Ring_Buffer
  imports Interfaces
begin

text \<open>
  The index arithmetic the two fixed-capacity queues of the sources share: \<open>count\<close> items of
  an array, from \<open>head\<close> on and around its end. \<open>FrameQueue\<close> and \<open>InputQueue\<close> write at
  \<open>(head + count) % N\<close> and read at \<open>head\<close>.
\<close>

definition ring_read :: "'a list \<Rightarrow> nat \<Rightarrow> nat \<Rightarrow> 'a list" where
  "ring_read xs head count = map (\<lambda>i. xs ! ((head + i) mod length xs)) [0..<count]"

lemma length_ring_read [simp]: "length (ring_read xs h n) = n"
  by (simp add: ring_read_def)

lemma ring_read_0 [simp]: "ring_read xs h 0 = []"
  by (simp add: ring_read_def)

lemma ring_slot:
  assumes "i < (n :: nat)"
  shows "(h + i) mod n = (if h mod n + i < n then h mod n + i else h mod n + i - n)"
proof -
  obtain k where k: "k = h mod n" "k < n" using assms by (cases n) auto
  have "(h + i) mod n = (k + i) mod n" by (simp add: k(1) mod_simps)
  also have "\<dots> = (if k + i < n then k + i else k + i - n)"
    using assms k(2) by (auto simp: le_mod_geq)
  finally show ?thesis by (simp add: k(1))
qed

lemma ring_slot_inj:
  "(h + i) mod n = (h + j) mod n \<Longrightarrow> i < n \<Longrightarrow> j < n \<Longrightarrow> i = (j :: nat)"
  by (auto simp: ring_slot split: if_splits)

lemma ring_push:
  assumes "n < length xs"
  shows "ring_read (xs[(h + n) mod length xs := x]) h (Suc n) = ring_read xs h n @ [x]"
proof -
  let ?k = "(h + n) mod length xs"
  have "?k < length xs" using assms by (intro mod_less_divisor) auto
  moreover have "xs[?k := x] ! ((h + i) mod length xs) = xs ! ((h + i) mod length xs)" if "i < n" for i
    using ring_slot_inj [of h i "length xs" n] that assms by (auto intro!: nth_list_update_neq)
  ultimately show ?thesis by (simp add: ring_read_def)
qed

lemma ring_pop:
  assumes "0 < n" and "n \<le> length xs" and "h < length xs"
  shows "ring_read xs h n = xs ! h # ring_read xs ((h + 1) mod length xs) (n - 1)"
proof -
  obtain m where n: "n = Suc m" using assms(1) by (cases n) auto
  have "ring_read xs h (Suc m) = xs ! h # map (\<lambda>i. xs ! ((h + Suc i) mod length xs)) [0..<m]"
    using assms(3) by (simp add: ring_read_def upt_rec [of 0] map_Suc_upt [symmetric] del: upt_Suc)
  then show ?thesis by (simp add: n ring_read_def mod_simps)
qed

end
