(* ===== verification/Frame_Queue.thy ===== *)
theory Frame_Queue
  imports Ring_Buffer Frame_Codec
begin

text \<open>
  The bounded queue of whole frames, \<open>link/include/attadipa/link/frame_queue.h\<close>: a ring of
  \<open>Depth\<close> slots of \<open>kMaxPayload\<close> bytes with a length each. The template parameter \<open>Depth\<close> is
  an argument of the operations; the two arrays have that many entries. A slot keeps the stale
  bytes behind the payload last copied into it, as the C++ array does.
\<close>

definition kDefaultQueueDepth :: nat where "kDefaultQueueDepth = 4"

record frame_queue =
  slot_payload :: "bytes list"
  slot_length :: "nat list"
  qhead :: nat
  qcount :: nat
  qdropped :: u32
  qmalformed :: u32
  qaccepted :: u32

definition new_frame_queue :: "nat \<Rightarrow> frame_queue" where
  "new_frame_queue depth =
     \<lparr>slot_payload = replicate depth (replicate kMaxPayload 0), slot_length = replicate depth 0,
      qhead = 0, qcount = 0, qdropped = 0, qmalformed = 0, qaccepted = 0\<rparr>"

definition writable :: "nat \<Rightarrow> frame_queue \<Rightarrow> bool" where
  "writable depth q \<longleftrightarrow> qcount q < depth"

definition fq_push :: "nat \<Rightarrow> bytes option \<Rightarrow> nat \<Rightarrow> frame_queue \<Rightarrow> bool \<times> frame_queue" where
  "fq_push depth data len q =
     (if len > kMaxPayload \<or> (data = None \<and> len \<noteq> 0)
      then (False, q\<lparr>qmalformed := qmalformed q + 1\<rparr>)
      else if qcount q = depth then (False, q\<lparr>qdropped := qdropped q + 1\<rparr>)
      else
        let slot = (qhead q + qcount q) mod depth;
            q1 = (if len \<noteq> 0
                  then q\<lparr>slot_payload := (slot_payload q)
                           [slot := write_at (slot_payload q ! slot) 0 (take len (the data))]\<rparr>
                  else q)
        in (True, q1\<lparr>slot_length := (slot_length q1)[slot := len], qcount := qcount q1 + 1,
                    qaccepted := qaccepted q1 + 1\<rparr>))"

definition fq_pop :: "nat \<Rightarrow> bytes option \<Rightarrow> nat \<Rightarrow> frame_queue
    \<Rightarrow> frame_result \<times> bytes option \<times> frame_queue" where
  "fq_pop depth out capacity q =
     (if qcount q = 0 then (\<lparr>status = NoFrame, result_length = 0\<rparr>, out, q)
      else
        let len = slot_length q ! qhead q
        in if len \<noteq> 0 \<and> (out = None \<or> capacity < len)
           then (\<lparr>status = OutputTooSmall, result_length = len\<rparr>, out, q)
           else (\<lparr>status = Delivered, result_length = len\<rparr>,
                 (if len \<noteq> 0
                  then map_option (\<lambda>o'. write_at o' 0 (take len (slot_payload q ! qhead q))) out
                  else out),
                 q\<lparr>qhead := (qhead q + 1) mod depth, qcount := qcount q - 1\<rparr>))"

definition fq_clear :: "frame_queue \<Rightarrow> frame_queue" where
  "fq_clear q = q\<lparr>qhead := 0, qcount := 0\<rparr>"

section \<open>The queue as a list of frames\<close>

definition frame_at :: "frame_queue \<Rightarrow> nat \<Rightarrow> bytes" where
  "frame_at q k = take (slot_length q ! k) (slot_payload q ! k)"

definition slots :: "nat \<Rightarrow> frame_queue \<Rightarrow> bytes list" where
  "slots depth q = map (frame_at q) [0..<depth]"

definition fq_abs :: "nat \<Rightarrow> frame_queue \<Rightarrow> bytes list" where
  "fq_abs depth q = ring_read (slots depth q) (qhead q) (qcount q)"

definition fq_inv :: "nat \<Rightarrow> frame_queue \<Rightarrow> bool" where
  "fq_inv depth q \<longleftrightarrow> length (slot_payload q) = depth \<and> length (slot_length q) = depth \<and>
     (\<forall>p \<in> set (slot_payload q). length p = kMaxPayload) \<and>
     (\<forall>n \<in> set (slot_length q). n \<le> kMaxPayload) \<and> qhead q < depth \<and> qcount q \<le> depth"

lemma length_slots [simp]: "length (slots depth q) = depth"
  by (simp add: slots_def)

lemma slots_frame [simp, frame_rules]:
  "slots depth (q\<lparr>qhead := h\<rparr>) = slots depth q" "slots depth (q\<lparr>qcount := c\<rparr>) = slots depth q"
  "slots depth (q\<lparr>qdropped := w\<rparr>) = slots depth q" "slots depth (q\<lparr>qmalformed := w\<rparr>) = slots depth q"
  "slots depth (q\<lparr>qaccepted := w\<rparr>) = slots depth q"
  by (auto simp: slots_def frame_at_def)

lemma new_frame_queue_inv [inv_rules]: "0 < depth \<Longrightarrow> fq_inv depth (new_frame_queue depth)"
  by (auto simp: fq_inv_def new_frame_queue_def)

text \<open>One push and one pop of a whole frame, as the queue's clients make them.\<close>

definition offer :: "nat \<Rightarrow> bytes \<Rightarrow> frame_queue \<Rightarrow> bool \<times> frame_queue" where
  "offer depth p q = fq_push depth (Some p) (length p) q"

definition fetch :: "nat \<Rightarrow> frame_queue \<Rightarrow> bytes option \<times> frame_queue" where
  "fetch depth q =
     (case fq_pop depth (Some (replicate kMaxPayload 0)) kMaxPayload q of
        (r, out, q') \<Rightarrow>
          (if status r = Delivered then Some (take (result_length r) (the out)) else None, q'))"

lemma slots_push:
  assumes "fq_inv depth q" and "k < depth" and "len \<le> kMaxPayload" and "len \<le> length p"
  shows "slots depth (q\<lparr>slot_payload := (slot_payload q)[k := write_at (slot_payload q ! k) 0 (take len p)],
           slot_length := (slot_length q)[k := len]\<rparr>) = (slots depth q)[k := take len p]"
  using assms
  by (intro nth_equalityI)
     (auto simp: slots_def frame_at_def fq_inv_def nth_list_update write_at_def min_def)

lemma fq_inv_write:
  "fq_inv depth q \<Longrightarrow> k < depth \<Longrightarrow> length x = kMaxPayload \<Longrightarrow> n \<le> kMaxPayload \<Longrightarrow> c \<le> depth \<Longrightarrow>
     fq_inv depth (q\<lparr>slot_payload := (slot_payload q)[k := x], slot_length := (slot_length q)[k := n],
       qcount := c, qaccepted := a\<rparr>)"
  by (auto simp: fq_inv_def dest!: set_update_subset_insert [THEN subsetD])

lemma offer_taken:
  assumes "fq_inv depth q" and "length p \<le> kMaxPayload" and "qcount q < depth"
  shows "fst (offer depth p q)" and "fq_abs depth (snd (offer depth p q)) = fq_abs depth q @ [p]"
    and "fq_inv depth (snd (offer depth p q))"
proof -
  let ?k = "(qhead q + qcount q) mod depth"
  let ?q1 = "q\<lparr>slot_payload := (slot_payload q)[?k := write_at (slot_payload q ! ?k) 0 (take (length p) p)],
           slot_length := (slot_length q)[?k := length p]\<rparr>"
  have k: "?k < depth" using assms(3) by (intro mod_less_divisor) auto
  have noop: "length p = 0 \<Longrightarrow> ?q1 = q\<lparr>slot_length := (slot_length q)[?k := length p]\<rparr>"
    by simp
  have o: "offer depth p q =
      (True, ?q1\<lparr>qcount := qcount q + 1, qaccepted := qaccepted q + 1\<rparr>)"
    using assms noop by (cases "length p = 0") (auto simp: offer_def fq_push_def Let_def)
  show "fst (offer depth p q)" by (simp add: o)
  have sl: "slots depth (?q1\<lparr>qcount := c, qaccepted := a\<rparr>) = (slots depth q)[?k := p]" for c a
    using slots_push [OF assms(1) k assms(2) order_refl] by simp
  show "fq_abs depth (snd (offer depth p q)) = fq_abs depth q @ [p]"
    using ring_push [of "qcount q" "slots depth q" "qhead q" p] assms(3)
    by (simp add: fq_abs_def o sl [simplified])
  show "fq_inv depth (snd (offer depth p q))"
    unfolding o snd_conv
  proof (rule fq_inv_write [OF assms(1) k])
    have "length (slot_payload q ! ?k) = kMaxPayload" using assms(1) k by (auto simp: fq_inv_def)
    then show "length (write_at (slot_payload q ! ?k) 0 (take (length p) p)) = kMaxPayload"
      using assms(2) by simp
  qed (use assms in auto)
qed

lemma offer_refused:
  assumes "\<not> (length p \<le> kMaxPayload \<and> qcount q < depth)" and "fq_inv depth q"
  shows "\<not> fst (offer depth p q)" and "fq_abs depth (snd (offer depth p q)) = fq_abs depth q"
    and "fq_inv depth (snd (offer depth p q))"
  using assms
  by (auto simp: offer_def fq_push_def fq_abs_def fq_inv_def)

lemma fetch_spec:
  assumes "fq_inv depth q"
  shows "fst (fetch depth q) = (case fq_abs depth q of [] \<Rightarrow> None | p # _ \<Rightarrow> Some p)"
    and "fq_abs depth (snd (fetch depth q)) = tl (fq_abs depth q)"
    and "fq_inv depth (snd (fetch depth q))"
proof -
  let ?n = "slot_length q ! qhead q"
  let ?q1 = "q\<lparr>qhead := (qhead q + 1) mod depth, qcount := qcount q - 1\<rparr>"
  have h: "qhead q < depth" "?n \<le> kMaxPayload" "length (slot_payload q ! qhead q) = kMaxPayload"
    using assms by (auto simp: fq_inv_def)
  have ab: "fq_abs depth q = frame_at q (qhead q) # fq_abs depth ?q1" if "qcount q \<noteq> 0"
    using ring_pop [of "qcount q" "slots depth q" "qhead q"] that assms h(1)
    by (auto simp: fq_abs_def fq_inv_def slots_def [of _ q])
  have f: "fetch depth q = (if qcount q = 0 then (None, q) else (Some (frame_at q (qhead q)), ?q1))"
    using h by (auto simp: fetch_def fq_pop_def Let_def frame_at_def write_at_def)
  show "fst (fetch depth q) = (case fq_abs depth q of [] \<Rightarrow> None | p # _ \<Rightarrow> Some p)"
    and "fq_abs depth (snd (fetch depth q)) = tl (fq_abs depth q)"
    using ab by (auto simp: f) (simp_all add: fq_abs_def)
  show "fq_inv depth (snd (fetch depth q))"
    using assms by (auto simp: f fq_inv_def)
qed

interpretation fq: bounded_fifo "offer depth" "fetch depth" "fq_abs depth" "fq_inv depth" depth
  "\<lambda>p. length p \<le> kMaxPayload" for depth
proof unfold_locales
  fix q p x xs
  assume q: "fq_inv depth q"
  have c: "length (fq_abs depth q) = qcount q" by (simp add: fq_abs_def)
  show "length (fq_abs depth q) \<le> depth" using q by (simp add: c fq_inv_def)
  show "length p \<le> kMaxPayload \<Longrightarrow> length (fq_abs depth q) < depth \<Longrightarrow>
      fst (offer depth p q) \<and> fq_abs depth (snd (offer depth p q)) = fq_abs depth q @ [p]"
    using offer_taken [OF q] by (simp add: c)
  show "\<not> (length p \<le> kMaxPayload \<and> length (fq_abs depth q) < depth) \<Longrightarrow>
      \<not> fst (offer depth p q) \<and> fq_abs depth (snd (offer depth p q)) = fq_abs depth q"
    using offer_refused(1,2) [OF _ q] by (simp add: c)
  show "fq_inv depth (snd (offer depth p q))"
    using offer_taken(3) [OF q] offer_refused(3) [OF _ q] by blast
  show "fq_abs depth q = [] \<Longrightarrow> fst (fetch depth q) = None \<and> fq_abs depth (snd (fetch depth q)) = []"
    by (simp add: fetch_spec [OF q])
  show "fq_abs depth q = x # xs \<Longrightarrow> fst (fetch depth q) = Some x \<and> fq_abs depth (snd (fetch depth q)) = xs"
    by (simp add: fetch_spec [OF q])
  show "fq_inv depth (snd (fetch depth q))" by (rule fetch_spec [OF q])
qed

section \<open>The properties\<close>

lemma push_pop_clean:
  "fq_pop depth out capacity q = (r, out', q') \<Longrightarrow> status r = OutputTooSmall \<Longrightarrow> out' = out \<and> q' = q"
  by (auto simp: fq_pop_def Let_def split: if_splits)

lemma offer_counts:
  "snd (offer depth p q) = q' \<Longrightarrow>
     (if length p > kMaxPayload then qmalformed q' = qmalformed q + 1 \<and> qdropped q' = qdropped q \<and> qaccepted q' = qaccepted q
      else if qcount q = depth then qdropped q' = qdropped q + 1 \<and> qmalformed q' = qmalformed q \<and> qaccepted q' = qaccepted q
      else qaccepted q' = qaccepted q + 1 \<and> qmalformed q' = qmalformed q \<and> qdropped q' = qdropped q)"
  by (auto simp: offer_def fq_push_def Let_def)

lemma fetch_counts [frame_rules]:
  "qaccepted (snd (fetch depth q)) = qaccepted q" "qdropped (snd (fetch depth q)) = qdropped q"
  "qmalformed (snd (fetch depth q)) = qmalformed q"
  by (auto simp: fetch_def fq_pop_def Let_def)

text \<open>
  The frame queue keeps the order and the content of what it took. Over every sequence of
  pushes and pops on a queue of any depth, the frames popped, followed by the ones still
  queued, are exactly the ones the pushes took, in the order they were taken; and a push is
  refused exactly when the frame is longer than \<open>kMaxPayload\<close> or \<open>Depth\<close> frames are waiting,
  in which case nothing already queued is displaced.
\<close>

theorem frame_queue_keeps_order:
  assumes "0 < depth"
  shows "let (answers, q) = queue_run (offer depth) (fetch depth) ops (new_frame_queue depth)
         in got answers @ fq_abs depth q = taken answers \<and> length (fq_abs depth q) \<le> depth \<and>
            (fst (offer depth p q) \<longleftrightarrow> length p \<le> kMaxPayload \<and> qcount q < depth) \<and>
            (\<not> fst (offer depth p q) \<longrightarrow> fq_abs depth (snd (offer depth p q)) = fq_abs depth q)"
proof -
  define r where "r = queue_run (offer depth) (fetch depth) ops (new_frame_queue depth)"
  have i0: "fq_inv depth (new_frame_queue depth)" using assms by (rule new_frame_queue_inv)
  have i: "fq_inv depth (snd r)" unfolding r_def using i0 by (rule fq.queue_run_inv)
  have o: "got (fst r) @ fq_abs depth (snd r) = taken (fst r)"
    unfolding r_def using fq.queue_run_order [OF i0] by (simp add: fq_abs_def new_frame_queue_def)
  have c: "length (fq_abs depth (snd r)) = qcount (snd r)" by (simp add: fq_abs_def)
  show ?thesis
    using o fq.abs_bound [OF i] fq.push_accepted [OF i, of p] fq.push_full [OF i, of p]
    unfolding r_def [symmetric] by (auto simp: split_beta Let_def c)
qed

theorem frame_queue_keeps_order_witness:
  "let (answers, q) = queue_run (offer 2) (fetch 2)
         [Push [1], Push [], Push [3], Pop, Push [4], Pop, Pop, Pop] (new_frame_queue 2)
   in answers = [Taken [1], Taken [], Refused [3], Got [1], Taken [4], Got [], Got [4], Empty] \<and>
      got answers @ fq_abs 2 q = taken answers \<and> length (fq_abs 2 q) \<le> 2"
proof -
  let ?r = "queue_run (offer 2) (fetch 2)
    [Push [1], Push [], Push [3], Pop, Push [4], Pop, Pop, Pop] (new_frame_queue 2)"
  have "fst ?r = [Taken [1], Taken [], Refused [3], Got [1], Taken [4], Got [], Got [4], Empty]"
    by code_simp
  then show ?thesis
    using frame_queue_keeps_order
      [of 2 "[Push [1], Push [], Push [3], Pop, Push [4], Pop, Pop, Pop]"]
    by (simp add: split_beta Let_def del: queue_run.simps)
qed

end
