(* ===== verification/Input_Events.thy ===== *)
theory Input_Events
  imports Ring_Buffer
begin

text \<open>
  The input layer, \<open>core/include/attadipa/core/input.h\<close> and \<open>core/src/input.cpp\<close>: the one
  queue every producer of presses and touches pushes into (\<open>InputQueue\<close>), and the record of
  what is held down and by whom (\<open>InputState\<close>), with the release of everything one origin
  holds. Coordinates are only stored and copied, so they are 16-bit words.
\<close>

section \<open>Events\<close>

datatype input_origin = Physical | Remote

datatype input_event_type = ButtonDown | ButtonUp | PointerDown | PointerMove | PointerUp

definition kMaxButtons :: u8 where "kMaxButtons = 3"
definition kMaxTouchPoints :: u8 where "kMaxTouchPoints = 1"

record input_event =
  ev_type :: input_event_type
  ev_origin :: input_origin
  ev_button :: u8
  ev_x :: u16
  ev_y :: u16
  ev_touch_id :: u8
  ev_at_ms :: u32

definition blank_event :: input_event where
  "blank_event = \<lparr>ev_type = PointerUp, ev_origin = Physical, ev_button = 0, ev_x = 0, ev_y = 0,
     ev_touch_id = 0, ev_at_ms = 0\<rparr>"

section \<open>The queue\<close>

definition kInputCapacity :: nat where "kInputCapacity = 64"

record input_queue =
  iq_buffer :: "input_event list"
  iq_head :: nat
  iq_count :: nat
  iq_pushed :: u32
  iq_popped :: u32
  iq_dropped :: u32
  iq_flushed :: u32

definition new_input_queue :: input_queue where
  "new_input_queue = \<lparr>iq_buffer = replicate kInputCapacity blank_event, iq_head = 0, iq_count = 0,
     iq_pushed = 0, iq_popped = 0, iq_dropped = 0, iq_flushed = 0\<rparr>"

definition iq_push :: "input_event \<Rightarrow> input_queue \<Rightarrow> bool \<times> input_queue" where
  "iq_push e q =
     (if iq_count q = kInputCapacity then (False, q\<lparr>iq_dropped := iq_dropped q + 1\<rparr>)
      else (True, q\<lparr>iq_buffer := (iq_buffer q)[(iq_head q + iq_count q) mod kInputCapacity := e],
                    iq_count := iq_count q + 1, iq_pushed := iq_pushed q + 1\<rparr>))"

definition iq_pop :: "input_queue \<Rightarrow> input_event option \<times> input_queue" where
  "iq_pop q =
     (if iq_count q = 0 then (None, q)
      else (Some (iq_buffer q ! iq_head q),
            q\<lparr>iq_head := (iq_head q + 1) mod kInputCapacity, iq_count := iq_count q - 1,
              iq_popped := iq_popped q + 1\<rparr>))"

definition iq_peek :: "input_queue \<Rightarrow> input_event option" where
  "iq_peek q = (if iq_count q = 0 then None else Some (iq_buffer q ! iq_head q))"

definition iq_clear :: "input_queue \<Rightarrow> input_queue" where
  "iq_clear q = q\<lparr>iq_flushed := iq_flushed q + of_nat (iq_count q), iq_head := 0, iq_count := 0\<rparr>"

definition iq_abs :: "input_queue \<Rightarrow> input_event list" where
  "iq_abs q = ring_read (iq_buffer q) (iq_head q) (iq_count q)"

text \<open>The representation, and the accounting no counter of the queue escapes.\<close>

definition iq_rep :: "input_queue \<Rightarrow> bool" where
  "iq_rep q \<longleftrightarrow> length (iq_buffer q) = kInputCapacity \<and> iq_head q < kInputCapacity \<and>
     iq_count q \<le> kInputCapacity"

definition iq_inv :: "input_queue \<Rightarrow> bool" where
  "iq_inv q \<longleftrightarrow> iq_rep q \<and> iq_pushed q = iq_popped q + iq_flushed q + of_nat (iq_count q)"

lemma new_input_queue_inv [inv_rules]: "iq_inv new_input_queue"
  by (simp add: iq_inv_def iq_rep_def new_input_queue_def kInputCapacity_def)

lemma new_input_queue_fields:
  "iq_abs new_input_queue = []" "iq_count new_input_queue = 0" "iq_pushed new_input_queue = 0"
  "iq_popped new_input_queue = 0" "iq_dropped new_input_queue = 0" "iq_flushed new_input_queue = 0"
  by (simp_all add: iq_abs_def new_input_queue_def)

lemma length_iq_abs [simp]: "length (iq_abs q) = iq_count q"
  by (simp add: iq_abs_def)

lemma iq_push_inv [inv_rules]: "iq_inv q \<Longrightarrow> iq_inv (snd (iq_push e q))"
  by (auto simp: iq_inv_def iq_rep_def iq_push_def)

lemma iq_pop_inv [inv_rules]: "iq_inv q \<Longrightarrow> iq_inv (snd (iq_pop q))"
  by (auto simp: iq_inv_def iq_rep_def iq_pop_def kInputCapacity_def of_nat_diff)

lemma iq_clear_inv [inv_rules]: "iq_inv q \<Longrightarrow> iq_inv (iq_clear q)"
  by (auto simp: iq_inv_def iq_rep_def iq_clear_def kInputCapacity_def)

lemma iq_abs_push:
  "iq_inv q \<Longrightarrow> iq_abs (snd (iq_push e q)) =
     (if iq_count q < kInputCapacity then iq_abs q @ [e] else iq_abs q)"
  using ring_push [of "iq_count q" "iq_buffer q" "iq_head q" e]
  by (auto simp: iq_inv_def iq_rep_def iq_push_def iq_abs_def)

lemma fst_iq_push: "iq_inv q \<Longrightarrow> fst (iq_push e q) \<longleftrightarrow> iq_count q < kInputCapacity"
  by (auto simp: iq_inv_def iq_rep_def iq_push_def)

lemma iq_abs_pop:
  "iq_inv q \<Longrightarrow> iq_abs q = (case fst (iq_pop q) of None \<Rightarrow> [] | Some e \<Rightarrow> e # iq_abs (snd (iq_pop q)))"
  using ring_pop [of "iq_count q" "iq_buffer q" "iq_head q"]
  by (auto simp: iq_inv_def iq_rep_def iq_pop_def iq_abs_def)

lemma iq_peek_head: "iq_inv q \<Longrightarrow> iq_peek q = (case iq_abs q of [] \<Rightarrow> None | e # _ \<Rightarrow> Some e)"
  using iq_abs_pop [of q] by (auto simp: iq_peek_def iq_pop_def split: if_splits)

lemma iq_pop_none: "fst (iq_pop q) = None \<Longrightarrow> snd (iq_pop q) = q \<and> iq_abs q = []"
  by (auto simp: iq_pop_def iq_abs_def split: if_splits)

interpretation iq: bounded_fifo iq_push iq_pop iq_abs iq_inv kInputCapacity "\<lambda>_. True"
proof unfold_locales
  fix q :: input_queue and x e xs
  assume q: "iq_inv q"
  show "length (iq_abs q) \<le> kInputCapacity" using q by (simp add: iq_inv_def iq_rep_def)
  show "True \<Longrightarrow> length (iq_abs q) < kInputCapacity \<Longrightarrow>
      fst (iq_push e q) \<and> iq_abs (snd (iq_push e q)) = iq_abs q @ [e]"
    using q by (simp add: fst_iq_push iq_abs_push)
  show "\<not> (True \<and> length (iq_abs q) < kInputCapacity) \<Longrightarrow>
      \<not> fst (iq_push e q) \<and> iq_abs (snd (iq_push e q)) = iq_abs q"
    using q by (simp add: fst_iq_push iq_abs_push)
  show "iq_inv (snd (iq_push e q))" "iq_inv (snd (iq_pop q))" using q by (simp_all add: inv_rules)
  show "iq_abs q = [] \<Longrightarrow> fst (iq_pop q) = None \<and> iq_abs (snd (iq_pop q)) = []"
    using iq_abs_pop [OF q] iq_pop_none [of q] by (auto split: option.splits)
  show "iq_abs q = x # xs \<Longrightarrow> fst (iq_pop q) = Some x \<and> iq_abs (snd (iq_pop q)) = xs"
    using iq_abs_pop [OF q] by (auto split: option.splits)
qed

section \<open>What is held\<close>

record input_state =
  button_held :: "bool list"
  button_by :: "input_origin list"
  pointer_down :: bool
  pointer_x :: u16
  pointer_y :: u16
  pointer_touch_id :: u8
  pointer_by :: input_origin

definition new_input_state :: input_state where
  "new_input_state = \<lparr>button_held = replicate (unat kMaxButtons) False,
     button_by = replicate (unat kMaxButtons) Physical, pointer_down = False, pointer_x = 0,
     pointer_y = 0, pointer_touch_id = 0, pointer_by = Physical\<rparr>"

definition button_down :: "u8 \<Rightarrow> input_state \<Rightarrow> bool" where
  "button_down i s \<longleftrightarrow> i < kMaxButtons \<and> button_held s ! unat i"

definition button_origin :: "u8 \<Rightarrow> input_state \<Rightarrow> input_origin" where
  "button_origin i s = (if i < kMaxButtons then button_by s ! unat i else Physical)"

definition apply_event :: "input_event \<Rightarrow> u8 \<Rightarrow> input_state \<Rightarrow> bool \<times> input_state" where
  "apply_event e button_count s =
     (let b = unat (ev_button e) in
      case ev_type e of
        ButtonDown \<Rightarrow>
          if ev_button e \<ge> button_count \<or> ev_button e \<ge> kMaxButtons then (False, s)
          else if button_held s ! b then (False, s)
          else (True, s\<lparr>button_held := (button_held s)[b := True],
                        button_by := (button_by s)[b := ev_origin e]\<rparr>)
      | ButtonUp \<Rightarrow>
          if ev_button e \<ge> button_count \<or> ev_button e \<ge> kMaxButtons then (False, s)
          else if \<not> button_held s ! b then (False, s)
          else if button_by s ! b \<noteq> ev_origin e then (False, s)
          else (True, s\<lparr>button_held := (button_held s)[b := False]\<rparr>)
      | PointerDown \<Rightarrow>
          if ev_touch_id e \<ge> kMaxTouchPoints then (False, s)
          else if pointer_down s then (False, s)
          else (True, s\<lparr>pointer_down := True, pointer_touch_id := ev_touch_id e,
                        pointer_x := ev_x e, pointer_y := ev_y e, pointer_by := ev_origin e\<rparr>)
      | PointerMove \<Rightarrow>
          if \<not> pointer_down s \<or> ev_touch_id e \<noteq> pointer_touch_id s then (False, s)
          else (True, s\<lparr>pointer_x := ev_x e, pointer_y := ev_y e\<rparr>)
      | PointerUp \<Rightarrow>
          if \<not> pointer_down s \<or> ev_touch_id e \<noteq> pointer_touch_id s then (False, s)
          else (True, s\<lparr>pointer_down := False, pointer_x := ev_x e, pointer_y := ev_y e\<rparr>))"

text \<open>
  \<open>release_all\<close>: an input is marked released only when its event reached the queue. The
  byte counters of the code stay below five, so they are naturals here.
\<close>

definition release_button ::
  "input_origin \<Rightarrow> u32 \<Rightarrow> nat \<Rightarrow> nat \<times> input_state \<times> input_queue \<Rightarrow> nat \<times> input_state \<times> input_queue" where
  "release_button origin at_ms i = (\<lambda>(written, s, q).
     if button_held s ! i \<and> button_by s ! i = origin
     then
       (let (ok, q') = iq_push (blank_event\<lparr>ev_type := ButtonUp, ev_origin := origin,
                         ev_button := of_nat i, ev_at_ms := at_ms\<rparr>) q
        in if ok then (written + 1, s\<lparr>button_held := (button_held s)[i := False]\<rparr>, q')
           else (written, s, q'))
     else (written, s, q))"

definition release_pointer ::
  "input_origin \<Rightarrow> u32 \<Rightarrow> nat \<times> input_state \<times> input_queue \<Rightarrow> nat \<times> input_state \<times> input_queue" where
  "release_pointer origin at_ms = (\<lambda>(written, s, q).
     if pointer_down s \<and> pointer_by s = origin
     then
       (let (ok, q') = iq_push (blank_event\<lparr>ev_type := PointerUp, ev_origin := origin,
                         ev_x := pointer_x s, ev_y := pointer_y s,
                         ev_touch_id := pointer_touch_id s, ev_at_ms := at_ms\<rparr>) q
        in if ok then (written + 1, s\<lparr>pointer_down := False\<rparr>, q') else (written, s, q'))
     else (written, s, q))"

definition release_all ::
  "input_origin \<Rightarrow> u32 \<Rightarrow> input_state \<Rightarrow> input_queue \<Rightarrow> nat \<times> input_state \<times> input_queue" where
  "release_all origin at_ms s q =
     release_pointer origin at_ms
       (fold (release_button origin at_ms) [0..<unat kMaxButtons] (0, s, q))"

definition held_count :: "input_origin \<Rightarrow> input_state \<Rightarrow> nat" where
  "held_count origin s =
     length (filter (\<lambda>i. button_held s ! i \<and> button_by s ! i = origin) [0..<unat kMaxButtons]) +
     (if pointer_down s \<and> pointer_by s = origin then 1 else 0)"

definition input_inv :: "input_state \<Rightarrow> bool" where
  "input_inv s \<longleftrightarrow> length (button_held s) = 3 \<and> length (button_by s) = 3"

lemma unat_kMaxButtons [simp]: "unat kMaxButtons = 3"
  by (simp add: kMaxButtons_def)

lemma new_input_state_inv [inv_rules]: "input_inv new_input_state"
  by (simp add: input_inv_def new_input_state_def)

lemma apply_event_inv [inv_rules]: "input_inv s \<Longrightarrow> input_inv (snd (apply_event e n s))"
  by (auto simp: input_inv_def apply_event_def Let_def split: input_event_type.splits)

text \<open>A refused event changes nothing.\<close>

lemma apply_event_refused: "\<not> fst (apply_event e n s) \<Longrightarrow> snd (apply_event e n s) = s"
  by (auto simp: apply_event_def Let_def split: input_event_type.splits if_splits)

text \<open>Feeding a list of events: the ones accepted, and the state after.\<close>

fun run_input :: "u8 \<Rightarrow> input_event list \<Rightarrow> input_state \<Rightarrow> input_event list \<times> input_state" where
  "run_input n [] s = ([], s)"
| "run_input n (e # es) s =
     (let (ok, s') = apply_event e n s; (acc, s'') = run_input n es s'
      in (if ok then e # acc else acc, s''))"

lemma run_input_accepted:
  "run_input n (xs @ ys) s = (xs @ ys, u)"
  if "run_input n xs s = (xs, t)" and "run_input n ys t = (ys, u)"
  using that
proof (induction xs arbitrary: s)
  case (Cons e es)
  obtain ok s' where e: "apply_event e n s = (ok, s')" by (cases "apply_event e n s")
  obtain acc s'' where r: "run_input n es s' = (acc, s'')" by (cases "run_input n es s'")
  have "length (fst (run_input n zs v)) \<le> length zs" for zs v
    by (induction zs arbitrary: v) (auto simp: split_beta Let_def le_SucI)
  from this [of es s'] Cons.prems(1) have ok "acc = es" "s'' = t"
    by (auto simp: e r split: if_splits)
  with Cons.IH [of s'] Cons.prems(2) show ?case by (simp add: e r)
qed simp

text \<open>One step of the release, from \<open>a\<close> to \<open>b\<close>.\<close>

definition releases :: "input_origin \<Rightarrow> nat \<times> input_state \<times> input_queue
    \<Rightarrow> nat \<times> input_state \<times> input_queue \<Rightarrow> bool" where
  "releases o' = (\<lambda>(w, s, q) (w', s', q').
     input_inv s' \<and> iq_inv q' \<and> button_by s' = button_by s \<and> pointer_by s' = pointer_by s \<and>
     (\<forall>i < 3. button_held s' ! i \<longrightarrow> button_held s ! i) \<and> (pointer_down s' \<longrightarrow> pointer_down s) \<and>
     (\<exists>ups. iq_abs q' = iq_abs q @ ups \<and> w' = w + length ups \<and>
        run_input kMaxButtons ups s = (ups, s')) \<and>
     held_count o' s' + w' = held_count o' s + w \<and>
     (\<forall>p. p \<noteq> o' \<longrightarrow> held_count p s' = held_count p s))"

lemma releases_refl: "input_inv s \<Longrightarrow> iq_inv q \<Longrightarrow> releases o' (w, s, q) (w, s, q)"
  by (auto simp: releases_def intro: exI [of _ "[]"])

lemma releases_trans: "releases o' a b \<Longrightarrow> releases o' b c \<Longrightarrow> releases o' a c"
proof (cases a, cases b, cases c)
  fix w s q w' s' q' w'' s'' q''
  assume abc: "a = (w, s, q)" "b = (w', s', q')" "c = (w'', s'', q'')"
    and r: "releases o' a b" "releases o' b c"
  from r(1) obtain u where u: "iq_abs q' = iq_abs q @ u" "w' = w + length u"
    "run_input kMaxButtons u s = (u, s')" by (auto simp: abc releases_def)
  from r(2) obtain v where v: "iq_abs q'' = iq_abs q' @ v" "w'' = w' + length v"
    "run_input kMaxButtons v s' = (v, s'')" by (auto simp: abc releases_def)
  have "\<exists>ups. iq_abs q'' = iq_abs q @ ups \<and> w'' = w + length ups \<and>
      run_input kMaxButtons ups s = (ups, s'')"
    using u v run_input_accepted [OF u(3) v(3)] by (intro exI [of _ "u @ v"]) simp
  with r show ?thesis by (auto simp: abc releases_def)
qed

lemma held_count_3:
  "held_count p s =
     of_bool (button_held s ! 0 \<and> button_by s ! 0 = p) + of_bool (button_held s ! 1 \<and> button_by s ! 1 = p) +
     of_bool (button_held s ! 2 \<and> button_by s ! 2 = p) + of_bool (pointer_down s \<and> pointer_by s = p)"
  by (simp add: held_count_def upt_rec numeral_2_eq_2)

lemma three_cases: "i < 3 \<Longrightarrow> i = 0 \<or> i = 1 \<or> i = (2::nat)"
  by auto

lemma releases_button:
  assumes "input_inv s" and "iq_inv q" and "i < 3"
  shows "releases o' (w, s, q) (release_button o' t i (w, s, q))"
    and "case release_button o' t i (w, s, q) of (w', s', q') \<Rightarrow>
       button_held s' ! i \<and> button_by s' ! i = o' \<longrightarrow> iq_count q' = kInputCapacity"
proof -
  let ?e = "blank_event\<lparr>ev_type := ButtonUp, ev_origin := o', ev_button := of_nat i, ev_at_ms := t\<rparr>"
  let ?s = "s\<lparr>button_held := (button_held s)[i := False]\<rparr>"
  have i: "unat (of_nat i :: u8) = i" "\<not> kMaxButtons \<le> (of_nat i :: u8)"
    using assms(3) by (auto simp: unat_of_nat take_bit_nat_eq_self word_le_nat_alt)
  have r: "run_input kMaxButtons [?e] s = ([?e], ?s)" if "button_held s ! i" "button_by s ! i = o'"
    using that i by (simp add: apply_event_def)
  obtain x y z where l: "button_held s = [x, y, z]"
    using assms(1) by (auto simp: input_inv_def length_Suc_conv numeral_3_eq_3)
  have h: "held_count o' ?s + 1 = held_count o' s"
    "p \<noteq> o' \<Longrightarrow> held_count p ?s = held_count p s" if "button_held s ! i" "button_by s ! i = o'" for p
    using that three_cases [OF assms(3)] by (auto simp: held_count_3 l)
  have q: "iq_inv (snd (iq_push ?e q))" using assms(2) by (rule iq_push_inv)
  show "releases o' (w, s, q) (release_button o' t i (w, s, q))"
  proof (cases "button_held s ! i \<and> button_by s ! i = o' \<and> iq_count q < kInputCapacity")
    case True
    then have "release_button o' t i (w, s, q) = (w + 1, ?s, snd (iq_push ?e q))"
      using fst_iq_push [OF assms(2), of ?e] by (simp add: release_button_def split_beta Let_def)
    moreover have "releases o' (w, s, q) (w + 1, ?s, snd (iq_push ?e q))"
      using True assms r h q iq_abs_push [OF assms(2), of ?e]
      by (auto simp: releases_def input_inv_def nth_list_update simp del: run_input.simps
          intro!: exI [of _ "[?e]"])
    ultimately show ?thesis by simp
  next
    case False
    then have "iq_abs (snd (iq_push ?e q)) = iq_abs q \<or> \<not> (button_held s ! i \<and> button_by s ! i = o')"
      using iq_abs_push [OF assms(2), of ?e] by auto
    with False q show ?thesis
      using assms fst_iq_push [OF assms(2), of ?e] releases_refl [OF assms(1,2)]
      by (auto simp: release_button_def split_beta Let_def releases_def intro: exI [of _ "[]"])
  qed
  show "case release_button o' t i (w, s, q) of (w', s', q') \<Rightarrow>
      button_held s' ! i \<and> button_by s' ! i = o' \<longrightarrow> iq_count q' = kInputCapacity"
    using assms by (auto simp: release_button_def split_beta Let_def iq_push_def input_inv_def)
qed

lemma releases_pointer:
  assumes "input_inv s" and "iq_inv q"
  shows "releases o' (w, s, q) (release_pointer o' t (w, s, q))"
    and "case release_pointer o' t (w, s, q) of (w', s', q') \<Rightarrow>
       pointer_down s' \<and> pointer_by s' = o' \<longrightarrow> iq_count q' = kInputCapacity"
proof -
  let ?e = "blank_event\<lparr>ev_type := PointerUp, ev_origin := o', ev_x := pointer_x s,
    ev_y := pointer_y s, ev_touch_id := pointer_touch_id s, ev_at_ms := t\<rparr>"
  let ?s = "s\<lparr>pointer_down := False\<rparr>"
  have r: "run_input kMaxButtons [?e] s = ([?e], ?s)" if "pointer_down s"
    using that by (simp add: apply_event_def)
  have h: "held_count o' ?s + 1 = held_count o' s"
    "p \<noteq> o' \<Longrightarrow> held_count p ?s = held_count p s" if "pointer_down s" "pointer_by s = o'" for p
    using that by (auto simp: held_count_3)
  have q: "iq_inv (snd (iq_push ?e q))" using assms(2) by (rule iq_push_inv)
  show "releases o' (w, s, q) (release_pointer o' t (w, s, q))"
  proof (cases "pointer_down s \<and> pointer_by s = o' \<and> iq_count q < kInputCapacity")
    case True
    then have "release_pointer o' t (w, s, q) = (w + 1, ?s, snd (iq_push ?e q))"
      using fst_iq_push [OF assms(2), of ?e] by (simp add: release_pointer_def split_beta Let_def)
    moreover have "releases o' (w, s, q) (w + 1, ?s, snd (iq_push ?e q))"
      using True assms r h q iq_abs_push [OF assms(2), of ?e]
      by (auto simp: releases_def input_inv_def simp del: run_input.simps intro!: exI [of _ "[?e]"])
    ultimately show ?thesis by simp
  next
    case False
    then have "iq_abs (snd (iq_push ?e q)) = iq_abs q \<or> \<not> (pointer_down s \<and> pointer_by s = o')"
      using iq_abs_push [OF assms(2), of ?e] by auto
    with False q show ?thesis
      using assms fst_iq_push [OF assms(2), of ?e] releases_refl [OF assms(1,2)]
      by (auto simp: release_pointer_def split_beta Let_def releases_def intro: exI [of _ "[]"])
  qed
  show "case release_pointer o' t (w, s, q) of (w', s', q') \<Rightarrow>
      pointer_down s' \<and> pointer_by s' = o' \<longrightarrow> iq_count q' = kInputCapacity"
    by (auto simp: release_pointer_def split_beta Let_def iq_push_def)
qed

lemma releases_keeps: "releases o' a (w, s, q) \<Longrightarrow> input_inv s \<and> iq_inv q"
  by (cases a) (simp add: releases_def)

lemma releases_queue: "releases o' (w, s, q) (w', s', q') \<Longrightarrow> iq_count q \<le> iq_count q' \<and> iq_inv q'"
proof -
  assume r: "releases o' (w, s, q) (w', s', q')"
  then obtain ups where "iq_abs q' = iq_abs q @ ups" by (auto simp: releases_def)
  then have "length (iq_abs q') = length (iq_abs q) + length ups" by simp
  with r show ?thesis by (auto simp: releases_def)
qed

lemma iq_inv_bound: "iq_inv q \<Longrightarrow> iq_count q \<le> kInputCapacity"
  by (simp add: iq_inv_def iq_rep_def)

lemma releases_full:
  assumes r: "releases o' (w, s, q) (w', s', q')" and "i < 3"
    and "button_held s ! i \<and> button_by s ! i = o' \<longrightarrow> iq_count q = kInputCapacity"
  shows "button_held s' ! i \<and> button_by s' ! i = o' \<longrightarrow> iq_count q' = kInputCapacity"
proof -
  have "button_by s' = button_by s" "button_held s' ! i \<longrightarrow> button_held s ! i"
    using r assms(2) by (auto simp: releases_def)
  moreover have "iq_count q \<le> iq_count q'" "iq_count q' \<le> kInputCapacity"
    using releases_queue [OF r] iq_inv_bound by auto
  ultimately show ?thesis using assms(3) by auto
qed

lemma release_all_releases:
  assumes "input_inv s" and "iq_inv q" and r: "release_all o' t s q = (w', s', q')"
  shows "releases o' (0, s, q) (w', s', q')"
    and "held_count o' s' = 0 \<or> iq_count q' = kInputCapacity"
proof -
  obtain w0 s0 q0 where b0: "release_button o' t 0 (0, s, q) = (w0, s0, q0)"
    by (cases "release_button o' t 0 (0, s, q)")
  obtain w1 s1 q1 where b1: "release_button o' t 1 (w0, s0, q0) = (w1, s1, q1)"
    by (cases "release_button o' t 1 (w0, s0, q0)")
  obtain w2 s2 q2 where b2: "release_button o' t 2 (w1, s1, q1) = (w2, s2, q2)"
    by (cases "release_button o' t 2 (w1, s1, q1)")
  have b3: "release_pointer o' t (w2, s2, q2) = (w', s', q')"
    using r b0 b1 b2 by (simp add: release_all_def upt_rec numeral_2_eq_2)
  have r0: "releases o' (0, s, q) (w0, s0, q0)"
    and f0: "button_held s0 ! 0 \<and> button_by s0 ! 0 = o' \<longrightarrow> iq_count q0 = kInputCapacity"
    using releases_button [OF assms(1,2), where i = 0 and o' = o' and w = 0 and t = t] by (simp_all add: b0)
  note k0 = releases_keeps [OF r0, THEN conjunct1] releases_keeps [OF r0, THEN conjunct2]
  have r1: "releases o' (w0, s0, q0) (w1, s1, q1)"
    and f1: "button_held s1 ! 1 \<and> button_by s1 ! 1 = o' \<longrightarrow> iq_count q1 = kInputCapacity"
    using releases_button [OF k0, where i = 1 and o' = o' and w = w0 and t = t] by (simp_all add: b1 [simplified])
  note k1 = releases_keeps [OF r1, THEN conjunct1] releases_keeps [OF r1, THEN conjunct2]
  have r2: "releases o' (w1, s1, q1) (w2, s2, q2)"
    and f2: "button_held s2 ! 2 \<and> button_by s2 ! 2 = o' \<longrightarrow> iq_count q2 = kInputCapacity"
    using releases_button [OF k1, where i = 2 and o' = o' and w = w1 and t = t] by (simp_all add: b2)
  note k2 = releases_keeps [OF r2, THEN conjunct1] releases_keeps [OF r2, THEN conjunct2]
  have r3: "releases o' (w2, s2, q2) (w', s', q')"
    and f3: "pointer_down s' \<and> pointer_by s' = o' \<longrightarrow> iq_count q' = kInputCapacity"
    using releases_pointer [OF k2, where o' = o' and w = w2 and t = t] by (simp_all add: b3)
  have r03: "releases o' (w0, s0, q0) (w', s', q')" and r13: "releases o' (w1, s1, q1) (w', s', q')"
    using releases_trans [OF r1 releases_trans [OF r2 r3]] releases_trans [OF r2 r3] by simp_all
  show "releases o' (0, s, q) (w', s', q')" using r0 r03 by (rule releases_trans)
  show "held_count o' s' = 0 \<or> iq_count q' = kInputCapacity"
    using releases_full [OF r03 _ f0] releases_full [OF r13 _ f1] releases_full [OF r3 _ f2] f3
    unfolding held_count_3 by (cases "iq_count q' = kInputCapacity") (simp_all add: of_bool_def)
qed

section \<open>What the accepted events look like\<close>

text \<open>
  The reference for one button: up, then held by one origin until that same origin lets go.
  The result is who holds it at the end, or \<open>None\<close> when the events do not alternate.
\<close>

fun stroke :: "input_origin option \<Rightarrow> input_event list \<Rightarrow> input_origin option option" where
  "stroke h [] = Some h"
| "stroke None (e # es) =
     (if ev_type e = ButtonDown then stroke (Some (ev_origin e)) es else None)"
| "stroke (Some p) (e # es) =
     (if ev_type e = ButtonUp \<and> ev_origin e = p then stroke None es else None)"

text \<open>The reference for the pointer: down, any moves of the same finger, up.\<close>

fun gesture :: "u8 option \<Rightarrow> input_event list \<Rightarrow> u8 option option" where
  "gesture h [] = Some h"
| "gesture None (e # es) =
     (if ev_type e = PointerDown then gesture (Some (ev_touch_id e)) es else None)"
| "gesture (Some t) (e # es) =
     (if ev_touch_id e \<noteq> t then None
      else if ev_type e = PointerMove then gesture (Some t) es
      else if ev_type e = PointerUp then gesture None es else None)"

definition is_button :: "input_event \<Rightarrow> bool" where
  "is_button e \<longleftrightarrow> ev_type e = ButtonDown \<or> ev_type e = ButtonUp"

definition buttons_of :: "u8 \<Rightarrow> input_event list \<Rightarrow> input_event list" where
  "buttons_of b = filter (\<lambda>e. is_button e \<and> ev_button e = b)"

definition pointers_of :: "input_event list \<Rightarrow> input_event list" where
  "pointers_of = filter (\<lambda>e. \<not> is_button e)"

definition holder :: "u8 \<Rightarrow> input_state \<Rightarrow> input_origin option" where
  "holder b s = (if button_down b s then Some (button_origin b s) else None)"

definition finger :: "input_state \<Rightarrow> u8 option" where
  "finger s = (if pointer_down s then Some (pointer_touch_id s) else None)"

lemma unat_button_eq: "a < kMaxButtons \<Longrightarrow> b < kMaxButtons \<Longrightarrow> unat a = unat b \<longleftrightarrow> a = b" for a b :: u8
  by (simp add: word_unat_eq_iff)

lemma button_index: "b < kMaxButtons \<Longrightarrow> unat b < 3"
  by (simp add: word_less_nat_alt)

lemma apply_event_button:
  assumes "input_inv s" and "apply_event e n s = (True, s')" and "is_button e"
  shows "ev_button e < min n kMaxButtons" and "finger s' = finger s"
    and "b \<noteq> ev_button e \<Longrightarrow> holder b s' = holder b s"
    and "stroke (holder (ev_button e) s) (e # es) = stroke (holder (ev_button e) s') es"
proof -
  show b: "ev_button e < min n kMaxButtons"
    using assms(2,3) by (auto simp: apply_event_def is_button_def Let_def split: if_splits)
  then have l: "unat (ev_button e) < length (button_held s)" "unat (ev_button e) < length (button_by s)"
    using assms(1) button_index by (auto simp: input_inv_def)
  show "finger s' = finger s"
    using assms(2,3) by (auto simp: apply_event_def is_button_def finger_def Let_def split: if_splits)
  show "b \<noteq> ev_button e \<Longrightarrow> holder b s' = holder b s"
    using assms(2,3) b unat_button_eq [of b "ev_button e"]
    by (auto simp: apply_event_def is_button_def holder_def button_down_def button_origin_def Let_def
        nth_list_update split: if_splits)
  show "stroke (holder (ev_button e) s) (e # es) = stroke (holder (ev_button e) s') es"
    using assms(2,3) b l
    by (auto simp: apply_event_def is_button_def holder_def button_down_def button_origin_def Let_def
        split: if_splits)
qed

lemma apply_event_pointer:
  assumes "apply_event e n s = (True, s')" and "\<not> is_button e"
  shows "holder b s' = holder b s" and "gesture (finger s) (e # es) = gesture (finger s') es"
  using assms
  by (cases "ev_type e"; auto simp: apply_event_def is_button_def holder_def button_down_def
      button_origin_def finger_def split: if_splits)+

lemma run_input_shape:
  assumes "input_inv s"
  shows "input_inv (snd (run_input n es s)) \<and>
    stroke (holder b s) (buttons_of b (fst (run_input n es s))) = Some (holder b (snd (run_input n es s))) \<and>
    gesture (finger s) (pointers_of (fst (run_input n es s))) = Some (finger (snd (run_input n es s))) \<and>
    (\<forall>e \<in> set (buttons_of b (fst (run_input n es s))). ev_button e < min n kMaxButtons)"
  using assms
proof (induction es arbitrary: s)
  case Nil
  then show ?case by (simp add: buttons_of_def pointers_of_def)
next
  case (Cons e es)
  obtain ok s' where e: "apply_event e n s = (ok, s')" by (cases "apply_event e n s")
  have i: "input_inv s'" using apply_event_inv [OF Cons.prems, of e n] by (simp add: e)
  note IH = Cons.IH [OF i]
  show ?case
  proof (cases ok)
    case False
    then have "s' = s" using apply_event_refused [of e n s] by (simp add: e)
    with False IH show ?thesis by (simp add: e split_beta Let_def)
  next
    case True
    then have e': "apply_event e n s = (True, s')" by (simp add: e)
    show ?thesis
    proof (cases "is_button e")
      case True
      note b = apply_event_button [OF Cons.prems e' True]
      show ?thesis
        using IH b(1,2) b(3) [of b] b(4) True
        by (cases "ev_button e = b") (auto simp: e' split_beta Let_def buttons_of_def pointers_of_def)
    next
      case False
      note p = apply_event_pointer [OF e' False]
      show ?thesis
        using IH p False by (auto simp: e' split_beta Let_def buttons_of_def pointers_of_def)
    qed
  qed
qed

lemma queue_run_counts:
  "iq_pushed (snd (queue_run iq_push iq_pop ops q)) =
     iq_pushed q + of_nat (length (taken (fst (queue_run iq_push iq_pop ops q)))) \<and>
   iq_popped (snd (queue_run iq_push iq_pop ops q)) =
     iq_popped q + of_nat (length (got (fst (queue_run iq_push iq_pop ops q)))) \<and>
   iq_dropped (snd (queue_run iq_push iq_pop ops q)) =
     iq_dropped q + of_nat (length (refused (fst (queue_run iq_push iq_pop ops q)))) \<and>
   iq_flushed (snd (queue_run iq_push iq_pop ops q)) = iq_flushed q"
proof (induction ops arbitrary: q)
  case (Cons op ops)
  show ?case
  proof (cases op)
    case (Push e)
    show ?thesis
      using Cons.IH [of "snd (iq_push e q)"]
      by (cases "iq_count q = kInputCapacity") (auto simp: Push iq_push_def split_beta Let_def)
  next
    case Pop
    show ?thesis
      using Cons.IH [of "snd (iq_pop q)"]
      by (cases "iq_count q = 0") (auto simp: Pop iq_pop_def split_beta Let_def)
  qed
qed simp

section \<open>The properties\<close>

text \<open>
  The input queue keeps its events in order and accounts for every one. Over any pushes and
  pops the events popped, then those still queued, are the accepted ones in the order they
  came; the four counters are the numbers of accepted, popped and refused events and what
  \<open>clear\<close> discarded, each modulo \<open>2 ^ 32\<close>.
\<close>

theorem input_queue_accounts:
  "let (answers, q) = queue_run iq_push iq_pop ops new_input_queue
   in got answers @ iq_abs q = taken answers \<and> iq_count q \<le> kInputCapacity \<and>
      iq_pushed q = of_nat (length (taken answers)) \<and> iq_popped q = of_nat (length (got answers)) \<and>
      iq_dropped q = of_nat (length (refused answers)) \<and>
      iq_peek q = (case iq_abs q of [] \<Rightarrow> None | e # _ \<Rightarrow> Some e) \<and>
      iq_abs (iq_clear q) = [] \<and> iq_flushed (iq_clear q) = of_nat (length (iq_abs q))"
proof -
  obtain as q where r: "queue_run iq_push iq_pop ops new_input_queue = (as, q)"
    by (cases "queue_run iq_push iq_pop ops new_input_queue")
  have i: "iq_inv q" using iq.queue_run_inv [OF new_input_queue_inv, of ops] by (simp add: r)
  show ?thesis
    using iq.queue_run_order [OF new_input_queue_inv, of ops] iq_inv_bound [OF i]
      queue_run_counts [of ops new_input_queue] iq_peek_head [OF i]
    by (simp add: r new_input_queue_fields iq_clear_def) (simp add: iq_abs_def)
qed

text \<open>
  C23. What \<open>InputState\<close> accepts is always a sensible history. From the start, whatever events
  arrive, the accepted events of each button alternate press and release by the same origin,
  those of the pointer are gestures of one finger (down, moves, up), and what the state reports
  as held afterwards is what that history leaves held. No accepted event names a button past
  the profile.
\<close>

theorem input_state_histories:
  "let (accepted, s) = run_input n events new_input_state
   in stroke None (buttons_of b accepted) = Some (holder b s) \<and>
      gesture None (pointers_of accepted) = Some (finger s) \<and>
      list_all (\<lambda>e. ev_button e < min n kMaxButtons) (buttons_of b accepted)"
proof -
  have "holder b new_input_state = None" "finger new_input_state = None"
    by (auto simp: holder_def finger_def new_input_state_def button_down_def button_index)
  then show ?thesis
    using run_input_shape [OF new_input_state_inv, where b = b and n = n and es = events]
    by (simp add: split_beta list_all_iff)
qed

text \<open>
  \<open>release_all\<close> lifts exactly what the origin holds. The events it queues are, one per
  returned count, the ones that lead from the old state to the new one; what they lift and
  what stays held add up to what was held; nothing another origin holds changes; and
  something stays held only when the queue is full.
\<close>

theorem release_all_lifts_exactly:
  assumes "input_inv s" and "iq_inv q" and "release_all origin t s q = (written, s', q')"
  shows "let ups = drop (iq_count q) (iq_abs q')
    in iq_abs q' = iq_abs q @ ups \<and> length ups = written \<and>
       run_input kMaxButtons ups s = (ups, s') \<and>
       written + held_count origin s' = held_count origin s \<and>
       (p \<noteq> origin \<longrightarrow> held_count p s' = held_count p s) \<and>
       (held_count origin s' = 0 \<or> iq_count q' = kInputCapacity) \<and> input_inv s' \<and> iq_inv q'"
proof -
  note r = release_all_releases [OF assms]
  from r(1) obtain ups where u: "iq_abs q' = iq_abs q @ ups" "written = length ups"
    "run_input kMaxButtons ups s = (ups, s')" by (auto simp: releases_def)
  then have "drop (iq_count q) (iq_abs q') = ups" by simp
  with u r show ?thesis by (auto simp: releases_def)
qed

theorem release_all_lifts_exactly_witness:
  "let s = snd (run_input 2 [blank_event\<lparr>ev_type := ButtonDown, ev_origin := Remote, ev_button := 1\<rparr>,
       blank_event\<lparr>ev_type := ButtonDown\<rparr>,
       blank_event\<lparr>ev_type := PointerDown, ev_origin := Remote, ev_x := 40\<rparr>] new_input_state);
     (written, s', q') = release_all Remote 9 s new_input_queue
   in written = 2 \<and> written + held_count Remote s' = held_count Remote s \<and>
      held_count Physical s' = held_count Physical s \<and> length (iq_abs q') = 2"
proof -
  define s where "s = snd (run_input 2 [blank_event\<lparr>ev_type := ButtonDown, ev_origin := Remote, ev_button := 1\<rparr>,
       blank_event\<lparr>ev_type := ButtonDown\<rparr>,
       blank_event\<lparr>ev_type := PointerDown, ev_origin := Remote, ev_x := 40\<rparr>] new_input_state)"
  obtain w s' q' where r: "release_all Remote 9 s new_input_queue = (w, s', q')"
    by (cases "release_all Remote 9 s new_input_queue")
  have "input_inv s" unfolding s_def
    using run_input_shape [OF new_input_state_inv] by blast
  note c = release_all_lifts_exactly [OF this new_input_queue_inv r, of Physical]
  have "fst (release_all Remote 9 s new_input_queue) = 2" unfolding s_def by code_simp
  then have "w = 2" by (simp add: r)
  with c show ?thesis
    unfolding s_def [symmetric] by (simp add: r Let_def new_input_queue_fields)
qed

end
