(* ===== verification/Clock.thy ===== *)
theory Clock
  imports Attadipa_Prelude "HOL-Library.Signed_Division"
begin

text \<open>
  The two clocks of \<open>core/include/attadipa/core/clock.h\<close>: the monotonic one, whose
  differences saturate at the largest 32-bit number of milliseconds and never go negative, and
  the wall clock in seconds, with the calendar in integers.

  \<open>Millis\<close> and \<open>MonotonicTime\<close> are 32- and 64-bit words. A \<open>WallTime\<close> is an \<open>int\<close> in the
  range of \<open>std::int64_t\<close>; C++'s division of signed integers truncates, which is \<open>sdiv\<close> and
  \<open>smod\<close>. The \<open>unsigned\<close> fields of a civil time are naturals: the one subtraction that could
  wrap, \<open>day - 1\<close>, is only reached with \<open>day\<close> at least 1.
\<close>

section \<open>Elapsed time\<close>

type_synonym millis = u32
type_synonym monotonic = u64
type_synonym wall_time = int

definition elapsed :: "monotonic \<Rightarrow> monotonic \<Rightarrow> millis" where
  "elapsed from to = (if to \<le> from then 0 else clamp_u32 (to - from))"

definition add_millis :: "monotonic \<Rightarrow> millis \<Rightarrow> monotonic" where
  "add_millis at d = at + ucast d"

lemma unat_elapsed [unat_rules]: "unat (elapsed from to) = min (unat to - unat from) (2 ^ 32 - 1)"
proof (cases "to \<le> from")
  case True
  then show ?thesis by (simp add: elapsed_def word_le_nat_alt)
next
  case False
  then have "from \<le> to" by simp
  with False show ?thesis by (simp add: elapsed_def unat_clamp_u32 unat_sub_le)
qed

lemma elapsed_same [simp]: "elapsed t t = 0"
  by (simp add: elapsed_def)

lemma elapsed_mono: "t \<le> u \<Longrightarrow> elapsed from t \<le> elapsed from u"
  by (simp add: word_le_unat unat_elapsed min_le_iff_disj) linarith

section \<open>The wall clock\<close>

definition i64_min :: int where "i64_min = - (2 ^ 63)"
definition i64_max :: int where "i64_max = 2 ^ 63 - 1"

definition is_i64 :: "int \<Rightarrow> bool" where
  "is_i64 x \<longleftrightarrow> i64_min \<le> x \<and> x \<le> i64_max"

definition seconds_between :: "wall_time \<Rightarrow> wall_time \<Rightarrow> u64" where
  "seconds_between a b =
     (let first = word_of_int a; second = word_of_int b
      in if a < b then second - first else first - second)"

lemma uint_seconds_between:
  assumes "is_i64 a" and "is_i64 b"
  shows "uint (seconds_between a b) = \<bar>a - b\<bar>"
proof -
  have *: "uint (word_of_int x - word_of_int y :: u64) = x - y" if "y \<le> x" "is_i64 x" "is_i64 y" for x y
  proof -
    have "uint (word_of_int x - word_of_int y :: u64) = (x - y) mod 2 ^ 64"
      unfolding wi_hom_sub uint_word_of_int by simp
    also have "\<dots> = x - y" using that by (simp add: is_i64_def i64_min_def i64_max_def)
    finally show ?thesis .
  qed
  show ?thesis using assms by (auto simp: seconds_between_def Let_def *)
qed

section \<open>The calendar\<close>

record civil_time =
  year :: int
  month :: nat
  day :: nat
  weekday :: nat
  hour :: nat
  minute :: nat
  second :: nat

definition is_leap_year :: "int \<Rightarrow> bool" where
  "is_leap_year y \<longleftrightarrow> y smod 4 = 0 \<and> (y smod 100 \<noteq> 0 \<or> y smod 400 = 0)"

definition days_in_month :: "int \<Rightarrow> nat \<Rightarrow> nat" where
  "days_in_month y m =
     (if m = 0 \<or> m > 12 then 0
      else if m = 2 \<and> is_leap_year y then 29
      else [31, 28, 31, 30, 31, 30, 31, 31, 30, 31, 30, 31] ! (m - 1))"

definition days_from_civil :: "int \<Rightarrow> nat \<Rightarrow> nat \<Rightarrow> int" where
  "days_from_civil year0 m d =
     (let y = year0 - (if m \<le> 2 then 1 else 0);
          era = (if y \<ge> 0 then y else y - 399) sdiv 400;
          yoe = nat (y - era * 400);
          doy = (153 * (if m > 2 then m - 3 else m + 9) + 2) div 5 + d - 1;
          doe = yoe * 365 + yoe div 4 - yoe div 100 + doy
      in era * 146097 + int doe - 719468)"

definition civil_from_wall_time :: "wall_time \<Rightarrow> bool \<times> civil_time" where
  "civil_from_wall_time t =
     (let days0 = t sdiv 86400;
          seconds0 = t smod 86400;
          (days, seconds) = (if seconds0 < 0 then (days0 - 1, seconds0 + 86400) else (days0, seconds0));
          shifted = days + 719468;
          era = (if shifted \<ge> 0 then shifted else shifted - 146096) sdiv 146097;
          doe = nat (shifted - era * 146097);
          yoe = (doe - doe div 1460 + doe div 36524 - doe div 146096) div 365;
          y = int yoe + era * 400;
          doy = doe - (365 * yoe + yoe div 4 - yoe div 100);
          mp = (5 * doy + 2) div 153;
          d = doy - (153 * mp + 2) div 5 + 1;
          m = (if mp < 10 then mp + 3 else mp - 9);
          y' = y + (if m \<le> 2 then 1 else 0);
          weekday0 = (days + 4) smod 7;
          w = (if weekday0 < 0 then weekday0 + 7 else weekday0)
      in (1 \<le> y' \<and> y' \<le> 9999,
          \<lparr>year = y', month = m, day = d, weekday = nat w, hour = nat (seconds sdiv 3600),
           minute = nat ((seconds sdiv 60) smod 60), second = nat (seconds smod 60)\<rparr>))"

definition wall_time_from_civil :: "civil_time \<Rightarrow> wall_time option" where
  "wall_time_from_civil c =
     (if year c < 1 \<or> year c > 9999 \<or> day c = 0 \<or> day c > days_in_month (year c) (month c) \<or>
         hour c > 23 \<or> minute c > 59 \<or> second c > 59
      then None
      else Some (days_from_civil (year c) (month c) (day c) * 86400 +
                 int (hour c * 3600 + minute c * 60 + second c)))"

subsection \<open>Truncating division where the code repairs it\<close>

lemma sdiv_pos: "0 < n \<Longrightarrow> k sdiv n = (if 0 \<le> k then k div n else - ((- k) div n))" for k n :: int
  by (auto simp: signed_divide_int_def sgn_if)

lemma floor_repair:
  fixes k n :: int
  assumes "0 < n" and j: "j = n - 1"
  shows "(if k \<ge> 0 then k else k - j) sdiv n = k div n"
proof (cases "k \<ge> 0")
  case False
  have "- ((n - 1 - k) div n) = k div n"
  proof -
    obtain q r where k: "k = q * n + r" "0 \<le> r" "r < n"
      using assms by (metis div_mult_mod_eq pos_mod_bound pos_mod_sign)
    have "(n - 1 - k) div n = (- q) + (n - 1 - r) div n"
    proof -
      have "n - 1 - k = (n - 1 - r) + (- q) * n" using k(1) by (simp add: algebra_simps)
      then have "(n - 1 - k) div n = ((n - 1 - r) + (- q) * n) div n" by (rule arg_cong)
      also have "\<dots> = (- q) + (n - 1 - r) div n" using assms by (intro div_mult_self1) simp
      finally show ?thesis .
    qed
    also have "(n - 1 - r) div n = 0" using k assms by (simp add: div_pos_pos_trivial)
    finally show ?thesis using k assms by (simp add: div_pos_pos_trivial)
  qed
  with False assms(1) show ?thesis by (simp add: sdiv_pos j)
qed (use assms in \<open>simp add: sdiv_pos\<close>)

lemma smod_zero_iff: "0 < n \<Longrightarrow> k smod n = 0 \<longleftrightarrow> k mod n = 0" for k n :: int
  by (simp add: signed_modulo_int_def sgn_if mod_eq_0_iff_dvd)

lemma smod_repair:
  fixes k n :: int
  assumes "0 < n"
  shows "(if k smod n < 0 then k smod n + n else k smod n) = k mod n"
    and "(if k smod n < 0 then k sdiv n - 1 else k sdiv n) = k div n"
proof -
  have e: "k smod n = k - k sdiv n * n"
    by (simp add: minus_sdiv_mult_eq_smod)
  have neg: "- ((- k) div n) = (if k mod n = 0 then k div n else k div n + 1)" if "k < 0"
    using assms by (simp add: zdiv_zminus1_eq_if)
  obtain d r where d: "d = k div n" and r: "r = k mod n" by simp
  have k: "k = r + d * n" by (simp add: d r)
  have b: "0 \<le> r" "r < n" using assms by (simp_all add: r)
  have q: "k sdiv n = (if k < 0 \<and> r \<noteq> 0 then d + 1 else d)"
    using assms neg by (auto simp: sdiv_pos d r)
  have s: "k smod n = (if k < 0 \<and> r \<noteq> 0 then r - n else r)"
    unfolding e q by (simp add: k algebra_simps)
  show "(if k smod n < 0 then k smod n + n else k smod n) = k mod n"
    "(if k smod n < 0 then k sdiv n - 1 else k sdiv n) = k div n"
    using b by (auto simp: q s simp flip: d r)
qed

subsection \<open>Days and years of an era\<close>

text \<open>
  A day of the 400-year era, split into centuries, four-year blocks, years and the day of the
  year counted from March. Day 365 exists only in the last year of a block, and not in the
  last block of a century that is not the last.
\<close>

definition era_day :: "nat \<Rightarrow> nat \<Rightarrow> nat \<Rightarrow> nat \<Rightarrow> bool" where
  "era_day q b t doy \<longleftrightarrow> q \<le> 3 \<and> b \<le> 24 \<and> t \<le> 3 \<and> doy \<le> 365 \<and>
     (doy = 365 \<longrightarrow> t = 3 \<and> (b < 24 \<or> q = 3))"

definition yoe_of :: "nat \<Rightarrow> nat" where
  "yoe_of doe = (doe - doe div 1460 + doe div 36524 - doe div 146096) div 365"

lemma div_eqI: "n * q \<le> m \<Longrightarrow> m < n * q + n \<Longrightarrow> m div n = q" for m n q :: nat
  by (metis add.commute div_nat_eqI mult.commute mult_Suc)

lemma era_day_exists:
  assumes "doe < 146097"
  obtains q b t doy where "era_day q b t doy" "doe = 36524 * q + 1461 * b + 365 * t + doy"
proof -
  define q where "q = min (doe div 36524) 3"
  define r where "r = doe - 36524 * q"
  have r: "doe = 36524 * q + r" "r \<le> 36524" "q < 3 \<longrightarrow> r < 36524" "q \<le> 3"
  proof -
    obtain k m where k: "k = doe div 36524" "doe = 36524 * k + m" "m < 36524"
      by (metis div_mult_mod_eq mod_less_divisor mult.commute zero_less_numeral)
    have "k \<le> 4" using k(2) assms by linarith
    show "doe = 36524 * q + r" "r \<le> 36524" "q < 3 \<longrightarrow> r < 36524" "q \<le> 3"
      using k(2,3) assms \<open>k \<le> 4\<close> unfolding r_def q_def k(1) [symmetric] by (auto simp: min_def)
  qed
  define b where "b = r div 1461"
  define s where "s = r mod 1461"
  have s: "r = 1461 * b + s" "s \<le> 1460" "b \<le> 24"
  proof -
    show "r = 1461 * b + s" by (simp add: b_def s_def)
    show "s \<le> 1460" using mod_less_divisor [of 1461 r] unfolding s_def by linarith
    then show "b \<le> 24" using r(2) \<open>r = 1461 * b + s\<close> by linarith
  qed
  define t where "t = min (s div 365) 3"
  define doy where "doy = s - 365 * t"
  have t: "s = 365 * t + doy" "t \<le> 3" "doy \<le> 365" "doy = 365 \<longrightarrow> t = 3 \<and> s = 1460"
  proof -
    obtain k m where k: "k = s div 365" "s = 365 * k + m" "m < 365"
      by (metis div_mult_mod_eq mod_less_divisor mult.commute zero_less_numeral)
    have "k \<le> 4" using k(2) s(2) by linarith
    show "s = 365 * t + doy" "t \<le> 3" "doy \<le> 365" "doy = 365 \<longrightarrow> t = 3 \<and> s = 1460"
      using k(2,3) s(2) \<open>k \<le> 4\<close> unfolding doy_def t_def k(1) [symmetric] by (auto simp: min_def)
  qed
  have "era_day q b t doy" using r s t unfolding era_day_def by auto
  with r s t that show ?thesis by simp
qed

lemma yoe_of_era_day:
  assumes "era_day q b t doy" and d: "doe = 36524 * q + 1461 * b + 365 * t + doy"
  shows "yoe_of doe = 100 * q + 4 * b + t"
proof -
  note e = assms(1) [unfolded era_day_def]
  define s where "s = 365 * t + doy"
  have s: "s \<le> 1460" "doe = 36524 * q + 1461 * b + s" using e d by (auto simp: s_def)
  have c: "doe div 36524 - doe div 146096 = q" "doe div 146096 \<le> doe div 36524"
  proof -
    have le: "1461 * b + s \<le> 36524" using e s by (auto simp: s_def)
    show "doe div 36524 - doe div 146096 = q"
    proof (cases "1461 * b + s = 36524")
      case True
      then have "s = 1460" "b = 24" using e s(1) by linarith+
      then have "doy = 365" using e unfolding s_def by linarith
      with \<open>b = 24\<close> e have "q = 3" by simp
      with True s show ?thesis by simp
    next
      case False
      then have "doe div 36524 = q" "doe div 146096 = 0"
        using le s(2) e by (auto intro!: div_eqI)
      then show ?thesis by simp
    qed
    show "doe div 146096 \<le> doe div 36524" by (intro div_le_mono2) simp_all
  qed
  define f where "f = (24 * q + b + s) div 1460"
  have f: "doe div 1460 = 25 * q + b + f"
  proof -
    have "doe = (24 * q + b + s) + (25 * q + b) * 1460" using s(2) by simp
    then have "doe div 1460 = ((24 * q + b + s) + (25 * q + b) * 1460) div 1460" by (rule arg_cong)
    then show ?thesis unfolding f_def by simp
  qed
  have f1: "f = 0 \<and> 24 * q + b + s < 1460 \<or> f = 1 \<and> 24 * q + b + s \<ge> 1460"
    using e s(1) unfolding f_def by (cases "24 * q + b + s < 1460") (auto intro!: div_eqI)
  have "doe - doe div 1460 + doe div 36524 - doe div 146096 = 36500 * q + 1460 * b + (s - f)"
  proof -
    obtain A B where ab: "doe div 36524 = A" "doe div 146096 = B" "A = q + B"
      using c by (metis le_add_diff_inverse2)
    have "f \<le> s" using f1 e by linarith
    then have "doe = (36499 * q + 1460 * b + (s - f)) + (25 * q + b + f)" using s(2) by simp
    then show ?thesis unfolding f ab(1,2) ab(3) by simp
  qed
  then have "yoe_of doe = (36500 * q + 1460 * b + (s - f)) div 365" by (simp add: yoe_of_def)
  also have "\<dots> = 100 * q + 4 * b + t"
    using f1 e unfolding s_def by (intro div_eqI) auto
  finally show ?thesis .
qed

lemma leap_days_era_day:
  assumes "era_day q b t doy" and "yoe = 100 * q + 4 * b + t"
  shows "365 * yoe + yoe div 4 - yoe div 100 = 36524 * q + 1461 * b + 365 * t"
    and "yoe * 365 + yoe div 4 - yoe div 100 = 36524 * q + 1461 * b + 365 * t"
proof -
  have "yoe div 4 = 25 * q + b" "yoe div 100 = q"
    using assms by (auto simp: era_day_def intro!: div_eqI)
  then show "365 * yoe + yoe div 4 - yoe div 100 = 36524 * q + 1461 * b + 365 * t"
    "yoe * 365 + yoe div 4 - yoe div 100 = 36524 * q + 1461 * b + 365 * t"
    using assms(2) by simp_all
qed

subsection \<open>Months of a year counted from March\<close>

definition month_slot :: "nat \<Rightarrow> nat" where
  "month_slot m = (if m > 2 then m - 3 else m + 9)"

definition slot_month :: "nat \<Rightarrow> nat" where
  "slot_month mp = (if mp < 10 then mp + 3 else mp - 9)"

definition longest_month :: "nat \<Rightarrow> nat" where
  "longest_month m = [31, 29, 31, 30, 31, 30, 31, 31, 30, 31, 30, 31] ! (m - 1)"

lemma upto_eleven: "mp \<le> 11 \<Longrightarrow> mp = 0 \<or> mp = 1 \<or> mp = 2 \<or> mp = 3 \<or> mp = 4 \<or> mp = 5 \<or> mp = 6 \<or>
    mp = 7 \<or> mp = 8 \<or> mp = 9 \<or> mp = 10 \<or> mp = (11::nat)"
  by presburger

lemma month_of_doy:
  assumes "doy \<le> 365" and mp: "mp = (5 * doy + 2) div 153" and d: "d = doy - (153 * mp + 2) div 5 + 1"
  shows "mp \<le> 11" and "(153 * mp + 2) div 5 + d - 1 = doy" and "1 \<le> d"
    and "d \<le> longest_month (slot_month mp)" and "mp = 11 \<and> d = 29 \<longleftrightarrow> doy = 365"
proof -
  have b: "153 * mp \<le> 5 * doy + 2" "5 * doy + 2 < 153 * mp + 153"
    using mp by (simp_all add: dividend_less_times_div)
  show m: "mp \<le> 11" using b assms(1) by linarith
  show "1 \<le> d" by (simp add: d)
  have "153 * mp + 2 \<le> 5 * doy + 4" using b(1) by linarith
  then have "(153 * mp + 2) div 5 \<le> (5 * doy + 4) div 5" by (rule div_le_mono)
  also have "\<dots> = doy" by (intro div_eqI) auto
  finally show "(153 * mp + 2) div 5 + d - 1 = doy" using d by simp
  have "d \<le> longest_month (slot_month mp) \<and> (mp = 11 \<and> d = 29 \<longleftrightarrow> doy = 365)"
    using upto_eleven [OF m] b assms(1)
    by (elim disjE) (simp_all add: d slot_month_def longest_month_def, auto)
  then show "d \<le> longest_month (slot_month mp)" "mp = 11 \<and> d = 29 \<longleftrightarrow> doy = 365" by auto
qed

lemma doy_of_month:
  assumes "1 \<le> m" "m \<le> 12" "1 \<le> d" "d \<le> longest_month m"
    and mp: "mp = month_slot m" and doy: "doy = (153 * mp + 2) div 5 + d - 1"
  shows "doy \<le> 365" and "(5 * doy + 2) div 153 = mp" and "doy - (153 * mp + 2) div 5 + 1 = d"
    and "slot_month mp = m" and "doy = 365 \<longrightarrow> m = 2 \<and> d = 29"
proof -
  have *: "mp \<le> 11" "slot_month mp = m"
    using assms(1,2) by (auto simp: mp month_slot_def slot_month_def)
  show "slot_month mp = m" by (rule *)
  show "doy - (153 * mp + 2) div 5 + 1 = d" using doy assms(3) by simp
  have "doy \<le> 365 \<and> 153 * mp \<le> 5 * doy + 2 \<and> 5 * doy + 2 < 153 * mp + 153 \<and> (doy = 365 \<longrightarrow> m = 2 \<and> d = 29)"
    using upto_eleven [OF *(1)] *(2) assms(3,4) doy
    by (elim disjE) (simp_all add: slot_month_def longest_month_def, auto simp: slot_month_def longest_month_def)
  then show "doy \<le> 365" "(5 * doy + 2) div 153 = mp" "doy = 365 \<longrightarrow> m = 2 \<and> d = 29"
    by (auto intro!: div_eqI)
qed

lemma days_in_month_longest:
  "1 \<le> m \<Longrightarrow> m \<le> 12 \<Longrightarrow> d \<le> days_in_month y m \<longleftrightarrow>
     d \<le> longest_month m \<and> (m = 2 \<longrightarrow> d = 29 \<longrightarrow> is_leap_year y)"
proof -
  assume m: "1 \<le> m" "m \<le> 12"
  then obtain k where k: "m = Suc k" "k \<le> 11" by (cases m) auto
  then show ?thesis
    using upto_eleven [OF k(2)] by (elim disjE) (auto simp: days_in_month_def longest_month_def)
qed

subsection \<open>Both directions\<close>

lemma sdiv_smod_pos: "0 \<le> k \<Longrightarrow> 0 < n \<Longrightarrow> k sdiv n = k div n \<and> k smod n = k mod n" for k n :: int
  using smod_repair [of n k] by (auto simp: sdiv_pos signed_modulo_int_def sgn_if)

text \<open>\<open>civil_from_wall_time\<close> with every truncating division read as a floor.\<close>

lemma civil_from_wall_time_floor:
  "civil_from_wall_time t =
     (let days = t div 86400; seconds = t mod 86400; shifted = days + 719468;
          doe = nat (shifted mod 146097); yoe = yoe_of doe;
          doy = doe - (365 * yoe + yoe div 4 - yoe div 100);
          mp = (5 * doy + 2) div 153; m = slot_month mp;
          y = int yoe + shifted div 146097 * 400 + (if m \<le> 2 then 1 else 0)
      in (1 \<le> y \<and> y \<le> 9999,
          \<lparr>year = y, month = m, day = doy - (153 * mp + 2) div 5 + 1,
           weekday = nat ((days + 4) mod 7), hour = nat (seconds div 3600),
           minute = nat (seconds div 60 mod 60), second = nat (seconds mod 60)\<rparr>))"
proof -
  have p: "(if c then (a, b) else (a', b')) = (if c then a else a', if c then b else b')"
    for c and a a' b b' :: int by simp
  have d: "(if t smod 86400 < 0 then t sdiv 86400 - 1 else t sdiv 86400) = t div 86400"
    "(if t smod 86400 < 0 then t smod 86400 + 86400 else t smod 86400) = t mod 86400"
    by (rule smod_repair; simp)+
  have s: "(t mod 86400) sdiv 3600 = t mod 86400 div 3600" "(t mod 86400) sdiv 60 = t mod 86400 div 60"
    "(t mod 86400 div 60) smod 60 = t mod 86400 div 60 mod 60" "(t mod 86400) smod 60 = t mod 86400 mod 60"
    using sdiv_smod_pos [of "t mod 86400" 3600] sdiv_smod_pos [of "t mod 86400" 60]
      sdiv_smod_pos [of "t mod 86400 div 60" 60] by (simp_all add: pos_imp_zdiv_nonneg_iff)
  have w: "(if w smod 7 < 0 then w smod 7 + 7 else w smod 7) = w mod 7" for w :: int
    by (rule smod_repair) simp
  have e: "(if k \<ge> 0 then k else k - 146096) sdiv 146097 = k div 146097" for k :: int
    by (rule floor_repair) simp_all
  have m: "k - k div 146097 * 146097 = k mod 146097" for k :: int
    by (simp add: minus_div_mult_eq_mod)
  show ?thesis
    unfolding civil_from_wall_time_def p Let_def case_prod_conv d s w e m yoe_of_def slot_month_def
    by (rule refl)
qed

text \<open>What a day of an era, split by \<open>era_day\<close>, is in the calendar.\<close>

lemma civil_from_era_day:
  assumes "era_day q b k doy" and s: "t div 86400 + 719468 = era * 146097 + int (36524 * q + 1461 * b + 365 * k + doy)"
    and mp: "mp = (5 * doy + 2) div 153" and y: "y = int (100 * q + 4 * b + k) + era * 400 + (if slot_month mp \<le> 2 then 1 else 0)"
  shows "civil_from_wall_time t =
    (1 \<le> y \<and> y \<le> 9999,
     \<lparr>year = y, month = slot_month mp, day = doy - (153 * mp + 2) div 5 + 1,
      weekday = nat ((t div 86400 + 4) mod 7), hour = nat (t mod 86400 div 3600),
      minute = nat (t mod 86400 div 60 mod 60), second = nat (t mod 86400 mod 60)\<rparr>)"
proof -
  let ?doe = "36524 * q + 1461 * b + 365 * k + doy"
  have l: "?doe < 146097" using assms(1) by (auto simp: era_day_def)
  then have m: "(era * 146097 + int ?doe) mod 146097 = int ?doe" "(era * 146097 + int ?doe) div 146097 = era"
    by (auto simp: div_pos_pos_trivial)
  note yoe = yoe_of_era_day [OF assms(1) refl]
  note doy = leap_days_era_day [OF assms(1) refl]
  show ?thesis
    unfolding civil_from_wall_time_floor s Let_def m nat_int yoe doy
    by (simp add: y mp)
qed

lemma days_from_era_day:
  assumes "era_day q b k doy" and y: "y - (if m \<le> 2 then 1 else 0) = era * 400 + int (100 * q + 4 * b + k)"
    and doy: "(153 * month_slot m + 2) div 5 + d - 1 = doy"
  shows "days_from_civil y m d = era * 146097 + int (36524 * q + 1461 * b + 365 * k + doy) - 719468"
proof -
  let ?yoe = "100 * q + 4 * b + k"
  have l: "?yoe < 400" using assms(1) by (auto simp: era_day_def)
  have e: "(if x \<ge> 0 then x else x - 399) sdiv 400 = x div 400" for x :: int
    by (rule floor_repair) simp_all
  have q: "(era * 400 + int ?yoe) div 400 = era" using l by (auto simp: div_pos_pos_trivial)
  have mp: "(if m > 2 then m - 3 else m + 9) = month_slot m" by (simp add: month_slot_def)
  have n: "nat (era * 400 + int ?yoe - era * 400) = ?yoe" by simp
  show ?thesis
    unfolding days_from_civil_def Let_def y e q mp doy n leap_days_era_day [OF assms(1) refl] by simp
qed

lemma time_of_day:
  fixes s :: int
  assumes "0 \<le> s" and "s < 86400"
  shows "int (nat (s div 3600) * 3600 + nat (s div 60 mod 60) * 60 + nat (s mod 60)) = s"
    and "nat (s div 3600) \<le> 23" and "nat (s div 60 mod 60) \<le> 59" and "nat (s mod 60) \<le> 59"
proof -
  have h: "s div 3600 = s div 60 div 60" by (simp add: zdiv_zmult2_eq [symmetric])
  have m: "s div 60 = 60 * (s div 60 div 60) + s div 60 mod 60" "s = 60 * (s div 60) + s mod 60"
    by simp_all
  have "0 \<le> s div 60" "0 \<le> s div 60 div 60" using assms by (simp_all add: pos_imp_zdiv_nonneg_iff)
  then have "int (nat (s div 3600) * 3600 + nat (s div 60 mod 60) * 60 + nat (s mod 60)) =
      s div 60 div 60 * 3600 + s div 60 mod 60 * 60 + s mod 60" by (simp add: h)
  also have "\<dots> = s" using m by linarith
  finally show "int (nat (s div 3600) * 3600 + nat (s div 60 mod 60) * 60 + nat (s mod 60)) = s" .
  show "nat (s div 3600) \<le> 23" using assms by linarith
  have "s div 60 mod 60 < 60" "s mod 60 < 60" by simp_all
  then show "nat (s div 60 mod 60) \<le> 59" "nat (s mod 60) \<le> 59" by linarith+
qed

lemma is_leap_year_floor: "is_leap_year y \<longleftrightarrow> y mod 4 = 0 \<and> (y mod 100 \<noteq> 0 \<or> y mod 400 = 0)"
  by (simp add: is_leap_year_def smod_zero_iff)

lemma leap_year_of_block:
  assumes "b \<le> 24" and "q \<le> 3" and "b < 24 \<or> q = 3"
  shows "is_leap_year (int (100 * q + 4 * b + 3) + era * 400 + 1)"
proof (cases "b < 24")
  case True
  define k where "k = 4 * int b + 4"
  have y: "int (100 * q + 4 * b + 3) + era * 400 + 1 = k + (era * 4 + int q) * 100"
    "int (100 * q + 4 * b + 3) + era * 400 + 1 = (int b + 1 + era * 100 + int q * 25) * 4"
    by (simp_all add: k_def)
  have "(k + (era * 4 + int q) * 100) mod 100 = k mod 100" by (rule mod_mult_self1)
  moreover have "k mod 100 = k" using True by (simp add: k_def)
  ultimately have "(int (100 * q + 4 * b + 3) + era * 400 + 1) mod 100 \<noteq> 0"
    unfolding y(1) by (simp add: k_def)
  moreover have "(int (100 * q + 4 * b + 3) + era * 400 + 1) mod 4 = 0"
    unfolding y(2) by (rule mod_mult_self2_is_0)
  ultimately show ?thesis by (simp only: is_leap_year_floor) simp
next
  case False
  then have y: "int (100 * q + 4 * b + 3) + era * 400 + 1 = (era + 1) * 400"
    "int (100 * q + 4 * b + 3) + era * 400 + 1 = ((era + 1) * 100) * 4" using assms by simp_all
  have "(int (100 * q + 4 * b + 3) + era * 400 + 1) mod 400 = 0" unfolding y(1) by (rule mod_mult_self2_is_0)
  moreover have "(int (100 * q + 4 * b + 3) + era * 400 + 1) mod 4 = 0" unfolding y(2) by (rule mod_mult_self2_is_0)
  ultimately show ?thesis by (simp only: is_leap_year_floor) simp
qed

lemma block_of_leap_year:
  assumes "is_leap_year y" and y: "y - 1 = era * 400 + int (100 * q + 4 * b + k)"
    and "q \<le> 3" "b \<le> 24" "k \<le> 3"
  shows "k = 3 \<and> (b < 24 \<or> q = 3)"
proof -
  have y': "y = int k + 1 + 4 * (era * 100 + 25 * int q + int b)" using y by simp
  have "y mod 4 = (int k + 1) mod 4" unfolding y' by (rule mod_mult_self2)
  then have k: "k = 3" using assms(1,5) by (auto simp: is_leap_year_floor le_Suc_eq numeral_3_eq_3)
  have "q = 3" if b: "b = 24"
  proof -
    have e: "y = (int q + 1) * 100 + era * 400" using y b k by simp
    then have "y = 0 + (int q + 1 + era * 4) * 100" by simp
    then have "y mod 100 = 0" by (metis mod_mult_self1 mod_0)
    then have "y mod 400 = 0" using assms(1) by (simp add: is_leap_year_floor)
    moreover have "y mod 400 = ((int q + 1) * 100) mod 400" unfolding e by simp
    ultimately show ?thesis using assms(3) by (auto simp: le_Suc_eq numeral_3_eq_3)
  qed
  with k assms(4) show ?thesis by (cases "b = 24") auto
qed

lemma civil_to_wall:
  assumes "civil_from_wall_time t = (True, c)"
  shows "wall_time_from_civil c = Some t"
proof -
  define s where "s = t div 86400 + 719468"
  define era where "era = s div 146097"
  obtain q b k doy where e: "era_day q b k doy" and n: "nat (s mod 146097) = 36524 * q + 1461 * b + 365 * k + doy"
    by (rule era_day_exists [of "nat (s mod 146097)"]) (simp add: nat_less_iff)
  have "int (nat (s mod 146097)) = s mod 146097" by simp
  then have s: "t div 86400 + 719468 = era * 146097 + int (36524 * q + 1461 * b + 365 * k + doy)"
    unfolding n s_def [symmetric] era_def by (metis div_mult_mod_eq)
  define mp where "mp = (5 * doy + 2) div 153"
  define d where "d = doy - (153 * mp + 2) div 5 + 1"
  define m where "m = slot_month mp"
  define y where "y = int (100 * q + 4 * b + k) + era * 400 + (if slot_month mp \<le> 2 then 1 else 0)"
  have doy: "doy \<le> 365" "doy = 365 \<longrightarrow> k = 3 \<and> (b < 24 \<or> q = 3)" "q \<le> 3" "b \<le> 24"
    using e by (simp_all add: era_day_def)
  note md = month_of_doy [OF doy(1) mp_def d_def]
  have m: "1 \<le> m" "m \<le> 12" "month_slot m = mp" "m = 2 \<longleftrightarrow> mp = 11"
    using md(1) by (auto simp: m_def slot_month_def month_slot_def)
  have c: "1 \<le> y \<and> y \<le> 9999"
    "c = \<lparr>year = y, month = m, day = d, weekday = nat ((t div 86400 + 4) mod 7),
       hour = nat (t mod 86400 div 3600), minute = nat (t mod 86400 div 60 mod 60),
       second = nat (t mod 86400 mod 60)\<rparr>"
    using assms civil_from_era_day [OF e s mp_def y_def] by (simp_all add: d_def m_def)
  have "m = 2 \<longrightarrow> d = 29 \<longrightarrow> is_leap_year y"
  proof (intro impI)
    assume "m = 2" "d = 29"
    then have "k = 3 \<and> (b < 24 \<or> q = 3)" using md(5) doy(2) m(4) by simp
    moreover have "slot_month mp = 2" using \<open>m = 2\<close> by (simp add: m_def)
    ultimately show "is_leap_year y" using leap_year_of_block [OF doy(4,3), of era] unfolding y_def by simp
  qed
  then have dm: "d \<le> days_in_month y m" "d \<noteq> 0"
    using md(3,4) m(1,2) by (auto simp: days_in_month_longest simp flip: m_def)
  have "days_from_civil y m d = t div 86400"
    using days_from_era_day [OF e, of y m era d] md(2) s by (simp add: m(3) y_def flip: m_def)
  moreover have "wall_time_from_civil c = Some (days_from_civil y m d * 86400 + t mod 86400)"
  proof -
    define u where "u = t mod 86400"
    have "0 \<le> u" "u < 86400" by (simp_all add: u_def)
    note u = time_of_day [OF this]
    show ?thesis
      using c(1) dm u(2-4) unfolding wall_time_from_civil_def c(2) u_def [symmetric] civil_time.simps u(1)
      by simp
  qed
  ultimately show ?thesis by simp
qed

lemma wall_to_civil:
  assumes "wall_time_from_civil c = Some t"
  shows "civil_from_wall_time t = (True, c\<lparr>weekday := nat ((t div 86400 + 4) mod 7)\<rparr>)"
proof -
  obtain y m d w h mi se where c: "c = \<lparr>year = y, month = m, day = d, weekday = w, hour = h, minute = mi, second = se\<rparr>"
    by (cases c) auto
  have v: "1 \<le> y" "y \<le> 9999" "d \<noteq> 0" "d \<le> days_in_month y m" "h \<le> 23" "mi \<le> 59" "se \<le> 59"
    and t: "t = days_from_civil y m d * 86400 + int (h * 3600 + mi * 60 + se)"
    using assms by (auto simp: wall_time_from_civil_def c split: if_splits)
  have m: "1 \<le> m" "m \<le> 12" using v(3,4) by (auto simp: days_in_month_def split: if_splits)
  define y' where "y' = y - (if m \<le> 2 then 1 else 0)"
  define era where "era = y' div 400"
  define yoe where "yoe = nat (y' mod 400)"
  define q where "q = yoe div 100"
  define b where "b = yoe mod 100 div 4"
  define k where "k = yoe mod 4"
  have qbk: "yoe = 100 * q + 4 * b + k" "q \<le> 3" "b \<le> 24" "k \<le> 3"
  proof -
    have "yoe mod 100 mod 4 = k" unfolding k_def by (simp add: mod_mod_cancel)
    then show "yoe = 100 * q + 4 * b + k" unfolding q_def b_def
      by (metis add.assoc div_mult_mod_eq mult.commute)
    have "yoe < 400" by (simp add: yoe_def nat_less_iff)
    then show "q \<le> 3" "b \<le> 24" "k \<le> 3" unfolding q_def b_def k_def by (auto simp: less_mult_imp_div_less div_le_mono)
  qed
  have y': "y' = era * 400 + int (100 * q + 4 * b + k)"
    unfolding qbk(1) [symmetric] era_def yoe_def by simp
  have d: "1 \<le> d" "d \<le> longest_month m" "m = 2 \<longrightarrow> d = 29 \<longrightarrow> is_leap_year y"
    using v(3,4) m by (simp_all add: days_in_month_longest)
  define doy where "doy = (153 * month_slot m + 2) div 5 + d - 1"
  note dm = doy_of_month [OF m d(1,2) refl doy_def]
  have e: "era_day q b k doy"
    using dm(1,5) d(3) block_of_leap_year [OF _ _ qbk(2-4), of y era] qbk y' by (auto simp: era_day_def y'_def)
  define D where "D = days_from_civil y m d"
  have D: "D = era * 146097 + int (36524 * q + 1461 * b + 365 * k + doy) - 719468"
    unfolding D_def using days_from_era_day [OF e _ doy_def [symmetric], of y era] y' by (simp add: y'_def)
  define s where "s = int (h * 3600 + mi * 60 + se)"
  have s: "0 \<le> s" "s < 86400" using v by (simp_all add: s_def)
  have ts: "t div 86400 = D" "t mod 86400 = s"
    using s unfolding t D_def [symmetric] s_def [symmetric] by (auto simp: div_pos_pos_trivial)
  have "(h * 3600 + mi * 60 + se) div 3600 = h" "(h * 3600 + mi * 60 + se) div 60 = h * 60 + mi"
    using v by (auto intro!: div_eqI)
  moreover have "(h * 3600 + mi * 60 + se) mod 60 = se"
  proof -
    have "h * 3600 + mi * 60 + se = se + (h * 60 + mi) * 60" by simp
    then have "(h * 3600 + mi * 60 + se) mod 60 = se mod 60" by (simp only: mod_mult_self1)
    with v show ?thesis by simp
  qed
  moreover have "(h * 60 + mi) mod 60 = mi" using v(6) by simp
  ultimately have n: "(h * 3600 + mi * 60 + se) div 3600 = h"
    "(h * 3600 + mi * 60 + se) div 60 mod 60 = mi" "(h * 3600 + mi * 60 + se) mod 60 = se" by simp_all
  have tod: "nat (s div 3600) = h" "nat (s div 60 mod 60) = mi" "nat (s mod 60) = se"
    unfolding s_def by (simp_all only: nat_div_distrib nat_mod_distrib nat_int of_nat_0_le_iff
        pos_imp_zdiv_nonneg_iff zero_less_numeral nat_numeral zero_le_numeral n)
  have "t div 86400 + 719468 = era * 146097 + int (36524 * q + 1461 * b + 365 * k + doy)"
    unfolding ts D by simp
  note r = civil_from_era_day [OF e this refl refl]
  have "int (100 * q + 4 * b + k) + era * 400 + (if m \<le> 2 then 1 else 0) = y"
    using y' by (simp add: y'_def split: if_splits)
  then have "civil_from_wall_time t = (1 \<le> y \<and> y \<le> 9999, c\<lparr>weekday := nat ((t div 86400 + 4) mod 7)\<rparr>)"
    unfolding r dm(2) dm(3) dm(4) ts tod c by simp
  with v show ?thesis by simp
qed

section \<open>The properties\<close>

text \<open>
  C28. The two calendar conversions are inverse to one another. A time whose civil form the code
  accepts (years 1 to 9999) converts back to the same second; a civil time the code accepts
  converts to a second whose civil form is that same date and time of day, with the weekday
  filled in; so two accepted civil times of the same second are the same date and time.
\<close>

theorem calendar_roundtrip:
  "(civil_from_wall_time t = (True, c) \<longrightarrow> wall_time_from_civil c = Some t) \<and>
   (wall_time_from_civil c' = Some t \<longrightarrow>
      civil_from_wall_time t = (True, c'\<lparr>weekday := nat ((t div 86400 + 4) mod 7)\<rparr>))"
  using civil_to_wall wall_to_civil by blast

theorem calendar_roundtrip_witness:
  "civil_from_wall_time 951782400 =
     (True, \<lparr>year = 2000, month = 2, day = 29, weekday = 2, hour = 0, minute = 0, second = 0\<rparr>) \<and>
   wall_time_from_civil \<lparr>year = 2000, month = 2, day = 29, weekday = 2, hour = 0, minute = 0, second = 0\<rparr>
     = Some 951782400"
proof -
  let ?c = "\<lparr>year = 2000, month = 2, day = 29, weekday = 0, hour = 0, minute = 0, second = 0\<rparr>"
  have "days_from_civil 2000 2 29 = 11016"
    by (simp add: days_from_civil_def Let_def sdiv_pos)
  moreover have "days_in_month 2000 2 = 29"
    by (simp add: days_in_month_def is_leap_year_def)
  ultimately have "wall_time_from_civil ?c = Some 951782400"
    by (simp add: wall_time_from_civil_def)
  then have *: "civil_from_wall_time 951782400 = (True, ?c\<lparr>weekday := nat ((951782400 div 86400 + 4) mod 7)\<rparr>)"
    using calendar_roundtrip by blast
  then show ?thesis using calendar_roundtrip [of 951782400 "?c\<lparr>weekday := 2\<rparr>"] by simp
qed

text \<open>
  The distance of two wall clocks is exact and symmetric for every pair of 64-bit times,
  the two ends of the range included: nothing overflows and no pair wraps.
\<close>

theorem seconds_between_exact:
  assumes "is_i64 a" and "is_i64 b"
  shows "uint (seconds_between a b) = \<bar>a - b\<bar> \<and> seconds_between a b = seconds_between b a"
proof -
  have "uint (seconds_between a b) = \<bar>a - b\<bar>" "uint (seconds_between b a) = \<bar>b - a\<bar>"
    by (rule uint_seconds_between; fact assms)+
  then show ?thesis by (simp add: abs_minus_commute word_uint_eq_iff)
qed

theorem seconds_between_exact_witness:
  "uint (seconds_between i64_min i64_max) = 18446744073709551615 \<and>
   seconds_between i64_min i64_max = seconds_between i64_max i64_min"
proof -
  have "is_i64 i64_min" "is_i64 i64_max" "\<bar>i64_min - i64_max\<bar> = 18446744073709551615"
    by (simp_all add: is_i64_def i64_min_def i64_max_def)
  then show ?thesis using seconds_between_exact [of i64_min i64_max] by metis
qed

end
