(* ===== verification/Link_State.thy ===== *)
theory Link_State
  imports Interfaces Clock
begin

text \<open>
  The transport-phase machine of \<open>link/include/attadipa/link/link_state.h\<close> and
  \<open>link/src/link_state.cpp\<close>, with the enumerations of
  \<open>core/include/attadipa/core/transport_state.h\<close>. Constructors that clash with another
  enumeration or with HOL carry a suffix (\<open>DisconnectReason::None\<close> is \<open>NoReason\<close>).
\<close>

section \<open>Phases, reasons and kinds\<close>

datatype transport_phase = Absent | Attached | Connecting | Ready | Suspended | Faulted

datatype disconnect_reason =
    NoReason | UnknownReason | PeerClosed | LivenessTimeout | ProtocolError | LocalRequest
  | SubsystemRestarted | FaultReason

datatype transport_kind = UnknownKind | Bluetooth | Usb | Uart | WifiTcp | EspNow

definition kTransportPhaseCount :: u8 where "kTransportPhaseCount = 6"

fun phase_to_string :: "transport_phase \<Rightarrow> string" where
  "phase_to_string Absent = ''Absent''"
| "phase_to_string Attached = ''Attached''"
| "phase_to_string Connecting = ''Connecting''"
| "phase_to_string Ready = ''Ready''"
| "phase_to_string Suspended = ''Suspended''"
| "phase_to_string Faulted = ''Faulted''"

fun reason_to_string :: "disconnect_reason \<Rightarrow> string" where
  "reason_to_string NoReason = ''None''"
| "reason_to_string UnknownReason = ''Unknown''"
| "reason_to_string PeerClosed = ''PeerClosed''"
| "reason_to_string LivenessTimeout = ''LivenessTimeout''"
| "reason_to_string ProtocolError = ''ProtocolError''"
| "reason_to_string LocalRequest = ''LocalRequest''"
| "reason_to_string SubsystemRestarted = ''SubsystemRestart''"
| "reason_to_string FaultReason = ''Fault''"

fun kind_to_string :: "transport_kind \<Rightarrow> string" where
  "kind_to_string UnknownKind = ''Unknown''"
| "kind_to_string Bluetooth = ''Bluetooth''"
| "kind_to_string Usb = ''Usb''"
| "kind_to_string Uart = ''Uart''"
| "kind_to_string WifiTcp = ''WifiTcp''"
| "kind_to_string EspNow = ''EspNow''"

datatype link_event =
    Attach | Detach | PeerArriving | PeerEstablished | PeerData | PeerGone | LocalClose | Fault
  | Suspend | Resume | SubsystemRestart

datatype event_outcome = Applied | Ignored | Redundant

fun event_to_string :: "link_event \<Rightarrow> string" where
  "event_to_string Attach = ''Attach''"
| "event_to_string Detach = ''Detach''"
| "event_to_string PeerArriving = ''PeerArriving''"
| "event_to_string PeerEstablished = ''PeerEstablished''"
| "event_to_string PeerData = ''PeerData''"
| "event_to_string PeerGone = ''PeerGone''"
| "event_to_string LocalClose = ''LocalClose''"
| "event_to_string Fault = ''Fault''"
| "event_to_string Suspend = ''Suspend''"
| "event_to_string Resume = ''Resume''"
| "event_to_string SubsystemRestart = ''SubsystemRestart''"

fun outcome_to_string :: "event_outcome \<Rightarrow> string" where
  "outcome_to_string Applied = ''Applied''"
| "outcome_to_string Ignored = ''Ignored''"
| "outcome_to_string Redundant = ''Redundant''"

section \<open>The machine\<close>

record link_config =
  lc_kind :: transport_kind
  lc_liveness :: millis
  lc_requires_establishment :: bool

definition default_link_config :: link_config where
  "default_link_config =
     \<lparr>lc_kind = UnknownKind, lc_liveness = 5000, lc_requires_establishment = True\<rparr>"

record link_state =
  ls_config :: link_config
  ls_phase :: transport_phase
  ls_before_suspend :: transport_phase
  ls_last_disconnect :: disconnect_reason
  ls_last_activity :: monotonic
  ls_epoch :: u32
  ls_sessions :: u32
  ls_ignored :: u32

definition new_link_state :: "link_config \<Rightarrow> link_state" where
  "new_link_state cfg =
     \<lparr>ls_config = cfg, ls_phase = Absent, ls_before_suspend = Absent, ls_last_disconnect = NoReason,
      ls_last_activity = 0, ls_epoch = 0, ls_sessions = 0, ls_ignored = 0\<rparr>"

definition is_live :: "transport_phase \<Rightarrow> bool" where
  "is_live p \<longleftrightarrow> p = Ready \<or> p = Connecting"

definition enter :: "transport_phase \<Rightarrow> monotonic \<Rightarrow> disconnect_reason \<Rightarrow> link_state \<Rightarrow> link_state" where
  "enter next now reason s =
     (if next = ls_phase s then s
      else
        let s1 = (if ls_phase s = Ready
                  then s\<lparr>ls_epoch := ls_epoch s + 1,
                         ls_last_disconnect := (if reason = NoReason then UnknownReason else reason)\<rparr>
                  else s);
            s2 = (if next = Ready
                  then s1\<lparr>ls_sessions := ls_sessions s1 + 1, ls_last_activity := now\<rparr>
                  else s1)
        in s2\<lparr>ls_phase := next\<rparr>)"

definition link_reset :: "link_state \<Rightarrow> link_state" where
  "link_reset s =
     s\<lparr>ls_phase := Absent, ls_before_suspend := Absent, ls_last_disconnect := SubsystemRestarted,
       ls_last_activity := 0, ls_epoch := ls_epoch s + 1\<rparr>"

definition ignore :: "link_state \<Rightarrow> event_outcome \<times> link_state" where
  "ignore s = (Ignored, s\<lparr>ls_ignored := ls_ignored s + 1\<rparr>)"

definition apply_link ::
  "link_event \<Rightarrow> monotonic \<Rightarrow> disconnect_reason \<Rightarrow> link_state \<Rightarrow> event_outcome \<times> link_state" where
  "apply_link event now reason s =
     (case event of
        Attach \<Rightarrow>
          if ls_phase s = Absent then (Applied, enter Attached now NoReason s)
          else if ls_phase s = Attached \<or> is_live (ls_phase s) then (Redundant, s)
          else ignore s
      | Detach \<Rightarrow>
          if ls_phase s = Absent then (Redundant, s) else (Applied, enter Absent now reason s)
      | PeerArriving \<Rightarrow>
          if ls_phase s \<noteq> Attached then ignore s else (Applied, enter Connecting now NoReason s)
      | PeerEstablished \<Rightarrow>
          if ls_phase s = Ready then (Redundant, s)
          else if ls_phase s \<noteq> Connecting \<and> ls_phase s \<noteq> Attached then ignore s
          else (Applied, (enter Ready now NoReason s)\<lparr>ls_last_activity := now\<rparr>)
      | PeerData \<Rightarrow>
          if ls_phase s = Ready then (Applied, s\<lparr>ls_last_activity := now\<rparr>)
          else if \<not> lc_requires_establishment (ls_config s) \<and>
                  (ls_phase s = Attached \<or> ls_phase s = Connecting)
          then (Applied, (enter Ready now NoReason s)\<lparr>ls_last_activity := now\<rparr>)
          else ignore s
      | PeerGone \<Rightarrow>
          if \<not> is_live (ls_phase s) then ignore s else (Applied, enter Attached now reason s)
      | LocalClose \<Rightarrow>
          if \<not> is_live (ls_phase s) then (Redundant, s)
          else (Applied, enter Attached now LocalRequest s)
      | Fault \<Rightarrow> (Applied, enter Faulted now FaultReason s)
      | Suspend \<Rightarrow>
          if ls_phase s = Suspended then (Redundant, s)
          else if ls_phase s = Absent \<or> ls_phase s = Faulted then ignore s
          else (Applied, enter Suspended now LocalRequest (s\<lparr>ls_before_suspend := ls_phase s\<rparr>))
      | Resume \<Rightarrow>
          if ls_phase s \<noteq> Suspended then ignore s
          else (Applied, enter (if ls_before_suspend s = Absent then Absent else Attached)
                           now LocalRequest s)
      | SubsystemRestart \<Rightarrow> (Applied, link_reset s))"

definition link_tick :: "monotonic \<Rightarrow> link_state \<Rightarrow> link_state" where
  "link_tick now s =
     (if ls_phase s \<noteq> Ready then s
      else if lc_liveness (ls_config s) = 0 then s
      else if elapsed (ls_last_activity s) now \<ge> lc_liveness (ls_config s)
      then enter Attached now LivenessTimeout s
      else s)"

text \<open>Everything a caller can do to a link.\<close>

datatype link_op = Event link_event monotonic disconnect_reason | Tick monotonic | Reset

fun link_step :: "link_op \<Rightarrow> link_state \<Rightarrow> link_state" where
  "link_step (Event e now r) s = snd (apply_link e now r s)"
| "link_step (Tick now) s = link_tick now s"
| "link_step Reset s = link_reset s"

definition resets :: "link_op \<Rightarrow> bool" where
  "resets op \<longleftrightarrow> (case op of Event e _ _ \<Rightarrow> e = SubsystemRestart | Tick _ \<Rightarrow> False | Reset \<Rightarrow> True)"

definition link_inv :: "link_state \<Rightarrow> bool" where
  "link_inv s \<longleftrightarrow>
     (ls_phase s = Suspended \<longrightarrow> ls_before_suspend s \<in> {Attached, Connecting, Ready})"

lemmas link_defs = apply_link_def link_tick_def link_reset_def enter_def ignore_def is_live_def
  resets_def Let_def

text \<open>The diagram: the phases one operation can lead to.\<close>

fun arrows :: "transport_phase \<Rightarrow> transport_phase set" where
  "arrows Absent = {Absent, Attached, Faulted}"
| "arrows Attached = {Attached, Absent, Connecting, Ready, Faulted, Suspended}"
| "arrows Connecting = {Connecting, Absent, Attached, Ready, Faulted, Suspended}"
| "arrows Ready = {Ready, Absent, Attached, Faulted, Suspended}"
| "arrows Suspended = {Suspended, Absent, Attached, Faulted}"
| "arrows Faulted = {Faulted, Absent}"

section \<open>One operation\<close>

definition leaves_ready :: "link_state \<Rightarrow> link_state \<Rightarrow> bool" where
  "leaves_ready s s' \<longleftrightarrow> ls_phase s = Ready \<and> ls_phase s' \<noteq> Ready"

definition enters_ready :: "link_state \<Rightarrow> link_state \<Rightarrow> bool" where
  "enters_ready s s' \<longleftrightarrow> ls_phase s \<noteq> Ready \<and> ls_phase s' = Ready"

lemma new_link_inv [inv_rules]: "link_inv (new_link_state cfg)"
  by (simp add: link_inv_def new_link_state_def)

lemma link_step_inv [inv_rules]: "link_inv s \<Longrightarrow> link_inv (link_step op s)"
proof (cases op)
  case (Event e now r)
  then show "link_inv s \<Longrightarrow> link_inv (link_step op s)"
    by (cases e; cases "ls_phase s") (simp_all add: link_inv_def link_defs)
qed (auto simp: link_inv_def link_defs)

interpretation link_ops: guarded_ops link_step link_inv
  by unfold_locales (rule link_step_inv)

lemma link_step_arrow:
  "link_inv s \<Longrightarrow> ls_phase (link_step op s) \<in> arrows (ls_phase s)"
proof (cases op)
  case (Event e now r)
  then show "link_inv s \<Longrightarrow> ls_phase (link_step op s) \<in> arrows (ls_phase s)"
    by (cases e; cases "ls_phase s") (simp_all add: link_inv_def link_defs)
next
  case (Tick now)
  then show ?thesis by (cases "ls_phase s") (simp_all add: link_defs)
next
  case Reset
  then show ?thesis by (cases "ls_phase s") (simp_all add: link_defs)
qed

lemma link_step_epoch:
  "ls_epoch (link_step op s) =
     ls_epoch s + (if resets op \<or> leaves_ready s (link_step op s) then 1 else 0)"
proof (cases op)
  case (Event e now r)
  then show ?thesis
    by (cases e; cases "ls_phase s") (simp_all add: link_defs leaves_ready_def)
next
  case (Tick now)
  then show ?thesis by (cases "ls_phase s") (simp_all add: link_defs leaves_ready_def)
qed (simp add: link_defs leaves_ready_def)

lemma link_step_sessions:
  "ls_sessions (link_step op s) =
     ls_sessions s + (if enters_ready s (link_step op s) then 1 else 0)"
proof (cases op)
  case (Event e now r)
  then show ?thesis
    by (cases e; cases "ls_phase s") (simp_all add: link_defs enters_ready_def)
next
  case (Tick now)
  then show ?thesis by (cases "ls_phase s") (simp_all add: link_defs enters_ready_def)
qed (simp add: link_defs enters_ready_def)

lemma link_step_disconnect:
  "ls_last_disconnect (link_step op s) =
     (if resets op then SubsystemRestarted
      else if leaves_ready s (link_step op s)
      then (case op of
              Event Detach _ r \<Rightarrow> if r = NoReason then UnknownReason else r
            | Event PeerGone _ r \<Rightarrow> if r = NoReason then UnknownReason else r
            | Event Fault _ _ \<Rightarrow> FaultReason
            | Tick _ \<Rightarrow> LivenessTimeout
            | _ \<Rightarrow> LocalRequest)
      else ls_last_disconnect s)"
proof (cases op)
  case (Event e now r)
  then show ?thesis
    by (cases e; cases "ls_phase s") (simp_all add: link_defs leaves_ready_def)
next
  case (Tick now)
  then show ?thesis by (cases "ls_phase s") (simp_all add: link_defs leaves_ready_def)
qed (simp add: link_defs leaves_ready_def)

lemma apply_link_unapplied:
  "apply_link e now r s = (Redundant, s') \<Longrightarrow> s' = s"
  "apply_link e now r s = (Ignored, s') \<Longrightarrow> s' = s\<lparr>ls_ignored := ls_ignored s + 1\<rparr>"
  by (cases e; cases "ls_phase s"; simp add: link_defs split: if_splits)+

text \<open>Every state a run of operations passes through, the last one included.\<close>

fun link_trail :: "link_op list \<Rightarrow> link_state \<Rightarrow> link_state list" where
  "link_trail [] s = [s]"
| "link_trail (op # ops) s = s # link_trail ops (link_step op s)"

fun epoch_moves :: "link_op list \<Rightarrow> link_state \<Rightarrow> nat" where
  "epoch_moves [] s = 0"
| "epoch_moves (op # ops) s =
     (if resets op \<or> leaves_ready s (link_step op s) then 1 else 0) + epoch_moves ops (link_step op s)"

fun ready_entries :: "link_op list \<Rightarrow> link_state \<Rightarrow> nat" where
  "ready_entries [] s = 0"
| "ready_entries (op # ops) s =
     (if enters_ready s (link_step op s) then 1 else 0) + ready_entries ops (link_step op s)"

lemma epoch_run: "ls_epoch (run_ops link_step ops s) = ls_epoch s + of_nat (epoch_moves ops s)"
  by (induction ops arbitrary: s) (auto simp: link_step_epoch)

lemma sessions_run: "ls_sessions (run_ops link_step ops s) = ls_sessions s + of_nat (ready_entries ops s)"
  by (induction ops arbitrary: s) (auto simp: link_step_sessions)

lemma epoch_moves_le: "epoch_moves ops s \<le> length ops"
  by (induction ops arbitrary: s) (auto simp: le_SucI)

lemma trail_start: "list_all P (link_trail ops s) \<Longrightarrow> P s"
  by (cases ops) auto

lemma epoch_moves_zero:
  "ls_phase s = Ready \<Longrightarrow>
     epoch_moves ops s = 0 \<longleftrightarrow> list_all (\<lambda>t. ls_phase t = Ready) (link_trail ops s) \<and> \<not> list_ex resets ops"
  by (induction ops arbitrary: s) (auto simp: leaves_ready_def dest: trail_start)

lemma resets_phase: "resets op \<Longrightarrow> ls_phase (link_step op s) = Absent"
  by (cases op) (auto simp: link_defs split: link_event.splits)

lemma trail_no_reset:
  "list_all (\<lambda>t. ls_phase t = Ready) (link_trail ops s) \<Longrightarrow> \<not> list_ex resets ops"
proof (induction ops arbitrary: s)
  case (Cons op ops)
  then have "ls_phase (link_step op s) = Ready" by (cases ops) auto
  then have "\<not> resets op" using resets_phase [of op s] by auto
  with Cons show ?case by auto
qed simp

section \<open>The properties\<close>

text \<open>
  C25. The link machine keeps to its diagram and its books. After any operations from the start,
  one more operation takes the phase along an arrow of the diagram; a resume always lands in
  \<open>Attached\<close>, never in \<open>Ready\<close>; the epoch moves exactly when \<open>Ready\<close> is left or the machine
  is reset, and the session count exactly when \<open>Ready\<close> is entered; the recorded reason changes
  only then too and is the caller's for \<open>Detach\<close> and \<open>PeerGone\<close>, the machine's own otherwise.
\<close>

theorem link_machine:
  "let s = run_ops link_step ops (new_link_state cfg); s' = link_step op s
   in ls_phase s' \<in> arrows (ls_phase s) \<and>
      ls_epoch s' = ls_epoch s + (if resets op \<or> leaves_ready s s' then 1 else 0) \<and>
      ls_sessions s' = ls_sessions s + (if enters_ready s s' then 1 else 0) \<and>
      ls_last_disconnect s' =
        (if resets op then SubsystemRestarted
         else if leaves_ready s s'
         then (case op of
                 Event Detach _ r \<Rightarrow> if r = NoReason then UnknownReason else r
               | Event PeerGone _ r \<Rightarrow> if r = NoReason then UnknownReason else r
               | Event Fault _ _ \<Rightarrow> FaultReason
               | Tick _ \<Rightarrow> LivenessTimeout
               | _ \<Rightarrow> LocalRequest)
         else ls_last_disconnect s) \<and>
      ls_phase (snd (apply_link Resume now r s)) =
        (if ls_phase s = Suspended then Attached else ls_phase s) \<and>
      ls_phase (snd (apply_link Detach now r s)) = Absent"
proof -
  have "link_inv (run_ops link_step ops (new_link_state cfg))"
    by (rule link_ops.run_inv) (rule new_link_inv)
  then show ?thesis
    using link_step_arrow link_step_epoch link_step_sessions link_step_disconnect
    by (simp add: Let_def) (auto simp: link_inv_def link_defs)
qed

text \<open>
  C22. The epoch detects every reconnect. A stamp taken while the link is \<open>Ready\<close> still equals
  the epoch after fewer than \<open>2 ^ 32\<close> operations exactly when the link was \<open>Ready\<close> in every
  state between: nothing stamped in one session can be taken for current in a later one.
\<close>

theorem stamp_detects_reconnect:
  assumes "ls_phase s = Ready" and "length ops < 2 ^ 32"
  shows "ls_epoch (run_ops link_step ops s) = ls_epoch s \<longleftrightarrow>
    list_all (\<lambda>t. ls_phase t = Ready) (link_trail ops s)"
proof -
  have "epoch_moves ops s < 2 ^ 32" using epoch_moves_le assms(2) by (rule le_less_trans)
  then have "(of_nat (epoch_moves ops s) :: u32) = 0 \<longleftrightarrow> epoch_moves ops s = 0"
    by (simp add: word_unat_eq_iff unat_of_nat take_bit_nat_eq_self)
  then show ?thesis
    using epoch_moves_zero [OF assms(1), of ops] trail_no_reset [of ops s]
    by (simp add: epoch_run) blast
qed

theorem stamp_detects_reconnect_witness:
  "let s = run_ops link_step [Event Attach 0 NoReason, Event PeerEstablished 1 NoReason]
             (new_link_state default_link_config);
       again = [Event PeerGone 2 PeerClosed, Event PeerEstablished 3 NoReason]
   in ls_phase s = Ready \<and> ls_phase (run_ops link_step again s) = Ready \<and>
      ls_epoch (run_ops link_step again s) \<noteq> ls_epoch s"
proof -
  define s where "s = run_ops link_step [Event Attach 0 NoReason, Event PeerEstablished 1 NoReason]
             (new_link_state default_link_config)"
  define again where "again = [Event PeerGone 2 PeerClosed, Event PeerEstablished 3 NoReason]"
  have r: "ls_phase s = Ready" "ls_phase (run_ops link_step again s) = Ready"
    "\<not> list_all (\<lambda>t. ls_phase t = Ready) (link_trail again s)"
    by (simp_all add: s_def again_def link_defs new_link_state_def)
  then show ?thesis
    using stamp_detects_reconnect [OF r(1), of again]
    unfolding s_def [symmetric] again_def [symmetric] by (simp add: Let_def) (simp add: again_def)
qed

text \<open>
  Liveness is the only way out of \<open>Ready\<close> without an event, and it is exact. Whatever the
  clock reads, a tick leaves an expiring link \<open>Ready\<close> precisely while less than the configured
  time has passed since data was last heard, data heard restarts that time, and a link whose
  liveness is disabled never expires.
\<close>

theorem liveness_is_exact:
  assumes "ls_phase s = Ready"
  shows "(ls_phase (link_tick now s) = Ready \<longleftrightarrow>
      lc_liveness (ls_config s) = 0 \<or> elapsed (ls_last_activity s) now < lc_liveness (ls_config s)) \<and>
    (ls_phase (link_tick now s) \<noteq> Ready \<longrightarrow>
      ls_phase (link_tick now s) = Attached \<and> ls_last_disconnect (link_tick now s) = LivenessTimeout \<and>
      ls_epoch (link_tick now s) = ls_epoch s + 1) \<and>
    ls_phase (link_tick t (snd (apply_link PeerData t r s))) = Ready"
  using assms by (auto simp: link_defs not_le)

theorem liveness_is_exact_witness:
  "let s = run_ops link_step [Event Attach 0 NoReason, Event PeerEstablished 1000 NoReason]
             (new_link_state default_link_config)
   in ls_phase (link_tick 5999 s) = Ready \<and> ls_phase (link_tick 6000 s) = Attached"
proof -
  define s where "s = run_ops link_step [Event Attach 0 NoReason, Event PeerEstablished 1000 NoReason]
             (new_link_state default_link_config)"
  have r: "ls_phase s = Ready" "ls_last_activity s = 1000" "lc_liveness (ls_config s) = 5000"
    by (simp_all add: s_def link_defs new_link_state_def default_link_config_def)
  have e: "elapsed 1000 5999 = 4999" "elapsed 1000 6000 = 5000"
    by (simp_all add: elapsed_def clamp_u32_def)
  show ?thesis
    using liveness_is_exact [OF r(1), of 5999] liveness_is_exact [OF r(1), of 6000]
    unfolding s_def [symmetric] Let_def by (simp add: r(2,3) e)
qed

end
