(* ===== verification/Session_Owner.thy ===== *)
theory Session_Owner
  imports Interfaces
begin

text \<open>
  The record of a radio session, \<open>link/include/attadipa/link/session_owner.h\<close> and
  \<open>link/src/session_owner.cpp\<close>: what the radio's callbacks write (\<open>SessionOwner\<close>), and what a
  worker that looks at it later still has to be told (\<open>reconcile\<close>). Write results are only
  stored and copied, so a \<open>std::int32_t\<close> is the word with its bits.
\<close>

section \<open>The record and its operations\<close>

definition kNoSessionHandle :: u16 where "kNoSessionHandle = 0xFFFF"

datatype session_phase = Arriving | SessionReady | Ended

record session_snapshot =
  ss_generation :: u32
  ss_transitions :: u32
  ss_faults :: u32
  ss_stack_readies :: u32
  ss_write_completions :: u32
  ss_write_result :: u32
  ss_write_generation :: u32
  ss_dropped_frames :: u32
  ss_coalesced_lifecycle :: u32
  ss_phase :: session_phase
  ss_fault_phase :: session_phase
  ss_fault_stack_readies :: u32
  ss_connection :: u16
  ss_mtu :: u16
  ss_service_start :: u16
  ss_service_end :: u16
  ss_rx_handle :: u16
  ss_tx_handle :: u16
  ss_cccd_handle :: u16
  ss_write_in_flight :: bool
  ss_reached_ready :: bool

definition new_session :: session_snapshot where
  "new_session =
     \<lparr>ss_generation = 0, ss_transitions = 0, ss_faults = 0, ss_stack_readies = 0,
      ss_write_completions = 0, ss_write_result = 0, ss_write_generation = 0,
      ss_dropped_frames = 0, ss_coalesced_lifecycle = 0, ss_phase = Ended, ss_fault_phase = Ended,
      ss_fault_stack_readies = 0, ss_connection = kNoSessionHandle, ss_mtu = 0,
      ss_service_start = 0, ss_service_end = 0, ss_rx_handle = 0, ss_tx_handle = 0,
      ss_cccd_handle = 0, ss_write_in_flight = False, ss_reached_ready = False\<rparr>"

fun rank :: "session_phase \<Rightarrow> int" where
  "rank Arriving = 0"
| "rank SessionReady = 1"
| "rank Ended = 2"

definition clear_session :: "session_snapshot \<Rightarrow> session_snapshot" where
  "clear_session s =
     s\<lparr>ss_connection := kNoSessionHandle, ss_mtu := 0, ss_service_start := 0, ss_service_end := 0,
       ss_rx_handle := 0, ss_tx_handle := 0, ss_cccd_handle := 0, ss_write_in_flight := False\<rparr>"

definition live :: "u32 \<Rightarrow> session_snapshot \<Rightarrow> bool" where
  "live g s \<longleftrightarrow> g \<noteq> 0 \<and> g = ss_generation s \<and> ss_phase s \<noteq> Ended"

definition so_stack_ready :: "session_snapshot \<Rightarrow> session_snapshot" where
  "so_stack_ready s =
     s\<lparr>ss_stack_readies := ss_stack_readies s + 1, ss_transitions := ss_transitions s + 1\<rparr>"

definition so_fault :: "session_snapshot \<Rightarrow> session_snapshot" where
  "so_fault s =
     s\<lparr>ss_fault_phase := ss_phase s, ss_fault_stack_readies := ss_stack_readies s,
       ss_faults := ss_faults s + 1, ss_transitions := ss_transitions s + 1\<rparr>"

definition so_ended :: "u32 \<Rightarrow> session_snapshot \<Rightarrow> bool \<times> session_snapshot" where
  "so_ended g s =
     (if \<not> live g s then (False, s)
      else (True, (clear_session (s\<lparr>ss_phase := Ended\<rparr>))\<lparr>ss_transitions := ss_transitions s + 1\<rparr>))"

definition so_ended_current :: "session_snapshot \<Rightarrow> session_snapshot" where
  "so_ended_current s = snd (so_ended (ss_generation s) s)"

definition so_peer_arriving :: "session_snapshot \<Rightarrow> u32 \<times> session_snapshot" where
  "so_peer_arriving s =
     (let s1 = (if ss_phase s \<noteq> Ended then snd (so_ended (ss_generation s) s) else s);
          s2 = s1\<lparr>ss_generation := ss_generation s1 + 1\<rparr>;
          s3 = (if ss_generation s2 = 0 then s2\<lparr>ss_generation := 1\<rparr> else s2);
          s4 = clear_session (s3\<lparr>ss_phase := Arriving, ss_reached_ready := False\<rparr>);
          s5 = s4\<lparr>ss_transitions := ss_transitions s4 + 1\<rparr>
      in (ss_generation s5, s5))"

definition so_connected :: "u32 \<Rightarrow> u16 \<Rightarrow> session_snapshot \<Rightarrow> bool \<times> session_snapshot" where
  "so_connected g c s =
     (if \<not> live g s \<or> ss_phase s \<noteq> Arriving then (False, s) else (True, s\<lparr>ss_connection := c\<rparr>))"

definition so_set_mtu :: "u32 \<Rightarrow> u16 \<Rightarrow> session_snapshot \<Rightarrow> bool \<times> session_snapshot" where
  "so_set_mtu g mtu s = (if \<not> live g s then (False, s) else (True, s\<lparr>ss_mtu := mtu\<rparr>))"

definition so_set_service_range ::
  "u32 \<Rightarrow> u16 \<Rightarrow> u16 \<Rightarrow> session_snapshot \<Rightarrow> bool \<times> session_snapshot" where
  "so_set_service_range g start stop s =
     (if \<not> live g s then (False, s)
      else (True, s\<lparr>ss_service_start := start, ss_service_end := stop\<rparr>))"

definition so_set_rx_handle :: "u32 \<Rightarrow> u16 \<Rightarrow> session_snapshot \<Rightarrow> bool \<times> session_snapshot" where
  "so_set_rx_handle g h s = (if \<not> live g s then (False, s) else (True, s\<lparr>ss_rx_handle := h\<rparr>))"

definition so_set_tx_handle :: "u32 \<Rightarrow> u16 \<Rightarrow> session_snapshot \<Rightarrow> bool \<times> session_snapshot" where
  "so_set_tx_handle g h s = (if \<not> live g s then (False, s) else (True, s\<lparr>ss_tx_handle := h\<rparr>))"

definition so_set_cccd_handle :: "u32 \<Rightarrow> u16 \<Rightarrow> session_snapshot \<Rightarrow> bool \<times> session_snapshot" where
  "so_set_cccd_handle g h s = (if \<not> live g s then (False, s) else (True, s\<lparr>ss_cccd_handle := h\<rparr>))"

definition so_ready :: "u32 \<Rightarrow> session_snapshot \<Rightarrow> bool \<times> session_snapshot" where
  "so_ready g s =
     (if \<not> live g s \<or> ss_phase s \<noteq> Arriving then (False, s)
      else (True, s\<lparr>ss_phase := SessionReady, ss_reached_ready := True,
                    ss_transitions := ss_transitions s + 1\<rparr>))"

definition so_write_submitted :: "u32 \<Rightarrow> session_snapshot \<Rightarrow> bool \<times> session_snapshot" where
  "so_write_submitted g s =
     (if \<not> live g s \<or> ss_write_in_flight s then (False, s)
      else (True, s\<lparr>ss_write_in_flight := True\<rparr>))"

definition so_write_completed :: "u32 \<Rightarrow> u32 \<Rightarrow> session_snapshot \<Rightarrow> bool \<times> session_snapshot" where
  "so_write_completed g result s =
     (if \<not> live g s \<or> \<not> ss_write_in_flight s then (False, s)
      else (True, s\<lparr>ss_write_in_flight := False, ss_write_result := result,
                    ss_write_generation := g, ss_write_completions := ss_write_completions s + 1\<rparr>))"

definition so_frame_dropped :: "session_snapshot \<Rightarrow> session_snapshot" where
  "so_frame_dropped s = s\<lparr>ss_dropped_frames := ss_dropped_frames s + 1\<rparr>"

definition so_note_coalesced :: "u32 \<Rightarrow> session_snapshot \<Rightarrow> session_snapshot" where
  "so_note_coalesced n s = s\<lparr>ss_coalesced_lifecycle := ss_coalesced_lifecycle s + n\<rparr>"

text \<open>The operations, those a callback stamps with its session's generation apart.\<close>

datatype stamped =
    OpEnded | OpConnected u16 | OpMtu u16 | OpService u16 u16 | OpRx u16 | OpTx u16 | OpCccd u16
  | OpReady | OpSubmitted | OpCompleted u32

datatype session_op =
    OpStackReady | OpFault | OpPeerArriving | OpEndedCurrent | Stamped u32 stamped
  | OpFrameDropped | OpNoteCoalesced u32

fun stamped_step :: "u32 \<Rightarrow> stamped \<Rightarrow> session_snapshot \<Rightarrow> bool \<times> session_snapshot" where
  "stamped_step g OpEnded = so_ended g"
| "stamped_step g (OpConnected c) = so_connected g c"
| "stamped_step g (OpMtu m) = so_set_mtu g m"
| "stamped_step g (OpService a b) = so_set_service_range g a b"
| "stamped_step g (OpRx h) = so_set_rx_handle g h"
| "stamped_step g (OpTx h) = so_set_tx_handle g h"
| "stamped_step g (OpCccd h) = so_set_cccd_handle g h"
| "stamped_step g OpReady = so_ready g"
| "stamped_step g OpSubmitted = so_write_submitted g"
| "stamped_step g (OpCompleted r) = so_write_completed g r"

fun session_step :: "session_op \<Rightarrow> session_snapshot \<Rightarrow> session_snapshot" where
  "session_step OpStackReady s = so_stack_ready s"
| "session_step OpFault s = so_fault s"
| "session_step OpPeerArriving s = snd (so_peer_arriving s)"
| "session_step OpEndedCurrent s = so_ended_current s"
| "session_step (Stamped g st) s = snd (stamped_step g st s)"
| "session_step OpFrameDropped s = so_frame_dropped s"
| "session_step (OpNoteCoalesced n) s = so_note_coalesced n s"

lemmas session_defs = so_stack_ready_def so_fault_def so_peer_arriving_def so_ended_def
  so_ended_current_def so_connected_def so_set_mtu_def so_set_service_range_def
  so_set_rx_handle_def so_set_tx_handle_def so_set_cccd_handle_def so_ready_def
  so_write_submitted_def so_write_completed_def so_frame_dropped_def so_note_coalesced_def
  clear_session_def live_def Let_def

section \<open>Catching up\<close>

record session_mark =
  sm_generation :: u32
  sm_transitions :: u32
  sm_faults :: u32
  sm_write_completions :: u32
  sm_stack_readies :: u32
  sm_phase :: session_phase

datatype catch_step = StackReady | FaultStep | PeerArrivingStep | ReadyStep | Disconnected

definition kMaxCatchUpSteps :: nat where "kMaxCatchUpSteps = 6"

record session_catch_up =
  cu_steps :: "catch_step list"
  cu_write_completed :: bool
  cu_write_result :: u32
  cu_write_generation :: u32
  cu_coalesced :: u32

definition mark_of :: "session_snapshot \<Rightarrow> session_mark" where
  "mark_of s =
     \<lparr>sm_generation = ss_generation s, sm_transitions = ss_transitions s, sm_faults = ss_faults s,
      sm_write_completions = ss_write_completions s, sm_stack_readies = ss_stack_readies s,
      sm_phase = ss_phase s\<rparr>"

definition emit :: "catch_step \<Rightarrow> catch_step list \<Rightarrow> catch_step list" where
  "emit step out = (if length out < kMaxCatchUpSteps then out @ [step] else out)"

definition emit_if :: "bool \<Rightarrow> catch_step \<Rightarrow> catch_step list \<Rightarrow> catch_step list" where
  "emit_if b step out = (if b then emit step out else out)"

definition reconcile :: "session_mark \<Rightarrow> session_snapshot \<Rightarrow> session_catch_up" where
  "reconcile applied current =
     (let o1 = emit_if (ss_stack_readies current \<noteq> sm_stack_readies applied) StackReady [];
          fault_superseded = ss_stack_readies current \<noteq> ss_fault_stack_readies current;
          faulted = ss_faults current \<noteq> sm_faults applied \<and> \<not> fault_superseded;
          fault_outlives_session = faulted \<and> ss_fault_phase current = Ended;
          o2 = emit_if (faulted \<and> \<not> fault_outlives_session) FaultStep o1;
          from = (if sm_generation applied = ss_generation current then rank (sm_phase applied) else -1);
          o3 = emit_if (sm_generation applied \<noteq> ss_generation current \<and> sm_phase applied \<noteq> Ended)
                 Disconnected o2;
          to = rank (ss_phase current);
          o4 = emit_if (from < 0) PeerArrivingStep o3;
          o5 = emit_if (from < 1 \<and> to \<ge> 1 \<and> ss_reached_ready current) ReadyStep o4;
          o6 = emit_if (from < 2 \<and> to \<ge> 2) Disconnected o5;
          o7 = emit_if fault_outlives_session FaultStep o6;
          wrote = ss_write_completions current \<noteq> sm_write_completions applied;
          happened = ss_transitions current - sm_transitions applied;
          count = (of_nat (length o7) :: u32)
      in \<lparr>cu_steps = o7, cu_write_completed = wrote,
          cu_write_result = (if wrote then ss_write_result current else 0),
          cu_write_generation = (if wrote then ss_write_generation current else 0),
          cu_coalesced = (if happened > count then happened - count else 0)\<rparr>)"

fun session_phase_to_string :: "session_phase \<Rightarrow> string" where
  "session_phase_to_string Arriving = ''arriving''"
| "session_phase_to_string SessionReady = ''ready''"
| "session_phase_to_string Ended = ''ended''"

fun catch_step_to_string :: "catch_step \<Rightarrow> string" where
  "catch_step_to_string StackReady = ''stack-ready''"
| "catch_step_to_string FaultStep = ''fault''"
| "catch_step_to_string PeerArrivingStep = ''peer-arriving''"
| "catch_step_to_string ReadyStep = ''ready''"
| "catch_step_to_string Disconnected = ''disconnected''"

section \<open>The invariant\<close>

definition handles_clear :: "session_snapshot \<Rightarrow> bool" where
  "handles_clear s \<longleftrightarrow> ss_connection s = kNoSessionHandle \<and> ss_mtu s = 0 \<and> ss_service_start s = 0 \<and>
     ss_service_end s = 0 \<and> ss_rx_handle s = 0 \<and> ss_tx_handle s = 0 \<and> ss_cccd_handle s = 0 \<and>
     \<not> ss_write_in_flight s"

definition session_inv :: "session_snapshot \<Rightarrow> bool" where
  "session_inv s \<longleftrightarrow> (ss_phase s = Ended \<longrightarrow> handles_clear s) \<and>
     (ss_phase s \<noteq> Ended \<longrightarrow> ss_generation s \<noteq> 0) \<and>
     (ss_phase s = SessionReady \<longrightarrow> ss_reached_ready s) \<and>
     (ss_phase s = Arriving \<longrightarrow> \<not> ss_reached_ready s)"

lemma new_session_inv [inv_rules]: "session_inv new_session"
  by (simp add: session_inv_def handles_clear_def new_session_def)

lemma stamped_step_stale: "\<not> live g s \<Longrightarrow> stamped_step g st s = (False, s)"
  by (cases st) (simp_all add: session_defs)

lemma stamped_step_inv: "session_inv s \<Longrightarrow> session_inv (snd (stamped_step g st s))"
  by (cases st; cases "ss_phase s") (simp_all add: session_defs session_inv_def handles_clear_def)

lemma session_step_inv [inv_rules]: "session_inv s \<Longrightarrow> session_inv (session_step op s)"
proof (cases op)
  case (Stamped g st)
  then show "session_inv s \<Longrightarrow> session_inv (session_step op s)" by (simp add: stamped_step_inv)
qed (cases "ss_phase s"; auto simp: session_defs session_inv_def handles_clear_def)+

interpretation session_ops: guarded_ops session_step session_inv
  by unfold_locales (rule session_step_inv)

section \<open>Generations\<close>

definition next_gen :: "u32 \<Rightarrow> u32" where
  "next_gen g = (if g + 1 = 0 then 1 else g + 1)"

lemma unat_next_gen: "g \<noteq> 0 \<Longrightarrow> unat (next_gen g) = unat g mod (2 ^ 32 - 1) + 1"
proof -
  assume "g \<noteq> 0"
  show ?thesis
  proof (cases "g + 1 = 0")
    case True
    then show ?thesis using plus_one_zero [OF True] by (simp add: next_gen_def)
  next
    case False
    then have "unat (g + 1) = unat g + 1" by (rule unat_plus_one)
    moreover from this have "unat g + 1 \<le> 2 ^ 32 - 1" using unat_bound [of "g + 1"] by simp
    ultimately show ?thesis using False by (simp add: next_gen_def)
  qed
qed

lemma next_gen_nonzero: "next_gen g \<noteq> 0"
  by (simp add: next_gen_def)

lemma unat_next_gen_pow: "g \<noteq> 0 \<Longrightarrow> unat ((next_gen ^^ n) g) = (unat g - 1 + n) mod (2 ^ 32 - 1) + 1"
proof (induction n)
  case 0
  then have "unat g - 1 < 2 ^ 32 - 1" using unat_bound [of g] by (auto simp: unat_eq_0)
  moreover have "unat g \<noteq> 0" using 0 by (simp add: unat_eq_0)
  ultimately show ?case by simp
next
  case (Suc n)
  have "(next_gen ^^ n) g \<noteq> 0" using Suc.prems by (cases n) (simp_all add: next_gen_nonzero)
  then have "unat ((next_gen ^^ Suc n) g) = ((unat g - 1 + n) mod (2 ^ 32 - 1) + 1) mod (2 ^ 32 - 1) + 1"
    using Suc by (simp add: unat_next_gen)
  then show ?case by (simp only: mod_add_left_eq add_Suc_right Suc_eq_plus1 add.assoc)
qed

lemma next_gen_pow_differs:
  assumes "0 < n" and "n < 2 ^ 32 - 1"
  shows "(next_gen ^^ n) g \<noteq> g"
proof (cases "g = 0")
  case True
  then show ?thesis using assms(1) by (cases n) (simp_all add: next_gen_nonzero)
next
  case False
  let ?m = "2 ^ 32 - 1 :: nat"
  have g: "unat g \<noteq> 0" "unat g - 1 < ?m" using False unat_bound [of g] by (auto simp: unat_eq_0)
  show ?thesis
  proof
    assume "(next_gen ^^ n) g = g"
    then have "(unat g - 1 + n) mod ?m = unat g - 1" using unat_next_gen_pow [OF False, of n] g by simp
    then have "(unat g - 1 + n) mod ?m = (unat g - 1) mod ?m" using g by simp
    then have "n mod ?m = 0" by (simp add: mod_eq_dvd_iff_nat mod_eq_0_iff_dvd)
    with assms show False by simp
  qed
qed

lemma so_peer_arriving_generation:
  "session_inv s \<Longrightarrow> ss_generation (snd (so_peer_arriving s)) = next_gen (ss_generation s)"
  by (simp add: session_defs next_gen_def)

definition arrivals :: "session_op list \<Rightarrow> nat" where
  "arrivals ops = length (filter (\<lambda>op. op = OpPeerArriving) ops)"

lemma session_step_generation:
  "op \<noteq> OpPeerArriving \<Longrightarrow> ss_generation (session_step op s) = ss_generation s"
proof (cases op)
  case (Stamped g st)
  then show ?thesis by (cases st) (simp_all add: session_defs)
qed (simp_all add: session_defs)

lemma session_step_rank:
  "op \<noteq> OpPeerArriving \<Longrightarrow> rank (ss_phase s) \<le> rank (ss_phase (session_step op s))"
proof (cases op)
  case (Stamped g st)
  then show ?thesis by (cases st; cases "ss_phase s") (simp_all add: session_defs)
qed (cases "ss_phase s"; simp add: session_defs)+

lemma session_run_generation:
  "session_inv s \<Longrightarrow>
     ss_generation (run_ops session_step ops s) = (next_gen ^^ arrivals ops) (ss_generation s) \<and>
     (arrivals ops = 0 \<longrightarrow> rank (ss_phase s) \<le> rank (ss_phase (run_ops session_step ops s)))"
proof (induction ops arbitrary: s)
  case (Cons op ops)
  show ?case
  proof (cases "op = OpPeerArriving")
    case True
    then show ?thesis
      using Cons.IH [OF session_step_inv [OF Cons.prems, of op]] so_peer_arriving_generation [OF Cons.prems]
      by (simp add: arrivals_def funpow_swap1)
  next
    case False
    then show ?thesis
      using Cons.IH [OF session_step_inv [OF Cons.prems, of op]] session_step_generation [OF False]
        session_step_rank [OF False, of s]
      by (auto simp: arrivals_def)
  qed
qed (simp add: arrivals_def)

lemma reconcile_coalesced:
  "cu_coalesced (reconcile m s) =
     (if ss_transitions s - sm_transitions m > of_nat (length (cu_steps (reconcile m s)))
      then ss_transitions s - sm_transitions m - of_nat (length (cu_steps (reconcile m s))) else 0)"
  unfolding reconcile_def Let_def session_catch_up.simps by (rule refl)

section \<open>Replaying the catch-up\<close>

text \<open>What the steps do to a worker's idea of the phase, and \<open>None\<close> where one is out of order.\<close>

fun replay :: "session_phase \<Rightarrow> catch_step list \<Rightarrow> session_phase option" where
  "replay p [] = Some p"
| "replay p (StackReady # xs) = replay p xs"
| "replay p (FaultStep # xs) = replay p xs"
| "replay p (PeerArrivingStep # xs) = (if p = Ended then replay Arriving xs else None)"
| "replay p (ReadyStep # xs) = (if p = Arriving then replay SessionReady xs else None)"
| "replay p (Disconnected # xs) = (if p \<noteq> Ended then replay Ended xs else None)"

definition one :: "bool \<Rightarrow> 'a \<Rightarrow> 'a list" where
  "one b x = (if b then [x] else [])"

lemma length_one [simp]: "length (one b x) = of_bool b"
  by (simp add: one_def)

definition owed_fault :: "session_mark \<Rightarrow> session_snapshot \<Rightarrow> bool" where
  "owed_fault m s \<longleftrightarrow> ss_faults s \<noteq> sm_faults m \<and> ss_stack_readies s = ss_fault_stack_readies s"

definition path_steps :: "session_mark \<Rightarrow> session_snapshot \<Rightarrow> catch_step list" where
  "path_steps m s =
     (let same = (sm_generation m = ss_generation s); from = (if same then rank (sm_phase m) else -1) in
      one (\<not> same \<and> sm_phase m \<noteq> Ended) Disconnected @ one (\<not> same) PeerArrivingStep @
      one (from < 1 \<and> rank (ss_phase s) \<ge> 1 \<and> ss_reached_ready s) ReadyStep @
      one (from < 2 \<and> rank (ss_phase s) \<ge> 2) Disconnected)"

lemma emit_if_one: "length out < kMaxCatchUpSteps \<Longrightarrow> emit_if b x out = out @ one b x"
  by (simp add: emit_if_def emit_def one_def)

lemma length_path_steps: "length (path_steps m s) \<le> 4"
  by (simp add: path_steps_def Let_def of_bool_def)

text \<open>The fixed room of six steps is never the limit.\<close>

lemma reconcile_steps:
  "cu_steps (reconcile m s) =
     one (ss_stack_readies s \<noteq> sm_stack_readies m) StackReady @
     one (owed_fault m s \<and> ss_fault_phase s \<noteq> Ended) FaultStep @ path_steps m s @
     one (owed_fault m s \<and> ss_fault_phase s = Ended) FaultStep"
proof -
  have r: "rank (sm_phase m) \<ge> 0" by (cases "sm_phase m") simp_all
  have e: "emit_if a A [] = one a A"
    "emit_if b B (one a A) = one a A @ one b B"
    "emit_if c C' (one a A @ one b B) = one a A @ one b B @ one c C'"
    "emit_if d D (one a A @ one b B @ one c C') = one a A @ one b B @ one c C' @ one d D"
    "emit_if f F (one a A @ one b B @ one c C' @ one d D) = one a A @ one b B @ one c C' @ one d D @ one f F"
    "emit_if g G (one a A @ one b B @ one c C' @ one d D @ one f F)
       = one a A @ one b B @ one c C' @ one d D @ one f F @ one g G"
    "emit_if (h \<and> k) H (one a A @ one (h \<and> \<not> (h \<and> k)) B @ one c C' @ one d D @ one f F @ one g G)
       = one a A @ one (h \<and> \<not> k) B @ one c C' @ one d D @ one f F @ one g G @ one (h \<and> k) H"
    for a b c d f g h k A B C' D F G and H :: catch_step
    by (simp_all add: emit_if_def emit_def one_def kMaxCatchUpSteps_def)
  have o: "owed_fault m s \<longleftrightarrow> ss_faults s \<noteq> sm_faults m \<and> \<not> ss_stack_readies s \<noteq> ss_fault_stack_readies s"
    by (simp add: owed_fault_def)
  have f: "(if same then rank (sm_phase m) else -1) < 0 \<longleftrightarrow> \<not> same" for same
    using r by simp
  show ?thesis
    unfolding reconcile_def path_steps_def Let_def o [symmetric] f
    by (simp only: session_catch_up.simps append.assoc e)
qed

lemma replay_append:
  "replay p (xs @ ys) = (case replay p xs of None \<Rightarrow> None | Some q \<Rightarrow> replay q ys)"
proof (induction xs arbitrary: p)
  case (Cons x xs)
  then show ?case by (cases x) auto
qed simp

lemma replay_quiet: "replay p (one b StackReady) = Some p" "replay p (one b FaultStep) = Some p"
  by (simp_all add: one_def)

lemma replay_path:
  assumes "session_inv s" and "sm_generation m = ss_generation s \<longrightarrow> rank (sm_phase m) \<le> rank (ss_phase s)"
  shows "replay (sm_phase m) (path_steps m s) = Some (ss_phase s)"
  using assms
  by (cases "sm_generation m = ss_generation s"; cases "sm_phase m"; cases "ss_phase s";
      cases "ss_reached_ready s") (simp_all add: path_steps_def session_inv_def one_def Let_def)

lemma replay_reconcile:
  assumes "session_inv s" and "sm_generation m = ss_generation s \<longrightarrow> rank (sm_phase m) \<le> rank (ss_phase s)"
  shows "replay (sm_phase m) (cu_steps (reconcile m s)) = Some (ss_phase s)"
  using replay_path [OF assms] by (simp add: reconcile_steps replay_append replay_quiet)

lemma catch_up_current:
  assumes "session_inv s" and "arrivals ops < 2 ^ 32 - 1"
  shows "replay (ss_phase s) (cu_steps (reconcile (mark_of s) (run_ops session_step ops s))) =
    Some (ss_phase (run_ops session_step ops s))"
proof -
  let ?t = "run_ops session_step ops s"
  note g = session_run_generation [OF assms(1), of ops]
  have "sm_generation (mark_of s) = ss_generation ?t \<longrightarrow> rank (sm_phase (mark_of s)) \<le> rank (ss_phase ?t)"
    using g next_gen_pow_differs [OF _ assms(2), of "ss_generation s"] by (cases "arrivals ops") (auto simp: mark_of_def)
  then show ?thesis
    using replay_reconcile [OF session_ops.run_inv [OF assms(1)], of "mark_of s" ops]
    by (simp add: mark_of_def)
qed

text \<open>How many lifecycle transitions an operation counts, and a run of them.\<close>

definition counts :: "session_op \<Rightarrow> session_snapshot \<Rightarrow> nat" where
  "counts op s =
     (case op of
        OpStackReady \<Rightarrow> 1 | OpFault \<Rightarrow> 1
      | OpPeerArriving \<Rightarrow> (if ss_phase s = Ended then 1 else 2)
      | OpEndedCurrent \<Rightarrow> of_bool (ss_phase s \<noteq> Ended)
      | Stamped g OpEnded \<Rightarrow> of_bool (live g s)
      | Stamped g OpReady \<Rightarrow> of_bool (live g s \<and> ss_phase s = Arriving)
      | _ \<Rightarrow> 0)"

fun counted :: "session_op list \<Rightarrow> session_snapshot \<Rightarrow> nat" where
  "counted [] s = 0"
| "counted (op # ops) s = counts op s + counted ops (session_step op s)"

lemma transitions_step:
  "session_inv s \<Longrightarrow> ss_transitions (session_step op s) = ss_transitions s + of_nat (counts op s)"
proof (cases op)
  case (Stamped g st)
  then show ?thesis by (cases st) (simp_all add: session_defs counts_def)
qed (auto simp: session_defs counts_def session_inv_def)

lemma transitions_run:
  "session_inv s \<Longrightarrow> ss_transitions (run_ops session_step ops s) = ss_transitions s + of_nat (counted ops s)"
  by (induction ops arbitrary: s) (auto simp: transitions_step session_step_inv)

text \<open>What a worker holding \<open>m\<close> is owed at most, which no operation raises by more than it counts.\<close>

definition owed :: "session_mark \<Rightarrow> session_snapshot \<Rightarrow> nat" where
  "owed m s = of_bool (ss_stack_readies s \<noteq> sm_stack_readies m) + of_bool (ss_faults s \<noteq> sm_faults m) +
     length (path_steps m s)"

lemma steps_owed: "length (cu_steps (reconcile m s)) \<le> owed m s"
  by (auto simp: reconcile_steps owed_def owed_fault_def)

lemma owed_step:
  assumes "session_inv s"
  shows "owed m (session_step op s) \<le> owed m s + counts op s"
proof (cases op)
  case (Stamped g st)
  then show ?thesis
    using assms
    by (cases st; cases "ss_phase s"; cases "sm_phase m")
      (simp_all add: session_defs counts_def owed_def path_steps_def session_inv_def of_bool_def)
qed (use assms in \<open>(cases "ss_phase s"; cases "sm_phase m"; cases "sm_generation m = ss_generation s";
    auto simp: session_defs counts_def owed_def path_steps_def session_inv_def of_bool_def)+\<close>)

lemma owed_run:
  "session_inv s \<Longrightarrow> owed m (run_ops session_step ops s) \<le> owed m s + counted ops s"
proof (induction ops arbitrary: s)
  case (Cons op ops)
  show ?case
    using Cons.IH [OF session_step_inv [OF Cons.prems, of op]] owed_step [OF Cons.prems, of m op] by simp
qed simp

lemma owed_mark: "owed (mark_of s) s = 0"
  by (cases "ss_phase s") (simp_all add: owed_def mark_of_def path_steps_def)

section \<open>The properties\<close>

text \<open>
  C6. A session that has ended stays ended for everything stamped with it. Let a session be
  over, by its end or by the arrival of the next peer; then, over any operations with fewer
  than \<open>2 ^ 32 - 2\<close> arrivals, every callback that still carries its generation is refused and
  changes nothing at all. In every reachable state an ended session holds no handle and no
  write in flight.
\<close>

theorem ended_session_is_inert:
  assumes "session_inv s" and "g = ss_generation s" and "first = OpPeerArriving \<or> first = Stamped g OpEnded"
    and "arrivals ops < 2 ^ 32 - 2"
  shows "let t = run_ops session_step (first # ops) s
    in stamped_step g st t = (False, t) \<and> (ss_phase t = Ended \<longrightarrow> handles_clear t)"
proof -
  let ?t = "run_ops session_step (first # ops) s"
  let ?s1 = "session_step first s"
  have i1: "session_inv ?s1" using assms(1) by (rule session_step_inv)
  have it: "session_inv ?t" using session_ops.run_inv [OF i1, of ops] by simp
  have "\<not> live g ?t"
  proof (cases "arrivals (first # ops) = 0")
    case True
    then have f: "first = Stamped g OpEnded" "arrivals ops = 0" using assms(3) by (auto simp: arrivals_def)
    have "ss_phase ?s1 = Ended"
      using assms(1,2) by (cases "ss_phase s") (simp_all add: f session_defs session_inv_def)
    then have "rank (ss_phase ?t) \<ge> 2" using session_run_generation [OF i1, of ops] f(2) by simp
    then show ?thesis by (cases "ss_phase ?t") (simp_all add: live_def)
  next
    case False
    have "arrivals (first # ops) < 2 ^ 32 - 1" using assms(4) by (simp add: arrivals_def)
    then have "ss_generation ?t \<noteq> g"
      using next_gen_pow_differs [of "arrivals (first # ops)" g] False
        session_run_generation [OF assms(1), of "first # ops"] assms(2) by simp
    then show ?thesis by (simp add: live_def)
  qed
  then show ?thesis using it by (simp add: stamped_step_stale session_inv_def Let_def)
qed

theorem ended_session_is_inert_witness:
  "let s = run_ops session_step [OpPeerArriving, Stamped 1 (OpConnected 7), Stamped 1 OpReady] new_session;
       t = run_ops session_step (OpPeerArriving # [Stamped 2 (OpConnected 9)]) s
   in stamped_step 1 (OpRx 5) t = (False, t) \<and> stamped_step 1 OpEnded t = (False, t) \<and>
      ss_connection t = 9"
proof -
  define s where "s = run_ops session_step [OpPeerArriving, Stamped 1 (OpConnected 7), Stamped 1 OpReady] new_session"
  have i: "session_inv s" unfolding s_def by (rule session_ops.run_inv) (rule new_session_inv)
  have g: "ss_generation s = 1" "ss_connection (run_ops session_step (OpPeerArriving # [Stamped 2 (OpConnected 9)]) s) = 9"
    by (simp_all add: s_def session_defs new_session_def)
  let ?t = "run_ops session_step (OpPeerArriving # [Stamped 2 (OpConnected 9)]) s"
  have "stamped_step 1 st ?t = (False, ?t)" for st
    using ended_session_is_inert [OF i, of 1 OpPeerArriving "[Stamped 2 (OpConnected 9)]" st] g(1)
    by (simp add: arrivals_def Let_def)
  from this [of "OpRx 5"] this [of OpEnded] g show ?thesis
    unfolding s_def [symmetric] by (simp add: Let_def)
qed

text \<open>
  C5. Whenever a worker looks, catching up brings it to where the session is. From any state the
  worker last saw, after any callbacks with fewer than \<open>2 ^ 32 - 1\<close> arrivals, the steps
  \<open>reconcile\<close> hands over are in a legal order (no session is established that did not arrive, none
  ends twice) and lead from the phase the worker knew to the phase the session has; a worker
  that missed nothing is told nothing.
\<close>

theorem catch_up_reaches_current:
  assumes "session_inv s" and "arrivals ops < 2 ^ 32 - 1"
  shows "replay (ss_phase s) (cu_steps (reconcile (mark_of s) (run_ops session_step ops s))) =
      Some (ss_phase (run_ops session_step ops s)) \<and>
    cu_steps (reconcile (mark_of s) s) = [] \<and> cu_coalesced (reconcile (mark_of s) s) = 0 \<and>
    \<not> cu_write_completed (reconcile (mark_of s) s)"
proof -
  have "cu_steps (reconcile (mark_of s) s) = []"
    using steps_owed [of "mark_of s" s] by (simp add: owed_mark)
  moreover have "cu_coalesced (reconcile (mark_of s) s) = 0" "\<not> cu_write_completed (reconcile (mark_of s) s)"
    by (simp_all add: reconcile_def mark_of_def Let_def)
  ultimately show ?thesis using catch_up_current [OF assms] by simp
qed

theorem catch_up_reaches_current_witness:
  "let t = run_ops session_step [OpStackReady, OpPeerArriving, Stamped 1 OpReady, OpPeerArriving] new_session
   in ss_phase t = Arriving \<and>
      replay Ended (cu_steps (reconcile (mark_of new_session) t)) = Some Arriving"
proof -
  let ?ops = "[OpStackReady, OpPeerArriving, Stamped 1 OpReady, OpPeerArriving]"
  have "ss_phase (run_ops session_step ?ops new_session) = Arriving" "ss_phase new_session = Ended"
    by (simp_all add: session_defs new_session_def)
  then show ?thesis
    using catch_up_reaches_current [OF new_session_inv, of ?ops] by (simp add: arrivals_def Let_def)
qed

text \<open>
  Nothing the worker is not told goes uncounted. After any callbacks that count fewer than
  \<open>2 ^ 32\<close> lifecycle transitions, the steps handed over are at most six, never more than the
  transitions that happened, and \<open>coalesced\<close> is exactly the rest.
\<close>

theorem catch_up_accounts:
  assumes "session_inv s" and "counted ops s < 2 ^ 32"
  shows "let c = reconcile (mark_of s) (run_ops session_step ops s)
    in length (cu_steps c) + unat (cu_coalesced c) = counted ops s \<and> length (cu_steps c) \<le> kMaxCatchUpSteps"
proof -
  let ?c = "reconcile (mark_of s) (run_ops session_step ops s)"
  let ?n = "of_nat (length (cu_steps ?c)) :: u32"
  let ?h = "ss_transitions (run_ops session_step ops s) - sm_transitions (mark_of s)"
  have l: "length (cu_steps ?c) \<le> counted ops s"
    using steps_owed [of "mark_of s" "run_ops session_step ops s"] owed_run [OF assms(1), of "mark_of s" ops]
    by (simp add: owed_mark)
  have h: "?h = of_nat (counted ops s)"
    using transitions_run [OF assms(1), of ops] by (simp add: mark_of_def)
  have u: "unat ?h = counted ops s" "unat ?n = length (cu_steps ?c)"
    using assms(2) l unfolding h by (simp_all add: unat_of_nat take_bit_nat_eq_self)
  have "cu_coalesced ?c = (if ?h > ?n then ?h - ?n else 0)"
    by (rule reconcile_coalesced)
  then have "unat (cu_coalesced ?c) = counted ops s - length (cu_steps ?c)"
  proof (cases "?n < ?h")
    case True
    then have "?n \<le> ?h" by simp
    from unat_sub_le [OF this] True \<open>cu_coalesced ?c = _\<close> u show ?thesis by simp
  next
    case False
    with \<open>cu_coalesced ?c = _\<close> u show ?thesis by (simp add: word_less_unat)
  qed
  moreover have "length (cu_steps ?c) \<le> kMaxCatchUpSteps"
    using length_path_steps [of "mark_of s" "run_ops session_step ops s"]
    by (auto simp: reconcile_steps kMaxCatchUpSteps_def of_bool_def)
  ultimately show ?thesis using l by (simp add: Let_def)
qed

theorem catch_up_accounts_witness:
  "let ops = [OpStackReady, OpPeerArriving, Stamped 1 OpReady, OpFault, OpPeerArriving, OpPeerArriving];
       c = reconcile (mark_of new_session) (run_ops session_step ops new_session)
   in length (cu_steps c) + unat (cu_coalesced c) = 8 \<and> length (cu_steps c) \<le> kMaxCatchUpSteps"
proof -
  let ?ops = "[OpStackReady, OpPeerArriving, Stamped 1 OpReady, OpFault, OpPeerArriving, OpPeerArriving]"
  have "counted ?ops new_session = 8"
    by (simp add: counts_def session_defs new_session_def)
  then show ?thesis
    using catch_up_accounts [OF new_session_inv, of ?ops] by (simp add: Let_def)
qed

end
