(* ===== verification/Radio_Worker.thy ===== *)
theory Radio_Worker
  imports Link_State Session_Owner
begin

text \<open>
  Where the session record meets the link model: the worker of
  \<open>firmware/main/meshcore_ble.cpp\<close> (\<open>apply_lifecycle\<close>) reconciles what it last saw with the
  record and replays each step into the provider, whose lifecycle handlers
  (\<open>link/src/meshcore_companion.cpp\<close>) drive the link machine. The companion's own session
  state, which these handlers reset and which never flows back into the link machine, is a
  parameter here, with the three operations on it; the scan the worker starts is radio work.
\<close>

section \<open>The provider's lifecycle handlers\<close>

record 'c companion_hooks =
  hk_reset_session :: "'c \<Rightarrow> 'c"
  hk_enqueue_start :: "'c \<Rightarrow> 'c"
  hk_update_availability :: "link_state \<Rightarrow> 'c \<Rightarrow> 'c"

type_synonym 'c provider = "link_state \<times> 'c"

definition provider_begin :: "'c companion_hooks \<Rightarrow> monotonic \<Rightarrow> 'c provider \<Rightarrow> 'c provider" where
  "provider_begin hk now = (\<lambda>(l, c).
     let l1 = link_reset l; c1 = hk_reset_session hk c;
         l2 = snd (apply_link Attach now UnknownReason l1)
     in (l2, hk_update_availability hk l2 c1))"

definition provider_peer_arriving :: "'c companion_hooks \<Rightarrow> monotonic \<Rightarrow> 'c provider \<Rightarrow> 'c provider" where
  "provider_peer_arriving hk now = (\<lambda>(l, c).
     let l1 = snd (apply_link PeerArriving now UnknownReason l)
     in (l1, hk_update_availability hk l1 c))"

definition provider_connected :: "'c companion_hooks \<Rightarrow> monotonic \<Rightarrow> 'c provider \<Rightarrow> 'c provider" where
  "provider_connected hk now = (\<lambda>(l, c).
     let l1 = (if ls_phase l = Attached then snd (apply_link PeerArriving now UnknownReason l) else l);
         (outcome, l2) = apply_link PeerEstablished now UnknownReason l1
     in if outcome \<noteq> Applied then (l2, hk_update_availability hk l2 c)
        else
          let c1 = hk_enqueue_start hk (hk_reset_session hk c)
          in (l2, hk_update_availability hk l2 c1))"

definition provider_disconnected :: "'c companion_hooks \<Rightarrow> monotonic \<Rightarrow> 'c provider \<Rightarrow> 'c provider" where
  "provider_disconnected hk now = (\<lambda>(l, c).
     let l1 = snd (apply_link PeerGone now PeerClosed l); c1 = hk_reset_session hk c
     in (l1, hk_update_availability hk l1 c1))"

definition provider_fault :: "'c companion_hooks \<Rightarrow> monotonic \<Rightarrow> 'c provider \<Rightarrow> 'c provider" where
  "provider_fault hk now = (\<lambda>(l, c).
     let l1 = snd (apply_link Fault now FaultReason l); c1 = hk_reset_session hk c
     in (l1, hk_update_availability hk l1 c1))"

lemmas provider_defs = provider_begin_def provider_peer_arriving_def provider_connected_def
  provider_disconnected_def provider_fault_def

section \<open>The worker's pass\<close>

text \<open>One step, at the time the worker's clock reads for it; \<open>reconnect\<close> is \<open>reconnect_allowed\<close>.\<close>

fun worker_step :: "'c companion_hooks \<Rightarrow> bool \<Rightarrow> catch_step \<Rightarrow> monotonic \<Rightarrow> 'c provider \<Rightarrow> 'c provider" where
  "worker_step hk reconnect StackReady now = provider_begin hk now"
| "worker_step hk reconnect FaultStep now = provider_fault hk now"
| "worker_step hk reconnect PeerArrivingStep now = provider_peer_arriving hk now"
| "worker_step hk reconnect ReadyStep now = provider_connected hk now"
| "worker_step hk reconnect Disconnected now =
     (\<lambda>p. let p1 = provider_disconnected hk now p in if reconnect then provider_begin hk now p1 else p1)"

text \<open>The loop over the steps; \<open>clock i\<close> is what the clock reads at the \<open>i\<close>-th.\<close>

fun worker_steps :: "'c companion_hooks \<Rightarrow> bool \<Rightarrow> (nat \<Rightarrow> monotonic) \<Rightarrow> nat \<Rightarrow> catch_step list
    \<Rightarrow> 'c provider \<Rightarrow> 'c provider" where
  "worker_steps hk reconnect clock i [] p = p"
| "worker_steps hk reconnect clock i (x # xs) p =
     worker_steps hk reconnect clock (Suc i) xs (worker_step hk reconnect x (clock i) p)"

definition apply_lifecycle ::
  "'c companion_hooks \<Rightarrow> bool \<Rightarrow> (nat \<Rightarrow> monotonic) \<Rightarrow> session_mark \<Rightarrow> session_snapshot \<Rightarrow> 'c provider
     \<Rightarrow> session_catch_up \<times> session_mark \<times> session_snapshot \<times> 'c provider" where
  "apply_lifecycle hk reconnect clock applied owner p =
     (let session = owner;
          catch_up = reconcile applied session;
          owner1 = so_note_coalesced (cu_coalesced catch_up) owner;
          applied1 = mark_of session
      in (catch_up, applied1, owner1, worker_steps hk reconnect clock 0 (cu_steps catch_up) p))"

section \<open>The link phase the steps lead to\<close>

text \<open>The phase part of the handlers, which is all their successors depend on.\<close>

fun phase_after :: "bool \<Rightarrow> catch_step \<Rightarrow> transport_phase \<Rightarrow> transport_phase" where
  "phase_after reconnect StackReady p = Attached"
| "phase_after reconnect FaultStep p = Faulted"
| "phase_after reconnect PeerArrivingStep p = (if p = Attached then Connecting else p)"
| "phase_after reconnect ReadyStep p = (if p = Attached \<or> p = Connecting then Ready else p)"
| "phase_after reconnect Disconnected p =
     (if reconnect then Attached else if is_live p then Attached else p)"

lemma worker_step_phase:
  "ls_phase (fst (worker_step hk reconnect x now p)) = phase_after reconnect x (ls_phase (fst p))"
  by (cases x; cases p; cases "ls_phase (fst p)")
    (simp_all add: provider_defs link_defs split_beta)

lemma worker_steps_phase:
  "ls_phase (fst (worker_steps hk reconnect clock i xs p)) =
     fold (phase_after reconnect) xs (ls_phase (fst p))"
  by (induction xs arbitrary: i p) (simp_all add: worker_step_phase)

text \<open>The phase of the link that models a phase of the session.\<close>

fun models :: "session_phase \<Rightarrow> transport_phase" where
  "models Arriving = Connecting"
| "models SessionReady = Ready"
| "models Ended = Attached"

text \<open>
  The stack comes up only when no session is left from before: \<open>on_reset\<close> ends the session, and
  \<open>on_sync\<close> is what follows it.
\<close>

fun stack_discipline :: "session_op list \<Rightarrow> session_snapshot \<Rightarrow> bool" where
  "stack_discipline [] s \<longleftrightarrow> True"
| "stack_discipline (op # ops) s \<longleftrightarrow>
     (op = OpStackReady \<longrightarrow> ss_phase s = Ended) \<and> stack_discipline ops (session_step op s)"

lemma stack_ready_only:
  "op \<noteq> OpStackReady \<Longrightarrow> ss_stack_readies (session_step op s) = ss_stack_readies s"
proof (cases op)
  case (Stamped g st)
  then show ?thesis by (cases st) (simp_all add: session_defs)
qed (simp_all add: session_defs)

lemma ended_until_arrival:
  "op \<noteq> OpPeerArriving \<Longrightarrow> ss_phase s = Ended \<Longrightarrow> ss_phase (session_step op s) = Ended"
  using session_step_rank [of op s] by (cases "ss_phase (session_step op s)") auto

lemma stack_ready_then_over:
  assumes "stack_discipline ops s" and "ss_stack_readies s = r \<or> ss_phase s = Ended \<or> a > 0"
  shows "ss_stack_readies (run_ops session_step ops s) = r \<or>
    ss_phase (run_ops session_step ops s) = Ended \<or> a + arrivals ops > 0"
  using assms
proof (induction ops arbitrary: s a)
  case (Cons op ops)
  let ?s = "session_step op s"
  have d: "stack_discipline ops ?s" using Cons.prems(1) by simp
  have "ss_stack_readies ?s = r \<or> ss_phase ?s = Ended \<or> a + arrivals [op] > 0"
  proof (cases "op = OpPeerArriving")
    case True
    then show ?thesis by (simp add: arrivals_def)
  next
    case False
    note e = ended_until_arrival [OF False]
    have "op \<noteq> OpStackReady \<or> ss_phase s = Ended" using Cons.prems(1) by simp
    then show ?thesis using Cons.prems(2) e [of s] stack_ready_only [of op s] by auto
  qed
  from Cons.IH [OF d this] show ?case by (simp add: arrivals_def)
qed (simp add: arrivals_def)

definition path :: "bool \<Rightarrow> session_phase \<Rightarrow> session_phase \<Rightarrow> bool \<Rightarrow> catch_step list" where
  "path same a b reached =
     one (\<not> same \<and> a \<noteq> Ended) Disconnected @ one (\<not> same) PeerArrivingStep @
     one ((same \<longrightarrow> a = Arriving) \<and> b \<noteq> Arriving \<and> reached) ReadyStep @
     one ((same \<longrightarrow> a \<noteq> Ended) \<and> b = Ended) Disconnected"

lemma path_steps_path:
  "path_steps m t = path (sm_generation m = ss_generation t) (sm_phase m) (ss_phase t) (ss_reached_ready t)"
  by (cases "sm_phase m"; cases "ss_phase t") (simp_all add: path_steps_def path_def Let_def)

lemma phases_after_path:
  assumes "b = SessionReady \<longrightarrow> reached" and "same \<longrightarrow> rank a \<le> rank b"
    and "p = models a \<or> p = Faulted \<or> p = Attached \<and> (\<not> same \<or> b = Ended)"
  shows "fold (phase_after reconnect) (path same a b reached) p =
    (if p = Faulted \<and> \<not> (reconnect \<and> Disconnected \<in> set (path same a b reached)) then Faulted else models b)"
  using assms
  by (cases same; cases a; cases b; cases reached; cases reconnect; cases p)
    (simp_all add: path_def one_def is_live_def)

lemma set_one: "x \<in> set (one b y) \<longleftrightarrow> b \<and> x = y"
  by (auto simp: one_def)

lemma fault_not_in_path: "FaultStep \<notin> set (path same a b reached)" "StackReady \<notin> set (path same a b reached)"
  by (simp_all add: path_def set_one)

lemma phases_after_catch_up:
  assumes "session_inv t" and "sm_generation m = ss_generation t \<longrightarrow> rank (sm_phase m) \<le> rank (ss_phase t)"
    and "ss_stack_readies t \<noteq> sm_stack_readies m \<longrightarrow> sm_generation m \<noteq> ss_generation t \<or> ss_phase t = Ended"
    and "p = models (sm_phase m) \<or> p = Faulted"
  shows "fold (phase_after reconnect) (cu_steps (reconcile m t)) p \<in> {models (ss_phase t), Faulted}"
    and "FaultStep \<notin> set (cu_steps (reconcile m t)) \<Longrightarrow>
      p \<noteq> Faulted \<or> StackReady \<in> set (cu_steps (reconcile m t)) \<or>
        reconnect \<and> Disconnected \<in> set (cu_steps (reconcile m t)) \<Longrightarrow>
      fold (phase_after reconnect) (cu_steps (reconcile m t)) p = models (ss_phase t)"
proof -
  let ?r = "ss_stack_readies t \<noteq> sm_stack_readies m"
  let ?b = "owed_fault m t \<and> ss_fault_phase t \<noteq> Ended" and ?e = "owed_fault m t \<and> ss_fault_phase t = Ended"
  let ?same = "sm_generation m = ss_generation t"
  define p1 where "p1 = fold (phase_after reconnect) (one ?r StackReady) p"
  define p2 where "p2 = fold (phase_after reconnect) (one ?b FaultStep) p1"
  have p1: "p1 = (if ?r then Attached else p)" by (simp add: p1_def one_def)
  have p2: "p2 = (if ?b then Faulted else p1)" by (simp add: p2_def one_def)
  have ready: "ss_phase t = SessionReady \<longrightarrow> ss_reached_ready t" using assms(1) by (simp add: session_inv_def)
  have start: "p2 = models (sm_phase m) \<or> p2 = Faulted \<or> p2 = Attached \<and> (\<not> ?same \<or> ss_phase t = Ended)"
    using assms(3,4) unfolding p1 p2 by (cases ?r; cases ?b) auto
  have last: "fold (phase_after reconnect) (one ?e FaultStep) q = (if ?e then Faulted else q)" for q
    by (simp add: one_def)
  have f: "fold (phase_after reconnect) (cu_steps (reconcile m t)) p =
      (if ?e then Faulted
       else fold (phase_after reconnect) (path ?same (sm_phase m) (ss_phase t) (ss_reached_ready t)) p2)"
    unfolding reconcile_steps path_steps_path fold_append comp_apply p1_def [symmetric] p2_def [symmetric] last ..
  note q = phases_after_path [OF ready assms(2) start, of reconnect]
  show "fold (phase_after reconnect) (cu_steps (reconcile m t)) p \<in> {models (ss_phase t), Faulted}"
    unfolding f q by simp
  assume "FaultStep \<notin> set (cu_steps (reconcile m t))"
  then have "\<not> ?b" "\<not> ?e" by (auto simp: reconcile_steps set_one)
  moreover assume "p \<noteq> Faulted \<or> StackReady \<in> set (cu_steps (reconcile m t)) \<or>
        reconnect \<and> Disconnected \<in> set (cu_steps (reconcile m t))"
  then have "p \<noteq> Faulted \<or> ?r \<or> reconnect \<and> Disconnected \<in> set (path ?same (sm_phase m) (ss_phase t) (ss_reached_ready t))"
    by (auto simp: reconcile_steps set_one path_steps_path fault_not_in_path)
  ultimately show "fold (phase_after reconnect) (cu_steps (reconcile m t)) p = models (ss_phase t)"
    unfolding f q by (auto simp: p1 p2)
qed

text \<open>
  C1. Whatever the worker missed, one pass brings the link model to the phase of the session.
  Start from a worker in step with the record (or whose link is \<open>Faulted\<close>), let any callbacks
  run in which the stack comes up only after the old session ended, with fewer than
  \<open>2 ^ 32 - 1\<close> arrivals, and let the worker make one pass. The link is then in the phase that
  models the session's, or \<open>Faulted\<close>; it is never \<open>Faulted\<close> when no fault was handed over and the
  link was sound before, or the stack came up, or a session ended with reconnecting allowed;
  and the worker is in step again for the next pass.
\<close>

theorem worker_follows_session:
  assumes "session_inv s" and "stack_discipline ops s" and "arrivals ops < 2 ^ 32 - 1"
    and "ls_phase (fst p) = models (ss_phase s) \<or> ls_phase (fst p) = Faulted"
  shows "let t = run_ops session_step ops s;
             (c, applied, owner, p') = apply_lifecycle hk reconnect clock (mark_of s) t p
    in (ls_phase (fst p') = models (ss_phase owner) \<or> ls_phase (fst p') = Faulted) \<and>
       ss_phase owner = ss_phase t \<and> applied = mark_of owner \<and> session_inv owner \<and>
       (FaultStep \<notin> set (cu_steps c) \<and>
          (ls_phase (fst p) \<noteq> Faulted \<or> StackReady \<in> set (cu_steps c) \<or>
           reconnect \<and> Disconnected \<in> set (cu_steps c)) \<longrightarrow>
        ls_phase (fst p') = models (ss_phase t))"
proof -
  let ?t = "run_ops session_step ops s"
  have i: "session_inv ?t" using assms(1) by (rule session_ops.run_inv)
  have g: "sm_generation (mark_of s) = ss_generation ?t \<longrightarrow> arrivals ops = 0"
    using session_run_generation [OF assms(1), of ops] next_gen_pow_differs [OF _ assms(3), of "ss_generation s"]
    by (cases "arrivals ops = 0") (auto simp: mark_of_def)
  have r: "sm_generation (mark_of s) = ss_generation ?t \<longrightarrow> rank (sm_phase (mark_of s)) \<le> rank (ss_phase ?t)"
    using g session_run_generation [OF assms(1), of ops] by (simp add: mark_of_def)
  have o: "ss_stack_readies ?t \<noteq> sm_stack_readies (mark_of s) \<longrightarrow>
      sm_generation (mark_of s) \<noteq> ss_generation ?t \<or> ss_phase ?t = Ended"
    using g stack_ready_then_over [OF assms(2), of "ss_stack_readies s" 0] by (auto simp: mark_of_def)
  have p: "ls_phase (fst p) = models (sm_phase (mark_of s)) \<or> ls_phase (fst p) = Faulted"
    using assms(4) by (simp add: mark_of_def)
  note c = phases_after_catch_up [OF i r o p, of reconnect]
  have n: "ss_phase (so_note_coalesced k ?t) = ss_phase ?t" "mark_of (so_note_coalesced k ?t) = mark_of ?t"
    "session_inv (so_note_coalesced k ?t)" for k
    using session_step_inv [OF i, of "OpNoteCoalesced k"] by (simp_all add: so_note_coalesced_def mark_of_def)
  show ?thesis
    unfolding apply_lifecycle_def Let_def case_prod_conv worker_steps_phase n
    using c n(3) by auto
qed

text \<open>The companion's own state does not matter to any of this, so a witness may have none.\<close>

definition no_hooks :: "unit companion_hooks" where
  "no_hooks = \<lparr>hk_reset_session = id, hk_enqueue_start = id, hk_update_availability = (\<lambda>_. id)\<rparr>"

theorem worker_follows_session_witness:
  "let t = run_ops session_step [OpEndedCurrent, OpFault, OpStackReady, OpPeerArriving, Stamped 1 OpReady] new_session;
       l = link_reset (new_link_state default_link_config);
       (c, applied, owner, p') = apply_lifecycle no_hooks True (\<lambda>i. of_nat i) (mark_of new_session) t
         (snd (apply_link Attach 0 UnknownReason l), ())
   in cu_steps c = [StackReady, PeerArrivingStep, ReadyStep] \<and> ls_phase (fst p') = Ready"
proof -
  let ?ops = "[OpEndedCurrent, OpFault, OpStackReady, OpPeerArriving, Stamped 1 OpReady]"
  let ?t = "run_ops session_step ?ops new_session"
  let ?p = "(snd (apply_link Attach 0 UnknownReason (link_reset (new_link_state default_link_config))), ())"
  have h: "stack_discipline ?ops new_session" "arrivals ?ops < 2 ^ 32 - 1" "ls_phase (fst ?p) = models (ss_phase new_session)"
    by (simp_all add: session_defs new_session_def arrivals_def link_defs new_link_state_def)
  have t: "cu_steps (reconcile (mark_of new_session) ?t) = [StackReady, PeerArrivingStep, ReadyStep]"
    "ss_phase ?t = SessionReady" "ls_phase (fst ?p) \<noteq> Faulted"
    by (simp_all add: reconcile_steps path_steps_def one_def owed_fault_def mark_of_def session_defs
        new_session_def link_defs new_link_state_def)
  show ?thesis
    using worker_follows_session [OF new_session_inv h(1,2) disjI1 [OF h(3)], of no_hooks True "\<lambda>i. of_nat i"] t
    unfolding apply_lifecycle_def Let_def case_prod_conv by simp
qed

end
