(* ===== verification/Power_State.thy ===== *)
theory Power_State
  imports Attadipa_Prelude
begin

text \<open>
  The power states, the wake sources and which of each may follow which,
  \<open>core/include/attadipa/core/power_state.h\<close> and \<open>core/src/power_state.cpp\<close>. Masks of wake
  sources and of power domains are 16-bit words, one bit per enumerator.
\<close>

datatype power_state = Active | Idle | LightSleep | MeshListenSleep | DeepSleep | PowerOff

datatype wake_source = Timer | Button | Touch | RadioIrq | NodeLinkWake | UsbWake | Accelerometer | Pmu

datatype provenance = UnknownProvenance | Estimated | Measured

definition kPowerStateCount :: u8 where "kPowerStateCount = 6"
definition kWakeSourceCount :: nat where "kWakeSourceCount = 8"

fun source_index :: "wake_source \<Rightarrow> nat" where
  "source_index Timer = 0"
| "source_index Button = 1"
| "source_index Touch = 2"
| "source_index RadioIrq = 3"
| "source_index NodeLinkWake = 4"
| "source_index UsbWake = 5"
| "source_index Accelerometer = 6"
| "source_index Pmu = 7"

definition wake_bit :: "wake_source \<Rightarrow> u16" where
  "wake_bit w = push_bit (source_index w) 1"

fun legal_wake_sources :: "power_state \<Rightarrow> u16" where
  "legal_wake_sources Active = 0xFFFF"
| "legal_wake_sources Idle = 0xFFFF"
| "legal_wake_sources LightSleep =
     wake_bit Timer OR wake_bit Button OR wake_bit Touch OR wake_bit RadioIrq OR
     wake_bit NodeLinkWake OR wake_bit UsbWake OR wake_bit Accelerometer OR wake_bit Pmu"
| "legal_wake_sources MeshListenSleep =
     wake_bit Timer OR wake_bit Button OR wake_bit RadioIrq OR wake_bit NodeLinkWake OR wake_bit Pmu"
| "legal_wake_sources DeepSleep = wake_bit Timer OR wake_bit Button OR wake_bit Pmu"
| "legal_wake_sources PowerOff = wake_bit Button OR wake_bit Pmu"

definition wake_plan_is_legal :: "power_state \<Rightarrow> u16 \<Rightarrow> bool" where
  "wake_plan_is_legal state armed \<longleftrightarrow> armed AND NOT (legal_wake_sources state) = 0"

definition transition_is_legal :: "power_state \<Rightarrow> power_state \<Rightarrow> bool" where
  "transition_is_legal from to =
     (if from = to then True
      else if to = PowerOff then True
      else case from of
        Active \<Rightarrow> to = Idle
      | Idle \<Rightarrow> to = Active \<or> to = LightSleep \<or> to = MeshListenSleep \<or> to = DeepSleep
      | LightSleep \<Rightarrow> to = Idle
      | MeshListenSleep \<Rightarrow> to = Idle
      | DeepSleep \<Rightarrow> to = Active
      | PowerOff \<Rightarrow> to = Active)"

record power_metric =
  pm_value :: u32
  pm_provenance :: provenance

definition metric_usable :: "power_metric \<Rightarrow> bool" where
  "metric_usable m \<longleftrightarrow> pm_provenance m \<noteq> UnknownProvenance"

fun power_state_to_string :: "power_state \<Rightarrow> string" where
  "power_state_to_string Active = ''Active''"
| "power_state_to_string Idle = ''Idle''"
| "power_state_to_string LightSleep = ''LightSleep''"
| "power_state_to_string MeshListenSleep = ''MeshListenSleep''"
| "power_state_to_string DeepSleep = ''DeepSleep''"
| "power_state_to_string PowerOff = ''PowerOff''"

fun wake_source_to_string :: "wake_source \<Rightarrow> string" where
  "wake_source_to_string Timer = ''Timer''"
| "wake_source_to_string Button = ''Button''"
| "wake_source_to_string Touch = ''Touch''"
| "wake_source_to_string RadioIrq = ''RadioIrq''"
| "wake_source_to_string NodeLinkWake = ''NodeLink''"
| "wake_source_to_string UsbWake = ''Usb''"
| "wake_source_to_string Accelerometer = ''Accelerometer''"
| "wake_source_to_string Pmu = ''Pmu''"

fun provenance_to_string :: "provenance \<Rightarrow> string" where
  "provenance_to_string UnknownProvenance = ''UNKNOWN''"
| "provenance_to_string Estimated = ''ESTIMATED''"
| "provenance_to_string Measured = ''MEASURED''"

section \<open>Masks\<close>

definition wants :: "u16 \<Rightarrow> wake_source \<Rightarrow> bool" where
  "wants m w \<longleftrightarrow> m AND wake_bit w \<noteq> 0"

lemma source_index_bound [simp]: "source_index w < 16"
  by (cases w) simp_all

lemma wants_bit: "wants m w \<longleftrightarrow> bit m (source_index w)"
  by (simp add: wants_def wake_bit_def and_exp_eq_0_iff_not_bit)

lemma source_index_inj: "source_index v = source_index w \<longleftrightarrow> v = w"
  by (cases v; cases w) simp_all

lemma bit_wake_bit: "bit (wake_bit w) n \<longleftrightarrow> n = source_index w"
  by (auto simp: wake_bit_def bit_simps)

text \<open>
  The deeper the state, the fewer the sources that may end it, and every state can be left.
  A wake plan legal for \<open>PowerOff\<close> is legal for \<open>DeepSleep\<close>, one legal for \<open>DeepSleep\<close> is legal for
  the sleep with the mesh listening, and that for light sleep, which admits every source there is;
  the two states the board rests in are entered from \<open>Idle\<close> and left to \<open>Idle\<close> and
  nothing but being switched off; and from every state \<open>Active\<close> is at most two legal moves away.
\<close>

theorem power_state_rules:
  "(wake_plan_is_legal PowerOff m \<longrightarrow> wake_plan_is_legal DeepSleep m) \<and>
   (wake_plan_is_legal DeepSleep m \<longrightarrow> wake_plan_is_legal MeshListenSleep m) \<and>
   (wake_plan_is_legal MeshListenSleep m \<longrightarrow> wake_plan_is_legal LightSleep m) \<and>
   wants (legal_wake_sources LightSleep) w \<and>
   (rest \<in> {LightSleep, MeshListenSleep} \<longrightarrow>
      (transition_is_legal s rest \<longleftrightarrow> s = rest \<or> s = Idle) \<and>
      (transition_is_legal rest s \<longleftrightarrow> s = rest \<or> s = Idle \<or> s = PowerOff)) \<and>
   (\<exists>via. transition_is_legal s via \<and> transition_is_legal via Active)"
proof -
  have l: "wake_plan_is_legal p m \<longleftrightarrow> (\<forall>n. bit m n \<longrightarrow> bit (legal_wake_sources p) n)" for p
    using bit_imp_le_length [of m] by (auto simp: wake_plan_is_legal_def bit_eq_iff bit_simps)
  have "wants (legal_wake_sources LightSleep) w"
    by (cases w) (simp_all add: wants_bit bit_or_iff bit_wake_bit)
  moreover have "(transition_is_legal s rest \<longleftrightarrow> s = rest \<or> s = Idle) \<and>
      (transition_is_legal rest s \<longleftrightarrow> s = rest \<or> s = Idle \<or> s = PowerOff)" if "rest \<in> {LightSleep, MeshListenSleep}"
    using that by (cases s) (auto simp: transition_is_legal_def)
  moreover have "\<exists>via. transition_is_legal s via \<and> transition_is_legal via Active"
    by (rule exI [of _ "if s \<in> {LightSleep, MeshListenSleep} then Idle else Active"])
      (cases s; simp add: transition_is_legal_def)
  moreover have "wake_plan_is_legal PowerOff m \<longrightarrow> wake_plan_is_legal DeepSleep m"
    "wake_plan_is_legal DeepSleep m \<longrightarrow> wake_plan_is_legal MeshListenSleep m"
    "wake_plan_is_legal MeshListenSleep m \<longrightarrow> wake_plan_is_legal LightSleep m"
    by (auto simp: l bit_or_iff bit_wake_bit)
  ultimately show ?thesis by blast
qed

theorem power_state_rules_witness:
  "wake_plan_is_legal LightSleep (wake_bit Button OR wake_bit Pmu) \<and> \<not> wake_plan_is_legal DeepSleep (wake_bit Touch) \<and>
   \<not> transition_is_legal Active LightSleep \<and> transition_is_legal LightSleep Idle"
proof -
  have "wake_plan_is_legal PowerOff (wake_bit Button OR wake_bit Pmu)" "\<not> wake_plan_is_legal DeepSleep (wake_bit Touch)"
    by (simp_all add: wake_plan_is_legal_def wake_bit_def)
  then show ?thesis
    using power_state_rules [of "wake_bit Button OR wake_bit Pmu" Timer LightSleep Active]
      power_state_rules [of 0 Timer LightSleep Idle] by simp
qed

end
