(* ===== verification/Power_Leases.thy ===== *)
theory Power_Leases
  imports Interfaces Clock Power_State
begin

text \<open>
  The lease table of \<open>core/include/attadipa/core/power_owner.h\<close> and
  \<open>core/src/power_owner.cpp\<close> (\<open>PowerLeases\<close>): eight slots, each granting a power domain mask
  under an id made of the slot and a generation that only grows, and a holder count per domain.
\<close>

section \<open>Domains and errors\<close>

datatype power_domain = Display | Radio | NodeLink | Gnss | Imu

definition kPowerDomainCount :: nat where "kPowerDomainCount = 5"

fun domain_index :: "power_domain \<Rightarrow> nat" where
  "domain_index Display = 0"
| "domain_index Radio = 1"
| "domain_index NodeLink = 2"
| "domain_index Gnss = 3"
| "domain_index Imu = 4"

definition domain_bit :: "power_domain \<Rightarrow> u16" where
  "domain_bit d = push_bit (domain_index d) 1"

fun domain_to_string :: "power_domain \<Rightarrow> string" where
  "domain_to_string Display = ''Display''"
| "domain_to_string Radio = ''Radio''"
| "domain_to_string NodeLink = ''NodeLink''"
| "domain_to_string Gnss = ''Gnss''"
| "domain_to_string Imu = ''Imu''"

datatype lease_error = NoError | NoDomains | Exhausted | NotHeld | Retired | HardwareFailed

fun lease_error_to_string :: "lease_error \<Rightarrow> string" where
  "lease_error_to_string NoError = ''None''"
| "lease_error_to_string NoDomains = ''NoDomains''"
| "lease_error_to_string Exhausted = ''Exhausted''"
| "lease_error_to_string NotHeld = ''NotHeld''"
| "lease_error_to_string Retired = ''Retired''"
| "lease_error_to_string HardwareFailed = ''HardwareFailed''"

section \<open>The table\<close>

type_synonym lease_id = u32

definition kNoLease :: lease_id where "kNoLease = 0"
definition kLeaseCapacity :: nat where "kLeaseCapacity = 8"
definition kSlotBits :: nat where "kSlotBits = 4"
definition kSlotMask :: lease_id where "kSlotMask = push_bit kSlotBits 1 - 1"
definition kGrantsPerSlot :: lease_id where "kGrantsPerSlot = push_bit 28 1 - 1"
definition kAllDomains :: u16 where "kAllDomains = push_bit kPowerDomainCount 1 - 1"

record lease_entry =
  le_generation :: lease_id
  le_domains :: u16
  le_deadline :: monotonic

definition free_entry :: lease_entry where
  "free_entry = \<lparr>le_generation = 0, le_domains = 0, le_deadline = 0\<rparr>"

record power_leases =
  pl_entries :: "lease_entry list"
  pl_next_generation :: "lease_id list"
  pl_grants_per_slot :: lease_id
  pl_holders :: "u8 list"
  pl_outstanding :: u8

definition new_power_leases :: "lease_id \<Rightarrow> power_leases" where
  "new_power_leases grants =
     \<lparr>pl_entries = replicate kLeaseCapacity free_entry, pl_next_generation = replicate kLeaseCapacity 0,
      pl_grants_per_slot = (if grants < kGrantsPerSlot then grants else kGrantsPerSlot),
      pl_holders = replicate kPowerDomainCount 0, pl_outstanding = 0\<rparr>"

definition can_grant :: "power_leases \<Rightarrow> nat \<Rightarrow> bool" where
  "can_grant pl i \<longleftrightarrow> le_generation (pl_entries pl ! i) = 0 \<and>
     pl_next_generation pl ! i < pl_grants_per_slot pl"

definition all_retired :: "power_leases \<Rightarrow> bool" where
  "all_retired pl \<longleftrightarrow>
     list_all (\<lambda>i. \<not> pl_next_generation pl ! i < pl_grants_per_slot pl) [0..<kLeaseCapacity]"

definition make_id :: "nat \<Rightarrow> lease_id \<Rightarrow> lease_id" where
  "make_id slot generation = of_nat slot OR push_bit kSlotBits generation"

definition leases_acquire ::
  "u16 \<Rightarrow> monotonic \<Rightarrow> power_leases \<Rightarrow> lease_id \<times> lease_error \<times> power_leases" where
  "leases_acquire domains0 deadline pl =
     (let domains = domains0 AND kAllDomains in
      if domains = 0 then (kNoLease, NoDomains, pl)
      else case find (can_grant pl) [0..<kLeaseCapacity] of
        None \<Rightarrow> (kNoLease, if all_retired pl then Retired else Exhausted, pl)
      | Some slot \<Rightarrow>
          let generation = pl_next_generation pl ! slot + 1
          in (make_id slot generation, NoError,
              pl\<lparr>pl_next_generation := (pl_next_generation pl)[slot := generation],
                 pl_entries := (pl_entries pl)
                   [slot := \<lparr>le_generation = generation, le_domains = domains, le_deadline = deadline\<rparr>],
                 pl_outstanding := pl_outstanding pl + 1,
                 pl_holders := map (\<lambda>d. if domains AND push_bit d 1 \<noteq> 0 then pl_holders pl ! d + 1
                                        else pl_holders pl ! d) [0..<kPowerDomainCount]\<rparr>))"

definition id_slot :: "lease_id \<Rightarrow> nat" where
  "id_slot i = unat (i AND kSlotMask)"

definition id_generation :: "lease_id \<Rightarrow> lease_id" where
  "id_generation i = drop_bit kSlotBits i"

definition leases_release :: "lease_id \<Rightarrow> power_leases \<Rightarrow> bool \<times> lease_error \<times> power_leases" where
  "leases_release i pl =
     (let slot = id_slot i; generation = id_generation i in
      if i = kNoLease \<or> slot \<ge> kLeaseCapacity \<or> generation = 0 \<or>
         le_generation (pl_entries pl ! slot) \<noteq> generation
      then (False, NotHeld, pl)
      else
        let domains = le_domains (pl_entries pl ! slot)
        in (True, NoError,
            pl\<lparr>pl_holders := map (\<lambda>d. if domains AND push_bit d 1 \<noteq> 0 \<and> pl_holders pl ! d > 0
                                      then pl_holders pl ! d - 1 else pl_holders pl ! d)
                               [0..<kPowerDomainCount],
               pl_entries := (pl_entries pl)[slot := free_entry],
               pl_outstanding := pl_outstanding pl - 1\<rparr>))"

definition leases_held :: "power_leases \<Rightarrow> u16" where
  "leases_held pl =
     fold (\<lambda>d m. if pl_holders pl ! d > 0 then m OR push_bit d 1 else m) [0..<kPowerDomainCount] 0"

definition leases_holders :: "power_domain \<Rightarrow> power_leases \<Rightarrow> u8" where
  "leases_holders d pl = pl_holders pl ! domain_index d"

definition leases_overdue :: "monotonic \<Rightarrow> power_leases \<Rightarrow> u16" where
  "leases_overdue now pl =
     fold (\<lambda>e m. if le_generation e \<noteq> 0 \<and> le_deadline e \<noteq> 0 \<and> now > le_deadline e
                 then m OR le_domains e else m) (pl_entries pl) 0"

section \<open>Ids\<close>

lemma kSlotMask_mask: "kSlotMask = mask 4"
  by (simp add: kSlotMask_def kSlotBits_def mask_eq_exp_minus_1)

lemma unat_kGrantsPerSlot: "unat kGrantsPerSlot = 2 ^ 28 - 1"
  by (simp add: kGrantsPerSlot_def)

lemma id_of_make_id:
  assumes "slot < kLeaseCapacity" and "g \<le> kGrantsPerSlot"
  shows "id_slot (make_id slot g) = slot" and "id_generation (make_id slot g) = g"
proof -
  have s: "slot < 16" using assms(1) by (simp add: kLeaseCapacity_def)
  have t: "take_bit 4 (of_nat slot :: u32) = of_nat slot"
    using s by (simp add: take_bit_of_nat take_bit_nat_eq_self)
  have d: "drop_bit 4 (of_nat slot :: u32) = 0"
  proof -
    have "drop_bit 4 (of_nat slot :: u32) = drop_bit 4 (take_bit 4 (of_nat slot))" by (simp only: t)
    then show ?thesis by (simp add: drop_bit_take_bit)
  qed
  have g: "take_bit 28 g = g"
  proof -
    have "unat g < 2 ^ 28" using assms(2) by (simp add: word_le_unat unat_kGrantsPerSlot)
    then show ?thesis by (simp add: word_eq_unat unsigned_take_bit_eq take_bit_nat_eq_self)
  qed
  have "make_id slot g AND kSlotMask = take_bit 4 (make_id slot g)"
    by (simp add: kSlotMask_mask take_bit_eq_mask)
  also have "\<dots> = of_nat slot"
    by (simp only: make_id_def kSlotBits_def take_bit_or t) (auto intro!: bit_word_eqI simp: bit_simps)
  finally show "id_slot (make_id slot g) = slot"
    using s by (simp add: id_slot_def unat_of_nat take_bit_nat_eq_self)
  have "drop_bit 4 (push_bit 4 g) = take_bit 28 g"
    by (auto intro!: bit_word_eqI simp: bit_simps)
  then show "id_generation (make_id slot g) = g"
    by (simp only: id_generation_def make_id_def kSlotBits_def drop_bit_or d g) simp
qed

lemma make_id_of_id: "make_id (id_slot i) (id_generation i) = i"
  unfolding make_id_def id_slot_def id_generation_def kSlotBits_def kSlotMask_mask
  by (auto intro!: bit_word_eqI simp: bit_simps)

lemma make_id_zero: "slot < kLeaseCapacity \<Longrightarrow> g \<le> kGrantsPerSlot \<Longrightarrow> g \<noteq> 0 \<Longrightarrow> make_id slot g \<noteq> kNoLease"
  using id_of_make_id(2) [of slot g] by (auto simp: kNoLease_def id_generation_def)

section \<open>Counting\<close>

lemma count_update:
  "i < length xs \<Longrightarrow>
     length (filter P (xs[i := y])) + of_bool (P (xs ! i)) = length (filter P xs) + of_bool (P y)"
proof (induction xs arbitrary: i)
  case (Cons x xs)
  then show ?case by (cases i) (auto split: if_splits)
qed simp

lemma bit_fold_or_bits:
  "bit (fold (\<lambda>d m. if c d then m OR push_bit d 1 else m) ds (m::u16)) n \<longleftrightarrow>
     bit m n \<or> (n < 16 \<and> n \<in> set ds \<and> c n)"
  by (induction ds arbitrary: m) (auto simp: bit_simps)

lemma bit_fold_or_masks:
  "bit (fold (\<lambda>e m. if c e then m OR f e else m) es (m::u16)) n \<longleftrightarrow>
     bit m n \<or> (\<exists>e \<in> set es. c e \<and> bit (f e) n)"
  by (induction es arbitrary: m) (auto simp: bit_or_iff)

lemma bit_kAllDomains: "bit kAllDomains n \<longleftrightarrow> n < 5"
proof -
  have e: "kAllDomains = mask 5" by (simp add: kAllDomains_def kPowerDomainCount_def mask_eq_exp_minus_1)
  show ?thesis unfolding e bit_mask_iff by auto
qed

lemma and_push_bit: "m AND push_bit d 1 \<noteq> 0 \<longleftrightarrow> bit m d" for m :: u16
  by (simp add: and_exp_eq_0_iff_not_bit)

section \<open>The invariant\<close>

definition holders_of :: "nat \<Rightarrow> power_leases \<Rightarrow> nat" where
  "holders_of d pl = length (filter (\<lambda>e. bit (le_domains e) d) (pl_entries pl))"

definition entry_ok :: "power_leases \<Rightarrow> nat \<Rightarrow> bool" where
  "entry_ok pl i \<longleftrightarrow>
     (let e = pl_entries pl ! i in
        (le_generation e = 0 \<longrightarrow> e = free_entry) \<and>
        (\<forall>n. bit (le_domains e) n \<longrightarrow> n < 5) \<and>
        le_generation e \<le> pl_next_generation pl ! i \<and>
        pl_next_generation pl ! i \<le> pl_grants_per_slot pl)"

definition leases_inv :: "power_leases \<Rightarrow> bool" where
  "leases_inv pl \<longleftrightarrow> length (pl_entries pl) = 8 \<and> length (pl_next_generation pl) = 8 \<and>
     length (pl_holders pl) = 5 \<and> pl_grants_per_slot pl \<le> kGrantsPerSlot \<and>
     (\<forall>i < 8. entry_ok pl i) \<and> (\<forall>d < 5. pl_holders pl ! d = of_nat (holders_of d pl)) \<and>
     pl_outstanding pl = of_nat (length (filter (\<lambda>e. le_generation e \<noteq> 0) (pl_entries pl)))"

lemma new_power_leases_inv [inv_rules]: "leases_inv (new_power_leases g)"
  by (auto simp: leases_inv_def new_power_leases_def kLeaseCapacity_def kPowerDomainCount_def
      entry_ok_def holders_of_def free_entry_def)

lemma holders_le: "leases_inv pl \<Longrightarrow> holders_of d pl \<le> 8"
  using length_filter_le [of "\<lambda>e. bit (le_domains e) d" "pl_entries pl"]
  by (simp add: holders_of_def leases_inv_def)

lemma unat_small: "n \<le> 8 \<Longrightarrow> unat (of_nat n :: u8) = n"
  by (simp add: unat_of_nat take_bit_nat_eq_self)

lemma find_first:
  "find P [0..<n] = Some i \<Longrightarrow> i < n \<and> P i"
  by (auto simp: find_Some_iff)

section \<open>The leases outstanding, as a map\<close>

definition lease_map :: "power_leases \<Rightarrow> lease_id \<Rightarrow> (u16 \<times> monotonic) option" where
  "lease_map pl i =
     (let e = pl_entries pl ! id_slot i in
      if id_slot i < kLeaseCapacity \<and> id_generation i \<noteq> 0 \<and> le_generation e = id_generation i
      then Some (le_domains e, le_deadline e) else None)"

definition grant :: "u16 \<Rightarrow> monotonic \<Rightarrow> nat \<Rightarrow> power_leases \<Rightarrow> power_leases" where
  "grant D t slot pl =
     pl\<lparr>pl_next_generation := (pl_next_generation pl)[slot := pl_next_generation pl ! slot + 1],
        pl_entries := (pl_entries pl)
          [slot := \<lparr>le_generation = pl_next_generation pl ! slot + 1, le_domains = D, le_deadline = t\<rparr>],
        pl_outstanding := pl_outstanding pl + 1,
        pl_holders := map (\<lambda>d. if bit D d then pl_holders pl ! d + 1 else pl_holders pl ! d) [0..<5]\<rparr>"

definition vacate :: "nat \<Rightarrow> power_leases \<Rightarrow> power_leases" where
  "vacate slot pl =
     (let D = le_domains (pl_entries pl ! slot) in
      pl\<lparr>pl_holders := map (\<lambda>d. if bit D d \<and> pl_holders pl ! d > 0 then pl_holders pl ! d - 1
                                else pl_holders pl ! d) [0..<5],
         pl_entries := (pl_entries pl)[slot := free_entry],
         pl_outstanding := pl_outstanding pl - 1\<rparr>)"

lemma acquire_eq:
  "leases_acquire domains t pl =
     (let D = domains AND kAllDomains in
      if D = 0 then (kNoLease, NoDomains, pl)
      else case find (can_grant pl) [0..<8] of
        None \<Rightarrow> (kNoLease, if all_retired pl then Retired else Exhausted, pl)
      | Some slot \<Rightarrow> (make_id slot (pl_next_generation pl ! slot + 1), NoError, grant D t slot pl))"
  by (simp add: leases_acquire_def Let_def kLeaseCapacity_def kPowerDomainCount_def grant_def
      and_exp_eq_0_iff_not_bit cong: option.case_cong)

lemma release_eq:
  assumes "leases_inv pl"
  shows "leases_release i pl =
    (if lease_map pl i = None then (False, NotHeld, pl) else (True, NoError, vacate (id_slot i) pl))"
proof -
  have "i = kNoLease \<Longrightarrow> id_generation i = 0" by (simp add: kNoLease_def id_generation_def)
  then show ?thesis
    by (auto simp: leases_release_def lease_map_def vacate_def Let_def kPowerDomainCount_def
        and_exp_eq_0_iff_not_bit)
qed

lemma grant_facts:
  assumes i: "leases_inv pl" and s: "slot < 8" "can_grant pl slot"
  defines "g \<equiv> pl_next_generation pl ! slot + 1"
  shows "unat g = unat (pl_next_generation pl ! slot) + 1" and "g \<le> kGrantsPerSlot" and "g \<noteq> 0"
    and "g \<le> pl_grants_per_slot pl" and "pl_entries pl ! slot = free_entry"
proof -
  have l: "pl_next_generation pl ! slot < pl_grants_per_slot pl" "pl_grants_per_slot pl \<le> kGrantsPerSlot"
    using i s(2) by (simp_all add: can_grant_def leases_inv_def)
  then have n: "g \<noteq> 0" using plus_one_zero [of "pl_next_generation pl ! slot"]
    by (auto simp: g_def word_less_unat word_le_unat unat_kGrantsPerSlot)
  then show u: "unat g = unat (pl_next_generation pl ! slot) + 1" unfolding g_def by (rule unat_plus_one)
  show "g \<le> kGrantsPerSlot" "g \<le> pl_grants_per_slot pl"
    using l u by (simp_all add: word_less_unat word_le_unat)
  show "g \<noteq> 0" by (rule n)
  show "pl_entries pl ! slot = free_entry" using i s by (auto simp: leases_inv_def entry_ok_def can_grant_def Let_def)
qed

lemma grant_inv:
  assumes i: "leases_inv pl" and s: "slot < 8" "can_grant pl slot" and D: "\<And>n. bit D n \<Longrightarrow> n < 5"
  shows "leases_inv (grant D t slot pl)"
proof -
  note g = grant_facts [OF i s]
  let ?e = "\<lparr>le_generation = pl_next_generation pl ! slot + 1, le_domains = D, le_deadline = t\<rparr>"
  have l: "length (pl_entries pl) = 8" "length (pl_next_generation pl) = 8" using i by (simp_all add: leases_inv_def)
  have h: "holders_of d (grant D t slot pl) = holders_of d pl + of_bool (bit D d)" for d
    using count_update [of slot "pl_entries pl" "\<lambda>e. bit (le_domains e) d" ?e] l(1) s(1) g(5)
    by (simp add: holders_of_def grant_def free_entry_def)
  have o: "length (filter (\<lambda>e. le_generation e \<noteq> 0) (pl_entries (grant D t slot pl))) =
      length (filter (\<lambda>e. le_generation e \<noteq> 0) (pl_entries pl)) + 1"
    using count_update [of slot "pl_entries pl" "\<lambda>e. le_generation e \<noteq> 0" ?e] l(1) s(1) g(3,5)
    by (simp add: grant_def free_entry_def)
  have "entry_ok (grant D t slot pl) k" if "k < 8" for k
    using i that D g(3,4) l s(1) by (cases "k = slot") (auto simp: leases_inv_def entry_ok_def grant_def Let_def)
  then show ?thesis
    using i h o by (auto simp: leases_inv_def) (simp_all add: grant_def)
qed

lemma held_entry:
  "lease_map pl i = Some (D, t) \<Longrightarrow> id_slot i < 8 \<and> le_generation (pl_entries pl ! id_slot i) = id_generation i \<and>
     id_generation i \<noteq> 0 \<and> le_domains (pl_entries pl ! id_slot i) = D"
  by (auto simp: lease_map_def Let_def kLeaseCapacity_def split: if_splits)

lemma vacate_inv:
  assumes i: "leases_inv pl" and m: "lease_map pl i = Some (D, t)"
  shows "leases_inv (vacate (id_slot i) pl)"
proof -
  let ?k = "id_slot i"
  note h = held_entry [OF m]
  have l: "length (pl_entries pl) = 8" "length (pl_next_generation pl) = 8" using i by (simp_all add: leases_inv_def)
  have c: "holders_of d pl = holders_of d (vacate ?k pl) + of_bool (bit D d)" for d
    using count_update [of ?k "pl_entries pl" "\<lambda>e. bit (le_domains e) d" free_entry] l(1) h
    by (simp add: holders_of_def vacate_def free_entry_def Let_def)
  have o: "length (filter (\<lambda>e. le_generation e \<noteq> 0) (pl_entries pl)) =
      length (filter (\<lambda>e. le_generation e \<noteq> 0) (pl_entries (vacate ?k pl))) + 1"
    using count_update [of ?k "pl_entries pl" "\<lambda>e. le_generation e \<noteq> 0" free_entry] l(1) h
    by (simp add: vacate_def free_entry_def Let_def)
  have e: "entry_ok (vacate ?k pl) k" if "k < 8" for k
    using i that l h by (cases "k = ?k") (auto simp: leases_inv_def entry_ok_def vacate_def Let_def free_entry_def)
  have p: "pl_holders pl ! d > 0" if "d < 5" "bit D d" for d
  proof -
    have "pl_holders pl ! d = of_nat (holders_of d pl)" using i that(1) by (simp add: leases_inv_def)
    moreover have "unat (of_nat (holders_of d pl) :: u8) = holders_of d pl" using holders_le [OF i] by (rule unat_small)
    ultimately show ?thesis using c [of d] that(2) by (simp add: word_less_unat)
  qed
  have hd: "pl_holders (vacate ?k pl) ! d = of_nat (holders_of d (vacate ?k pl))" if "d < 5" for d
  proof -
    have v: "pl_holders (vacate ?k pl) ! d = (if bit D d then pl_holders pl ! d - 1 else pl_holders pl ! d)"
      using that h p [OF that] by (simp add: vacate_def Let_def)
    have "pl_holders pl ! d = of_nat (holders_of d pl)" using i that by (simp add: leases_inv_def)
    then show ?thesis using c [of d] v by simp
  qed
  have od: "pl_outstanding (vacate ?k pl) =
      of_nat (length (filter (\<lambda>e. le_generation e \<noteq> 0) (pl_entries (vacate ?k pl))))"
    using i o by (simp add: leases_inv_def vacate_def Let_def)
  have "length (pl_entries (vacate ?k pl)) = 8" "length (pl_next_generation (vacate ?k pl)) = 8"
    "length (pl_holders (vacate ?k pl)) = 5" "pl_grants_per_slot (vacate ?k pl) \<le> kGrantsPerSlot"
    using i by (simp_all add: leases_inv_def vacate_def Let_def)
  with e hd od show ?thesis unfolding leases_inv_def by blast
qed

lemma grant_map:
  assumes i: "leases_inv pl" and s: "slot < 8" "can_grant pl slot"
  defines "i' \<equiv> make_id slot (pl_next_generation pl ! slot + 1)"
  shows "lease_map (grant D t slot pl) = (lease_map pl)(i' \<mapsto> (D, t))" and "lease_map pl i' = None"
    and "i' \<noteq> kNoLease"
proof -
  note g = grant_facts [OF i s]
  have k: "slot < kLeaseCapacity" using s by (simp add: kLeaseCapacity_def)
  have d: "id_slot i' = slot" "id_generation i' = pl_next_generation pl ! slot + 1"
    using id_of_make_id [OF k g(2)] by (simp_all add: i'_def)
  show "lease_map pl i' = None" using g(3,5) by (simp add: lease_map_def d free_entry_def Let_def)
  show "i' \<noteq> kNoLease" unfolding i'_def by (rule make_id_zero [OF k g(2,3)])
  show "lease_map (grant D t slot pl) = (lease_map pl)(i' \<mapsto> (D, t))"
  proof
    fix j
    have l: "length (pl_entries pl) = 8" using i by (simp add: leases_inv_def)
    show "lease_map (grant D t slot pl) j = ((lease_map pl)(i' \<mapsto> (D, t))) j"
    proof (cases "j = i'")
      case True
      then show ?thesis using k l s(1) g(3) by (simp add: lease_map_def d grant_def Let_def)
    next
      case False
      have "id_slot j = slot \<Longrightarrow> id_generation j \<noteq> pl_next_generation pl ! slot + 1"
        using False make_id_of_id [of j] by (auto simp: i'_def)
      with False show ?thesis
        using g(5) l s(1) by (cases "id_slot j = slot") (auto simp: lease_map_def grant_def Let_def free_entry_def)
    qed
  qed
qed

lemma vacate_map:
  assumes i: "leases_inv pl" and m: "lease_map pl i = Some x"
  shows "lease_map (vacate (id_slot i) pl) = (lease_map pl)(i := None)"
proof
  fix j
  obtain D t where x: "x = (D, t)" by (cases x)
  note h = held_entry [OF m [unfolded x]]
  have l: "length (pl_entries pl) = 8" using i by (simp add: leases_inv_def)
  have same: "j = i" if "id_slot j = id_slot i" "id_generation j = id_generation i"
    using make_id_of_id [of j] make_id_of_id [of i] that by metis
  have e: "pl_entries (vacate (id_slot i) pl) = (pl_entries pl)[id_slot i := free_entry]"
    by (simp add: vacate_def Let_def)
  show "lease_map (vacate (id_slot i) pl) j = ((lease_map pl)(i := None)) j"
  proof (cases "id_slot j = id_slot i")
    case True
    then show ?thesis
      using h l same by (cases "j = i") (auto simp: lease_map_def e Let_def free_entry_def)
  next
    case False
    then have "j \<noteq> i" by auto
    with False show ?thesis by (simp add: lease_map_def e Let_def)
  qed
qed

section \<open>Runs\<close>

datatype lease_op = Acquire u16 monotonic | Release lease_id

fun lease_step :: "lease_op \<Rightarrow> power_leases \<Rightarrow> power_leases" where
  "lease_step (Acquire D t) pl = snd (snd (leases_acquire D t pl))"
| "lease_step (Release i) pl = snd (snd (leases_release i pl))"

lemma masked_domains: "bit (D AND kAllDomains) n \<Longrightarrow> n < 5"
  by (simp add: bit_and_iff bit_kAllDomains)

lemma find_grantable: "find (can_grant pl) [0..<8] = Some k \<Longrightarrow> k < 8 \<and> can_grant pl k"
  using find_first by blast

lemma lease_step_inv [inv_rules]: "leases_inv pl \<Longrightarrow> leases_inv (lease_step op pl)"
proof (cases op)
  case (Acquire D t)
  then show "leases_inv pl \<Longrightarrow> leases_inv (lease_step op pl)"
    by (auto simp: acquire_eq Let_def split: option.splits
        intro!: grant_inv masked_domains dest!: find_grantable)
next
  case (Release i)
  assume pl: "leases_inv pl"
  show ?thesis
  proof (cases "lease_map pl i")
    case None
    then show ?thesis using pl by (simp add: Release release_eq)
  next
    case (Some x)
    then show ?thesis using pl vacate_inv [OF pl, of i] by (cases x) (simp add: Release release_eq)
  qed
qed

interpretation lease_ops: guarded_ops lease_step leases_inv
  by unfold_locales (rule lease_step_inv)

text \<open>The ids handed out along a run.\<close>

fun granted :: "lease_op list \<Rightarrow> power_leases \<Rightarrow> lease_id list" where
  "granted [] pl = []"
| "granted (Acquire D t # ops) pl =
     (let (i, why, pl') = leases_acquire D t pl
      in if why = NoError then i # granted ops pl' else granted ops pl')"
| "granted (Release i # ops) pl = granted ops (snd (snd (leases_release i pl)))"

definition spent :: "power_leases \<Rightarrow> lease_id \<Rightarrow> bool" where
  "spent pl i \<longleftrightarrow> id_slot i < 8 \<and> id_generation i \<le> pl_next_generation pl ! id_slot i"

lemma spent_step: "leases_inv pl \<Longrightarrow> spent pl i \<Longrightarrow> spent (lease_step op pl) i"
proof (cases op)
  case (Acquire D t)
  assume i: "leases_inv pl" "spent pl i"
  have g: "spent (grant D' t k pl) i" if "k < 8" "can_grant pl k" for k D'
  proof -
    have "pl_next_generation pl ! k \<le> pl_next_generation pl ! k + 1"
      using grant_facts(1) [OF i(1) that] by (simp add: word_le_unat)
    then show ?thesis
      using i that by (cases "id_slot i = k") (auto simp: spent_def grant_def leases_inv_def)
  qed
  show ?thesis
    using i(2) g find_grantable [of pl] by (auto simp: Acquire acquire_eq Let_def split: option.splits)
next
  case (Release j)
  then show "leases_inv pl \<Longrightarrow> spent pl i \<Longrightarrow> ?thesis"
    by (simp add: release_eq) (simp add: spent_def vacate_def Let_def)
qed

lemma acquired:
  assumes "leases_inv pl" and "leases_acquire D t pl = (i, NoError, pl')"
  obtains k where "k < 8" "can_grant pl k" "i = make_id k (pl_next_generation pl ! k + 1)"
    "pl' = grant (D AND kAllDomains) t k pl" "D AND kAllDomains \<noteq> 0"
proof -
  have n: "D AND kAllDomains \<noteq> 0" using assms(2) by (auto simp: acquire_eq Let_def)
  have "find (can_grant pl) [0..<8] \<noteq> None"
    using assms(2) n by (cases "all_retired pl") (auto simp: acquire_eq Let_def split: option.splits)
  then obtain k where k: "find (can_grant pl) [0..<8] = Some k" by blast
  have "i = make_id k (pl_next_generation pl ! k + 1)" "pl' = grant (D AND kAllDomains) t k pl"
    using assms(2) n k by (simp_all add: acquire_eq Let_def)
  with find_grantable [OF k] n that show ?thesis by blast
qed

lemma acquired_spent:
  assumes "leases_inv pl" and "leases_acquire D t pl = (i, NoError, pl')"
  shows "\<not> spent pl i" and "spent pl' i" and "i \<noteq> kNoLease"
proof -
  obtain k where k: "k < 8" "can_grant pl k" "i = make_id k (pl_next_generation pl ! k + 1)"
    "pl' = grant (D AND kAllDomains) t k pl" using acquired [OF assms] by metis
  note g = grant_facts [OF assms(1) k(1,2)]
  have d: "id_slot i = k" "id_generation i = pl_next_generation pl ! k + 1"
    using id_of_make_id [of k] k(1) g(2) by (simp_all add: k(3) kLeaseCapacity_def)
  show "\<not> spent pl i" using g(1) by (simp add: spent_def d word_le_unat)
  show "spent pl' i" using k(1) assms(1) by (simp add: spent_def d k(4) grant_def leases_inv_def)
  show "i \<noteq> kNoLease" using grant_map(3) [OF assms(1) k(1,2)] by (simp add: k(3))
qed

lemma granted_fresh:
  "leases_inv pl \<Longrightarrow>
     distinct (granted ops pl) \<and> (\<forall>i \<in> set (granted ops pl). i \<noteq> kNoLease \<and> \<not> spent pl i)"
proof (induction ops arbitrary: pl)
  case (Cons op ops)
  have i: "leases_inv (lease_step op pl)" using Cons.prems by (rule lease_step_inv)
  note IH = Cons.IH [OF i]
  have fresh: "\<forall>i \<in> set (granted ops (lease_step op pl)). \<not> spent pl i"
    using IH spent_step [OF Cons.prems, of _ op] by blast
  show ?case
  proof (cases op)
    case (Acquire D t)
    obtain j why pl' where a: "leases_acquire D t pl = (j, why, pl')" by (cases "leases_acquire D t pl")
    show ?thesis
    proof (cases "why = NoError")
      case True
      note s = acquired_spent [OF Cons.prems a [unfolded True]]
      have "j \<notin> set (granted ops pl')" using IH s(2) by (auto simp: Acquire a)
      with IH fresh s show ?thesis by (simp add: Acquire a True)
    next
      case False
      with IH fresh show ?thesis by (simp add: Acquire a)
    qed
  next
    case (Release j)
    with IH fresh show ?thesis by simp
  qed
qed simp

lemma retired_step:
  assumes "leases_inv pl" and "all_retired pl"
  shows "all_retired (lease_step op pl)" and "snd (snd (leases_acquire D t pl)) = pl"
    and "fst (snd (leases_acquire D t pl)) \<noteq> NoError"
proof -
  have n: "find (can_grant pl) [0..<8] = None"
    using assms(2) by (auto simp: find_None_iff all_retired_def can_grant_def list_all_iff kLeaseCapacity_def)
  then show a: "snd (snd (leases_acquire D t pl)) = pl" for D t
    by (simp add: acquire_eq Let_def)
  show "fst (snd (leases_acquire D t pl)) \<noteq> NoError" using n by (simp add: acquire_eq Let_def)
  show "all_retired (lease_step op pl)"
  proof (cases op)
    case (Acquire D t)
    then show ?thesis using assms(2) by (simp add: a)
  next
    case (Release i)
    then show ?thesis
      using assms by (simp add: release_eq) (simp add: all_retired_def vacate_def Let_def)
  qed
qed

lemma retired_grants_nothing: "leases_inv pl \<Longrightarrow> all_retired pl \<Longrightarrow> granted ops pl = []"
proof (induction ops arbitrary: pl)
  case (Cons op ops)
  note IH = Cons.IH [OF lease_step_inv [OF Cons.prems(1)] retired_step(1) [OF Cons.prems]]
  show ?case
  proof (cases op)
    case (Acquire D t)
    then show ?thesis
      using IH [of op] retired_step(2,3) [OF Cons.prems, of D t] by (auto simp: split_beta Let_def)
  next
    case (Release i)
    then show ?thesis using IH [of op] by simp
  qed
qed simp

section \<open>What the counters and masks say\<close>

lemma holders_card:
  assumes "leases_inv pl"
  shows "holders_of d pl = card {i. \<exists>D t. lease_map pl i = Some (D, t) \<and> bit D d}"
proof -
  let ?K = "{k. k < 8 \<and> bit (le_domains (pl_entries pl ! k)) d}"
  let ?f = "\<lambda>k. make_id k (le_generation (pl_entries pl ! k))"
  have l: "length (pl_entries pl) = 8" using assms by (simp add: leases_inv_def)
  have e: "le_generation (pl_entries pl ! k) \<noteq> 0 \<and> le_generation (pl_entries pl ! k) \<le> kGrantsPerSlot"
    if "k \<in> ?K" for k
    using that assms by (auto simp: leases_inv_def entry_ok_def Let_def free_entry_def
        dest: order_trans intro: order_trans)
  have f: "id_slot (?f k) = k \<and> id_generation (?f k) = le_generation (pl_entries pl ! k)" if "k \<in> ?K" for k
    using id_of_make_id [of k "le_generation (pl_entries pl ! k)"] e [OF that] that by (simp add: kLeaseCapacity_def)
  have "inj_on ?f ?K" by (rule inj_on_inverseI [where g = id_slot]) (use f in blast)
  moreover have "?f ` ?K = {i. \<exists>D t. lease_map pl i = Some (D, t) \<and> bit D d}"
  proof (intro set_eqI iffI)
    fix i assume "i \<in> ?f ` ?K"
    then obtain k where k: "k \<in> ?K" "i = ?f k" by blast
    have "lease_map pl i = Some (le_domains (pl_entries pl ! k), le_deadline (pl_entries pl ! k))"
      using e [OF k(1)] f [OF k(1)] k by (simp add: lease_map_def Let_def kLeaseCapacity_def)
    then show "i \<in> {i. \<exists>D t. lease_map pl i = Some (D, t) \<and> bit D d}" using k(1) by simp
  next
    fix i assume "i \<in> {i. \<exists>D t. lease_map pl i = Some (D, t) \<and> bit D d}"
    then obtain D t where m: "lease_map pl i = Some (D, t)" "bit D d" by blast
    note h = held_entry [OF m(1)]
    have "i = ?f (id_slot i)" using h make_id_of_id [of i] by simp
    moreover have "id_slot i \<in> ?K" using h m(2) by simp
    ultimately show "i \<in> ?f ` ?K" by blast
  qed
  ultimately have "card {i. \<exists>D t. lease_map pl i = Some (D, t) \<and> bit D d} = card ?K"
    using card_image [of ?f ?K] by simp
  moreover have "holders_of d pl = card ?K"
    unfolding holders_of_def length_filter_conv_card l ..
  ultimately show ?thesis by simp
qed

lemma bit_held: "bit (leases_held pl) d \<longleftrightarrow> d < 5 \<and> pl_holders pl ! d > 0"
  unfolding leases_held_def bit_fold_or_bits kPowerDomainCount_def by auto

lemma lease_holds_domain:
  assumes i: "leases_inv pl" and m: "lease_map pl i = Some (D, t)" and b: "bit D (domain_index d)"
  shows "bit (leases_held pl) (domain_index d)"
proof -
  note h = held_entry [OF m]
  have "pl_entries pl ! id_slot i \<in> set (filter (\<lambda>e. bit (le_domains e) (domain_index d)) (pl_entries pl))"
    using h b i by (simp add: leases_inv_def)
  then have "0 < holders_of (domain_index d) pl" unfolding holders_of_def by (rule length_pos_if_in_set)
  moreover have d5: "domain_index d < 5" by (cases d) simp_all
  moreover have "pl_holders pl ! domain_index d = of_nat (holders_of (domain_index d) pl)"
    using i d5 by (simp add: leases_inv_def)
  ultimately show ?thesis
    using unat_small [OF holders_le [OF i, of "domain_index d"]] by (simp add: bit_held word_less_unat)
qed

lemma acquired_map:
  assumes inv: "leases_inv pl" and a: "leases_acquire D t pl = (i, NoError, pl')"
  shows "lease_map pl' = (lease_map pl)(i \<mapsto> (D AND kAllDomains, t))" and "i \<noteq> kNoLease" and "leases_inv pl'"
proof -
  obtain k where k: "k < 8" "can_grant pl k" "i = make_id k (pl_next_generation pl ! k + 1)"
      "pl' = grant (D AND kAllDomains) t k pl" using acquired [OF inv a] by metis
  show "lease_map pl' = (lease_map pl)(i \<mapsto> (D AND kAllDomains, t))" "i \<noteq> kNoLease"
    using grant_map(1) [OF inv k(1,2), of "D AND kAllDomains" t] grant_map(3) [OF inv k(1,2)] k by simp_all
  show "leases_inv pl'" using lease_step_inv [OF inv, of "Acquire D t"] a by simp
qed

lemma refused_acquire: "leases_acquire D t pl = (i, why, pl') \<Longrightarrow> why \<noteq> NoError \<Longrightarrow> i = kNoLease \<and> pl' = pl"
  by (auto simp: acquire_eq Let_def split: option.splits if_splits)

lemma released_map:
  assumes inv: "leases_inv pl" and r: "leases_release j pl = (ok, why, pl')"
  shows "leases_inv pl'" and "ok \<longleftrightarrow> lease_map pl j \<noteq> None"
    and "lease_map pl' = (if ok then (lease_map pl)(j := None) else lease_map pl)"
    and "ok \<longrightarrow> why = NoError"
  using r vacate_map [OF inv, of j] lease_step_inv [OF inv, of "Release j"]
  by (auto simp: release_eq [OF inv] split: if_splits)

lemma entry_held:
  assumes "leases_inv pl"
  shows "(\<exists>e \<in> set (pl_entries pl). le_generation e \<noteq> 0 \<and> P (le_domains e) (le_deadline e)) \<longleftrightarrow>
    (\<exists>i D t. lease_map pl i = Some (D, t) \<and> P D t)"
proof
  assume "\<exists>e \<in> set (pl_entries pl). le_generation e \<noteq> 0 \<and> P (le_domains e) (le_deadline e)"
  then obtain k where k: "k < 8" "le_generation (pl_entries pl ! k) \<noteq> 0"
    "P (le_domains (pl_entries pl ! k)) (le_deadline (pl_entries pl ! k))"
    using assms by (auto simp: in_set_conv_nth leases_inv_def)
  have "le_generation (pl_entries pl ! k) \<le> kGrantsPerSlot"
    using assms k(1) by (auto simp: leases_inv_def entry_ok_def Let_def intro: order_trans)
  then have "lease_map pl (make_id k (le_generation (pl_entries pl ! k))) =
      Some (le_domains (pl_entries pl ! k), le_deadline (pl_entries pl ! k))"
    using id_of_make_id [of k "le_generation (pl_entries pl ! k)"] k
    by (simp add: lease_map_def kLeaseCapacity_def Let_def)
  with k(3) show "\<exists>i D t. lease_map pl i = Some (D, t) \<and> P D t" by blast
next
  assume "\<exists>i D t. lease_map pl i = Some (D, t) \<and> P D t"
  then obtain i D t where m: "lease_map pl i = Some (D, t)" "P D t" by blast
  note h = held_entry [OF m(1)]
  have "le_deadline (pl_entries pl ! id_slot i) = t"
    using m(1) by (auto simp: lease_map_def Let_def split: if_splits)
  moreover have "pl_entries pl ! id_slot i \<in> set (pl_entries pl)" using h assms by (simp add: leases_inv_def)
  ultimately show "\<exists>e \<in> set (pl_entries pl). le_generation e \<noteq> 0 \<and> P (le_domains e) (le_deadline e)"
    using h m(2) by metis
qed

lemma bit_overdue:
  assumes "leases_inv pl"
  shows "bit (leases_overdue now pl) d \<longleftrightarrow>
    (\<exists>i D t. lease_map pl i = Some (D, t) \<and> t \<noteq> 0 \<and> now > t \<and> bit D d)"
proof -
  have "bit (leases_overdue now pl) d \<longleftrightarrow>
      (\<exists>e \<in> set (pl_entries pl). le_generation e \<noteq> 0 \<and> (le_deadline e \<noteq> 0 \<and> now > le_deadline e \<and> bit (le_domains e) d))"
    unfolding leases_overdue_def bit_fold_or_masks by auto
  then show ?thesis using entry_held [OF assms, of "\<lambda>D t. t \<noteq> 0 \<and> now > t \<and> bit D d"] by simp
qed

section \<open>The properties\<close>

text \<open>
  C27. The lease table is the finite map of the leases outstanding. After any acquires and
  releases, from a table of any grant limit: an acquire that succeeds adds one lease under an id
  not outstanding and changes no other; a release succeeds exactly for an outstanding id and
  removes that one; whatever is refused changes nothing; \<open>held\<close>, \<open>holders\<close> and \<open>overdue\<close> are
  what the outstanding leases say.
\<close>

theorem lease_table_is_a_map:
  "let pl = run_ops lease_step ops (new_power_leases grants);
       (i, why, pl') = leases_acquire D t pl;
       (ok, why', pl'') = leases_release j pl
   in (why = NoError \<longrightarrow> lease_map pl i = None \<and> lease_map pl' = (lease_map pl)(i \<mapsto> (D AND kAllDomains, t))) \<and>
      (why \<noteq> NoError \<longrightarrow> i = kNoLease \<and> pl' = pl) \<and>
      (ok \<longleftrightarrow> lease_map pl j \<noteq> None) \<and> (ok \<longrightarrow> lease_map pl'' = (lease_map pl)(j := None)) \<and>
      (\<not> ok \<longrightarrow> why' = NotHeld \<and> pl'' = pl) \<and>
      unat (leases_holders d pl) = card {i. \<exists>D t. lease_map pl i = Some (D, t) \<and> bit D (domain_index d)} \<and>
      (bit (leases_held pl) (domain_index d) \<longleftrightarrow> leases_holders d pl > 0) \<and>
      (bit (leases_overdue now pl) n \<longleftrightarrow>
         (\<exists>i D t. lease_map pl i = Some (D, t) \<and> t \<noteq> 0 \<and> now > t \<and> bit D n))"
proof -
  define pl where "pl = run_ops lease_step ops (new_power_leases grants)"
  have inv: "leases_inv pl" unfolding pl_def by (rule lease_ops.run_inv) (rule new_power_leases_inv)
  obtain i why pl' where a: "leases_acquire D t pl = (i, why, pl')" by (cases "leases_acquire D t pl")
  obtain ok why' pl'' where r: "leases_release j pl = (ok, why', pl'')" by (cases "leases_release j pl")
  have "lease_map pl i = None \<and> lease_map pl' = (lease_map pl)(i \<mapsto> (D AND kAllDomains, t))" if w: "why = NoError"
  proof -
    obtain k where "k < 8" "can_grant pl k" "i = make_id k (pl_next_generation pl ! k + 1)"
      "pl' = grant (D AND kAllDomains) t k pl" using acquired [OF inv a [unfolded w]] by metis
    with grant_map(1) [OF inv, of k "D AND kAllDomains" t] grant_map(2) [OF inv, of k] show ?thesis by simp
  qed
  moreover have "why \<noteq> NoError \<longrightarrow> i = kNoLease \<and> pl' = pl"
    using a by (auto simp: acquire_eq Let_def split: option.splits if_splits)
  moreover have "(ok \<longleftrightarrow> lease_map pl j \<noteq> None) \<and> (ok \<longrightarrow> lease_map pl'' = (lease_map pl)(j := None)) \<and>
      (\<not> ok \<longrightarrow> why' = NotHeld \<and> pl'' = pl)"
    using r vacate_map [OF inv, of j] by (auto simp: release_eq [OF inv] split: if_splits)
  moreover have d: "domain_index d < 5" by (cases d) simp_all
  have "pl_holders pl ! domain_index d = of_nat (holders_of (domain_index d) pl)" using inv d by (simp add: leases_inv_def)
  then have "unat (leases_holders d pl) = card {i. \<exists>D t. lease_map pl i = Some (D, t) \<and> bit D (domain_index d)}"
    using holders_card [OF inv] unat_small [OF holders_le [OF inv]] by (simp add: leases_holders_def)
  moreover have "bit (leases_held pl) (domain_index d) \<longleftrightarrow> leases_holders d pl > 0"
    using d by (simp add: bit_held leases_holders_def)
  ultimately show ?thesis
    using bit_overdue [OF inv] unfolding pl_def [symmetric] by (simp add: a r)
qed

theorem lease_table_is_a_map_witness:
  "let pl = run_ops lease_step [Acquire 3 0, Acquire 2 50] (new_power_leases 9)
   in lease_map pl 17 \<noteq> None \<and> fst (leases_release 17 pl) \<and> \<not> fst (leases_release 33 pl)"
proof -
  let ?pl = "run_ops lease_step [Acquire 3 0, Acquire 2 50] (new_power_leases 9)"
  have "fst (leases_release 17 ?pl)" "\<not> fst (leases_release 33 ?pl)" by code_simp+
  moreover have "fst (leases_release 17 ?pl) \<longleftrightarrow> lease_map ?pl 17 \<noteq> None"
    using lease_table_is_a_map [of "[Acquire 3 0, Acquire 2 50]" 9 1 1 17] by (simp add: split_beta Let_def)
  ultimately show ?thesis by (simp add: Let_def)
qed

text \<open>
  C12. An id is never handed out twice. Over any acquires and releases the granted ids are all
  different and none is \<open>kNoLease\<close>, whatever the grant limit: a slot whose generations are spent
  is retired rather than reused. An acquire is refused for want of a domain exactly when no
  known domain is asked for, and as \<open>Retired\<close> only when no slot can ever grant again.
\<close>

theorem lease_ids_never_reissued:
  "let pl = run_ops lease_step ops (new_power_leases grants);
       (i, why, pl') = leases_acquire D t pl
   in distinct (granted (ops @ later) (new_power_leases grants)) \<and>
      kNoLease \<notin> set (granted (ops @ later) (new_power_leases grants)) \<and>
      (why = NoDomains \<longleftrightarrow> D AND kAllDomains = 0) \<and>
      (why = Retired \<longrightarrow> granted later pl = [])"
proof -
  define pl where "pl = run_ops lease_step ops (new_power_leases grants)"
  have inv: "leases_inv pl" unfolding pl_def by (rule lease_ops.run_inv) (rule new_power_leases_inv)
  obtain i why pl' where a: "leases_acquire D t pl = (i, why, pl')" by (cases "leases_acquire D t pl")
  have "why = NoDomains \<longleftrightarrow> D AND kAllDomains = 0"
    using a by (auto simp: acquire_eq Let_def split: option.splits if_splits)
  moreover have "granted later pl = []" if "why = Retired"
  proof -
    have "all_retired pl" using a that by (auto simp: acquire_eq Let_def split: option.splits if_splits)
    then show ?thesis by (rule retired_grants_nothing [OF inv])
  qed
  moreover note granted_fresh [OF new_power_leases_inv, of "ops @ later" grants]
  ultimately show ?thesis unfolding pl_def [symmetric] by (auto simp: a)
qed

theorem lease_ids_never_reissued_witness:
  "granted [Acquire 1 0, Release 16, Acquire 1 0, Acquire 1 0] (new_power_leases 1) = [16, 17, 18] \<and>
   distinct (granted [Acquire 1 0, Release 16, Acquire 1 0, Acquire 1 0] (new_power_leases 1))"
proof -
  have "granted [Acquire 1 0, Release 16, Acquire 1 0, Acquire 1 0] (new_power_leases 1) = [16, 17, 18]"
    by code_simp
  then show ?thesis
    using lease_ids_never_reissued [of "[Acquire 1 0, Release 16, Acquire 1 0, Acquire 1 0]" 1 1 1 "[]"]
    by (simp add: split_beta Let_def)
qed

end
