(* ===== verification/Power_Owner.thy ===== *)
theory Power_Owner
  imports Power_Leases
begin

text \<open>
  The sleep transaction of \<open>core/include/attadipa/core/power_owner.h\<close> and
  \<open>core/src/power_owner.cpp\<close> (\<open>PowerOwner\<close>). The board behind \<open>PowerHardware\<close> is an abstract
  interface of the code, so it is a parameter: a record of its six operations over a state of
  the board, each returning what the C++ virtual function returns and the board after it.
\<close>

section \<open>The hardware seam\<close>

datatype step_result = Done | Unchanged | UnknownStep

record wake_causes =
  wc_from_soc :: u16
  wc_derived :: u16
  wc_unmapped_from_soc :: u32

record 'h power_hardware =
  hw_suspend :: "power_domain \<Rightarrow> 'h \<Rightarrow> step_result \<times> 'h"
  hw_resume :: "power_domain \<Rightarrow> 'h \<Rightarrow> bool \<times> 'h"
  hw_set_rail :: "power_domain \<Rightarrow> bool \<Rightarrow> 'h \<Rightarrow> bool \<times> 'h"
  hw_arm_wake :: "wake_source \<Rightarrow> 'h \<Rightarrow> step_result \<times> 'h"
  hw_disarm_wake :: "wake_source \<Rightarrow> 'h \<Rightarrow> bool \<times> 'h"
  hw_sleep :: "power_state \<Rightarrow> 'h \<Rightarrow> bool \<times> wake_causes \<times> 'h"

definition kOrder :: "power_domain list" where
  "kOrder = [Display, Radio, NodeLink, Gnss, Imu]"

definition kWakeOrder :: "wake_source list" where
  "kWakeOrder = [Timer, Button, Touch, RadioIrq, NodeLinkWake, UsbWake, Accelerometer, Pmu]"

section \<open>Plans and reports\<close>

record sleep_plan =
  sp_state :: power_state
  sp_wake_sources :: u16
  sp_suspend :: u16
  sp_rails_off :: u16

datatype sleep_outcome =
    Woken | RefusedTransition | RefusedWakePlan | RefusedRailBeforeSuspend | RefusedLeaseHeld
  | RefusedHardwareFailed | FailedSuspend | FailedRail | FailedArm | FailedSleep

fun sleep_outcome_to_string :: "sleep_outcome \<Rightarrow> string" where
  "sleep_outcome_to_string Woken = ''Woken''"
| "sleep_outcome_to_string RefusedTransition = ''RefusedTransition''"
| "sleep_outcome_to_string RefusedWakePlan = ''RefusedWakePlan''"
| "sleep_outcome_to_string RefusedRailBeforeSuspend = ''RefusedRailBeforeSuspend''"
| "sleep_outcome_to_string RefusedLeaseHeld = ''RefusedLeaseHeld''"
| "sleep_outcome_to_string RefusedHardwareFailed = ''RefusedHardwareFailed''"
| "sleep_outcome_to_string FailedSuspend = ''FailedSuspend''"
| "sleep_outcome_to_string FailedRail = ''FailedRail''"
| "sleep_outcome_to_string FailedArm = ''FailedArm''"
| "sleep_outcome_to_string FailedSleep = ''FailedSleep''"

record sleep_report =
  sr_outcome :: sleep_outcome
  sr_wake_causes :: u16
  sr_overdue_leases :: u16
  sr_blocked_by :: u16
  sr_blocked_sources :: u16
  sr_unexpected_causes :: u16
  sr_unmapped_causes :: u32
  sr_hardware_known :: bool

definition new_sleep_report :: sleep_report where
  "new_sleep_report =
     \<lparr>sr_outcome = RefusedTransition, sr_wake_causes = 0, sr_overdue_leases = 0, sr_blocked_by = 0,
      sr_blocked_sources = 0, sr_unexpected_causes = 0, sr_unmapped_causes = 0, sr_hardware_known = True\<rparr>"

definition report_slept :: "sleep_report \<Rightarrow> bool" where
  "report_slept r \<longleftrightarrow> sr_outcome r = Woken"

definition woke_by :: "wake_source \<Rightarrow> sleep_report \<Rightarrow> bool" where
  "woke_by w r \<longleftrightarrow> report_slept r \<and> sr_wake_causes r AND wake_bit w \<noteq> 0"

section \<open>The owner\<close>

record power_owner =
  po_leases :: power_leases
  po_state :: power_state
  po_cycles :: u32
  po_known :: bool
  po_failed_resume :: u16
  po_failed_rail :: u16
  po_failed_disarm :: u16

definition new_power_owner :: power_owner where
  "new_power_owner =
     \<lparr>po_leases = new_power_leases kGrantsPerSlot, po_state = Active, po_cycles = 0, po_known = True,
      po_failed_resume = 0, po_failed_rail = 0, po_failed_disarm = 0\<rparr>"

definition po_acquire :: "u16 \<Rightarrow> monotonic \<Rightarrow> power_owner \<Rightarrow> lease_id \<times> lease_error \<times> power_owner" where
  "po_acquire domains deadline po =
     (if \<not> po_known po then (kNoLease, HardwareFailed, po)
      else case leases_acquire domains deadline (po_leases po) of
        (i, why, pl) \<Rightarrow> (i, why, po\<lparr>po_leases := pl\<rparr>))"

definition po_release :: "lease_id \<Rightarrow> power_owner \<Rightarrow> bool \<times> lease_error \<times> power_owner" where
  "po_release i po =
     (case leases_release i (po_leases po) of (ok, why, pl) \<Rightarrow> (ok, why, po\<lparr>po_leases := pl\<rparr>))"

definition po_available :: "power_owner \<Rightarrow> bool" where
  "po_available po \<longleftrightarrow> po_known po"

definition po_reinitialised :: "power_owner \<Rightarrow> power_owner" where
  "po_reinitialised po =
     po\<lparr>po_known := True, po_state := Active, po_failed_resume := 0, po_failed_rail := 0,
        po_failed_disarm := 0\<rparr>"

definition wants_domain :: "u16 \<Rightarrow> power_domain \<Rightarrow> bool" where
  "wants_domain m d \<longleftrightarrow> m AND domain_bit d \<noteq> 0"

subsection \<open>Retrying what would not go back\<close>

definition recover_wake ::
  "'h power_hardware \<Rightarrow> wake_source \<Rightarrow> power_owner \<times> 'h \<Rightarrow> power_owner \<times> 'h" where
  "recover_wake hw w = (\<lambda>(po, h).
     if \<not> wants (po_failed_disarm po) w then (po, h)
     else case hw_disarm_wake hw w h of (ok, h') \<Rightarrow>
       (if ok then po\<lparr>po_failed_disarm := po_failed_disarm po AND NOT (wake_bit w)\<rparr> else po, h'))"

definition recover_rail ::
  "'h power_hardware \<Rightarrow> power_domain \<Rightarrow> power_owner \<times> 'h \<Rightarrow> power_owner \<times> 'h" where
  "recover_rail hw d = (\<lambda>(po, h).
     if \<not> wants_domain (po_failed_rail po) d then (po, h)
     else case hw_set_rail hw d True h of (ok, h') \<Rightarrow>
       (if ok then po\<lparr>po_failed_rail := po_failed_rail po AND NOT (domain_bit d)\<rparr> else po, h'))"

definition recover_resume ::
  "'h power_hardware \<Rightarrow> power_domain \<Rightarrow> power_owner \<times> 'h \<Rightarrow> power_owner \<times> 'h" where
  "recover_resume hw d = (\<lambda>(po, h).
     if \<not> wants_domain (po_failed_resume po) d then (po, h)
     else case hw_resume hw d h of (ok, h') \<Rightarrow>
       (if ok then po\<lparr>po_failed_resume := po_failed_resume po AND NOT (domain_bit d)\<rparr> else po, h'))"

definition recover ::
  "'h power_hardware \<Rightarrow> sleep_report \<Rightarrow> power_owner \<times> 'h \<Rightarrow> bool \<times> sleep_report \<times> power_owner \<times> 'h" where
  "recover hw report ph =
     (let ph1 = fold (recover_wake hw) (rev kWakeOrder) ph;
          ph2 = fold (recover_rail hw) (rev kOrder) ph1;
          (po, h) = fold (recover_resume hw) (rev kOrder) ph2
      in if po_failed_disarm po OR po_failed_rail po OR po_failed_resume po \<noteq> 0
         then (False,
               report\<lparr>sr_blocked_by := po_failed_rail po OR po_failed_resume po,
                      sr_blocked_sources := po_failed_disarm po\<rparr>, po, h)
         else (True, report, po\<lparr>po_known := True, po_state := Active\<rparr>, h))"

subsection \<open>Undoing the steps\<close>

type_synonym 'h unwinding = "bool \<times> sleep_report \<times> power_owner \<times> 'h"

definition unwind_suspend1 :: "'h power_hardware \<Rightarrow> u16 \<Rightarrow> power_domain \<Rightarrow> 'h unwinding \<Rightarrow> 'h unwinding" where
  "unwind_suspend1 hw suspended d = (\<lambda>(ok, r, po, h).
     if \<not> wants_domain suspended d then (ok, r, po, h)
     else case hw_resume hw d h of (done, h') \<Rightarrow>
       if done then (ok, r, po, h')
       else (False,
             r\<lparr>sr_hardware_known := False, sr_blocked_by := sr_blocked_by r OR domain_bit d\<rparr>,
             po\<lparr>po_failed_resume := po_failed_resume po OR domain_bit d\<rparr>, h'))"

definition unwind_suspend :: "'h power_hardware \<Rightarrow> u16 \<Rightarrow> sleep_report \<times> power_owner \<times> 'h \<Rightarrow> 'h unwinding" where
  "unwind_suspend hw suspended s = fold (unwind_suspend1 hw suspended) (rev kOrder) (True, s)"

definition unwind_rails1 :: "'h power_hardware \<Rightarrow> u16 \<Rightarrow> power_domain \<Rightarrow> 'h unwinding \<Rightarrow> 'h unwinding" where
  "unwind_rails1 hw gone d = (\<lambda>(ok, r, po, h).
     if \<not> wants_domain gone d then (ok, r, po, h)
     else case hw_set_rail hw d True h of (done, h') \<Rightarrow>
       if done then (ok, r, po, h')
       else (False,
             r\<lparr>sr_hardware_known := False, sr_blocked_by := sr_blocked_by r OR domain_bit d\<rparr>,
             po\<lparr>po_failed_rail := po_failed_rail po OR domain_bit d\<rparr>, h'))"

definition unwind_rails :: "'h power_hardware \<Rightarrow> u16 \<Rightarrow> sleep_report \<times> power_owner \<times> 'h \<Rightarrow> 'h unwinding" where
  "unwind_rails hw gone s = fold (unwind_rails1 hw gone) (rev kOrder) (True, s)"

definition unwind_wake1 :: "'h power_hardware \<Rightarrow> u16 \<Rightarrow> wake_source \<Rightarrow> 'h unwinding \<Rightarrow> 'h unwinding" where
  "unwind_wake1 hw armed w = (\<lambda>(ok, r, po, h).
     if \<not> wants armed w then (ok, r, po, h)
     else case hw_disarm_wake hw w h of (done, h') \<Rightarrow>
       if done then (ok, r, po, h')
       else (False,
             r\<lparr>sr_hardware_known := False, sr_blocked_sources := sr_blocked_sources r OR wake_bit w\<rparr>,
             po\<lparr>po_failed_disarm := po_failed_disarm po OR wake_bit w\<rparr>, h'))"

definition unwind_wake :: "'h power_hardware \<Rightarrow> u16 \<Rightarrow> sleep_report \<times> power_owner \<times> 'h \<Rightarrow> 'h unwinding" where
  "unwind_wake hw armed s = fold (unwind_wake1 hw armed) (rev kWakeOrder) (True, s)"

subsection \<open>Going down, one step at a time\<close>

text \<open>
  The three loops of \<open>sleep\<close>: each stops at the first step that does not succeed, and returns it
  with what had been done before it.
\<close>

fun suspend_all ::
  "'h power_hardware \<Rightarrow> u16 \<Rightarrow> power_domain list \<Rightarrow> u16 \<Rightarrow> 'h
     \<Rightarrow> (power_domain \<times> step_result) option \<times> u16 \<times> 'h" where
  "suspend_all hw plan [] suspended h = (None, suspended, h)"
| "suspend_all hw plan (d # ds) suspended h =
     (if \<not> wants_domain plan d then suspend_all hw plan ds suspended h
      else case hw_suspend hw d h of (step, h') \<Rightarrow>
        if step \<noteq> Done then (Some (d, step), suspended, h')
        else suspend_all hw plan ds (suspended OR domain_bit d) h')"

fun cut_all ::
  "'h power_hardware \<Rightarrow> u16 \<Rightarrow> power_domain list \<Rightarrow> u16 \<Rightarrow> 'h \<Rightarrow> power_domain option \<times> u16 \<times> 'h" where
  "cut_all hw plan [] gone h = (None, gone, h)"
| "cut_all hw plan (d # ds) gone h =
     (if \<not> wants_domain plan d then cut_all hw plan ds gone h
      else case hw_set_rail hw d False h of (done, h') \<Rightarrow>
        if \<not> done then (Some d, gone, h')
        else cut_all hw plan ds (gone OR domain_bit d) h')"

fun arm_all ::
  "'h power_hardware \<Rightarrow> u16 \<Rightarrow> wake_source list \<Rightarrow> u16 \<Rightarrow> 'h
     \<Rightarrow> (wake_source \<times> step_result) option \<times> u16 \<times> 'h" where
  "arm_all hw plan [] armed h = (None, armed, h)"
| "arm_all hw plan (w # ws) armed h =
     (if \<not> wants plan w then arm_all hw plan ws armed h
      else case hw_arm_wake hw w h of (step, h') \<Rightarrow>
        if step \<noteq> Done then (Some (w, step), armed, h')
        else arm_all hw plan ws (armed OR wake_bit w) h')"

subsection \<open>The transaction\<close>

text \<open>The checks before any step, as the report that refuses, if one does.\<close>

definition refusal :: "sleep_plan \<Rightarrow> power_owner \<Rightarrow> sleep_report \<Rightarrow> sleep_report option" where
  "refusal plan po report =
     (let restable = (sp_state plan = LightSleep \<or> sp_state plan = MeshListenSleep);
          blocked = leases_held (po_leases po) AND (sp_suspend plan OR sp_rails_off plan)
      in if \<not> restable \<or> \<not> transition_is_legal (po_state po) Idle \<or>
            \<not> transition_is_legal Idle (sp_state plan)
         then Some (report\<lparr>sr_outcome := RefusedTransition\<rparr>)
         else if \<not> wake_plan_is_legal (sp_state plan) (sp_wake_sources plan)
         then Some (report\<lparr>sr_outcome := RefusedWakePlan,
                           sr_blocked_sources := sp_wake_sources plan AND NOT (legal_wake_sources (sp_state plan))\<rparr>)
         else if sp_rails_off plan AND NOT (sp_suspend plan) \<noteq> 0
         then Some (report\<lparr>sr_outcome := RefusedRailBeforeSuspend,
                           sr_blocked_by := sp_rails_off plan AND NOT (sp_suspend plan)\<rparr>)
         else if blocked \<noteq> 0
         then Some (report\<lparr>sr_outcome := RefusedLeaseHeld, sr_blocked_by := blocked\<rparr>)
         else None)"

definition fail_suspend ::
  "'h power_hardware \<Rightarrow> power_domain \<Rightarrow> step_result \<Rightarrow> u16 \<Rightarrow> sleep_report \<times> power_owner \<times> 'h
     \<Rightarrow> sleep_report \<times> power_owner \<times> 'h" where
  "fail_suspend hw d step suspended = (\<lambda>(report, po, h).
     let r1 = report\<lparr>sr_outcome := FailedSuspend, sr_blocked_by := domain_bit d\<rparr>;
         (r2, po2) = (if step = UnknownStep
                      then (r1\<lparr>sr_hardware_known := False\<rparr>,
                            po\<lparr>po_failed_resume := po_failed_resume po OR domain_bit d\<rparr>)
                      else (r1, po));
         (ok, r3, po3, h3) = unwind_suspend hw suspended (r2, po2, h)
     in (r3, po3\<lparr>po_known := sr_hardware_known r3\<rparr>, h3))"

definition fail_rail ::
  "'h power_hardware \<Rightarrow> power_domain \<Rightarrow> u16 \<Rightarrow> u16 \<Rightarrow> sleep_report \<times> power_owner \<times> 'h
     \<Rightarrow> sleep_report \<times> power_owner \<times> 'h" where
  "fail_rail hw d suspended gone = (\<lambda>(report, po, h).
     let r1 = report\<lparr>sr_outcome := FailedRail, sr_blocked_by := domain_bit d\<rparr>;
         (ok2, s2) = unwind_rails hw gone (r1, po, h);
         (ok3, r3, po3, h3) = unwind_suspend hw suspended s2;
         po4 = po3\<lparr>po_state := (if sr_hardware_known r3 then Active else po_state po3)\<rparr>
     in (r3, po4\<lparr>po_known := sr_hardware_known r3\<rparr>, h3))"

definition fail_arm ::
  "'h power_hardware \<Rightarrow> wake_source \<Rightarrow> step_result \<Rightarrow> u16 \<Rightarrow> u16 \<Rightarrow> u16 \<Rightarrow> sleep_report \<times> power_owner \<times> 'h
     \<Rightarrow> sleep_report \<times> power_owner \<times> 'h" where
  "fail_arm hw w step suspended gone armed = (\<lambda>(report, po, h).
     let r1 = report\<lparr>sr_outcome := FailedArm, sr_blocked_sources := wake_bit w\<rparr>;
         (r2, po2) = (if step = UnknownStep
                      then (r1\<lparr>sr_hardware_known := False\<rparr>,
                            po\<lparr>po_failed_disarm := po_failed_disarm po OR wake_bit w\<rparr>)
                      else (r1, po));
         (ok3, s3) = unwind_wake hw armed (r2, po2, h);
         (ok4, s4) = unwind_rails hw gone s3;
         (ok5, r5, po5, h5) = unwind_suspend hw suspended s4;
         po6 = po5\<lparr>po_state := (if sr_hardware_known r5 then Active else po_state po5)\<rparr>
     in (r5, po6\<lparr>po_known := sr_hardware_known r5\<rparr>, h5))"

definition rest_and_return ::
  "'h power_hardware \<Rightarrow> power_state \<Rightarrow> u16 \<Rightarrow> u16 \<Rightarrow> u16 \<Rightarrow> sleep_report \<times> power_owner \<times> 'h
     \<Rightarrow> sleep_report \<times> power_owner \<times> 'h" where
  "rest_and_return hw resting suspended gone armed = (\<lambda>(report, po, h).
     let po1 = po\<lparr>po_state := resting\<rparr>;
         (slept, causes, h1) = hw_sleep hw resting h;
         po2 = po1\<lparr>po_state := Idle\<rparr>;
         (ok3, s3) = unwind_wake hw armed (report, po2, h1);
         (ok4, s4) = unwind_rails hw gone s3;
         (ok5, r5, po5, h5) = unwind_suspend hw suspended s4;
         po6 = po5\<lparr>po_known := sr_hardware_known r5\<rparr>;
         po7 = (if sr_hardware_known r5 then po6\<lparr>po_state := Active\<rparr> else po6);
         r7 = r5\<lparr>sr_wake_causes := wc_from_soc causes OR wc_derived causes,
                  sr_unexpected_causes := wc_from_soc causes AND NOT armed,
                  sr_unmapped_causes := wc_unmapped_from_soc causes\<rparr>
     in if \<not> slept then (r7\<lparr>sr_outcome := FailedSleep\<rparr>, po7, h5)
        else (r7\<lparr>sr_outcome := Woken\<rparr>, po7\<lparr>po_cycles := po_cycles po7 + 1\<rparr>, h5))"

definition descend ::
  "'h power_hardware \<Rightarrow> sleep_plan \<Rightarrow> sleep_report \<times> power_owner \<times> 'h \<Rightarrow> sleep_report \<times> power_owner \<times> 'h" where
  "descend hw plan = (\<lambda>(report, po, h).
     case suspend_all hw (sp_suspend plan) kOrder 0 h of
       (Some (d, step), suspended, h1) \<Rightarrow> fail_suspend hw d step suspended (report, po, h1)
     | (None, suspended, h1) \<Rightarrow>
         let po1 = po\<lparr>po_state := Idle\<rparr> in
         (case cut_all hw (sp_rails_off plan) kOrder 0 h1 of
            (Some d, gone, h2) \<Rightarrow> fail_rail hw d suspended gone (report, po1, h2)
          | (None, gone, h2) \<Rightarrow>
              (case arm_all hw (sp_wake_sources plan) kWakeOrder 0 h2 of
                 (Some (w, step), armed, h3) \<Rightarrow> fail_arm hw w step suspended gone armed (report, po1, h3)
               | (None, armed, h3) \<Rightarrow>
                   rest_and_return hw (sp_state plan) suspended gone armed (report, po1, h3))))"

definition po_sleep ::
  "'h power_hardware \<Rightarrow> sleep_plan \<Rightarrow> monotonic \<Rightarrow> power_owner \<times> 'h \<Rightarrow> sleep_report \<times> power_owner \<times> 'h" where
  "po_sleep hw plan now = (\<lambda>(po, h).
     let report0 = new_sleep_report\<lparr>sr_overdue_leases := leases_overdue now (po_leases po)\<rparr>;
         (ready, report1, po1, h1) =
           (if \<not> po_known po then recover hw report0 (po, h) else (True, report0, po, h))
     in if \<not> ready
        then (report1\<lparr>sr_hardware_known := False, sr_outcome := RefusedHardwareFailed\<rparr>, po1, h1)
        else
          let report2 = report1\<lparr>sr_hardware_known := True\<rparr> in
          case refusal plan po1 report2 of
            Some r \<Rightarrow> (r, po1, h1)
          | None \<Rightarrow> descend hw plan (report2, po1, h1))"

section \<open>What an honest board is\<close>

text \<open>
  A view of the board: which consumers run, which rails are up, which sources are armed. A board
  is honest when each operation touches only what it names and reports the truth about it, in
  the words of \<open>StepResult\<close> and of the interface: \<open>Done\<close> and \<open>true\<close> mean the postcondition holds,
  \<open>Unchanged\<close> and a refused rail cut mean nothing moved; \<open>Unknown\<close> and a failed undo promise
  nothing about what they name. A sleep leaves the three as they were.
\<close>

record board_view =
  bv_running :: "power_domain \<Rightarrow> bool"
  bv_powered :: "power_domain \<Rightarrow> bool"
  bv_armed :: "wake_source \<Rightarrow> bool"

definition honest :: "'h power_hardware \<Rightarrow> ('h \<Rightarrow> board_view) \<Rightarrow> bool" where
  "honest hw view \<longleftrightarrow>
     (\<forall>d h r h'. hw_suspend hw d h = (r, h') \<longrightarrow>
        (\<exists>x. view h' = (view h)\<lparr>bv_running := (bv_running (view h))(d := x)\<rparr> \<and>
             (r = Done \<longrightarrow> \<not> x) \<and> (r = Unchanged \<longrightarrow> x = bv_running (view h) d))) \<and>
     (\<forall>d h ok h'. hw_resume hw d h = (ok, h') \<longrightarrow>
        (\<exists>x. view h' = (view h)\<lparr>bv_running := (bv_running (view h))(d := x)\<rparr> \<and> (ok \<longrightarrow> x))) \<and>
     (\<forall>d on h ok h'. hw_set_rail hw d on h = (ok, h') \<longrightarrow>
        (\<exists>x. view h' = (view h)\<lparr>bv_powered := (bv_powered (view h))(d := x)\<rparr> \<and>
             (ok \<longrightarrow> x = on) \<and> (\<not> ok \<longrightarrow> \<not> on \<longrightarrow> x = bv_powered (view h) d))) \<and>
     (\<forall>w h r h'. hw_arm_wake hw w h = (r, h') \<longrightarrow>
        (\<exists>x. view h' = (view h)\<lparr>bv_armed := (bv_armed (view h))(w := x)\<rparr> \<and>
             (r = Done \<longrightarrow> x) \<and> (r = Unchanged \<longrightarrow> x = bv_armed (view h) w))) \<and>
     (\<forall>w h ok h'. hw_disarm_wake hw w h = (ok, h') \<longrightarrow>
        (\<exists>x. view h' = (view h)\<lparr>bv_armed := (bv_armed (view h))(w := x)\<rparr> \<and> (ok \<longrightarrow> \<not> x))) \<and>
     (\<forall>p h ok c h'. hw_sleep hw p h = (ok, c, h') \<longrightarrow> view h' = view h)"

lemma honest_suspend:
  assumes "honest hw view" and "hw_suspend hw d h = (r, h')"
  obtains x where "view h' = (view h)\<lparr>bv_running := (bv_running (view h))(d := x)\<rparr>" "r = Done \<longrightarrow> \<not> x"
    "r = Unchanged \<longrightarrow> x = bv_running (view h) d"
  using assms unfolding honest_def by metis

lemma honest_resume:
  assumes "honest hw view" and "hw_resume hw d h = (ok, h')"
  obtains x where "view h' = (view h)\<lparr>bv_running := (bv_running (view h))(d := x)\<rparr>" "ok \<longrightarrow> x"
  using assms unfolding honest_def by metis

lemma honest_rail:
  assumes "honest hw view" and "hw_set_rail hw d on h = (ok, h')"
  obtains x where "view h' = (view h)\<lparr>bv_powered := (bv_powered (view h))(d := x)\<rparr>" "ok \<longrightarrow> x = on"
    "\<not> ok \<longrightarrow> \<not> on \<longrightarrow> x = bv_powered (view h) d"
  using assms unfolding honest_def by metis

lemma honest_arm:
  assumes "honest hw view" and "hw_arm_wake hw w h = (r, h')"
  obtains x where "view h' = (view h)\<lparr>bv_armed := (bv_armed (view h))(w := x)\<rparr>" "r = Done \<longrightarrow> x"
    "r = Unchanged \<longrightarrow> x = bv_armed (view h) w"
  using assms unfolding honest_def by metis

lemma honest_disarm:
  assumes "honest hw view" and "hw_disarm_wake hw w h = (ok, h')"
  obtains x where "view h' = (view h)\<lparr>bv_armed := (bv_armed (view h))(w := x)\<rparr>" "ok \<longrightarrow> \<not> x"
  using assms unfolding honest_def by metis

lemma honest_sleep: "honest hw view \<Longrightarrow> hw_sleep hw p h = (ok, c, h') \<Longrightarrow> view h' = view h"
  unfolding honest_def by metis

section \<open>Masks of domains\<close>

lemma domain_index_inj: "domain_index d = domain_index e \<longleftrightarrow> d = e"
  by (cases d; cases e) simp_all

lemma domain_index_bound [simp]: "domain_index d < 16" "domain_index d < 5"
  by (cases d; simp)+

lemma wants_domain_bit: "wants_domain m d \<longleftrightarrow> bit m (domain_index d)"
  by (simp add: wants_domain_def domain_bit_def and_exp_eq_0_iff_not_bit)

lemma bit_domain_bit: "bit (domain_bit d) n \<longleftrightarrow> n = domain_index d"
  by (auto simp: domain_bit_def bit_simps)

lemma wants_domain_simps [simp]:
  "\<not> wants_domain 0 d" "wants_domain (m OR n) d \<longleftrightarrow> wants_domain m d \<or> wants_domain n d"
  "wants_domain (domain_bit e) d \<longleftrightarrow> d = e"
  "wants_domain (m AND NOT (domain_bit e)) d \<longleftrightarrow> wants_domain m d \<and> d \<noteq> e"
  by (auto simp: wants_domain_bit bit_or_iff bit_and_iff bit_not_iff bit_domain_bit domain_index_inj)

lemma wants_simps [simp]:
  "\<not> wants 0 w" "wants (m OR n) w \<longleftrightarrow> wants m w \<or> wants n w"
  "wants (wake_bit v) w \<longleftrightarrow> w = v" "wants (m AND NOT (wake_bit v)) w \<longleftrightarrow> wants m w \<and> w \<noteq> v"
  by (auto simp: wants_bit bit_or_iff bit_and_iff bit_not_iff bit_wake_bit source_index_inj)

lemma wants_nonzero: "wants_domain m d \<Longrightarrow> m \<noteq> 0" "wants n w \<Longrightarrow> n \<noteq> 0"
  by auto

lemma or_eq_zero: "a OR b = 0 \<longleftrightarrow> a = 0 \<and> b = 0" for a b :: "'a::len word"
  by (auto simp: bit_eq_iff bit_or_iff)

lemma bits_nonzero: "domain_bit d \<noteq> 0" "wake_bit w \<noteq> 0"
  using wants_domain_simps(3) [of d d] wants_simps(3) [of w w] by (metis wants_domain_simps(1), metis wants_simps(1))

lemma in_orders [simp]: "d \<in> set kOrder" "w \<in> set kWakeOrder"
  by (cases d; simp add: kOrder_def) (cases w; simp add: kWakeOrder_def)

section \<open>The owner's books\<close>

text \<open>What may be down: what the journals name, and what this transaction has taken down.\<close>

definition standing ::
  "('h \<Rightarrow> board_view) \<Rightarrow> (power_domain \<Rightarrow> bool) \<Rightarrow> (power_domain \<Rightarrow> bool) \<Rightarrow> (wake_source \<Rightarrow> bool)
     \<Rightarrow> power_owner \<Rightarrow> 'h \<Rightarrow> bool" where
  "standing view S G A po h \<longleftrightarrow>
     (\<forall>d. bv_running (view h) d \<or> wants_domain (po_failed_resume po) d \<or> S d) \<and>
     (\<forall>d. bv_powered (view h) d \<or> wants_domain (po_failed_rail po) d \<or> G d) \<and>
     (\<forall>w. \<not> bv_armed (view h) w \<or> wants (po_failed_disarm po) w \<or> A w)"

abbreviation nothing :: "'a \<Rightarrow> bool" where "nothing \<equiv> \<lambda>_. False"

definition journals_clear :: "power_owner \<Rightarrow> bool" where
  "journals_clear po \<longleftrightarrow> po_failed_resume po = 0 \<and> po_failed_rail po = 0 \<and> po_failed_disarm po = 0"

definition rest_same :: "power_owner \<Rightarrow> power_owner \<Rightarrow> bool" where
  "rest_same po po' \<longleftrightarrow> po_leases po' = po_leases po \<and> po_state po' = po_state po \<and>
     po_cycles po' = po_cycles po \<and> po_known po' = po_known po"

definition unwound :: "sleep_report \<times> power_owner \<Rightarrow> sleep_report \<times> power_owner \<Rightarrow> bool" where
  "unwound = (\<lambda>(r, po) (r', po'). rest_same po po' \<and> sr_outcome r' = sr_outcome r \<and>
     ((sr_hardware_known r \<longleftrightarrow> journals_clear po) \<longrightarrow> (sr_hardware_known r' \<longleftrightarrow> journals_clear po')))"

lemma unwound_refl: "unwound x x"
  by (cases x) (simp add: unwound_def rest_same_def)

lemma unwound_trans: "unwound x y \<Longrightarrow> unwound y z \<Longrightarrow> unwound x z"
  by (cases x; cases y; cases z) (auto simp: unwound_def rest_same_def)

lemma unwind_suspend1_spec:
  assumes "honest hw view" and "standing view S G A po h"
    and "unwind_suspend1 hw m d (ok, r, po, h) = (ok', r', po', h')"
  shows "standing view (\<lambda>e. S e \<and> (e = d \<longrightarrow> \<not> wants_domain m d)) G A po' h' \<and> unwound (r, po) (r', po')"
proof (cases "wants_domain m d")
  case False
  then show ?thesis using assms(2,3) by (auto simp: unwind_suspend1_def unwound_refl standing_def)
next
  case True
  obtain b k where b: "hw_resume hw d h = (b, k)" by (cases "hw_resume hw d h")
  obtain x where x: "view k = (view h)\<lparr>bv_running := (bv_running (view h))(d := x)\<rparr>" "b \<longrightarrow> x"
    by (rule honest_resume [OF assms(1) b])
  have e: "h' = k" "r' = (if b then r else r\<lparr>sr_hardware_known := False, sr_blocked_by := sr_blocked_by r OR domain_bit d\<rparr>)"
    "po' = (if b then po else po\<lparr>po_failed_resume := po_failed_resume po OR domain_bit d\<rparr>)"
    using assms(3) True b by (auto simp: unwind_suspend1_def split: if_splits)
  show ?thesis
    using assms(2) x(2) bits_nonzero unfolding e
    by (cases b) (auto simp: standing_def x(1) unwound_def rest_same_def journals_clear_def or_eq_zero)
qed

lemma unwind_rails1_spec:
  assumes "honest hw view" and "standing view S G A po h"
    and "unwind_rails1 hw m d (ok, r, po, h) = (ok', r', po', h')"
  shows "standing view S (\<lambda>e. G e \<and> (e = d \<longrightarrow> \<not> wants_domain m d)) A po' h' \<and> unwound (r, po) (r', po')"
proof (cases "wants_domain m d")
  case False
  then show ?thesis using assms(2,3) by (auto simp: unwind_rails1_def unwound_refl standing_def)
next
  case True
  obtain b k where b: "hw_set_rail hw d True h = (b, k)" by (cases "hw_set_rail hw d True h")
  obtain x where x: "view k = (view h)\<lparr>bv_powered := (bv_powered (view h))(d := x)\<rparr>" "b \<longrightarrow> x = True"
    by (rule honest_rail [OF assms(1) b])
  have e: "h' = k" "r' = (if b then r else r\<lparr>sr_hardware_known := False, sr_blocked_by := sr_blocked_by r OR domain_bit d\<rparr>)"
    "po' = (if b then po else po\<lparr>po_failed_rail := po_failed_rail po OR domain_bit d\<rparr>)"
    using assms(3) True b by (auto simp: unwind_rails1_def split: if_splits)
  show ?thesis
    using assms(2) x(2) bits_nonzero unfolding e
    by (cases b) (auto simp: standing_def x(1) unwound_def rest_same_def journals_clear_def or_eq_zero)
qed

lemma unwind_wake1_spec:
  assumes "honest hw view" and "standing view S G A po h"
    and "unwind_wake1 hw m w (ok, r, po, h) = (ok', r', po', h')"
  shows "standing view S G (\<lambda>v. A v \<and> (v = w \<longrightarrow> \<not> wants m w)) po' h' \<and> unwound (r, po) (r', po')"
proof (cases "wants m w")
  case False
  then show ?thesis using assms(2,3) by (auto simp: unwind_wake1_def unwound_refl standing_def)
next
  case True
  obtain b k where b: "hw_disarm_wake hw w h = (b, k)" by (cases "hw_disarm_wake hw w h")
  obtain x where x: "view k = (view h)\<lparr>bv_armed := (bv_armed (view h))(w := x)\<rparr>" "b \<longrightarrow> \<not> x"
    by (rule honest_disarm [OF assms(1) b])
  have e: "h' = k" "r' = (if b then r else r\<lparr>sr_hardware_known := False, sr_blocked_sources := sr_blocked_sources r OR wake_bit w\<rparr>)"
    "po' = (if b then po else po\<lparr>po_failed_disarm := po_failed_disarm po OR wake_bit w\<rparr>)"
    using assms(3) True b by (auto simp: unwind_wake1_def split: if_splits)
  show ?thesis
    using assms(2) x(2) bits_nonzero unfolding e
    by (cases b) (auto simp: standing_def x(1) unwound_def rest_same_def journals_clear_def or_eq_zero)
qed

lemma fold_unwind_suspend:
  assumes "honest hw view"
  shows "standing view S G A po h \<Longrightarrow> fold (unwind_suspend1 hw m) ds (ok, r, po, h) = (ok', r', po', h') \<Longrightarrow>
    standing view (\<lambda>e. S e \<and> (e \<in> set ds \<longrightarrow> \<not> wants_domain m e)) G A po' h' \<and> unwound (r, po) (r', po')"
proof (induction ds arbitrary: S ok r po h)
  case (Cons d ds)
  obtain ok1 r1 po1 h1 where s: "unwind_suspend1 hw m d (ok, r, po, h) = (ok1, r1, po1, h1)"
    by (cases "unwind_suspend1 hw m d (ok, r, po, h)")
  note d = unwind_suspend1_spec [OF assms Cons.prems(1) s]
  have f: "fold (unwind_suspend1 hw m) ds (ok1, r1, po1, h1) = (ok', r', po', h')"
    using Cons.prems(2) s by simp
  note t = Cons.IH [OF conjunct1 [OF d] f]
  have "standing view (\<lambda>e. S e \<and> (e \<in> set (d # ds) \<longrightarrow> \<not> wants_domain m e)) G A po' h'"
    using t unfolding standing_def by auto
  with t d show ?case by (metis unwound_trans)
qed (auto simp: unwound_refl)

lemma fold_unwind_rails:
  assumes "honest hw view"
  shows "standing view S G A po h \<Longrightarrow> fold (unwind_rails1 hw m) ds (ok, r, po, h) = (ok', r', po', h') \<Longrightarrow>
    standing view S (\<lambda>e. G e \<and> (e \<in> set ds \<longrightarrow> \<not> wants_domain m e)) A po' h' \<and> unwound (r, po) (r', po')"
proof (induction ds arbitrary: G ok r po h)
  case (Cons d ds)
  obtain ok1 r1 po1 h1 where s: "unwind_rails1 hw m d (ok, r, po, h) = (ok1, r1, po1, h1)"
    by (cases "unwind_rails1 hw m d (ok, r, po, h)")
  note d = unwind_rails1_spec [OF assms Cons.prems(1) s]
  have f: "fold (unwind_rails1 hw m) ds (ok1, r1, po1, h1) = (ok', r', po', h')"
    using Cons.prems(2) s by simp
  note t = Cons.IH [OF conjunct1 [OF d] f]
  have "standing view S (\<lambda>e. G e \<and> (e \<in> set (d # ds) \<longrightarrow> \<not> wants_domain m e)) A po' h'"
    using t unfolding standing_def by auto
  with t d show ?case by (metis unwound_trans)
qed (auto simp: unwound_refl)

lemma fold_unwind_wake:
  assumes "honest hw view"
  shows "standing view S G A po h \<Longrightarrow> fold (unwind_wake1 hw m) ws (ok, r, po, h) = (ok', r', po', h') \<Longrightarrow>
    standing view S G (\<lambda>v. A v \<and> (v \<in> set ws \<longrightarrow> \<not> wants m v)) po' h' \<and> unwound (r, po) (r', po')"
proof (induction ws arbitrary: A ok r po h)
  case (Cons w ws)
  obtain ok1 r1 po1 h1 where s: "unwind_wake1 hw m w (ok, r, po, h) = (ok1, r1, po1, h1)"
    by (cases "unwind_wake1 hw m w (ok, r, po, h)")
  note d = unwind_wake1_spec [OF assms Cons.prems(1) s]
  have f: "fold (unwind_wake1 hw m) ws (ok1, r1, po1, h1) = (ok', r', po', h')"
    using Cons.prems(2) s by simp
  note t = Cons.IH [OF conjunct1 [OF d] f]
  have "standing view S G (\<lambda>v. A v \<and> (v \<in> set (w # ws) \<longrightarrow> \<not> wants m v)) po' h'"
    using t unfolding standing_def by auto
  with t d show ?case by (metis unwound_trans)
qed (auto simp: unwound_refl)

lemma set_orders [simp]: "set kOrder = UNIV" "set kWakeOrder = UNIV"
  using in_orders by blast+

lemma unwind_suspend_spec:
  assumes "honest hw view" and "standing view (wants_domain m) G A po h"
    and "unwind_suspend hw m (r, po, h) = (ok, r', po', h')"
  shows "standing view nothing G A po' h'" and "unwound (r, po) (r', po')"
  using fold_unwind_suspend [OF assms(1,2), of m "rev kOrder" True r ok r' po' h'] assms(3)
  by (auto simp: unwind_suspend_def)

lemma unwind_rails_spec:
  assumes "honest hw view" and "standing view S (wants_domain m) A po h"
    and "unwind_rails hw m (r, po, h) = (ok, r', po', h')"
  shows "standing view S nothing A po' h'" and "unwound (r, po) (r', po')"
  using fold_unwind_rails [OF assms(1,2), of m "rev kOrder" True r ok r' po' h'] assms(3)
  by (auto simp: unwind_rails_def)

lemma unwind_wake_spec:
  assumes "honest hw view" and "standing view S G (wants m) po h"
    and "unwind_wake hw m (r, po, h) = (ok, r', po', h')"
  shows "standing view S G nothing po' h'" and "unwound (r, po) (r', po')"
  using fold_unwind_wake [OF assms(1,2), of m "rev kWakeOrder" True r ok r' po' h'] assms(3)
  by (auto simp: unwind_wake_def)

text \<open>The way down: what each loop leaves, exactly.\<close>

lemma suspend_all_spec:
  assumes "honest hw view"
  shows "suspend_all hw plan ds m h = (res, m', h') \<Longrightarrow>
    bv_powered (view h') = bv_powered (view h) \<and> bv_armed (view h') = bv_armed (view h) \<and>
    (\<forall>d. bv_running (view h) d \<longrightarrow> bv_running (view h') d \<or> wants_domain m' d \<or>
         res = Some (d, UnknownStep)) \<and>
    (\<forall>d. wants_domain m d \<longrightarrow> wants_domain m' d) \<and>
    (res = None \<longrightarrow> (\<forall>d. (wants_domain m' d \<longleftrightarrow> wants_domain m d \<or> d \<in> set ds \<and> wants_domain plan d) \<and>
        (d \<in> set ds \<and> wants_domain plan d \<longrightarrow> \<not> bv_running (view h') d)) \<and>
        (\<forall>d. \<not> bv_running (view h) d \<longrightarrow> \<not> bv_running (view h') d))"
proof (induction ds arbitrary: m h)
  case (Cons d ds)
  show ?case
  proof (cases "wants_domain plan d")
    case False
    then show ?thesis using Cons by auto
  next
    case True
    obtain r k where r: "hw_suspend hw d h = (r, k)" by (cases "hw_suspend hw d h")
    obtain x where x: "view k = (view h)\<lparr>bv_running := (bv_running (view h))(d := x)\<rparr>" "r = Done \<longrightarrow> \<not> x"
      "r = Unchanged \<longrightarrow> x = bv_running (view h) d" by (rule honest_suspend [OF assms r])
    show ?thesis
    proof (cases "r = Done")
      case False
      then have e: "res = Some (d, r)" "m' = m" "h' = k" using Cons.prems True r by simp_all
      then show ?thesis using x False by (cases r) (auto simp: x(1))
    next
      case True
      then have "suspend_all hw plan ds (m OR domain_bit d) k = (res, m', h')"
        using Cons.prems \<open>wants_domain plan d\<close> r by simp
      note i = Cons.IH [OF this, unfolded x(1)]
      show ?thesis using i x(2) True \<open>wants_domain plan d\<close> by (auto split: if_splits)
    qed
  qed
qed auto

lemma cut_all_spec:
  assumes "honest hw view"
  shows "cut_all hw plan ds m h = (res, m', h') \<Longrightarrow>
    bv_running (view h') = bv_running (view h) \<and> bv_armed (view h') = bv_armed (view h) \<and>
    (\<forall>d. bv_powered (view h) d \<longrightarrow> bv_powered (view h') d \<or> wants_domain m' d) \<and>
    (\<forall>d. wants_domain m d \<longrightarrow> wants_domain m' d) \<and>
    (res = None \<longrightarrow> (\<forall>d. (wants_domain m' d \<longleftrightarrow> wants_domain m d \<or> d \<in> set ds \<and> wants_domain plan d) \<and>
        (d \<in> set ds \<and> wants_domain plan d \<longrightarrow> \<not> bv_powered (view h') d)) \<and>
        (\<forall>d. \<not> bv_powered (view h) d \<longrightarrow> \<not> bv_powered (view h') d))"
proof (induction ds arbitrary: m h)
  case (Cons d ds)
  show ?case
  proof (cases "wants_domain plan d")
    case False
    then show ?thesis using Cons by auto
  next
    case True
    obtain b k where b: "hw_set_rail hw d False h = (b, k)" by (cases "hw_set_rail hw d False h")
    obtain x where x: "view k = (view h)\<lparr>bv_powered := (bv_powered (view h))(d := x)\<rparr>" "b \<longrightarrow> x = False"
      "\<not> b \<longrightarrow> \<not> False \<longrightarrow> x = bv_powered (view h) d" by (rule honest_rail [OF assms b])
    show ?thesis
    proof (cases b)
      case False
      then have e: "res = Some d" "m' = m" "h' = k" using Cons.prems True b by simp_all
      then show ?thesis using x False by (auto simp: x(1))
    next
      case True
      then have "cut_all hw plan ds (m OR domain_bit d) k = (res, m', h')"
        using Cons.prems \<open>wants_domain plan d\<close> b by simp
      note i = Cons.IH [OF this, unfolded x(1)]
      show ?thesis using i x(2) True \<open>wants_domain plan d\<close> by (auto split: if_splits)
    qed
  qed
qed auto

lemma arm_all_spec:
  assumes "honest hw view"
  shows "arm_all hw plan ws m h = (res, m', h') \<Longrightarrow>
    bv_running (view h') = bv_running (view h) \<and> bv_powered (view h') = bv_powered (view h) \<and>
    (\<forall>w. bv_armed (view h') w \<longrightarrow> bv_armed (view h) w \<or> wants m' w \<or> res = Some (w, UnknownStep)) \<and>
    (\<forall>w. wants m w \<longrightarrow> wants m' w) \<and>
    (res = None \<longrightarrow> (\<forall>w. (wants m' w \<longleftrightarrow> wants m w \<or> w \<in> set ws \<and> wants plan w) \<and>
        (w \<in> set ws \<and> wants plan w \<longrightarrow> bv_armed (view h') w)) \<and>
        (\<forall>w. bv_armed (view h) w \<longrightarrow> bv_armed (view h') w))"
proof (induction ws arbitrary: m h)
  case (Cons w ws)
  show ?case
  proof (cases "wants plan w")
    case False
    then show ?thesis using Cons by auto
  next
    case True
    obtain r k where r: "hw_arm_wake hw w h = (r, k)" by (cases "hw_arm_wake hw w h")
    obtain x where x: "view k = (view h)\<lparr>bv_armed := (bv_armed (view h))(w := x)\<rparr>" "r = Done \<longrightarrow> x"
      "r = Unchanged \<longrightarrow> x = bv_armed (view h) w" by (rule honest_arm [OF assms r])
    show ?thesis
    proof (cases "r = Done")
      case False
      then have e: "res = Some (w, r)" "m' = m" "h' = k" using Cons.prems True r by simp_all
      then show ?thesis using x False by (cases r) (auto simp: x(1))
    next
      case True
      then have "arm_all hw plan ws (m OR wake_bit w) k = (res, m', h')"
        using Cons.prems \<open>wants plan w\<close> r by simp
      note i = Cons.IH [OF this, unfolded x(1)]
      show ?thesis using i x(2) True \<open>wants plan w\<close> by (auto split: if_splits)
    qed
  qed
qed auto

section \<open>The invariant of the owner\<close>

definition owner_books :: "('h \<Rightarrow> board_view) \<Rightarrow> power_owner \<Rightarrow> 'h \<Rightarrow> bool" where
  "owner_books view po h \<longleftrightarrow> standing view nothing nothing nothing po h \<and>
     (po_known po \<longleftrightarrow> journals_clear po) \<and> (po_known po \<longrightarrow> po_state po = Active)"

text \<open>The board as an awake device needs it: all consumers running, all rails up, nothing armed.\<close>

definition board_awake :: "board_view \<Rightarrow> bool" where
  "board_awake v \<longleftrightarrow> (\<forall>d. bv_running v d \<and> bv_powered v d) \<and> (\<forall>w. \<not> bv_armed v w)"

lemma standing_awake: "journals_clear po \<Longrightarrow> standing view nothing nothing nothing po h = board_awake (view h)"
  by (auto simp: standing_def board_awake_def journals_clear_def)

lemma standing_cong:
  "po_failed_resume po' = po_failed_resume po \<Longrightarrow> po_failed_rail po' = po_failed_rail po \<Longrightarrow>
   po_failed_disarm po' = po_failed_disarm po \<Longrightarrow> standing view S G A po' h = standing view S G A po h"
  by (simp add: standing_def)

subsection \<open>Recovery\<close>

definition recovering :: "('h \<Rightarrow> board_view) \<Rightarrow> power_owner \<Rightarrow> power_owner \<times> 'h \<Rightarrow> bool" where
  "recovering view po0 = (\<lambda>(po, h). standing view nothing nothing nothing po h \<and> rest_same po0 po)"

lemma recover_wake_spec:
  assumes "honest hw view" and "recovering view po0 ph"
  shows "recovering view po0 (recover_wake hw w ph)"
proof -
  obtain po h where ph: "ph = (po, h)" by (cases ph)
  obtain b k where b: "hw_disarm_wake hw w h = (b, k)" by (cases "hw_disarm_wake hw w h")
  obtain x where x: "view k = (view h)\<lparr>bv_armed := (bv_armed (view h))(w := x)\<rparr>" "b \<longrightarrow> \<not> x"
    by (rule honest_disarm [OF assms(1) b])
  show ?thesis using assms(2) x(2) unfolding ph
    by (auto simp: recover_wake_def b recovering_def standing_def x(1) rest_same_def)
qed

lemma recover_rail_spec:
  assumes "honest hw view" and "recovering view po0 ph"
  shows "recovering view po0 (recover_rail hw d ph)"
proof -
  obtain po h where ph: "ph = (po, h)" by (cases ph)
  obtain b k where b: "hw_set_rail hw d True h = (b, k)" by (cases "hw_set_rail hw d True h")
  obtain x where x: "view k = (view h)\<lparr>bv_powered := (bv_powered (view h))(d := x)\<rparr>" "b \<longrightarrow> x = True"
    by (rule honest_rail [OF assms(1) b])
  show ?thesis using assms(2) x(2) unfolding ph
    by (auto simp: recover_rail_def b recovering_def standing_def x(1) rest_same_def)
qed

lemma recover_resume_spec:
  assumes "honest hw view" and "recovering view po0 ph"
  shows "recovering view po0 (recover_resume hw d ph)"
proof -
  obtain po h where ph: "ph = (po, h)" by (cases ph)
  obtain b k where b: "hw_resume hw d h = (b, k)" by (cases "hw_resume hw d h")
  obtain x where x: "view k = (view h)\<lparr>bv_running := (bv_running (view h))(d := x)\<rparr>" "b \<longrightarrow> x"
    by (rule honest_resume [OF assms(1) b])
  show ?thesis using assms(2) x(2) unfolding ph
    by (auto simp: recover_resume_def b recovering_def standing_def x(1) rest_same_def)
qed

lemma recover_spec:
  assumes "honest hw view" and "owner_books view po h" and "\<not> po_known po"
    and "recover hw r (po, h) = (ok, r', po', h')"
  shows "owner_books view po' h'" and "po_known po' = ok" and "po_leases po' = po_leases po"
    and "po_cycles po' = po_cycles po" and "ok \<longrightarrow> r' = r"
proof -
  obtain po2 h2 where f: "fold (recover_resume hw) (rev kOrder) (fold (recover_rail hw) (rev kOrder)
      (fold (recover_wake hw) (rev kWakeOrder) (po, h))) = (po2, h2)" by fastforce
  have "recovering view po (po, h)" using assms(2) by (simp add: recovering_def owner_books_def rest_same_def)
  then have "recovering view po (po2, h2)" unfolding f [symmetric]
    by (intro fold_keeps [where P = "recovering view po"] recover_wake_spec [OF assms(1)]
        recover_rail_spec [OF assms(1)] recover_resume_spec [OF assms(1)])
  then have p: "standing view nothing nothing nothing po2 h2" "rest_same po po2" by (simp_all add: recovering_def)
  have e: "ok \<longleftrightarrow> journals_clear po2" "h' = h2" "ok \<longrightarrow> r' = r"
    "po' = (if ok then po2\<lparr>po_known := True, po_state := Active\<rparr> else po2)"
    using assms(4) by (auto simp: recover_def f Let_def journals_clear_def or_eq_zero split: if_splits)
  have j: "journals_clear po' = journals_clear po2" unfolding e(4) by (simp add: journals_clear_def)
  have st: "standing view nothing nothing nothing po' h2" using p(1) unfolding e(4) by (simp add: standing_def)
  have k: "po_known po2 = False" "po_leases po2 = po_leases po" "po_cycles po2 = po_cycles po"
    using p(2) assms(3) by (auto simp: rest_same_def)
  show "owner_books view po' h'" using st e j k by (auto simp: owner_books_def)
  show "po_known po' = ok" "po_leases po' = po_leases po" "po_cycles po' = po_cycles po" "ok \<longrightarrow> r' = r"
    using e k by auto
qed

subsection \<open>Every ending closes the books\<close>

definition books_closed ::
  "('h \<Rightarrow> board_view) \<Rightarrow> power_owner \<Rightarrow> sleep_report \<times> power_owner \<times> 'h \<Rightarrow> bool" where
  "books_closed view po0 = (\<lambda>(r, po, h). owner_books view po h \<and> (sr_hardware_known r \<longleftrightarrow> po_known po) \<and>
     po_leases po = po_leases po0 \<and>
     po_cycles po = (if report_slept r then po_cycles po0 + 1 else po_cycles po0))"

lemma fail_suspend_closes:
  assumes hon: "honest hw view" and st: "standing view (wants_domain m) nothing nothing (if step = UnknownStep
      then po\<lparr>po_failed_resume := po_failed_resume po OR domain_bit d\<rparr> else po) h"
    and k: "journals_clear po" "po_state po = Active" "sr_hardware_known r" "po_known po"
  shows "books_closed view po (fail_suspend hw d step m (r, po, h))"
proof -
  define r1 where "r1 = r\<lparr>sr_outcome := FailedSuspend, sr_blocked_by := domain_bit d\<rparr>"
  define r2 where "r2 = (if step = UnknownStep then r1\<lparr>sr_hardware_known := False\<rparr> else r1)"
  define po2 where "po2 = (if step = UnknownStep
      then po\<lparr>po_failed_resume := po_failed_resume po OR domain_bit d\<rparr> else po)"
  obtain ok r3 po3 h3 where u: "unwind_suspend hw m (r2, po2, h) = (ok, r3, po3, h3)" by (metis prod_cases4)
  have s3: "standing view nothing nothing nothing po3 h3"
    using unwind_suspend_spec(1) [OF hon _ u] st by (simp add: po2_def)
  have w: "unwound (r2, po2) (r3, po3)" using unwind_suspend_spec(2) [OF hon _ u] st by (simp add: po2_def)
  have b: "sr_hardware_known r2 \<longleftrightarrow> journals_clear po2" using k bits_nonzero
    by (simp add: r2_def r1_def po2_def journals_clear_def or_eq_zero)
  have p: "po_leases po2 = po_leases po" "po_cycles po2 = po_cycles po" "po_state po2 = Active"
    "sr_outcome r2 = FailedSuspend" using k by (simp_all add: po2_def r2_def r1_def)
  have f: "fail_suspend hw d step m (r, po, h) = (r3, po3\<lparr>po_known := sr_hardware_known r3\<rparr>, h3)"
    using u unfolding fail_suspend_def r2_def po2_def r1_def by (auto simp: Let_def)
  have s4: "standing view nothing nothing nothing (po3\<lparr>po_known := sr_hardware_known r3\<rparr>) h3"
    using s3 by (simp add: standing_def)
  show ?thesis unfolding f using s4 w b p
    by (auto simp: books_closed_def owner_books_def unwound_def rest_same_def report_slept_def journals_clear_def)
qed

lemma fail_rail_closes:
  assumes hon: "honest hw view" and st: "standing view (wants_domain m) (wants_domain g) nothing po h"
    and k: "journals_clear po" "sr_hardware_known r"
  shows "books_closed view po (fail_rail hw d m g (r, po, h))"
proof -
  define r1 where "r1 = r\<lparr>sr_outcome := FailedRail, sr_blocked_by := domain_bit d\<rparr>"
  obtain ok2 r2 po2 h2 where u2: "unwind_rails hw g (r1, po, h) = (ok2, r2, po2, h2)" by (metis prod_cases4)
  obtain ok3 r3 po3 h3 where u3: "unwind_suspend hw m (r2, po2, h2) = (ok3, r3, po3, h3)" by (metis prod_cases4)
  note a = unwind_rails_spec [OF hon st u2]
  note c = unwind_suspend_spec [OF hon a(1) u3]
  have w: "unwound (r1, po) (r3, po3)" using a(2) c(2) by (rule unwound_trans)
  define po4 where "po4 = po3\<lparr>po_state := (if sr_hardware_known r3 then Active else po_state po3),
    po_known := sr_hardware_known r3\<rparr>"
  have f: "fail_rail hw d m g (r, po, h) = (r3, po4, h3)"
    using u2 u3 unfolding fail_rail_def po4_def r1_def by (simp add: Let_def)
  have s4: "standing view nothing nothing nothing po4 h3" using c(1) by (simp add: po4_def standing_def)
  have "sr_hardware_known r1 \<longleftrightarrow> journals_clear po" "sr_outcome r1 = FailedRail" using k by (simp_all add: r1_def)
  with s4 w show ?thesis unfolding f
    by (auto simp: books_closed_def owner_books_def unwound_def rest_same_def report_slept_def journals_clear_def po4_def)
qed

text \<open>All three undone, in the reverse of the order they were done.\<close>

lemma unwind_all:
  assumes hon: "honest hw view" and st: "standing view (wants_domain m) (wants_domain g) (wants a) po h"
    and "unwind_wake hw a (r, po, h) = (ok2, r2, po2, h2)" and "unwind_rails hw g (r2, po2, h2) = (ok3, r3, po3, h3)"
    and "unwind_suspend hw m (r3, po3, h3) = (ok4, r4, po4, h4)"
  shows "standing view nothing nothing nothing po4 h4" and "unwound (r, po) (r4, po4)"
proof -
  note a = unwind_wake_spec [OF hon st assms(3)]
  note b = unwind_rails_spec [OF hon a(1) assms(4)]
  note c = unwind_suspend_spec [OF hon b(1) assms(5)]
  show "standing view nothing nothing nothing po4 h4" "unwound (r, po) (r4, po4)"
    using a b c unwound_trans by metis+
qed

lemma fail_arm_closes:
  assumes hon: "honest hw view" and st: "standing view (wants_domain m) (wants_domain g) (wants a) (if step = UnknownStep
      then po\<lparr>po_failed_disarm := po_failed_disarm po OR wake_bit w\<rparr> else po) h"
    and k: "journals_clear po" "sr_hardware_known r"
  shows "books_closed view po (fail_arm hw w step m g a (r, po, h))"
proof -
  define r1 where "r1 = r\<lparr>sr_outcome := FailedArm, sr_blocked_sources := wake_bit w\<rparr>"
  define r2 where "r2 = (if step = UnknownStep then r1\<lparr>sr_hardware_known := False\<rparr> else r1)"
  define po2 where "po2 = (if step = UnknownStep
      then po\<lparr>po_failed_disarm := po_failed_disarm po OR wake_bit w\<rparr> else po)"
  obtain ok3 r3 po3 h3 where u3: "unwind_wake hw a (r2, po2, h) = (ok3, r3, po3, h3)" by (metis prod_cases4)
  obtain ok4 r4 po4 h4 where u4: "unwind_rails hw g (r3, po3, h3) = (ok4, r4, po4, h4)" by (metis prod_cases4)
  obtain ok5 r5 po5 h5 where u5: "unwind_suspend hw m (r4, po4, h4) = (ok5, r5, po5, h5)" by (metis prod_cases4)
  note u = unwind_all [OF hon _ u3 u4 u5]
  have s5: "standing view nothing nothing nothing po5 h5" using u(1) st by (simp add: po2_def)
  have w5: "unwound (r2, po2) (r5, po5)" using u(2) st by (simp add: po2_def)
  define po6 where "po6 = po5\<lparr>po_state := (if sr_hardware_known r5 then Active else po_state po5),
    po_known := sr_hardware_known r5\<rparr>"
  have f: "fail_arm hw w step m g a (r, po, h) = (r5, po6, h5)"
    using u3 u4 u5 unfolding fail_arm_def r2_def po2_def r1_def po6_def by (auto simp: Let_def split: if_splits)
  have s6: "standing view nothing nothing nothing po6 h5" using s5 by (simp add: po6_def standing_def)
  have b: "sr_hardware_known r2 \<longleftrightarrow> journals_clear po2" using k bits_nonzero
    by (simp add: r2_def r1_def po2_def journals_clear_def or_eq_zero)
  have p: "po_leases po2 = po_leases po" "po_cycles po2 = po_cycles po" "sr_outcome r2 = FailedArm"
    by (simp_all add: po2_def r2_def r1_def)
  show ?thesis unfolding f using s6 w5 b p
    by (auto simp: books_closed_def owner_books_def unwound_def rest_same_def report_slept_def journals_clear_def po6_def)
qed

lemma rest_and_return_closes:
  assumes hon: "honest hw view" and st: "standing view (wants_domain m) (wants_domain g) (wants a) po h"
    and k: "journals_clear po" "sr_hardware_known r"
  shows "books_closed view po (rest_and_return hw p m g a (r, po, h))"
proof -
  obtain slept c h1 where z: "hw_sleep hw p h = (slept, c, h1)" by (metis prod_cases3)
  define po2 where "po2 = po\<lparr>po_state := Idle\<rparr>"
  obtain ok3 r3 po3 h3 where u3: "unwind_wake hw a (r, po2, h1) = (ok3, r3, po3, h3)" by (metis prod_cases4)
  obtain ok4 r4 po4 h4 where u4: "unwind_rails hw g (r3, po3, h3) = (ok4, r4, po4, h4)" by (metis prod_cases4)
  obtain ok5 r5 po5 h5 where u5: "unwind_suspend hw m (r4, po4, h4) = (ok5, r5, po5, h5)" by (metis prod_cases4)
  have st2: "standing view (wants_domain m) (wants_domain g) (wants a) po2 h1"
    using st by (simp add: standing_def po2_def honest_sleep [OF hon z])
  note u = unwind_all [OF hon st2 u3 u4 u5]
  define po7 where "po7 = po5\<lparr>po_known := sr_hardware_known r5, po_state := (if sr_hardware_known r5 then Active else po_state po5),
     po_cycles := (if slept then po_cycles po5 + 1 else po_cycles po5)\<rparr>"
  define r7 where "r7 = r5\<lparr>sr_wake_causes := wc_from_soc c OR wc_derived c,
                  sr_unexpected_causes := wc_from_soc c AND NOT a,
                  sr_unmapped_causes := wc_unmapped_from_soc c, sr_outcome := (if slept then Woken else FailedSleep)\<rparr>"
  have f: "rest_and_return hw p m g a (r, po, h) = (r7, po7, h5)"
    using u3 u4 u5 unfolding rest_and_return_def po2_def po7_def r7_def by (auto simp: Let_def z)
  have s7: "standing view nothing nothing nothing po7 h5" using u(1) by (simp add: po7_def standing_def)
  have b: "sr_hardware_known r \<longleftrightarrow> journals_clear po2" "po_leases po2 = po_leases po" "po_cycles po2 = po_cycles po"
    using k by (simp_all add: po2_def journals_clear_def)
  show ?thesis unfolding f using s7 u(2) b
    by (auto simp: books_closed_def owner_books_def unwound_def rest_same_def report_slept_def journals_clear_def po7_def r7_def)
qed

lemma books_closed_state: "books_closed view (po\<lparr>po_state := x\<rparr>) s = books_closed view po s"
  by (cases s) (simp add: books_closed_def)

lemma books_closed_cong:
  "po_leases po = po_leases po0 \<Longrightarrow> po_cycles po = po_cycles po0 \<Longrightarrow> books_closed view po = books_closed view po0"
  by (simp add: books_closed_def fun_eq_iff)

lemma descend_closes:
  assumes hon: "honest hw view" and up: "board_awake (view h)"
    and k: "journals_clear po" "po_state po = Active" "po_known po" "sr_hardware_known r"
  shows "books_closed view po (descend hw plan (r, po, h))"
proof -
  obtain res m h1 where s: "suspend_all hw (sp_suspend plan) kOrder 0 h = (res, m, h1)" by (metis prod_cases3)
  note sv = suspend_all_spec [OF hon s]
  show ?thesis
  proof (cases res)
    case (Some x)
    obtain d step where x: "x = (d, step)" by (cases x)
    have "standing view (wants_domain m) nothing nothing (if step = UnknownStep
      then po\<lparr>po_failed_resume := po_failed_resume po OR domain_bit d\<rparr> else po) h1"
      using sv up by (auto simp: standing_def board_awake_def Some x)
    from fail_suspend_closes [OF hon this k(1,2,4,3)] show ?thesis
      by (simp add: descend_def s Some x)
  next
    case None
    define po1 where "po1 = po\<lparr>po_state := Idle\<rparr>"
    have k1: "journals_clear po1" using k(1) by (simp add: po1_def journals_clear_def)
    obtain res2 g h2 where c: "cut_all hw (sp_rails_off plan) kOrder 0 h1 = (res2, g, h2)" by (metis prod_cases3)
    note cv = cut_all_spec [OF hon c]
    have st2: "standing view (wants_domain m) (wants_domain g) nothing po1 h2"
      using sv cv up by (auto simp: standing_def board_awake_def None)
    show ?thesis
    proof (cases res2)
      case (Some d)
      from fail_rail_closes [OF hon st2 k1 k(4), of d] show ?thesis
        by (simp add: descend_def s None c Some Let_def po1_def books_closed_state)
    next
      case n2: None
      obtain res3 a h3 where r: "arm_all hw (sp_wake_sources plan) kWakeOrder 0 h2 = (res3, a, h3)" by (metis prod_cases3)
      note av = arm_all_spec [OF hon r]
      have clear: "\<not> bv_armed (view h2) w" for w using sv cv up by (simp add: board_awake_def)
      show ?thesis
      proof (cases res3)
        case (Some x)
        obtain w step where x: "x = (w, step)" by (cases x)
        have "standing view (wants_domain m) (wants_domain g) (wants a) (if step = UnknownStep
           then po1\<lparr>po_failed_disarm := po_failed_disarm po1 OR wake_bit w\<rparr> else po1) h3"
          using st2 av clear by (auto simp: standing_def Some x)
        from fail_arm_closes [OF hon this k1 k(4)] show ?thesis
          by (simp add: descend_def s None c n2 r Some x Let_def po1_def books_closed_state)
      next
        case n3: None
        have "standing view (wants_domain m) (wants_domain g) (wants a) po1 h3"
          using st2 av clear by (auto simp: standing_def n3)
        from rest_and_return_closes [OF hon this k1 k(4)] show ?thesis
          by (simp add: descend_def s None c n2 r n3 Let_def po1_def books_closed_state)
      qed
    qed
  qed
qed

lemma refusal_report:
  "refusal plan po r = Some r' \<Longrightarrow>
   sr_hardware_known r' = sr_hardware_known r \<and> sr_overdue_leases r' = sr_overdue_leases r \<and> \<not> report_slept r' \<and>
   sr_outcome r' \<in> {RefusedTransition, RefusedWakePlan, RefusedRailBeforeSuspend, RefusedLeaseHeld}"
  by (auto simp: refusal_def Let_def report_slept_def split: if_splits)

lemma owner_books_awake: "owner_books view po h \<Longrightarrow> po_known po \<Longrightarrow> board_awake (view h)"
  using standing_awake [of po view h] by (simp add: owner_books_def)

text \<open>A transaction on an owner that knows its board, and one that has to recover it first.\<close>

lemma sleep_from_known:
  assumes hon: "honest hw view" and b: "owner_books view po h" "po_known po" and "sr_hardware_known r"
  shows "books_closed view po (case refusal plan po r of Some r' \<Rightarrow> (r', po, h) | None \<Rightarrow> descend hw plan (r, po, h))"
proof (cases "refusal plan po r")
  case None
  from b have "journals_clear po" "po_state po = Active" by (simp_all add: owner_books_def)
  from descend_closes [OF hon owner_books_awake [OF b] this b(2) assms(4)] None show ?thesis by simp
next
  case (Some r')
  then show ?thesis using refusal_report [OF Some] assms(4) b by (simp add: books_closed_def)
qed

lemma po_sleep_closes:
  assumes hon: "honest hw view" and b: "owner_books view po h"
  shows "books_closed view po (po_sleep hw plan now (po, h))"
proof (cases "po_known po")
  case True
  define r where "r = new_sleep_report\<lparr>sr_overdue_leases := leases_overdue now (po_leases po), sr_hardware_known := True\<rparr>"
  have "books_closed view po (case refusal plan po r of Some r' \<Rightarrow> (r', po, h) | None \<Rightarrow> descend hw plan (r, po, h))"
    by (rule sleep_from_known [OF hon b True]) (simp add: r_def)
  then show ?thesis using True unfolding r_def by (simp add: po_sleep_def Let_def)
next
  case False
  define r0 where "r0 = new_sleep_report\<lparr>sr_overdue_leases := leases_overdue now (po_leases po)\<rparr>"
  obtain ok r1 po1 h1 where rc: "recover hw r0 (po, h) = (ok, r1, po1, h1)" by (metis prod_cases4)
  note v = recover_spec [OF hon b False rc]
  show ?thesis
  proof (cases ok)
    case True
    define r where "r = r1\<lparr>sr_hardware_known := True\<rparr>"
    have "books_closed view po1 (case refusal plan po1 r of Some r' \<Rightarrow> (r', po1, h1) | None \<Rightarrow> descend hw plan (r, po1, h1))"
      by (rule sleep_from_known [OF hon v(1)]) (simp_all add: v(2) True r_def)
    moreover have "po_sleep hw plan now (po, h) =
        (case refusal plan po1 r of Some r' \<Rightarrow> (r', po1, h1) | None \<Rightarrow> descend hw plan (r, po1, h1))"
      using False rc True unfolding r_def r0_def by (simp add: po_sleep_def Let_def)
    ultimately show ?thesis using books_closed_cong [OF v(3,4), of view] by simp
  next
    case nok: False
    then show ?thesis using False rc v by (simp add: po_sleep_def r0_def books_closed_def Let_def report_slept_def)
  qed
qed

text \<open>
  C10. Over any board whose operations tell the truth about themselves, and whatever fails along
  the way - a suspension, a rail, a wake source, the sleep itself, an undo or a recovery - the
  owner never believes more than it knows: after \<open>sleep\<close> it says the hardware is known exactly
  when it owes no undo, that is what its report says too, and a known board is awake with all
  consumers running, all rails up and no source armed. What may still be down is in its
  journals. Leases are untouched and a cycle is counted exactly when the board slept.
\<close>
theorem owner_knows_the_board:
  assumes "honest hw view" and "owner_books view po h"
    and "po_sleep hw plan now (po, h) = (r, po', h')"
  shows "owner_books view po' h' \<and> sr_hardware_known r = po_known po' \<and>
    (po_known po' \<longrightarrow> board_awake (view h') \<and> po_state po' = Active) \<and>
    po_leases po' = po_leases po \<and>
    po_cycles po' = (if report_slept r then po_cycles po + 1 else po_cycles po)"
proof -
  have "books_closed view po (r, po', h')" using po_sleep_closes [OF assms(1,2), of plan now] assms(3) by simp
  then have b: "owner_books view po' h'" "sr_hardware_known r = po_known po'" "po_leases po' = po_leases po"
    "po_cycles po' = (if report_slept r then po_cycles po + 1 else po_cycles po)" by (simp_all add: books_closed_def)
  then show ?thesis using owner_books_awake [OF b(1)] by (simp add: owner_books_def)
qed

text \<open>A board that never brings the radio back: honest, and a case where knowledge is lost.\<close>

definition deaf_radio :: "board_view power_hardware" where
  "deaf_radio =
     \<lparr>hw_suspend = (\<lambda>d v. (Done, v\<lparr>bv_running := (bv_running v)(d := False)\<rparr>)),
      hw_resume = (\<lambda>d v. (d \<noteq> Radio, v\<lparr>bv_running := (bv_running v)(d := (d \<noteq> Radio))\<rparr>)),
      hw_set_rail = (\<lambda>d on v. (True, v\<lparr>bv_powered := (bv_powered v)(d := on)\<rparr>)),
      hw_arm_wake = (\<lambda>w v. (Done, v\<lparr>bv_armed := (bv_armed v)(w := True)\<rparr>)),
      hw_disarm_wake = (\<lambda>w v. (True, v\<lparr>bv_armed := (bv_armed v)(w := False)\<rparr>)),
      hw_sleep = (\<lambda>p v. (True, \<lparr>wc_from_soc = 1, wc_derived = 0, wc_unmapped_from_soc = 0\<rparr>, v))\<rparr>"

definition awake_board :: board_view where
  "awake_board = \<lparr>bv_running = (\<lambda>_. True), bv_powered = (\<lambda>_. True), bv_armed = (\<lambda>_. False)\<rparr>"

lemma deaf_radio_honest: "honest deaf_radio id"
  unfolding honest_def deaf_radio_def by auto

lemma new_owner_books: "board_awake (view h) \<Longrightarrow> owner_books view new_power_owner h"
  by (auto simp: owner_books_def standing_def board_awake_def new_power_owner_def journals_clear_def)

lemma awake_board_awake: "board_awake awake_board"
  by (simp add: board_awake_def awake_board_def)

definition night_plan :: sleep_plan where
  "night_plan = \<lparr>sp_state = LightSleep, sp_wake_sources = wake_bit Timer OR wake_bit Button,
                 sp_suspend = domain_bit Radio OR domain_bit Display, sp_rails_off = domain_bit Display\<rparr>"


text \<open>A night on it: the device sleeps and wakes, and the owner no longer knows its board.\<close>

lemma owner_knows_the_board_witness:
  "let (r, po, v) = po_sleep deaf_radio night_plan 0 (new_power_owner, awake_board)
   in owner_books id po v \<and> sr_hardware_known r = po_known po \<and> po_cycles po = 1 \<and>
      report_slept r \<and> \<not> po_known po \<and> po_failed_resume po = domain_bit Radio \<and> \<not> bv_running v Radio"
proof -
  obtain r po v where e: "po_sleep deaf_radio night_plan 0 (new_power_owner, awake_board) = (r, po, v)"
    by (metis prod_cases3)
  have fresh: "po_cycles new_power_owner = 0" by (simp add: new_power_owner_def)
  have c: "(case po_sleep deaf_radio night_plan 0 (new_power_owner, awake_board) of (r, po, v) \<Rightarrow>
      report_slept r \<and> \<not> po_known po \<and> po_failed_resume po = domain_bit Radio \<and> \<not> bv_running v Radio)"
    by code_simp
  show ?thesis
    using c owner_knows_the_board [OF deaf_radio_honest new_owner_books e] awake_board_awake
    by (simp add: e fresh)
qed

section \<open>What the board is at rest\<close>

text \<open>The board a plan asks for.\<close>

lemma board_view_eqI:
  "bv_running v = bv_running w \<Longrightarrow> bv_powered v = bv_powered w \<Longrightarrow> bv_armed v = bv_armed w \<Longrightarrow> v = (w :: board_view)"
  by simp

definition planned_board :: "sleep_plan \<Rightarrow> board_view" where
  "planned_board plan =
     \<lparr>bv_running = (\<lambda>d. \<not> wants_domain (sp_suspend plan) d),
      bv_powered = (\<lambda>d. \<not> wants_domain (sp_rails_off plan) d),
      bv_armed = wants (sp_wake_sources plan)\<rparr>"

text \<open>An undo never rewrites the verdict.\<close>

lemma unwind_outcome:
  "unwind_suspend hw m (r, po, h) = (ok, r', po', h') \<Longrightarrow> sr_outcome r' = sr_outcome r"
  "unwind_rails hw m (r, po, h) = (ok, r', po', h') \<Longrightarrow> sr_outcome r' = sr_outcome r"
  "unwind_wake hw m (r, po, h) = (ok, r', po', h') \<Longrightarrow> sr_outcome r' = sr_outcome r"
proof -
  define P :: "bool \<times> sleep_report \<times> power_owner \<times> 'a \<Rightarrow> bool" where "P = (\<lambda>(_, x, _). sr_outcome x = sr_outcome r)"
  have "P s \<Longrightarrow> P (unwind_suspend1 hw m d s)" for d s
    by (auto simp: P_def unwind_suspend1_def split: prod.splits if_splits)
  from fold_keeps [where P = P and f = "unwind_suspend1 hw m", OF this, of "(True, r, po, h)" "rev kOrder"]
  show "unwind_suspend hw m (r, po, h) = (ok, r', po', h') \<Longrightarrow> sr_outcome r' = sr_outcome r"
    by (simp add: P_def unwind_suspend_def)
  have "P s \<Longrightarrow> P (unwind_rails1 hw m d s)" for d s
    by (auto simp: P_def unwind_rails1_def split: prod.splits if_splits)
  from fold_keeps [where P = P and f = "unwind_rails1 hw m", OF this, of "(True, r, po, h)" "rev kOrder"]
  show "unwind_rails hw m (r, po, h) = (ok, r', po', h') \<Longrightarrow> sr_outcome r' = sr_outcome r"
    by (simp add: P_def unwind_rails_def)
  have "P s \<Longrightarrow> P (unwind_wake1 hw m w s)" for w s
    by (auto simp: P_def unwind_wake1_def split: prod.splits if_splits)
  from fold_keeps [where P = P and f = "unwind_wake1 hw m", OF this, of "(True, r, po, h)" "rev kWakeOrder"]
  show "unwind_wake hw m (r, po, h) = (ok, r', po', h') \<Longrightarrow> sr_outcome r' = sr_outcome r"
    by (simp add: P_def unwind_wake_def)
qed

lemma fail_outcomes:
  "sr_outcome (fst (fail_suspend hw d step m (r, po, h))) = FailedSuspend"
  "sr_outcome (fst (fail_rail hw d m g (r, po, h))) = FailedRail"
  "sr_outcome (fst (fail_arm hw w step m g a (r, po, h))) = FailedArm"
  by (auto simp: fail_suspend_def fail_rail_def fail_arm_def Let_def dest!: unwind_outcome split: prod.splits if_splits)

lemma rest_and_return_report:
  assumes "rest_and_return hw p m g a (r, po, h) = (r', po', h')" and "hw_sleep hw p h = (slept, c, h1)"
  shows "sr_outcome r' = (if slept then Woken else FailedSleep) \<and>
    sr_wake_causes r' = wc_from_soc c OR wc_derived c \<and> sr_unexpected_causes r' = wc_from_soc c AND NOT a \<and>
    sr_unmapped_causes r' = wc_unmapped_from_soc c"
  using assms by (auto simp: rest_and_return_def Let_def split: prod.splits if_splits)

text \<open>
  The moment of rest, for a transaction that reached it: the board asked to sleep was the one
  the plan names, and the report is what that sleep said.
\<close>

definition rested ::
  "'h power_hardware \<Rightarrow> ('h \<Rightarrow> board_view) \<Rightarrow> sleep_plan \<Rightarrow> sleep_report \<Rightarrow> bool" where
  "rested hw view plan r \<longleftrightarrow> (\<exists>h slept c h'. hw_sleep hw (sp_state plan) h = (slept, c, h') \<and>
     view h = planned_board plan \<and> sr_outcome r = (if slept then Woken else FailedSleep) \<and>
     sr_wake_causes r = wc_from_soc c OR wc_derived c \<and> sr_unmapped_causes r = wc_unmapped_from_soc c \<and>
     (\<forall>w. wants (sr_unexpected_causes r) w \<longleftrightarrow> wants (wc_from_soc c) w \<and> \<not> wants (sp_wake_sources plan) w))"

lemma wants_and_not: "wants (m AND NOT n) w \<longleftrightarrow> wants m w \<and> \<not> wants n w"
  by (auto simp: wants_bit bit_and_iff bit_not_iff)

lemma descend_rests:
  assumes hon: "honest hw view" and up: "board_awake (view h)"
    and d: "descend hw plan (r, po, h) = (r', po', h')" and o: "sr_outcome r' = Woken \<or> sr_outcome r' = FailedSleep"
  shows "rested hw view plan r'"
proof -
  obtain res m h1 where s: "suspend_all hw (sp_suspend plan) kOrder 0 h = (res, m, h1)" by (metis prod_cases3)
  obtain res2 g h2 where c: "cut_all hw (sp_rails_off plan) kOrder 0 h1 = (res2, g, h2)" by (metis prod_cases3)
  obtain res3 a h3 where r: "arm_all hw (sp_wake_sources plan) kWakeOrder 0 h2 = (res3, a, h3)" by (metis prod_cases3)
  have n1: "res = None"
  proof (rule ccontr)
    assume "res \<noteq> None"
    then obtain x step where "res = Some (x, step)" by (cases res) auto
    then have "r' = fst (fail_suspend hw x step m (r, po, h1))" using d by (simp add: descend_def s)
    with o show False by (simp add: fail_outcomes)
  qed
  have n2: "res2 = None"
  proof (rule ccontr)
    assume "res2 \<noteq> None"
    then obtain x where "res2 = Some x" by (cases res2) auto
    then have "r' = fst (fail_rail hw x m g (r, po\<lparr>po_state := Idle\<rparr>, h2))"
      using d by (simp add: descend_def s c n1 Let_def)
    with o show False by (simp add: fail_outcomes)
  qed
  have n3: "res3 = None"
  proof (rule ccontr)
    assume "res3 \<noteq> None"
    then obtain x step where "res3 = Some (x, step)" by (cases res3) auto
    then have "r' = fst (fail_arm hw x step m g a (r, po\<lparr>po_state := Idle\<rparr>, h3))"
      using d by (simp add: descend_def s c r n1 n2 Let_def)
    with o show False by (simp add: fail_outcomes)
  qed
  have rr: "rest_and_return hw (sp_state plan) m g a (r, po\<lparr>po_state := Idle\<rparr>, h3) = (r', po', h')"
    using d by (simp add: descend_def s c r n1 n2 n3 Let_def)
  obtain slept k h4 where z: "hw_sleep hw (sp_state plan) h3 = (slept, k, h4)" by (metis prod_cases3)
  note sv = suspend_all_spec [OF hon s] and cv = cut_all_spec [OF hon c] and av = arm_all_spec [OF hon r]
  have run: "bv_running (view h3) d \<longleftrightarrow> \<not> wants_domain (sp_suspend plan) d" for d
    using sv cv av up by (auto simp: n1 n2 n3 board_awake_def)
  have pow: "bv_powered (view h3) d \<longleftrightarrow> \<not> wants_domain (sp_rails_off plan) d" for d
    using sv cv av up by (auto simp: n1 n2 n3 board_awake_def)
  have arm: "wants a w \<longleftrightarrow> wants (sp_wake_sources plan) w" "bv_armed (view h3) w \<longleftrightarrow> wants (sp_wake_sources plan) w" for w
    using sv cv av up by (auto simp: n1 n2 n3 board_awake_def)
  have "view h3 = planned_board plan"
    by (rule board_view_eqI) (auto simp: planned_board_def run pow arm(2))
  with rest_and_return_report [OF rr z] z show ?thesis
    unfolding rested_def by (intro exI [of _ h3] exI [of _ slept] exI [of _ k] exI [of _ h4]) (simp add: wants_and_not arm(1))
qed

lemma refusal_None:
  assumes "refusal plan po r = None"
  shows "sp_state plan = LightSleep \<or> sp_state plan = MeshListenSleep"
    and "wake_plan_is_legal (sp_state plan) (sp_wake_sources plan)"
    and "wants_domain (sp_rails_off plan) d \<Longrightarrow> wants_domain (sp_suspend plan) d"
    and "wants_domain (leases_held (po_leases po)) d \<Longrightarrow>
      \<not> wants_domain (sp_suspend plan) d \<and> \<not> wants_domain (sp_rails_off plan) d"
proof -
  have n: "sp_rails_off plan AND NOT (sp_suspend plan) = 0"
    "leases_held (po_leases po) AND (sp_suspend plan OR sp_rails_off plan) = 0"
    using assms by (auto simp: refusal_def Let_def split: if_splits)
  show "sp_state plan = LightSleep \<or> sp_state plan = MeshListenSleep"
    "wake_plan_is_legal (sp_state plan) (sp_wake_sources plan)"
    using assms by (auto simp: refusal_def Let_def split: if_splits)
  have i: "domain_index d < 16" by simp
  have "\<not> bit (sp_rails_off plan AND NOT (sp_suspend plan)) (domain_index d)" unfolding n(1) by simp
  then show "wants_domain (sp_rails_off plan) d \<Longrightarrow> wants_domain (sp_suspend plan) d"
    using i by (auto simp: wants_domain_bit bit_and_iff bit_not_iff)
  have "\<not> bit (leases_held (po_leases po) AND (sp_suspend plan OR sp_rails_off plan)) (domain_index d)"
    unfolding n(2) by simp
  then show "wants_domain (leases_held (po_leases po)) d \<Longrightarrow>
      \<not> wants_domain (sp_suspend plan) d \<and> \<not> wants_domain (sp_rails_off plan) d"
    by (auto simp: wants_domain_bit bit_and_iff bit_or_iff)
qed

lemma sleep_from_known_rests:
  assumes hon: "honest hw view" and b: "owner_books view po h" "po_known po"
    and e: "(case refusal plan po r of Some r' \<Rightarrow> (r', po, h) | None \<Rightarrow> descend hw plan (r, po, h)) = (r', po', h')"
    and o: "sr_outcome r' = Woken \<or> sr_outcome r' = FailedSleep"
  shows "rested hw view plan r' \<and> refusal plan po r = None"
proof (cases "refusal plan po r")
  case None
  with e have "descend hw plan (r, po, h) = (r', po', h')" by simp
  from descend_rests [OF hon owner_books_awake [OF b] this o] None show ?thesis by simp
next
  case (Some x)
  with refusal_report [OF Some] e o show ?thesis by auto
qed

lemma rests_from_books:
  assumes "honest hw view" and "owner_books view po h"
    and "po_sleep hw plan now (po, h) = (r, po', h')"
    and "sr_outcome r = Woken \<or> sr_outcome r = FailedSleep"
  shows "rested hw view plan r \<and>
    (sp_state plan = LightSleep \<or> sp_state plan = MeshListenSleep) \<and>
    wake_plan_is_legal (sp_state plan) (sp_wake_sources plan) \<and>
    (\<forall>d. (wants_domain (sp_rails_off plan) d \<longrightarrow> wants_domain (sp_suspend plan) d) \<and>
      (wants_domain (leases_held (po_leases po)) d \<longrightarrow>
        bv_running (planned_board plan) d \<and> bv_powered (planned_board plan) d))"
proof -
  have "\<exists>po1 r1. rested hw view plan r \<and> refusal plan po1 r1 = None \<and> po_leases po1 = po_leases po"
  proof (cases "po_known po")
    case True
    obtain r0 where "(case refusal plan po r0 of Some r' \<Rightarrow> (r', po, h) | None \<Rightarrow> descend hw plan (r0, po, h)) = (r, po', h')"
      using assms(3) True by (simp add: po_sleep_def Let_def)
    from sleep_from_known_rests [OF assms(1,2) True this assms(4)] show ?thesis by blast
  next
    case False
    define r0 where "r0 = new_sleep_report\<lparr>sr_overdue_leases := leases_overdue now (po_leases po)\<rparr>"
    obtain ok r1 po1 h1 where rc: "recover hw r0 (po, h) = (ok, r1, po1, h1)" by (metis prod_cases4)
    note v = recover_spec [OF assms(1,2) False rc]
    have ok: ok using assms(3,4) False rc by (auto simp: po_sleep_def r0_def Let_def split: if_splits)
    obtain r2 where e: "(case refusal plan po1 r2 of Some r' \<Rightarrow> (r', po1, h1) | None \<Rightarrow> descend hw plan (r2, po1, h1)) = (r, po', h')"
      using assms(3) False rc ok unfolding r0_def by (simp add: po_sleep_def Let_def)
    have "po_known po1" using v(2) ok by simp
    from sleep_from_known_rests [OF assms(1) v(1) this e assms(4)] v(3) show ?thesis by blast
  qed
  then obtain po1 r1 where p: "rested hw view plan r" "refusal plan po1 r1 = None" "po_leases po1 = po_leases po" by blast
  note n = refusal_None [OF p(2), unfolded p(3)]
  show ?thesis using p(1) n by (auto simp: planned_board_def)
qed



end
