(* ===== verification/Power_Log.thy ===== *)
theory Power_Log
  imports Power_Owner
begin

text \<open>
  What a sleep transaction of \<open>core/src/power_owner.cpp\<close> asks of its board, whatever the board
  answers: which calls can be made at all, and a board that keeps the list of them.
\<close>

section \<open>Which calls are made\<close>

text \<open>
  A property of the board that no call breaks is kept by the whole transaction. A domain under a
  lease is never suspended and its rail never cut; it is resumed or raised only to mend what an
  earlier transaction left undone.
\<close>

lemma suspend_all_mask: "suspend_all hw plan ds m h = (res, m', h') \<Longrightarrow> wants_domain m' d \<Longrightarrow> wants_domain m d \<or> wants_domain plan d"
  by (induction ds arbitrary: m h) (fastforce split: if_splits prod.splits)+

lemma cut_all_mask: "cut_all hw plan ds m h = (res, m', h') \<Longrightarrow> wants_domain m' d \<Longrightarrow> wants_domain m d \<or> wants_domain plan d"
  by (induction ds arbitrary: m h) (fastforce split: if_splits prod.splits)+

locale board_property =
  fixes hw :: "'h power_hardware" and held :: "power_domain \<Rightarrow> bool" and owed :: "power_domain \<Rightarrow> bool"
    and I :: "'h \<Rightarrow> bool"
  assumes suspend_keeps: "\<not> held d \<Longrightarrow> I h \<Longrightarrow> I (snd (hw_suspend hw d h))"
    and cut_keeps: "\<not> held d \<Longrightarrow> I h \<Longrightarrow> I (snd (hw_set_rail hw d False h))"
    and resume_keeps: "\<not> held d \<or> owed d \<Longrightarrow> I h \<Longrightarrow> I (snd (hw_resume hw d h))"
    and raise_keeps: "\<not> held d \<or> owed d \<Longrightarrow> I h \<Longrightarrow> I (snd (hw_set_rail hw d True h))"
    and arm_keeps: "I h \<Longrightarrow> I (snd (hw_arm_wake hw w h))"
    and disarm_keeps: "I h \<Longrightarrow> I (snd (hw_disarm_wake hw w h))"
    and sleep_keeps: "I h \<Longrightarrow> I (snd (snd (hw_sleep hw p h)))"
begin

lemma suspend_all_keeps:
  "suspend_all hw plan ds m h = (res, m', h') \<Longrightarrow> \<forall>d. wants_domain plan d \<longrightarrow> \<not> held d \<Longrightarrow> I h \<Longrightarrow> I h'"
proof (induction ds arbitrary: m h)
  case (Cons d ds)
  then show ?case using suspend_keeps [of d h] by (cases "hw_suspend hw d h") (auto split: if_splits)
qed simp

lemma cut_all_keeps:
  "cut_all hw plan ds m h = (res, m', h') \<Longrightarrow> \<forall>d. wants_domain plan d \<longrightarrow> \<not> held d \<Longrightarrow> I h \<Longrightarrow> I h'"
proof (induction ds arbitrary: m h)
  case (Cons d ds)
  then show ?case using cut_keeps [of d h] by (cases "hw_set_rail hw d False h") (auto split: if_splits)
qed simp

lemma arm_all_keeps: "arm_all hw plan ws m h = (res, m', h') \<Longrightarrow> I h \<Longrightarrow> I h'"
proof (induction ws arbitrary: m h)
  case (Cons w ws)
  then show ?case using arm_keeps [of h w] by (cases "hw_arm_wake hw w h") (auto split: if_splits)
qed simp

lemma unwind_suspend_keeps:
  assumes "unwind_suspend hw m (r, po, h) = (ok, r', po', h')" "\<forall>d. wants_domain m d \<longrightarrow> \<not> held d" "I h"
  shows "I h'"
proof -
  have "I (snd (snd (snd s))) \<Longrightarrow> I (snd (snd (snd (unwind_suspend1 hw m d s))))" for d s
    using assms(2) resume_keeps [of d "snd (snd (snd s))"] by (auto simp: unwind_suspend1_def split: prod.splits)
  from fold_keeps [where P = "\<lambda>s. I (snd (snd (snd s)))" and f = "unwind_suspend1 hw m", OF this, of "(True, r, po, h)" "rev kOrder"]
  show ?thesis using assms(1,3) by (simp add: unwind_suspend_def)
qed

lemma unwind_rails_keeps:
  assumes "unwind_rails hw m (r, po, h) = (ok, r', po', h')" "\<forall>d. wants_domain m d \<longrightarrow> \<not> held d" "I h"
  shows "I h'"
proof -
  have "I (snd (snd (snd s))) \<Longrightarrow> I (snd (snd (snd (unwind_rails1 hw m d s))))" for d s
    using assms(2) raise_keeps [of d "snd (snd (snd s))"] by (auto simp: unwind_rails1_def split: prod.splits)
  from fold_keeps [where P = "\<lambda>s. I (snd (snd (snd s)))" and f = "unwind_rails1 hw m", OF this, of "(True, r, po, h)" "rev kOrder"]
  show ?thesis using assms(1,3) by (simp add: unwind_rails_def)
qed

lemma unwind_wake_keeps:
  assumes "unwind_wake hw m (r, po, h) = (ok, r', po', h')" "I h"
  shows "I h'"
proof -
  have "I (snd (snd (snd s))) \<Longrightarrow> I (snd (snd (snd (unwind_wake1 hw m w s))))" for w s
    using disarm_keeps [of "snd (snd (snd s))" w] by (auto simp: unwind_wake1_def split: prod.splits)
  from fold_keeps [where P = "\<lambda>s. I (snd (snd (snd s)))" and f = "unwind_wake1 hw m", OF this, of "(True, r, po, h)" "rev kWakeOrder"]
  show ?thesis using assms by (simp add: unwind_wake_def)
qed

lemma fails_keep:
  assumes "\<forall>d. wants_domain m d \<longrightarrow> \<not> held d" "\<forall>d. wants_domain g d \<longrightarrow> \<not> held d" "I h"
  shows "I (snd (snd (fail_suspend hw d step m (r, po, h))))"
    and "I (snd (snd (fail_rail hw d m g (r, po, h))))"
    and "I (snd (snd (fail_arm hw w step m g a (r, po, h))))"
    and "I (snd (snd (rest_and_return hw p m g a (r, po, h))))"
proof -
  note back_up = unwind_suspend_keeps [OF _ assms(1)] unwind_rails_keeps [OF _ assms(2)] unwind_wake_keeps
  have undo: "I (snd (snd (snd (unwind_suspend hw m (snd (unwind_rails hw g (snd (unwind_wake hw a (x, y, k)))))))))" if "I k" for x y k
  proof -
    obtain b1 x1 y1 k1 where 1: "unwind_wake hw a (x, y, k) = (b1, x1, y1, k1)" by (metis prod_cases4)
    obtain b2 x2 y2 k2 where 2: "unwind_rails hw g (x1, y1, k1) = (b2, x2, y2, k2)" by (metis prod_cases4)
    obtain b3 x3 y3 k3 where 3: "unwind_suspend hw m (x2, y2, k2) = (b3, x3, y3, k3)" by (metis prod_cases4)
    have "I k3" by (rule back_up(1) [OF 3 back_up(2) [OF 2 back_up(3) [OF 1 that]]])
    then show ?thesis by (simp add: 1 2 3)
  qed
  show "I (snd (snd (fail_suspend hw d step m (r, po, h))))"
    using assms(3) by (auto simp: fail_suspend_def Let_def split: prod.split intro: back_up(1))
  show "I (snd (snd (fail_rail hw d m g (r, po, h))))"
    using assms(3) back_up(1) back_up(2) by (simp add: fail_rail_def Let_def split: prod.split)
  show "I (snd (snd (fail_arm hw w step m g a (r, po, h))))"
    using undo [OF assms(3)] by (simp add: fail_arm_def Let_def case_prod_beta)
  show "I (snd (snd (rest_and_return hw p m g a (r, po, h))))"
    using undo [OF sleep_keeps [OF assms(3), of p]] by (simp add: rest_and_return_def Let_def case_prod_beta)
qed

lemma descend_keeps:
  assumes "\<forall>d. wants_domain (sp_suspend plan) d \<longrightarrow> \<not> held d" "\<forall>d. wants_domain (sp_rails_off plan) d \<longrightarrow> \<not> held d" "I h"
  shows "I (snd (snd (descend hw plan (r, po, h))))"
proof -
  obtain res m h1 where s: "suspend_all hw (sp_suspend plan) kOrder 0 h = (res, m, h1)" by (metis prod_cases3)
  obtain res2 g h2 where c: "cut_all hw (sp_rails_off plan) kOrder 0 h1 = (res2, g, h2)" by (metis prod_cases3)
  obtain res3 a h3 where t: "arm_all hw (sp_wake_sources plan) kWakeOrder 0 h2 = (res3, a, h3)" by (metis prod_cases3)
  have m: "\<forall>d. wants_domain m d \<longrightarrow> \<not> held d" "\<forall>d. wants_domain g d \<longrightarrow> \<not> held d"
    using suspend_all_mask [OF s] cut_all_mask [OF c] assms(1,2) by auto
  have "I h1" by (rule suspend_all_keeps [OF s assms(1,3)])
  moreover from this have "I h2" by (rule cut_all_keeps [OF c assms(2)])
  moreover from this have "I h3" by (rule arm_all_keeps [OF t])
  ultimately show ?thesis
    using fails_keep [OF m] by (auto simp: descend_def s c t Let_def split: option.split)
qed

definition mends :: "power_owner \<Rightarrow> bool" where
  "mends po \<longleftrightarrow> (\<forall>d. wants_domain (po_failed_resume po) d \<or> wants_domain (po_failed_rail po) d \<longrightarrow> \<not> held d \<or> owed d)"

lemma recover_keeps:
  assumes "recover hw r0 (po, h) = (ok, r, po', h')" "mends po" "I h"
  shows "I h'" and "po_leases po' = po_leases po"
proof -
  let ?P = "\<lambda>s. mends (fst s) \<and> I (snd s) \<and> po_leases (fst s) = po_leases po"
  have w: "?P s \<Longrightarrow> ?P (recover_wake hw x s)" for x s
    using disarm_keeps [of "snd s" x] by (auto simp: recover_wake_def mends_def split: prod.splits)
  have v: "?P s \<Longrightarrow> ?P (recover_rail hw x s)" for x s
    using raise_keeps [of x "snd s"] by (auto simp: recover_rail_def mends_def split: prod.splits)
  have u: "?P s \<Longrightarrow> ?P (recover_resume hw x s)" for x s
    using resume_keeps [of x "snd s"] by (auto simp: recover_resume_def mends_def split: prod.splits)
  have "?P (fold (recover_wake hw) (rev kWakeOrder) (po, h))" using assms(2,3) by (intro fold_keeps [where P = ?P and f = "recover_wake hw"] w) simp_all
  then have "?P (fold (recover_rail hw) (rev kOrder) (fold (recover_wake hw) (rev kWakeOrder) (po, h)))"
    by (intro fold_keeps [where P = ?P and f = "recover_rail hw"] v)
  then have "?P (fold (recover_resume hw) (rev kOrder) (fold (recover_rail hw) (rev kOrder) (fold (recover_wake hw) (rev kWakeOrder) (po, h))))"
    by (intro fold_keeps [where P = ?P and f = "recover_resume hw"] u)
  then show "I h'" "po_leases po' = po_leases po"
    using assms(1) by (auto simp: recover_def Let_def split: prod.splits if_splits)
qed

theorem transaction_keeps:
  assumes "po_sleep hw plan now (po, h) = (r, po', h')" "I h"
    and "\<And>d. wants_domain (leases_held (po_leases po)) d = held d" and "po_known po \<or> mends po"
  shows "I h'"
proof -
  have down: "I z"
    if "(case refusal plan po1 r1 of Some r \<Rightarrow> (r, po1, k) | None \<Rightarrow> descend hw plan (r1, po1, k)) = (x, y, z)"
      "I k" "po_leases po1 = po_leases po" for po1 r1 k x y z
    using that descend_keeps [of plan k r1 po1] refusal_None(4) [of plan po1 r1] assms(3) by (auto split: option.splits)
  define r0 where "r0 = new_sleep_report\<lparr>sr_overdue_leases := leases_overdue now (po_leases po)\<rparr>"
  show ?thesis
  proof (cases "po_known po")
    case True
    with assms(1) obtain r2 where
      "(case refusal plan po r2 of Some r \<Rightarrow> (r, po, h) | None \<Rightarrow> descend hw plan (r2, po, h)) = (r, po', h')"
      by (simp add: po_sleep_def Let_def)
    from down [OF this assms(2) refl] show ?thesis .
  next
    case False
    obtain ok r1 po1 k where rc: "recover hw r0 (po, h) = (ok, r1, po1, k)" by (metis prod_cases4)
    have "mends po" using assms(4) False by simp
    note k = recover_keeps [OF rc this assms(2)]
    show ?thesis
    proof (cases ok)
      case True
      with assms(1) False rc have "(case refusal plan po1 (r1\<lparr>sr_hardware_known := True\<rparr>) of Some r \<Rightarrow> (r, po1, k)
          | None \<Rightarrow> descend hw plan (r1\<lparr>sr_hardware_known := True\<rparr>, po1, k)) = (r, po', h')"
        by (simp add: po_sleep_def Let_def r0_def)
      from down [OF this k] show ?thesis .
    next
      case False
      with assms(1) \<open>\<not> po_known po\<close> rc k(1) show ?thesis
        by (simp add: po_sleep_def Let_def r0_def)
    qed
  qed
qed

end

section \<open>A board seen through another\<close>

lemma fold_through: "(\<And>x s. f x (g s) = g (f' x s)) \<Longrightarrow> fold f xs (g s) = g (fold f' xs s)"
  by (induction xs arbitrary: s) simp_all

text \<open>A board whose operations are those of another one behind a map of states answers the same transaction.\<close>

locale board_map =
  fixes fine :: "'k power_hardware" and hw :: "'h power_hardware" and g :: "'k \<Rightarrow> 'h"
  assumes map_suspend: "hw_suspend hw d (g k) = apsnd g (hw_suspend fine d k)"
    and map_resume: "hw_resume hw d (g k) = apsnd g (hw_resume fine d k)"
    and map_rail: "hw_set_rail hw d on (g k) = apsnd g (hw_set_rail fine d on k)"
    and map_arm: "hw_arm_wake hw w (g k) = apsnd g (hw_arm_wake fine w k)"
    and map_disarm: "hw_disarm_wake hw w (g k) = apsnd g (hw_disarm_wake fine w k)"
    and map_sleep: "hw_sleep hw p (g k) = apsnd (apsnd g) (hw_sleep fine p k)"
begin

lemmas maps = map_suspend map_resume map_rail map_arm map_disarm map_sleep

abbreviation g3 where "g3 \<equiv> apsnd (apsnd g)"
abbreviation g4 where "g4 \<equiv> apsnd (apsnd (apsnd g))"

lemma suspend_all_through: "suspend_all hw plan ds m (g k) = g3 (suspend_all fine plan ds m k)"
  by (induction ds arbitrary: m k) (simp_all add: maps split: prod.split)

lemma cut_all_through: "cut_all hw plan ds m (g k) = g3 (cut_all fine plan ds m k)"
  by (induction ds arbitrary: m k) (simp_all add: maps split: prod.split)

lemma arm_all_through: "arm_all hw plan ws m (g k) = g3 (arm_all fine plan ws m k)"
  by (induction ws arbitrary: m k) (simp_all add: maps split: prod.split)

lemma unwind_suspend_through: "unwind_suspend hw m (g3 s) = g4 (unwind_suspend fine m s)"
proof -
  have "unwind_suspend1 hw m d (g4 t) = g4 (unwind_suspend1 fine m d t)" for d t
    by (cases t) (simp add: unwind_suspend1_def maps split: prod.split)
  from fold_through [where f = "unwind_suspend1 hw m" and g = g4 and f' = "unwind_suspend1 fine m", OF this, of "rev kOrder" "(True, s)"]
  show ?thesis by (simp add: unwind_suspend_def)
qed

lemma unwind_rails_through: "unwind_rails hw m (g3 s) = g4 (unwind_rails fine m s)"
proof -
  have "unwind_rails1 hw m d (g4 t) = g4 (unwind_rails1 fine m d t)" for d t
    by (cases t) (simp add: unwind_rails1_def maps split: prod.split)
  from fold_through [where f = "unwind_rails1 hw m" and g = g4 and f' = "unwind_rails1 fine m", OF this, of "rev kOrder" "(True, s)"]
  show ?thesis by (simp add: unwind_rails_def)
qed

lemma unwind_wake_through: "unwind_wake hw m (g3 s) = g4 (unwind_wake fine m s)"
proof -
  have "unwind_wake1 hw m w (g4 t) = g4 (unwind_wake1 fine m w t)" for w t
    by (cases t) (simp add: unwind_wake1_def maps split: prod.split)
  from fold_through [where f = "unwind_wake1 hw m" and g = g4 and f' = "unwind_wake1 fine m", OF this, of "rev kWakeOrder" "(True, s)"]
  show ?thesis by (simp add: unwind_wake_def)
qed

lemmas unwind_through = unwind_suspend_through [of _ "(r, po, k)" for r po k, simplified]
  unwind_rails_through [of _ "(r, po, k)" for r po k, simplified] unwind_wake_through [of _ "(r, po, k)" for r po k, simplified]

lemma fail_suspend_through: "fail_suspend hw d step m (r, po, g k) = g3 (fail_suspend fine d step m (r, po, k))"
  by (simp add: fail_suspend_def Let_def unwind_through split: prod.split)

lemma fail_rail_through: "fail_rail hw d m n (r, po, g k) = g3 (fail_rail fine d m n (r, po, k))"
  by (simp add: fail_rail_def Let_def unwind_through split: prod.split)

lemma fail_arm_through: "fail_arm hw w step m n a (r, po, g k) = g3 (fail_arm fine w step m n a (r, po, k))"
  by (simp add: fail_arm_def Let_def unwind_through split: prod.split)

lemma rest_through: "rest_and_return hw p m n a (r, po, g k) = g3 (rest_and_return fine p m n a (r, po, k))"
  by (simp add: rest_and_return_def Let_def unwind_through maps split: prod.split)

lemma descend_through: "descend hw plan (r, po, g k) = g3 (descend fine plan (r, po, k))"
  by (simp add: descend_def Let_def suspend_all_through cut_all_through arm_all_through fail_suspend_through
      fail_rail_through fail_arm_through rest_through split: prod.split option.split)

lemma recover_through: "recover hw r (apsnd g s) = g4 (recover fine r s)"
proof -
  have w: "recover_wake hw w (apsnd g t) = apsnd g (recover_wake fine w t)"
    and v: "recover_rail hw d (apsnd g t) = apsnd g (recover_rail fine d t)"
    and u: "recover_resume hw d (apsnd g t) = apsnd g (recover_resume fine d t)" for w d t
    by (cases t; simp add: recover_wake_def recover_rail_def recover_resume_def maps split: prod.split)+
  note through = fold_through [where f = "recover_wake hw" and g = "apsnd g" and f' = "recover_wake fine", OF w]
    fold_through [where f = "recover_rail hw" and g = "apsnd g" and f' = "recover_rail fine", OF v]
    fold_through [where f = "recover_resume hw" and g = "apsnd g" and f' = "recover_resume fine", OF u]
  show ?thesis
    by (simp add: recover_def Let_def through case_prod_beta) (simp add: apsnd_def map_prod_def case_prod_beta)
qed

theorem po_sleep_through: "po_sleep hw plan now (po, g k) = g3 (po_sleep fine plan now (po, k))"
  using recover_through [of _ "(po, k)"]
  by (simp add: po_sleep_def Let_def descend_through split: prod.split option.split)

end

section \<open>A board that keeps a log\<close>

datatype board_call =
  CallSuspend power_domain | CallResume power_domain | CallRail power_domain bool
  | CallArm wake_source | CallDisarm wake_source | CallSleep power_state

text \<open>Every call made of the board, with the board it left.\<close>

definition logged :: "'h power_hardware \<Rightarrow> ('h \<times> (board_call \<times> 'h) list) power_hardware" where
  "logged hw =
     \<lparr>hw_suspend = (\<lambda>d (h, l). case hw_suspend hw d h of (r, h') \<Rightarrow> (r, h', l @ [(CallSuspend d, h')])),
      hw_resume = (\<lambda>d (h, l). case hw_resume hw d h of (r, h') \<Rightarrow> (r, h', l @ [(CallResume d, h')])),
      hw_set_rail = (\<lambda>d on (h, l). case hw_set_rail hw d on h of (r, h') \<Rightarrow> (r, h', l @ [(CallRail d on, h')])),
      hw_arm_wake = (\<lambda>w (h, l). case hw_arm_wake hw w h of (r, h') \<Rightarrow> (r, h', l @ [(CallArm w, h')])),
      hw_disarm_wake = (\<lambda>w (h, l). case hw_disarm_wake hw w h of (r, h') \<Rightarrow> (r, h', l @ [(CallDisarm w, h')])),
      hw_sleep = (\<lambda>p (h, l). case hw_sleep hw p h of (r, c, h') \<Rightarrow> (r, c, h', l @ [(CallSleep p, h')]))\<rparr>"

interpretation log: board_map "logged hw" hw fst for hw
  by unfold_locales (auto simp: logged_def split: prod.split)

lemma logged_run:
  assumes "po_sleep hw plan now (po, h) = (r, po', h')"
  obtains calls where "po_sleep (logged hw) plan now (po, (h, [])) = (r, po', (h', calls))"
proof -
  have "apsnd (apsnd fst) (po_sleep (logged hw) plan now (po, (h, []))) = (r, po', h')"
    using log.po_sleep_through [of hw plan now po "(h, [])"] assms by simp
  then obtain k where "po_sleep (logged hw) plan now (po, (h, [])) = (r, po', k)" "fst k = h'"
    by (cases "po_sleep (logged hw) plan now (po, (h, []))") auto
  with that [of "snd k"] show thesis by (cases k) simp
qed

text \<open>The calls that would take a domain down, and those that touch it at all.\<close>

definition takes_down :: "power_domain \<Rightarrow> board_call \<Rightarrow> bool" where
  "takes_down d c \<longleftrightarrow> c = CallSuspend d \<or> c = CallRail d False"

definition touches :: "power_domain \<Rightarrow> board_call \<Rightarrow> bool" where
  "touches d c \<longleftrightarrow> c = CallSuspend d \<or> c = CallResume d \<or> c = CallRail d False \<or> c = CallRail d True"

text \<open>A leased domain is never taken down; one with nothing to mend is not even touched.\<close>

definition spared :: "(power_domain \<Rightarrow> board_call \<Rightarrow> bool) \<Rightarrow> (power_domain \<Rightarrow> bool) \<Rightarrow> 'h \<times> (board_call \<times> 'h) list \<Rightarrow> bool" where
  "spared harm held s \<longleftrightarrow> (\<forall>(c, k)\<in>set (snd s). \<forall>d. held d \<longrightarrow> \<not> harm d c)"

interpretation leased: board_property "logged hw" held "\<lambda>_. True" "spared takes_down held" for hw held
  by unfold_locales (auto simp: logged_def takes_down_def spared_def split: prod.splits)

interpretation settled: board_property "logged hw" held "\<lambda>_. False" "spared touches held" for hw held
  by unfold_locales (auto simp: logged_def touches_def spared_def split: prod.splits)

lemma leased_never_taken_down:
  assumes "po_sleep (logged hw) plan now (po, (h, [])) = (r, po', (h', calls))"
    and "wants_domain (leases_held (po_leases po)) d"
  shows "\<forall>(c, k)\<in>set calls. \<not> takes_down d c"
  using leased.transaction_keeps [OF assms(1), of "wants_domain (leases_held (po_leases po))"] assms(2)
  by (auto simp: leased.mends_def spared_def)

text \<open>What an honest board shows of a domain that no call touches stays as it is.\<close>

definition steady :: "('h \<Rightarrow> board_view) \<Rightarrow> (power_domain \<Rightarrow> bool) \<Rightarrow> 'h \<times> (board_call \<times> 'h) list \<Rightarrow> bool" where
  "steady view held s \<longleftrightarrow> (\<forall>k\<in>insert (fst s) (snd ` set (snd s)). \<forall>d. held d \<longrightarrow> bv_running (view k) d \<and> bv_powered (view k) d)"

lemma honest_is_steady:
  assumes "honest hw view"
  shows "board_property (logged hw) held (\<lambda>_. False) (steady view held)"
proof
  fix d w p and s :: "'a \<times> (board_call \<times> 'a) list"
  assume st: "steady view held s"
  obtain h l where s: "s = (h, l)" by (cases s)
  have up: "bv_running (view h) e \<and> bv_powered (view h) e" if "held e" for e using st that by (auto simp: steady_def s)
  have step: "steady view held (k, l @ [(c, k)])"
    if "\<And>e. held e \<Longrightarrow> bv_running (view k) e \<and> bv_powered (view k) e" for k c
    using st that by (auto simp: steady_def s)
  show "steady view held (snd (hw_arm_wake (logged hw) w s))"
  proof (cases "hw_arm_wake hw w h")
    case (Pair r k)
    from honest_arm [OF assms this] obtain x where "view k = (view h)\<lparr>bv_armed := (bv_armed (view h))(w := x)\<rparr>" .
    with step [of k] up Pair show ?thesis by (simp add: logged_def s)
  qed
  show "steady view held (snd (hw_disarm_wake (logged hw) w s))"
  proof (cases "hw_disarm_wake hw w h")
    case (Pair r k)
    from honest_disarm [OF assms this] obtain x where "view k = (view h)\<lparr>bv_armed := (bv_armed (view h))(w := x)\<rparr>" .
    with step [of k] up Pair show ?thesis by (simp add: logged_def s)
  qed
  show "steady view held (snd (snd (hw_sleep (logged hw) p s)))"
  proof (cases "hw_sleep hw p h")
    case (fields ok c k)
    with honest_sleep [OF assms this] step [of k] up show ?thesis by (simp add: logged_def s)
  qed
  have rail: "steady view held (snd (hw_set_rail (logged hw) d on s))" if "\<not> held d" for on
  proof (cases "hw_set_rail hw d on h")
    case (Pair r k)
    from honest_rail [OF assms this] obtain x where "view k = (view h)\<lparr>bv_powered := (bv_powered (view h))(d := x)\<rparr>" .
    then have "steady view held (k, l @ [(CallRail d on, k)])" using up that by (intro step) auto
    with Pair show ?thesis by (simp add: logged_def s)
  qed
  show "steady view held (snd (hw_suspend (logged hw) d s))" if "\<not> held d"
  proof (cases "hw_suspend hw d h")
    case (Pair r k)
    from honest_suspend [OF assms this] obtain x where "view k = (view h)\<lparr>bv_running := (bv_running (view h))(d := x)\<rparr>" .
    then have "steady view held (k, l @ [(CallSuspend d, k)])" using up that by (intro step) auto
    with Pair show ?thesis by (simp add: logged_def s)
  qed
  show "steady view held (snd (hw_resume (logged hw) d s))" if "\<not> held d \<or> False"
  proof (cases "hw_resume hw d h")
    case (Pair r k)
    from honest_resume [OF assms this] obtain x where "view k = (view h)\<lparr>bv_running := (bv_running (view h))(d := x)\<rparr>" .
    then have "steady view held (k, l @ [(CallResume d, k)])" using up that by (intro step) auto
    with Pair show ?thesis by (simp add: logged_def s)
  qed
  show "steady view held (snd (hw_set_rail (logged hw) d False s))" if "\<not> held d" using rail that .
  show "steady view held (snd (hw_set_rail (logged hw) d True s))" if "\<not> held d \<or> False" using rail that by blast
qed

lemma leased_stays_up:
  assumes "honest hw view" "owner_books view po h" "po_known po"
    and "po_sleep (logged hw) plan now (po, (h, [])) = (r, po', (h', calls))"
    and "wants_domain (leases_held (po_leases po)) d"
  shows "\<forall>(c, k)\<in>set calls. \<not> touches d c \<and> bv_running (view k) d \<and> bv_powered (view k) d"
proof -
  let ?held = "wants_domain (leases_held (po_leases po))"
  have "spared touches ?held (h', calls)"
    using settled.transaction_keeps [OF assms(4), of ?held] assms(3) by (simp add: spared_def)
  moreover have "steady view ?held (h, [])"
    using owner_books_awake [OF assms(2,3)] by (simp add: steady_def board_awake_def)
  from board_property.transaction_keeps [OF honest_is_steady [OF assms(1)] assms(4) this] assms(3)
  have "steady view ?held (h', calls)" by simp
  ultimately show ?thesis using assms(5) by (auto simp: spared_def steady_def)
qed

end
