(* ===== verification/Node_Link_Lease.thy ===== *)
theory Node_Link_Lease
  imports Power_Log Link_State
begin

text \<open>
  \<open>NodeLinkLease\<close> of \<open>core/include/attadipa/core/node_link_lease.h\<close>: the one lease the sleeper
  takes on behalf of the node link, and what it means for the sleep that follows. It joins the
  phases of \<open>Link_State\<close> to the leases and the sleep transaction of \<open>Power_Owner\<close>.
\<close>

section \<open>The lease\<close>

fun node_link_wants_power :: "transport_phase \<Rightarrow> bool" where
  "node_link_wants_power Attached = True"
| "node_link_wants_power Connecting = True"
| "node_link_wants_power Ready = True"
| "node_link_wants_power Absent = False"
| "node_link_wants_power Suspended = False"
| "node_link_wants_power Faulted = False"

record node_link_lease =
  nl_id :: lease_id

definition new_node_link_lease :: node_link_lease where
  "new_node_link_lease = \<lparr>nl_id = kNoLease\<rparr>"

definition nl_held :: "node_link_lease \<Rightarrow> bool" where
  "nl_held nl \<longleftrightarrow> nl_id nl \<noteq> kNoLease"

definition nl_reconcile ::
  "power_owner \<Rightarrow> transport_phase \<Rightarrow> node_link_lease \<Rightarrow> bool \<times> lease_error \<times> node_link_lease \<times> power_owner" where
  "nl_reconcile po phase nl =
     (let wanted = node_link_wants_power phase
      in if wanted = nl_held nl then (True, NoError, nl, po)
         else if wanted
         then case po_acquire (domain_bit NodeLink) 0 po of
                (i, why, po') \<Rightarrow> (i \<noteq> kNoLease, why, nl\<lparr>nl_id := i\<rparr>, po')
         else case po_release (nl_id nl) po of
                (ok, why, po') \<Rightarrow> (ok, why, nl\<lparr>nl_id := kNoLease\<rparr>, po'))"

section \<open>The lease and the table\<close>

text \<open>A handle that is held names a live lease of the node link's domain.\<close>

definition nl_books :: "power_owner \<Rightarrow> node_link_lease \<Rightarrow> bool" where
  "nl_books po nl \<longleftrightarrow> leases_inv (po_leases po) \<and>
     (nl_held nl \<longrightarrow> (\<exists>D t. lease_map (po_leases po) (nl_id nl) = Some (D, t) \<and> wants_domain D NodeLink))"

lemma node_link_known: "wants_domain (domain_bit NodeLink AND kAllDomains) NodeLink"
  by (simp add: wants_domain_bit bit_and_iff bit_domain_bit bit_kAllDomains)

lemma nl_reconcile_books:
  assumes "nl_books po nl" and "nl_reconcile po phase nl = (ok, why, nl', po')"
  shows "nl_books po' nl' \<and> (ok \<longrightarrow> (nl_held nl' \<longleftrightarrow> node_link_wants_power phase)) \<and>
    (\<not> ok \<longrightarrow> \<not> nl_held nl' \<and> why \<noteq> NoError) \<and>
    po' = po\<lparr>po_leases := po_leases po'\<rparr>"
proof (cases "node_link_wants_power phase = nl_held nl")
  case True
  with assms show ?thesis by (auto simp: nl_reconcile_def)
next
  case differ: False
  from assms(1) have inv: "leases_inv (po_leases po)" by (simp add: nl_books_def)
  show ?thesis
  proof (cases "node_link_wants_power phase")
    case True
    obtain i w po1 where a: "po_acquire (domain_bit NodeLink) 0 po = (i, w, po1)" by (metis prod_cases3)
    have e: "ok \<longleftrightarrow> i \<noteq> kNoLease" "why = w" "nl' = nl\<lparr>nl_id := i\<rparr>" "po' = po1"
      using assms(2) differ True by (auto simp: nl_reconcile_def a)
    show ?thesis
    proof (cases "po_known po")
      case False
      then have "i = kNoLease" "w = HardwareFailed" "po1 = po" using a by (simp_all add: po_acquire_def)
      then show ?thesis using e inv by (simp add: nl_books_def nl_held_def)
    next
      case known: True
      obtain pl where l: "leases_acquire (domain_bit NodeLink) 0 (po_leases po) = (i, w, pl)" "po1 = po\<lparr>po_leases := pl\<rparr>"
        using a known by (auto simp: po_acquire_def split: prod.splits)
      show ?thesis
      proof (cases "w = NoError")
        case True
        note m = acquired_map [OF inv l(1) [unfolded True]]
        then show ?thesis using e l node_link_known \<open>node_link_wants_power phase\<close> by (simp add: nl_books_def nl_held_def)
      next
        case False
        with refused_acquire [OF l(1)] show ?thesis using e l inv by (simp add: nl_books_def nl_held_def)
      qed
    qed
  next
    case False
    then have h: "nl_held nl" using differ by simp
    obtain b w po1 where r: "po_release (nl_id nl) po = (b, w, po1)" by (metis prod_cases3)
    have e: "ok = b" "why = w" "nl' = nl\<lparr>nl_id := kNoLease\<rparr>" "po' = po1"
      using assms(2) differ False by (auto simp: nl_reconcile_def r)
    obtain pl where l: "leases_release (nl_id nl) (po_leases po) = (b, w, pl)" "po1 = po\<lparr>po_leases := pl\<rparr>"
      using r by (auto simp: po_release_def split: prod.splits)
    note m = released_map [OF inv l(1)]
    have b using m(2) h assms(1) by (auto simp: nl_books_def)
    then show ?thesis using e l m(1) False by (simp add: nl_books_def nl_held_def)
  qed
qed

text \<open>
  C29. The node link is never put to sleep while it is in use. Let the handle and the lease table
  agree, over any honest board. After a reconcile they still agree; when it succeeds the link
  is held exactly if its phase is one of the powered ones, and asking again changes nothing.
  In a powered phase, no sleep transaction that follows, however it ends - woken, refused, failed
  at any step and unwound, or stopped at the repair of an earlier failure - and whatever its plan,
  makes a single call that suspends the node link or cuts its rail. When the owner knows its board
  the transaction does not touch the link at all, and after every call it makes, the sleep itself
  among them, the link is running with its rail up. And when the transaction reaches the sleep, the
  board it sleeps on is the one the plan names, with the link running and powered.
\<close>
theorem node_link_stays_up_while_in_use:
  assumes "honest hw view" and "owner_books view po h" and "nl_books po nl"
    and "nl_reconcile po phase nl = (True, why, nl', po')"
    and "po_sleep hw plan now (po', h) = (r, po'', h')"
  shows "nl_books po' nl' \<and> nl_held nl' = node_link_wants_power phase \<and>
    nl_reconcile po' phase nl' = (True, NoError, nl', po') \<and> nl_books po'' nl' \<and>
    (node_link_wants_power phase \<longrightarrow>
       (\<exists>calls. po_sleep (logged hw) plan now (po', (h, [])) = (r, po'', (h', calls)) \<and>
          (\<forall>(c, k)\<in>set calls. \<not> takes_down NodeLink c \<and>
             (po_known po' \<longrightarrow> \<not> touches NodeLink c \<and> bv_running (view k) NodeLink \<and> bv_powered (view k) NodeLink)))) \<and>
    (node_link_wants_power phase \<and> (sr_outcome r = Woken \<or> sr_outcome r = FailedSleep) \<longrightarrow>
       rested hw view plan r \<and> bv_running (planned_board plan) NodeLink \<and> bv_powered (planned_board plan) NodeLink)"
proof -
  note b = nl_reconcile_books [OF assms(3,4)]
  have held: "nl_held nl' = node_link_wants_power phase" "nl_books po' nl'" using b by simp_all
  obtain pl where po': "po' = po\<lparr>po_leases := pl\<rparr>" using b by blast
  have books: "owner_books view po' h" using assms(2) unfolding po'
    by (simp add: owner_books_def standing_def journals_clear_def)
  have again: "nl_reconcile po' phase nl' = (True, NoError, nl', po')" using held(1) by (simp add: nl_reconcile_def)
  have "books_closed view po' (r, po'', h')" using po_sleep_closes [OF assms(1) books, of plan now] assms(5) by simp
  then have "po_leases po'' = po_leases po'" by (simp add: books_closed_def)
  then have after: "nl_books po'' nl'" using held(2) by (simp add: nl_books_def)
  have leased: "wants_domain (leases_held (po_leases po')) NodeLink" if w: "node_link_wants_power phase"
  proof -
    obtain D t where m: "lease_map (po_leases po') (nl_id nl') = Some (D, t)" "wants_domain D NodeLink"
      and inv: "leases_inv (po_leases po')" using held w by (auto simp: nl_books_def)
    then show ?thesis using lease_holds_domain [OF inv m(1), of NodeLink] by (simp add: wants_domain_bit)
  qed
  obtain calls where run: "po_sleep (logged hw) plan now (po', (h, [])) = (r, po'', (h', calls))"
    by (rule logged_run [OF assms(5)])
  have "(\<forall>(c, k)\<in>set calls. \<not> takes_down NodeLink c \<and>
      (po_known po' \<longrightarrow> \<not> touches NodeLink c \<and> bv_running (view k) NodeLink \<and> bv_powered (view k) NodeLink))"
    if "node_link_wants_power phase"
    using leased_never_taken_down [OF run leased [OF that]] leased_stays_up [OF assms(1) books _ run leased [OF that]] by auto
  moreover have "rested hw view plan r \<and> bv_running (planned_board plan) NodeLink \<and> bv_powered (planned_board plan) NodeLink"
    if "node_link_wants_power phase" "sr_outcome r = Woken \<or> sr_outcome r = FailedSleep"
    using rests_from_books [OF assms(1) books assms(5) that(2)] leased [OF that(1)] by blast
  ultimately show ?thesis using held again after run by blast
qed

text \<open>A night with the link up, on the board whose radio will not resume: eleven calls, none at the link.\<close>

lemma node_link_stays_up_while_in_use_witness:
  "let (ok, why, nl, po) = nl_reconcile new_power_owner Ready new_node_link_lease;
       (r, po2, v, calls) = po_sleep (logged deaf_radio) night_plan 0 (po, (awake_board, []))
   in ok \<and> nl_held nl \<and> nl_reconcile po Ready nl = (True, NoError, nl, po) \<and> nl_books po nl \<and>
     map fst calls = [CallSuspend Display, CallSuspend Radio, CallRail Display False, CallArm Timer, CallArm Button,
       CallSleep LightSleep, CallDisarm Button, CallDisarm Timer, CallRail Display True, CallResume Radio, CallResume Display] \<and>
     (\<forall>(c, k)\<in>set calls. \<not> touches NodeLink c \<and> bv_running k NodeLink \<and> bv_powered k NodeLink)"
proof -
  obtain ok why nl po where e: "nl_reconcile new_power_owner Ready new_node_link_lease = (ok, why, nl, po)"
    by (metis prod_cases4)
  obtain r po2 v where s: "po_sleep deaf_radio night_plan 0 (po, awake_board) = (r, po2, v)" by (metis prod_cases3)
  have c: "(case nl_reconcile new_power_owner Ready new_node_link_lease of (ok, why, nl, po) \<Rightarrow> ok \<and> po_known po \<and>
      map fst (snd (snd (snd (po_sleep (logged deaf_radio) night_plan 0 (po, (awake_board, [])))))) =
      [CallSuspend Display, CallSuspend Radio, CallRail Display False, CallArm Timer, CallArm Button,
       CallSleep LightSleep, CallDisarm Button, CallDisarm Timer, CallRail Display True, CallResume Radio, CallResume Display])"
    by code_simp
  then have ok: ok and known: "po_known po" by (simp_all add: e)
  have b: "nl_books new_power_owner new_node_link_lease"
    by (simp add: nl_books_def new_power_owner_def new_power_leases_inv nl_held_def new_node_link_lease_def)
  note t = node_link_stays_up_while_in_use [OF deaf_radio_honest new_owner_books b e [unfolded ok [THEN iffD2 [OF eq_True]]] s]
  have "board_awake (id awake_board)" using awake_board_awake by simp
  with t obtain calls where l: "po_sleep (logged deaf_radio) night_plan 0 (po, (awake_board, [])) = (r, po2, (v, calls))"
    and k: "\<forall>(c, k)\<in>set calls. \<not> touches NodeLink c \<and> bv_running k NodeLink \<and> bv_powered k NodeLink"
    using known by auto
  show ?thesis using t ok awake_board_awake c k by (simp add: e l)
qed

end
