(* ===== verification/Debug_Protocol.thy ===== *)
theory Debug_Protocol
  imports Frame_Codec
begin

text \<open>
  The messages of the debug link: \<open>debug/include/attadipa/debug/protocol.h\<close> and
  \<open>debug/src/protocol.cpp\<close>. A buffer is the list of its bytes; an encoder returns what it
  wrote, \<open>None\<close> where the C++ returns 0. Opcodes and the other enumerations of the wire are
  the integers they are cast from. Null pointers are not modelled, and \<open>crc32\<close> is the portable
  loop (the ROM routine of the device build is outside the sources).
\<close>

section \<open>Integers on the wire\<close>

definition put_u16 :: "u16 \<Rightarrow> bytes" where
  "put_u16 v = [ucast (v AND 0xFF), ucast (drop_bit 8 v AND 0xFF)]"

definition put_u32 :: "u32 \<Rightarrow> bytes" where
  "put_u32 v = [ucast (v AND 0xFF), ucast (drop_bit 8 v AND 0xFF), ucast (drop_bit 16 v AND 0xFF),
                ucast (drop_bit 24 v AND 0xFF)]"

definition put_u64 :: "u64 \<Rightarrow> bytes" where
  "put_u64 v = map (\<lambda>i. ucast (drop_bit (i * 8) v AND 0xFF)) [0..<8]"

definition get_u16 :: "bytes \<Rightarrow> u16" where
  "get_u16 p = ucast (p ! 0) OR push_bit 8 (ucast (p ! 1))"

definition get_u32 :: "bytes \<Rightarrow> u32" where
  "get_u32 p = ucast (p ! 0) OR push_bit 8 (ucast (p ! 1)) OR push_bit 16 (ucast (p ! 2)) OR
     push_bit 24 (ucast (p ! 3))"

definition get_u64 :: "bytes \<Rightarrow> u64" where
  "get_u64 p = fold (\<lambda>i value. value OR push_bit (i * 8) (ucast (p ! i))) [0..<8] 0"

section \<open>The envelope\<close>

definition kEnvelopeBytes :: nat where "kEnvelopeBytes = 10"
definition kMaxBody :: nat where "kMaxBody = 192 - kEnvelopeBytes"
definition kClassNode :: u8 where "kClassNode = 1"
definition kClassDebug :: u8 where "kClassDebug = 2"
definition kDebugProtocolVersion :: u8 where "kDebugProtocolVersion = 3"

datatype opcode =
    Hello | Capabilities | ScreenRequest | OpInputEvent | InputReset | WaitStable | OpTimeSync | MeshConfigure
  | MeshSend | MeshRoomSend | MeshDisconnect | MeshForgetBond | HelloOk | CapabilitiesOk | ScreenInfo
  | ScreenData | ScreenEnd | InputOk | StableOk | TimeSyncOk | MeshOk | OpError

fun opcode_code :: "opcode \<Rightarrow> u16" where
  "opcode_code Hello = 0x0001"
| "opcode_code Capabilities = 0x0002"
| "opcode_code ScreenRequest = 0x0010"
| "opcode_code OpInputEvent = 0x0020"
| "opcode_code InputReset = 0x0021"
| "opcode_code WaitStable = 0x0030"
| "opcode_code OpTimeSync = 0x0040"
| "opcode_code MeshConfigure = 0x0050"
| "opcode_code MeshSend = 0x0051"
| "opcode_code MeshRoomSend = 0x0052"
| "opcode_code MeshDisconnect = 0x0053"
| "opcode_code MeshForgetBond = 0x0054"
| "opcode_code HelloOk = 0x8001"
| "opcode_code CapabilitiesOk = 0x8002"
| "opcode_code ScreenInfo = 0x8010"
| "opcode_code ScreenData = 0x8011"
| "opcode_code ScreenEnd = 0x8012"
| "opcode_code InputOk = 0x8020"
| "opcode_code StableOk = 0x8030"
| "opcode_code TimeSyncOk = 0x8040"
| "opcode_code MeshOk = 0x8050"
| "opcode_code OpError = 0x80FF"

record envelope =
  env_version :: u8
  env_cls :: u8
  env_req_id :: u16
  env_op :: u16
  env_body_len :: u16

definition new_envelope :: envelope where
  "new_envelope = \<lparr>env_version = kDebugProtocolVersion, env_cls = kClassDebug, env_req_id = 0,
                   env_op = opcode_code Hello, env_body_len = 0\<rparr>"

definition envelope_crc :: "bytes \<Rightarrow> bytes \<Rightarrow> u16" where
  "envelope_crc header8 body = crc16_ccitt (header8 @ body)"

definition encode_message :: "envelope \<Rightarrow> bytes \<Rightarrow> nat \<Rightarrow> bytes option" where
  "encode_message env body capacity =
     (if length body > kMaxBody then None
      else if capacity < kEnvelopeBytes + length body then None
      else let header8 = [env_version env, env_cls env] @ put_u16 (env_req_id env) @ put_u16 (env_op env) @
                         put_u16 (of_nat (length body))
           in Some (header8 @ put_u16 (envelope_crc header8 body) @ body))"

definition decode_message :: "bytes \<Rightarrow> (envelope \<times> bytes) option" where
  "decode_message payload =
     (if length payload < kEnvelopeBytes then None
      else
        let body_len = get_u16 (drop 6 payload)
        in if unat body_len > kMaxBody \<or> kEnvelopeBytes + unat body_len \<noteq> length payload then None
           else
             let body = drop kEnvelopeBytes payload
             in if get_u16 (drop 8 payload) \<noteq> envelope_crc (take 8 payload) body then None
                else Some (\<lparr>env_version = payload ! 0, env_cls = payload ! 1, env_req_id = get_u16 (drop 2 payload),
                            env_op = get_u16 (drop 4 payload), env_body_len = body_len\<rparr>, body))"

section \<open>The bodies\<close>

type_synonym pixel_format = u8
type_synonym orientation = u8

definition PixelUnknown :: pixel_format where "PixelUnknown = 0"
definition Rgb888 :: pixel_format where "Rgb888 = 1"
definition Rgb565Le :: pixel_format where "Rgb565Le = 2"
definition Rgb565Be :: pixel_format where "Rgb565Be = 3"
definition Bgr888 :: pixel_format where "Bgr888 = 4"

definition bytes_per_pixel :: "pixel_format \<Rightarrow> u8" where
  "bytes_per_pixel f =
     (if f = Rgb888 \<or> f = Bgr888 then 3 else if f = Rgb565Le \<or> f = Rgb565Be then 2 else 0)"

record hello_body =
  hb_protocol_version :: u8
  hb_board_id :: bytes
  hb_build :: bytes
  hb_session :: u32

definition kHelloV1BodyBytes :: nat where "kHelloV1BodyBytes = 1 + 24 + 24"
definition kHelloBodyBytes :: nat where "kHelloBodyBytes = kHelloV1BodyBytes + 4"

definition encode_hello :: "hello_body \<Rightarrow> nat \<Rightarrow> bytes option" where
  "encode_hello b capacity =
     (if capacity < kHelloBodyBytes then None
      else Some ([hb_protocol_version b] @ hb_board_id b @ hb_build b @ put_u32 (hb_session b)))"

definition decode_hello :: "bytes \<Rightarrow> hello_body option" where
  "decode_hello body =
     (if length body < kHelloV1BodyBytes then None
      else Some \<lparr>hb_protocol_version = body ! 0,
                 hb_board_id = (take 24 (drop 1 body))[23 := 0],
                 hb_build = (take 24 (drop 25 body))[23 := 0],
                 hb_session = (if length body \<ge> kHelloBodyBytes then get_u32 (drop kHelloV1BodyBytes body) else 0)\<rparr>)"

record button_descriptor =
  bd_id :: bytes
  bd_flags :: u8

definition kButtonInjectable :: u8 where "kButtonInjectable = 1"
definition kButtonRoleUnknown :: u8 where "kButtonRoleUnknown = 2"

record capabilities_body =
  cb_width :: u16
  cb_height :: u16
  cb_format :: pixel_format
  cb_orientation :: orientation
  cb_max_touch_points :: u8
  cb_button_count :: u8
  cb_buttons :: "button_descriptor list"
  cb_max_body :: u16
  cb_max_hold_ms :: u32
  cb_max_events_per_s :: u16

definition kCapabilitiesBodyBytes :: nat where
  "kCapabilitiesBodyBytes = 2 + 2 + 1 + 1 + 1 + 1 + (4 * 17) + 2 + 4 + 2"

definition encode_capabilities :: "capabilities_body \<Rightarrow> nat \<Rightarrow> bytes option" where
  "encode_capabilities b capacity =
     (if capacity < kCapabilitiesBodyBytes then None
      else Some (put_u16 (cb_width b) @ put_u16 (cb_height b) @
             [cb_format b, cb_orientation b, cb_max_touch_points b, cb_button_count b] @
             concat (map (\<lambda>i. bd_id (cb_buttons b ! i) @ [bd_flags (cb_buttons b ! i)]) [0..<4]) @
             put_u16 (cb_max_body b) @ put_u32 (cb_max_hold_ms b) @ put_u16 (cb_max_events_per_s b)))"

definition decode_capabilities :: "bytes \<Rightarrow> capabilities_body option" where
  "decode_capabilities body =
     (if length body < kCapabilitiesBodyBytes then None
      else Some \<lparr>cb_width = get_u16 body, cb_height = get_u16 (drop 2 body), cb_format = body ! 4,
                 cb_orientation = body ! 5, cb_max_touch_points = body ! 6,
                 cb_button_count = (if body ! 7 > 4 then 4 else body ! 7),
                 cb_buttons = map (\<lambda>i. \<lparr>bd_id = (take 16 (drop (8 + i * 17) body))[15 := 0],
                                        bd_flags = body ! (8 + i * 17 + 16)\<rparr>) [0..<4],
                 cb_max_body = get_u16 (drop 76 body), cb_max_hold_ms = get_u32 (drop 78 body),
                 cb_max_events_per_s = get_u16 (drop 82 body)\<rparr>)"

record screen_info_body =
  si_frame_id :: u32
  si_width :: u16
  si_height :: u16
  si_format :: pixel_format
  si_orientation :: orientation
  si_total_bytes :: u32
  si_crc32 :: u32
  si_at_ms :: u32

definition kScreenInfoBodyBytes :: nat where "kScreenInfoBodyBytes = 4 + 2 + 2 + 1 + 1 + 4 + 4 + 4"

definition encode_screen_info :: "screen_info_body \<Rightarrow> nat \<Rightarrow> bytes option" where
  "encode_screen_info b capacity =
     (if capacity < kScreenInfoBodyBytes then None
      else Some (put_u32 (si_frame_id b) @ put_u16 (si_width b) @ put_u16 (si_height b) @
             [si_format b, si_orientation b] @ put_u32 (si_total_bytes b) @ put_u32 (si_crc32 b) @ put_u32 (si_at_ms b)))"

definition decode_screen_info :: "bytes \<Rightarrow> screen_info_body option" where
  "decode_screen_info body =
     (if length body < kScreenInfoBodyBytes then None
      else Some \<lparr>si_frame_id = get_u32 body, si_width = get_u16 (drop 4 body), si_height = get_u16 (drop 6 body),
                 si_format = body ! 8, si_orientation = body ! 9, si_total_bytes = get_u32 (drop 10 body),
                 si_crc32 = get_u32 (drop 14 body), si_at_ms = get_u32 (drop 18 body)\<rparr>)"

record input_event_body =
  ie_type :: u8
  ie_button :: u8
  ie_x :: u16
  ie_y :: u16
  ie_touch_id :: u8
  ie_at_ms :: u32

definition kInputEventBodyBytes :: nat where "kInputEventBodyBytes = 1 + 1 + 2 + 2 + 1 + 4"

definition encode_input_event :: "input_event_body \<Rightarrow> nat \<Rightarrow> bytes option" where
  "encode_input_event b capacity =
     (if capacity < kInputEventBodyBytes then None
      else Some ([ie_type b, ie_button b] @ put_u16 (ie_x b) @ put_u16 (ie_y b) @ [ie_touch_id b] @ put_u32 (ie_at_ms b)))"

definition decode_input_event :: "bytes \<Rightarrow> input_event_body option" where
  "decode_input_event body =
     (if length body < kInputEventBodyBytes then None
      else Some \<lparr>ie_type = body ! 0, ie_button = body ! 1, ie_x = get_u16 (drop 2 body), ie_y = get_u16 (drop 4 body),
                 ie_touch_id = body ! 6, ie_at_ms = get_u32 (drop 7 body)\<rparr>)"

record time_sync_body =
  ts_utc_seconds :: u64
  ts_timezone_offset_minutes :: u16
  ts_valid_for_ms :: u32
  ts_flags :: u8

definition kTimeSyncAllowLargeCorrection :: u8 where "kTimeSyncAllowLargeCorrection = 1"
definition kTimeSyncBodyBytes :: nat where "kTimeSyncBodyBytes = 8 + 2 + 4 + 1"

definition encode_time_sync :: "time_sync_body \<Rightarrow> nat \<Rightarrow> bytes option" where
  "encode_time_sync b capacity =
     (if capacity < kTimeSyncBodyBytes then None
      else Some (put_u64 (ts_utc_seconds b) @ put_u16 (ts_timezone_offset_minutes b) @ put_u32 (ts_valid_for_ms b) @ [ts_flags b]))"

text \<open>The C++ fills its result before it looks at the flags; what it returns is whether to use it.\<close>

definition decode_time_sync :: "bytes \<Rightarrow> time_sync_body option" where
  "decode_time_sync body =
     (if length body \<noteq> kTimeSyncBodyBytes then None
      else let b = \<lparr>ts_utc_seconds = get_u64 body, ts_timezone_offset_minutes = get_u16 (drop 8 body),
                    ts_valid_for_ms = get_u32 (drop 10 body), ts_flags = body ! 14\<rparr>
           in if ts_flags b AND NOT kTimeSyncAllowLargeCorrection = 0 then Some b else None)"

section \<open>The image checksum\<close>

definition crc32_bit :: "u32 \<Rightarrow> u32" where
  "crc32_bit crc = drop_bit 1 crc XOR (0xEDB88320 AND (- (crc AND 1)))"

definition crc32_byte :: "u32 \<Rightarrow> u8 \<Rightarrow> u32" where
  "crc32_byte crc b = (crc32_bit ^^ 8) (crc XOR ucast b)"

definition crc32 :: "bytes \<Rightarrow> u32 \<Rightarrow> u32" where
  "crc32 data seed = NOT (foldl crc32_byte (NOT seed) data)"

text \<open>Chunk by chunk is the same as at once, which is how a screen is sent.\<close>

lemma crc32_append: "crc32 (xs @ ys) seed = crc32 ys (crc32 xs seed)"
  by (simp add: crc32_def)

section \<open>Round trips of the integers\<close>

lemma length_put [simp]: "length (put_u16 a) = 2" "length (put_u32 b) = 4" "length (put_u64 c) = 8"
  by (simp_all add: put_u16_def put_u32_def put_u64_def)

lemma put_u16_le: "put_u16 v = put_le 2 v"
  by (simp add: put_u16_def put_le_def byte_of_def upt_rec ucast_and_ff)

lemma put_u32_le: "put_u32 v = put_le 4 v"
  by (simp add: put_u32_def put_le_def byte_of_def upt_rec ucast_and_ff numeral_eq_Suc)

lemma put_u64_le: "put_u64 v = put_le 8 v"
  by (simp add: put_u64_def put_le_def byte_of_def ucast_and_ff mult.commute)

lemma get_u16_put [simp]: "get_u16 (put_u16 v @ r) = v"
  by (simp add: get_u16_def put_u16_def ucast_and_ff)

lemma get_u32_put [simp]: "get_u32 (put_u32 v @ r) = v"
proof -
  have "get_u32 (put_u32 v @ r) = get_le (put_le 4 v)"
    by (simp add: get_u32_def put_u32_le put_le_def upt_rec numeral_eq_Suc push_bit_or)
  then show ?thesis by (simp add: get_put_le)
qed

lemma get_u64_put [simp]: "get_u64 (put_u64 v @ r) = v"
proof -
  have "get_u64 (put_u64 v @ r) = get_le (put_le 8 v)"
    by (simp add: get_u64_def put_u64_le put_le_def upt_rec numeral_eq_Suc push_bit_or or.assoc)
  then show ?thesis by (simp add: get_put_le)
qed

lemma get_put_end [simp]: "get_u16 (put_u16 v) = v" "get_u32 (put_u32 w) = w"
  using get_u16_put [of v "[]"] get_u32_put [of w "[]"] by simp_all

text \<open>And back: two bytes are the bytes of the integer they read as.\<close>

lemma put_u16_get: "p = a # b # r \<Longrightarrow> put_u16 (get_u16 p) = [a, b]"
  using le16_split_lo [of a b] le16_split_hi [of a b] by (simp add: put_u16_def get_u16_def ucast_and_ff)

section \<open>The properties\<close>

lemma encode_message_eq:
  assumes "length body \<le> kMaxBody" and "kEnvelopeBytes + length body \<le> capacity"
  shows "encode_message env body capacity =
    Some ([env_version env, env_cls env] @ put_u16 (env_req_id env) @ put_u16 (env_op env) @ put_u16 (of_nat (length body)) @
      put_u16 (envelope_crc ([env_version env, env_cls env] @ put_u16 (env_req_id env) @ put_u16 (env_op env) @
         put_u16 (of_nat (length body))) body) @ body)"
  using assms by (simp add: encode_message_def Let_def)

lemma decode_encode:
  assumes "encode_message env body capacity = Some p" and "env_body_len env = of_nat (length body)"
  shows "decode_message p = Some (env, body)" and "length p = kEnvelopeBytes + length body"
proof -
  have l: "length body \<le> kMaxBody" "kEnvelopeBytes + length body \<le> capacity"
    using assms(1) by (auto simp: encode_message_def split: if_splits)
  have u: "unat (of_nat (length body) :: u16) = length body"
    using l(1) by (simp add: unat_of_nat take_bit_nat_eq_self kMaxBody_def kEnvelopeBytes_def)
  define h where "h = [env_version env, env_cls env] @ put_u16 (env_req_id env) @ put_u16 (env_op env) @
      put_u16 (of_nat (length body))"
  define c where "c = put_u16 (envelope_crc h body)"
  have p: "p = [env_version env, env_cls env] @ put_u16 (env_req_id env) @ put_u16 (env_op env) @
      put_u16 (of_nat (length body)) @ c @ body"
    using assms(1) unfolding encode_message_eq [OF l] c_def h_def by simp
  have lc: "length c = 2" by (simp add: c_def)
  then show len: "length p = kEnvelopeBytes + length body" unfolding p by (simp add: kEnvelopeBytes_def)
  have d: "get_u16 (drop 6 p) = of_nat (length body)" "drop kEnvelopeBytes p = body" "drop 8 p = c @ body" "take 8 p = h"
    "get_u16 (drop 2 p) = env_req_id env" "get_u16 (drop 4 p) = env_op env" "p ! 0 = env_version env" "p ! Suc 0 = env_cls env"
    unfolding p h_def kEnvelopeBytes_def by (simp_all add: lc)
  have "get_u16 (drop 8 p) = envelope_crc (take 8 p) body" unfolding d c_def by simp
  then show "decode_message p = Some (env, body)"
    using len l(1) assms(2) unfolding decode_message_def Let_def by (simp add: d u)
qed

lemma encode_decode:
  assumes "decode_message p = Some (env, body)"
  shows "encode_message env body (length p) = Some p" and "env_body_len env = of_nat (length body)"
proof -
  define n where "n = get_u16 (drop 6 p)"
  have l: "kEnvelopeBytes + unat n = length p" "unat n \<le> kMaxBody" "body = drop kEnvelopeBytes p"
    "get_u16 (drop 8 p) = envelope_crc (take 8 p) body"
    and e: "env = \<lparr>env_version = p ! 0, env_cls = p ! 1, env_req_id = get_u16 (drop 2 p), env_op = get_u16 (drop 4 p), env_body_len = n\<rparr>"
    using assms by (auto simp: decode_message_def Let_def n_def split: if_splits)
  have "10 \<le> length p" using l(1) by (simp add: kEnvelopeBytes_def)
  then obtain a0 a1 a2 a3 a4 a5 a6 a7 a8 a9 r where p: "p = a0 # a1 # a2 # a3 # a4 # a5 # a6 # a7 # a8 # a9 # r"
    by (auto simp: numeral_eq_Suc Suc_le_length_iff)
  have b: "body = r" "length r = unat n" using l(1,3) unfolding p kEnvelopeBytes_def by simp_all
  then have n: "of_nat (length body) = n" by simp
  show "env_body_len env = of_nat (length body)" using n by (simp add: e)
  have "put_u16 (get_u16 (drop 2 p)) = [a2, a3]" "put_u16 (get_u16 (drop 4 p)) = [a4, a5]" "put_u16 n = [a6, a7]"
    "put_u16 (envelope_crc (take 8 p) body) = [a8, a9]" "take 8 p = [a0, a1, a2, a3, a4, a5, a6, a7]"
    unfolding l(4) [symmetric] n_def by (rule put_u16_get, simp add: p)+ (simp add: p)
  then show "encode_message env body (length p) = Some p"
    using encode_message_eq [of body "length p" env] l(1,2) b n by (simp add: e p)
qed

text \<open>The check of an accepted payload stands between its header and its body, both of which it covers.\<close>

lemma decoded_check:
  assumes "decode_message p \<noteq> None"
  shows "take 2 (drop 8 p) = put_u16 (crc16_ccitt (take 8 p @ drop 10 p))" and "10 \<le> length p"
proof -
  have l: "10 \<le> length p" "get_u16 (drop 8 p) = crc16_ccitt (take 8 p @ drop 10 p)"
    using assms by (auto simp: decode_message_def Let_def kEnvelopeBytes_def envelope_crc_def split: if_splits)
  then obtain a0 a1 a2 a3 a4 a5 a6 a7 x y r where "p = a0 # a1 # a2 # a3 # a4 # a5 # a6 # a7 # x # y # r"
    by (auto simp: numeral_eq_Suc Suc_le_length_iff)
  then have "drop 8 p = x # y # r" by simp
  from put_u16_get [OF this] this l show "take 2 (drop 8 p) = put_u16 (crc16_ccitt (take 8 p @ drop 10 p))" "10 \<le> length p"
    by (simp_all add: numeral_2_eq_2)
qed

lemma equal_checks:
  assumes "decode_message p \<noteq> None" "decode_message q \<noteq> None" "take 2 (drop 8 p) = take 2 (drop 8 q)"
  shows "crc16_ccitt (take 8 p @ drop 10 p) = crc16_ccitt (take 8 q @ drop 10 q)"
  using assms decoded_check(1) [of p] decoded_check(1) [of q] get_put_end(1) by metis

lemma damaged_byte_refused:
  assumes "decode_message (u @ [a] @ v) \<noteq> None" and "decode_message (u @ [b] @ v) \<noteq> None"
  shows "a = b"
proof -
  let ?p = "\<lambda>x. u @ [x] @ v"
  note check = decoded_check(1) [OF assms(1)] decoded_check(1) [OF assms(2)]
  consider (header) "length u < 8" | (stored) "8 \<le> length u" "length u < 10" | (body) "10 \<le> length u" by linarith
  then show ?thesis
  proof cases
    case header
    then obtain k where k: "8 = length u + Suc k" by (metis less_iff_Suc_add add_Suc_right)
    then have k10: "10 = length u + Suc (Suc (Suc k))" by simp
    have "take 8 (?p x) = u @ [x] @ take k v" "drop 8 (?p x) = drop k v" "drop 10 (?p x) = drop (Suc (Suc k)) v" for x
      unfolding k k10 by (simp_all del: add_Suc_right)
    note parts = this
    have "crc16_ccitt ((u @ [a] @ take k v) @ drop (Suc (Suc k)) v) = crc16_ccitt ((u @ [b] @ take k v) @ drop (Suc (Suc k)) v)"
      using equal_checks [OF assms] unfolding parts by (simp only:)
    then have "crc16_ccitt (u @ [a] @ take k v @ drop (Suc (Suc k)) v) = crc16_ccitt (u @ [b] @ take k v @ drop (Suc (Suc k)) v)"
      by simp
    then show ?thesis by (simp only: crc_one_byte)
  next
    case stored
    then have "length u = 8 \<or> length u = 9" by linarith
    then have "take 8 (?p x) = take 8 u" "drop 10 (?p x) = drop (9 - length u) v"
      "take 2 (drop 8 (?p x)) = drop 8 u @ [x] @ take (9 - length u) v" for x
      by auto
    with check have "drop 8 u @ [a] @ take (9 - length u) v = drop 8 u @ [b] @ take (9 - length u) v" by metis
    then show ?thesis by simp
  next
    case body
    then have "take 8 (?p x) = take 8 u" "drop 10 (?p x) = drop 10 u @ [x] @ v" "take 2 (drop 8 (?p x)) = take 2 (drop 8 u)" for x
      by simp_all
    with equal_checks [OF assms]
    have "crc16_ccitt ((take 8 u @ drop 10 u) @ [a] @ v) = crc16_ccitt ((take 8 u @ drop 10 u) @ [b] @ v)" by simp
    then show ?thesis by (simp only: crc_one_byte)
  qed
qed

text \<open>
  C30. Messages and their bytes are the same thing. A payload decodes to an envelope and a body
  exactly when encoding them gives that payload back: every message survives the trip and no other
  bytes are ever taken for it. And one damaged byte of an accepted payload, anywhere in it - in the
  header, in the stored check or in the body - is always refused.
\<close>
theorem message_codec_is_a_bijection:
  "(decode_message p = Some (env, body) \<longleftrightarrow>
      env_body_len env = of_nat (length body) \<and> encode_message env body (length p) = Some p) \<and>
   (decode_message (u @ [a] @ v) \<noteq> None \<longrightarrow> decode_message (u @ [b] @ v) \<noteq> None \<longrightarrow> a = b)"
  using encode_decode [of p env body] decode_encode(1) [of env body "length p" p] damaged_byte_refused [of u a v b]
  by blast

lemma message_codec_is_a_bijection_witness:
  "let p = the (encode_message (new_envelope\<lparr>env_body_len := 3\<rparr>) [1, 2, 3] 99)
   in decode_message p = Some (new_envelope\<lparr>env_body_len := 3\<rparr>, [1, 2, 3]) \<and> length p = 13 \<and>
      decode_message (take 11 p @ [9] @ drop 12 p) = None \<and>
      decode_message (take 8 p @ [p ! 8 + 1] @ drop 9 p) = None"
proof -
  define e where "e = new_envelope\<lparr>env_body_len := 3\<rparr>"
  define p where "p = the (encode_message e [1, 2, 3] 99)"
  have l: "length p = 13 \<and> encode_message e [1, 2, 3] 13 = Some p \<and> p = take 11 p @ [2] @ drop 12 p \<and>
      p = take 8 p @ [p ! 8] @ drop 9 p"
    by (simp add: p_def encode_message_def Let_def kMaxBody_def kEnvelopeBytes_def put_u16_def numeral_eq_Suc)
  then have d: "decode_message p = Some (e, [1, 2, 3])"
    using message_codec_is_a_bijection [of p e "[1, 2, 3]" "[]" 0 "[]" 0] by (simp add: e_def)
  have "decode_message (take 11 p @ [2] @ drop 12 p) \<noteq> None" using d l by simp
  then have "decode_message (take 11 p @ [9] @ drop 12 p) \<noteq> None \<Longrightarrow> (2 :: u8) = 9"
    using message_codec_is_a_bijection [of p e "[1, 2, 3]" "take 11 p" 2 "drop 12 p" 9] by blast
  then have 11: "decode_message (take 11 p @ [9] @ drop 12 p) = None" by fastforce
  have "decode_message (take 8 p @ [p ! 8] @ drop 9 p) \<noteq> None" using d l by (simp add: id_take_nth_drop [of 8 p, symmetric])
  then have "decode_message (take 8 p @ [p ! 8 + 1] @ drop 9 p) \<noteq> None \<Longrightarrow> p ! 8 = p ! 8 + 1"
    using message_codec_is_a_bijection [of p e "[1, 2, 3]" "take 8 p" "p ! 8" "drop 9 p" "p ! 8 + 1"] by blast
  then have "decode_message (take 8 p @ [p ! 8 + 1] @ drop 9 p) = None" by fastforce
  then show ?thesis using 11 d l unfolding p_def e_def by (simp add: Let_def)
qed

text \<open>A text field as the wire carries it: its whole width, ending in a NUL.\<close>

definition wire_text :: "nat \<Rightarrow> bytes \<Rightarrow> bool" where
  "wire_text n t \<longleftrightarrow> length t = n \<and> 0 < n \<and> t ! (n - 1) = 0"

lemma wire_text_field: "wire_text n t \<Longrightarrow> (take n (t @ r))[n - 1 := 0] = t"
  by (metis append_eq_conv_conj list_update_id wire_text_def)

lemma hello_roundtrip:
  assumes "wire_text 24 (hb_board_id h)" and "wire_text 24 (hb_build h)" and "encode_hello h cap = Some p"
  shows "decode_hello p = Some h" and "length p = kHelloBodyBytes"
proof -
  have l: "length (hb_board_id h) = 24" "length (hb_build h) = 24" using assms(1,2) by (simp_all add: wire_text_def)
  have p: "p = [hb_protocol_version h] @ hb_board_id h @ hb_build h @ put_u32 (hb_session h)"
    using assms(3) by (simp add: encode_hello_def split: if_splits)
  show "length p = kHelloBodyBytes" using l by (simp add: p kHelloBodyBytes_def kHelloV1BodyBytes_def)
  show "decode_hello p = Some h"
    using l wire_text_field [OF assms(1), of "hb_build h @ put_u32 (hb_session h)"] wire_text_field [OF assms(2), of "put_u32 (hb_session h)"]
    by (simp add: decode_hello_def p kHelloBodyBytes_def kHelloV1BodyBytes_def)
qed

text \<open>
  A host of the first version of the protocol sends no session: it reads as zero.
\<close>

lemma hello_v1: "length body = kHelloV1BodyBytes \<Longrightarrow> map_option hb_session (decode_hello body) = Some 0"
  by (simp add: decode_hello_def kHelloBodyBytes_def)

definition capabilities_ok :: "capabilities_body \<Rightarrow> bool" where
  "capabilities_ok b \<longleftrightarrow> length (cb_buttons b) = 4 \<and> (\<forall>x\<in>set (cb_buttons b). wire_text 16 (bd_id x)) \<and> cb_button_count b \<le> 4"

lemma capabilities_roundtrip:
  assumes "capabilities_ok b" and "encode_capabilities b cap = Some p"
  shows "decode_capabilities p = Some b" and "length p = kCapabilitiesBodyBytes"
proof -
  obtain b0 b1 b2 b3 where bs: "cb_buttons b = [b0, b1, b2, b3]"
    using assms(1) by (auto simp: capabilities_ok_def numeral_eq_Suc length_Suc_conv)
  have w: "wire_text 16 (bd_id b0)" "wire_text 16 (bd_id b1)" "wire_text 16 (bd_id b2)" "wire_text 16 (bd_id b3)"
    using assms(1) by (simp_all add: capabilities_ok_def bs)
  then have l: "length (bd_id b0) = 16" "length (bd_id b1) = 16" "length (bd_id b2) = 16" "length (bd_id b3) = 16"
    by (simp_all add: wire_text_def)
  have u: "[0..<4] = [0, 1, 2, 3::nat]" by (simp add: upt_rec)
  have p: "p = put_u16 (cb_width b) @ put_u16 (cb_height b) @
             [cb_format b, cb_orientation b, cb_max_touch_points b, cb_button_count b] @
             (bd_id b0 @ [bd_flags b0]) @ (bd_id b1 @ [bd_flags b1]) @ (bd_id b2 @ [bd_flags b2]) @ (bd_id b3 @ [bd_flags b3]) @
             put_u16 (cb_max_body b) @ put_u32 (cb_max_hold_ms b) @ put_u16 (cb_max_events_per_s b)"
    using assms(2) by (simp add: encode_capabilities_def u bs split: if_splits)
  show "length p = kCapabilitiesBodyBytes" by (simp add: p l kCapabilitiesBodyBytes_def)
  have c: "\<not> cb_button_count b > 4" using assms(1) by (simp add: capabilities_ok_def not_less)
  show "decode_capabilities p = Some b"
    using wire_text_field [OF w(1)] wire_text_field [OF w(2)] wire_text_field [OF w(3)] wire_text_field [OF w(4)] c bs
    by (simp add: decode_capabilities_def u p l kCapabilitiesBodyBytes_def nth_append)
qed

lemma screen_info_roundtrip:
  assumes "encode_screen_info b cap = Some p"
  shows "decode_screen_info p = Some b" and "length p = kScreenInfoBodyBytes"
  using assms
  by (auto simp: encode_screen_info_def decode_screen_info_def kScreenInfoBodyBytes_def nth_append split: if_splits)

lemma input_event_roundtrip:
  assumes "encode_input_event b cap = Some p"
  shows "decode_input_event p = Some b" and "length p = kInputEventBodyBytes"
  using assms
  by (auto simp: encode_input_event_def decode_input_event_def kInputEventBodyBytes_def nth_append split: if_splits)

lemma time_sync_roundtrip:
  assumes "encode_time_sync b cap = Some p"
  shows "decode_time_sync p = (if ts_flags b AND NOT kTimeSyncAllowLargeCorrection = 0 then Some b else None)"
    and "length p = kTimeSyncBodyBytes"
proof -
  have p: "p = put_u64 (ts_utc_seconds b) @ put_u16 (ts_timezone_offset_minutes b) @ put_u32 (ts_valid_for_ms b) @ [ts_flags b]"
    using assms by (simp add: encode_time_sync_def split: if_splits)
  show "length p = kTimeSyncBodyBytes" by (simp add: p kTimeSyncBodyBytes_def)
  then show "decode_time_sync p = (if ts_flags b AND NOT kTimeSyncAllowLargeCorrection = 0 then Some b else None)"
    by (simp add: decode_time_sync_def Let_def p nth_append)
qed

text \<open>
  Every body that fits its buffer is written in exactly its declared size and reads back as
  it was written, given text fields that end in a NUL and at most the four buttons the wire has
  room for; a time correction reads back exactly if it sets no flag this version does not know.
\<close>
theorem bodies_roundtrip:
  "(wire_text 24 (hb_board_id h) \<and> wire_text 24 (hb_build h) \<and> encode_hello h cap = Some ph \<longrightarrow>
      decode_hello ph = Some h \<and> length ph = kHelloBodyBytes) \<and>
   (capabilities_ok c \<and> encode_capabilities c cap = Some pc \<longrightarrow>
      decode_capabilities pc = Some c \<and> length pc = kCapabilitiesBodyBytes) \<and>
   (encode_screen_info s cap = Some ps \<longrightarrow> decode_screen_info ps = Some s \<and> length ps = kScreenInfoBodyBytes) \<and>
   (encode_input_event i cap = Some pi \<longrightarrow> decode_input_event pi = Some i \<and> length pi = kInputEventBodyBytes) \<and>
   (encode_time_sync t cap = Some pt \<longrightarrow> length pt = kTimeSyncBodyBytes \<and>
      decode_time_sync pt = (if ts_flags t AND NOT kTimeSyncAllowLargeCorrection = 0 then Some t else None))"
  using hello_roundtrip [of h cap ph] capabilities_roundtrip [of c cap pc] screen_info_roundtrip [of s cap ps]
    input_event_roundtrip [of i cap pi] time_sync_roundtrip [of t cap pt] by blast

lemma bodies_roundtrip_witness:
  "let i = \<lparr>ie_type = 1, ie_button = 2, ie_x = 0xFFFF, ie_y = 300, ie_touch_id = 7, ie_at_ms = 0x01020304\<rparr>;
       p = the (encode_input_event i 11)
   in length p = 11 \<and> decode_input_event p = Some i"
proof -
  define i where "i = \<lparr>ie_type = 1, ie_button = 2, ie_x = 0xFFFF, ie_y = 300, ie_touch_id = 7, ie_at_ms = 0x01020304\<rparr>"
  obtain p where p: "encode_input_event i 11 = Some p" by (simp add: encode_input_event_def kInputEventBodyBytes_def)
  show ?thesis
    using bodies_roundtrip [of undefined 11 undefined undefined undefined undefined undefined i p undefined undefined] p
    unfolding i_def by (simp add: Let_def kInputEventBodyBytes_def)
qed

end
