(* ===== verification/Debug_Bridge.thy ===== *)
theory Debug_Bridge
  imports Debug_Protocol Input_Events
begin

text \<open>
  The device end of the debug channel: \<open>debug/include/attadipa/debug/bridge.h\<close> and
  \<open>debug/src/bridge.cpp\<close>. A bridge is a record of the C++ object's fields, of the queue and the
  input state it works on, of the outside world \<open>'w\<close> behind its interfaces and of the payloads
  it handed to \<open>emit\<close> so far; each method is a function from a bridge to a bridge.

  The screen source and the two sinks are code elsewhere: a \<open>device\<close> holds one function per
  virtual method, over the world it reads and changes. A null frame buffer or sink is \<open>None\<close>,
  and \<open>emit\<close> is never null.
\<close>

section \<open>The interfaces\<close>

datatype error_code =
    ErrNone | UnknownOpcode | BadBody | Unsupported | BadInput | TooManyTouches | NoScreen | ErrBusy
  | RateLimited | VersionMismatch | QueueFull | CaptureFailed | ScreenGeometry | OperationFailed

fun error_code_number :: "error_code \<Rightarrow> u16" where
  "error_code_number ErrNone = 0"
| "error_code_number UnknownOpcode = 1"
| "error_code_number BadBody = 2"
| "error_code_number Unsupported = 3"
| "error_code_number BadInput = 4"
| "error_code_number TooManyTouches = 5"
| "error_code_number NoScreen = 6"
| "error_code_number ErrBusy = 7"
| "error_code_number RateLimited = 8"
| "error_code_number VersionMismatch = 9"
| "error_code_number QueueFull = 10"
| "error_code_number CaptureFailed = 11"
| "error_code_number ScreenGeometry = 12"
| "error_code_number OperationFailed = 13"

datatype capture_failure =
  CaptureOk | ShapeQuery | BufferTooSmall | NotRendered | RendererFailed | GeometryMismatch

record shot =
  sh_ok :: bool
  sh_width :: u16
  sh_height :: u16
  sh_format :: pixel_format
  sh_orientation :: orientation
  sh_bytes :: nat
  sh_why :: capture_failure

datatype time_sink_result = TimeAccepted | TimeRejected | TimeFailed

datatype mesh_sink_result = MeshAccepted | MeshRejected | MeshFailed | MeshPending | MeshBusy

record 'w mesh_sink =
  mk_configure :: "u32 \<Rightarrow> 'w \<Rightarrow> mesh_sink_result \<times> 'w"
  mk_disconnect :: "'w \<Rightarrow> mesh_sink_result \<times> 'w"
  mk_forget_bond :: "'w \<Rightarrow> mesh_sink_result \<times> 'w"
  mk_forget_bond_outcome :: "'w \<Rightarrow> mesh_sink_result \<times> 'w"
  mk_send :: "bytes \<Rightarrow> bytes \<Rightarrow> u64 \<Rightarrow> 'w \<Rightarrow> mesh_sink_result \<times> 'w"
  mk_send_room :: "bytes \<Rightarrow> bytes \<Rightarrow> bytes \<Rightarrow> u64 \<Rightarrow> 'w \<Rightarrow> mesh_sink_result \<times> 'w"
  mk_send_outcome :: "'w \<Rightarrow> mesh_sink_result \<times> 'w"

text \<open>
  \<open>capture\<close> is given the buffer it may fill, or \<open>None\<close> for a query of the shape alone, and
  returns the buffer as it left it.
\<close>

record 'w device =
  dv_capture :: "bytes option \<Rightarrow> 'w \<Rightarrow> shot \<times> bytes \<times> 'w"
  dv_board_id :: "'w \<Rightarrow> bytes"
  dv_build_id :: "'w \<Rightarrow> bytes"
  dv_button_count :: "'w \<Rightarrow> u8"
  dv_buttons :: "'w \<Rightarrow> button_descriptor list option"
  dv_stable_since :: "u32 \<Rightarrow> 'w \<Rightarrow> bool"
  dv_synchronize :: "(time_sync_body \<Rightarrow> 'w \<Rightarrow> time_sink_result \<times> 'w) option"
  dv_mesh :: "'w mesh_sink option"

text \<open>
  What the headers promise of a device: a descriptor's identifier is its sixteen characters, there
  are at least as many descriptors as buttons counted, and a capture that succeeds leaves a whole
  frame in the buffer it was given.
\<close>

definition sound_device :: "'w device \<Rightarrow> bool" where
  "sound_device dv \<longleftrightarrow>
     (\<forall>w ds. dv_buttons dv w = Some ds \<longrightarrow> unat (dv_button_count dv w) \<le> length ds \<and> (\<forall>d\<in>set ds. length (bd_id d) = 16)) \<and>
     (\<forall>buf w sh buf' w'. dv_capture dv (Some buf) w = (sh, buf', w') \<longrightarrow>
        length buf' = length buf \<and> (sh_ok sh \<longrightarrow> sh_bytes sh \<le> length buf))"

section \<open>The bridge\<close>

definition kChunkBytes :: nat where "kChunkBytes = kMaxBody - 4"

record bridge_limits =
  max_hold_ms :: u32
  max_events_per_s :: u16

definition default_bridge_limits :: bridge_limits where
  "default_bridge_limits = \<lparr>max_hold_ms = 30000, max_events_per_s = 500\<rparr>"

record bridge_stats =
  st_requests :: u32
  st_errors :: u32
  st_events_injected :: u32
  st_events_refused :: u32
  st_frames_sent :: u32
  st_holds_expired :: u32

definition new_bridge_stats :: bridge_stats where
  "new_bridge_stats = \<lparr>st_requests = 0, st_errors = 0, st_events_injected = 0, st_events_refused = 0,
     st_frames_sent = 0, st_holds_expired = 0\<rparr>"

record pending_answer =
  pa_active :: bool
  pa_req_id :: u16

definition no_pending :: pending_answer where
  "no_pending = \<lparr>pa_active = False, pa_req_id = 0\<rparr>"

record transfer =
  tr_active :: bool
  tr_req_id :: u16
  tr_sent :: nat
  tr_total :: nat
  tr_frame_id :: u32

definition no_transfer :: transfer where
  "no_transfer = \<lparr>tr_active = False, tr_req_id = 0, tr_sent = 0, tr_total = 0, tr_frame_id = 0\<rparr>"

record 'w bridge =
  br_queue :: input_queue
  br_state :: input_state
  br_world :: 'w
  br_frame :: "bytes option"
  br_limits :: bridge_limits
  br_stats :: bridge_stats
  br_forget :: pending_answer
  br_sending :: pending_answer
  br_transfer :: transfer
  br_button_down_at :: "u32 list"
  br_pointer_down_at :: u32
  br_rate_window_start_ms :: u32
  br_rate_window_count :: u16
  br_next_frame_id :: u32
  br_out :: "bytes list"

definition new_bridge :: "input_queue \<Rightarrow> input_state \<Rightarrow> 'w \<Rightarrow> bytes option \<Rightarrow> bridge_limits \<Rightarrow> 'w bridge" where
  "new_bridge q s w frame limits =
     \<lparr>br_queue = q, br_state = s, br_world = w, br_frame = frame, br_limits = limits,
      br_stats = new_bridge_stats, br_forget = no_pending, br_sending = no_pending,
      br_transfer = no_transfer, br_button_down_at = replicate (unat kMaxButtons) 0,
      br_pointer_down_at = 0, br_rate_window_start_ms = 0, br_rate_window_count = 0,
      br_next_frame_id = 1, br_out = []\<rparr>"

section \<open>Answering\<close>

fun mesh_error :: "mesh_sink_result \<Rightarrow> error_code" where
  "mesh_error MeshBusy = ErrBusy"
| "mesh_error MeshRejected = BadInput"
| "mesh_error _ = OperationFailed"

text \<open>An envelope with its defaults, this request's id and this opcode.\<close>

definition reply_to :: "u16 \<Rightarrow> opcode \<Rightarrow> envelope" where
  "reply_to req_id op = new_envelope\<lparr>env_req_id := req_id, env_op := opcode_code op\<rparr>"

definition send_message :: "envelope \<Rightarrow> bytes \<Rightarrow> 'w bridge \<Rightarrow> 'w bridge" where
  "send_message env body br =
     (case encode_message env body (kEnvelopeBytes + kMaxBody) of
        None \<Rightarrow> br
      | Some out \<Rightarrow> br\<lparr>br_out := br_out br @ [out]\<rparr>)"

definition count_error :: "'w bridge \<Rightarrow> 'w bridge" where
  "count_error br = br\<lparr>br_stats := (br_stats br)\<lparr>st_errors := st_errors (br_stats br) + 1\<rparr>\<rparr>"

definition send_error :: "u16 \<Rightarrow> error_code \<Rightarrow> 'w bridge \<Rightarrow> 'w bridge" where
  "send_error req_id code br =
     send_message (reply_to req_id OpError)
       [ucast (error_code_number code AND 0xFF), ucast (drop_bit 8 (error_code_number code) AND 0xFF)]
       (count_error br)"

definition count_refused :: "'w bridge \<Rightarrow> 'w bridge" where
  "count_refused br = br\<lparr>br_stats := (br_stats br)\<lparr>st_events_refused := st_events_refused (br_stats br) + 1\<rparr>\<rparr>"

section \<open>The requests\<close>

definition on_disconnect :: "u32 \<Rightarrow> 'w bridge \<Rightarrow> 'w bridge" where
  "on_disconnect now br =
     (case release_all Remote now (br_state br) (br_queue br) of
        (_, s, q) \<Rightarrow> br\<lparr>br_state := s, br_queue := q,
                         br_transfer := (br_transfer br)\<lparr>tr_active := False\<rparr>,
                         br_forget := (br_forget br)\<lparr>pa_active := False\<rparr>,
                         br_sending := (br_sending br)\<lparr>pa_active := False\<rparr>\<rparr>)"

text \<open>\<open>strncpy\<close> into a zeroed field, always leaving the last character a NUL.\<close>

definition text_field :: "nat \<Rightarrow> bytes \<Rightarrow> bytes" where
  "text_field n s =
     (let t = take (n - 1) (takeWhile (\<lambda>c. c \<noteq> 0) s) in t @ replicate (n - length t) 0)"

definition handle_hello :: "'w device \<Rightarrow> u16 \<Rightarrow> bytes \<Rightarrow> u32 \<Rightarrow> 'w bridge \<Rightarrow> 'w bridge" where
  "handle_hello dv req_id body now br =
     (case decode_hello body of
        None \<Rightarrow> send_error req_id BadBody br
      | Some incoming \<Rightarrow>
          let br1 = on_disconnect now br;
              reply = \<lparr>hb_protocol_version = kDebugProtocolVersion,
                       hb_board_id = text_field 24 (dv_board_id dv (br_world br1)),
                       hb_build = text_field 24 (dv_build_id dv (br_world br1)),
                       hb_session = hb_session incoming\<rparr>
          in send_message (reply_to req_id HelloOk)
               (case encode_hello reply kHelloBodyBytes of None \<Rightarrow> [] | Some out \<Rightarrow> out) br1)"

definition blank_button :: button_descriptor where
  "blank_button = \<lparr>bd_id = replicate 16 0, bd_flags = 0\<rparr>"

definition handle_capabilities :: "'w device \<Rightarrow> u16 \<Rightarrow> 'w bridge \<Rightarrow> 'w bridge" where
  "handle_capabilities dv req_id br =
     (case dv_capture dv None (br_world br) of
        (sh, _, w) \<Rightarrow>
          let count = (case dv_buttons dv w of None \<Rightarrow> 0 | Some _ \<Rightarrow> dv_button_count dv w);
              button_count = (if count > 4 then 4 else count);
              src = (case dv_buttons dv w of None \<Rightarrow> [] | Some ds \<Rightarrow> ds);
              caps = \<lparr>cb_width = sh_width sh, cb_height = sh_height sh, cb_format = sh_format sh,
                      cb_orientation = sh_orientation sh, cb_max_touch_points = kMaxTouchPoints,
                      cb_button_count = button_count,
                      cb_buttons = map (\<lambda>i. if i < unat button_count then src ! i else blank_button) [0..<4],
                      cb_max_body = of_nat kMaxBody, cb_max_hold_ms = max_hold_ms (br_limits br),
                      cb_max_events_per_s = max_events_per_s (br_limits br)\<rparr>
          in send_message (reply_to req_id CapabilitiesOk)
               (case encode_capabilities caps kCapabilitiesBodyBytes of None \<Rightarrow> [] | Some out \<Rightarrow> out)
               (br\<lparr>br_world := w\<rparr>))"

fun capture_error :: "capture_failure \<Rightarrow> error_code" where
  "capture_error BufferTooSmall = Unsupported"
| "capture_error RendererFailed = CaptureFailed"
| "capture_error GeometryMismatch = ScreenGeometry"
| "capture_error CaptureOk = NoScreen"
| "capture_error ShapeQuery = NoScreen"
| "capture_error NotRendered = NoScreen"

definition handle_screen :: "'w device \<Rightarrow> u16 \<Rightarrow> u32 \<Rightarrow> 'w bridge \<Rightarrow> 'w bridge" where
  "handle_screen dv req_id now br =
     (if tr_active (br_transfer br) then send_error req_id ErrBusy br
      else case br_frame br of
        None \<Rightarrow> send_error req_id Unsupported br
      | Some frame \<Rightarrow>
          if length frame = 0 then send_error req_id Unsupported br
          else case dv_capture dv None (br_world br) of
            (shape, _, w1) \<Rightarrow>
              if sh_bytes shape > length frame then send_error req_id Unsupported (br\<lparr>br_world := w1\<rparr>)
              else case dv_capture dv (Some frame) w1 of
                (sh, frame', w2) \<Rightarrow>
                  let br1 = br\<lparr>br_world := w2, br_frame := Some frame'\<rparr>
                  in if \<not> sh_ok sh \<or> sh_bytes sh = 0 then send_error req_id (capture_error (sh_why sh)) br1
                     else
                       let info = \<lparr>si_frame_id = br_next_frame_id br1, si_width = sh_width sh,
                                   si_height = sh_height sh, si_format = sh_format sh,
                                   si_orientation = sh_orientation sh, si_total_bytes = of_nat (sh_bytes sh),
                                   si_crc32 = crc32 (take (sh_bytes sh) frame') 0, si_at_ms = now\<rparr>;
                           br2 = send_message (reply_to req_id ScreenInfo)
                                   (case encode_screen_info info kScreenInfoBodyBytes of None \<Rightarrow> [] | Some out \<Rightarrow> out)
                                   (br1\<lparr>br_next_frame_id := br_next_frame_id br1 + 1\<rparr>)
                       in br2\<lparr>br_transfer := \<lparr>tr_active = True, tr_req_id = req_id, tr_sent = 0,
                                              tr_total = sh_bytes sh, tr_frame_id = si_frame_id info\<rparr>\<rparr>)"

text \<open>One step of a transfer, and whether there is more to do.\<close>

definition pump :: "'w bridge \<Rightarrow> bool \<times> 'w bridge" where
  "pump br =
     (let t = br_transfer br in
      if \<not> tr_active t then (False, br)
      else if tr_sent t \<ge> tr_total t
      then
        let br1 = send_message (reply_to (tr_req_id t) ScreenEnd) (put_u32 (tr_frame_id t)) br
        in (False, br1\<lparr>br_transfer := t\<lparr>tr_active := False\<rparr>,
                       br_stats := (br_stats br1)\<lparr>st_frames_sent := st_frames_sent (br_stats br1) + 1\<rparr>\<rparr>)
      else
        let remaining = tr_total t - tr_sent t;
            n = (if remaining < kChunkBytes then remaining else kChunkBytes);
            frame = (case br_frame br of None \<Rightarrow> [] | Some f \<Rightarrow> f);
            br1 = send_message (reply_to (tr_req_id t) ScreenData)
                    (put_u32 (of_nat (tr_sent t)) @ take n (drop (tr_sent t) frame)) br
        in (True, br1\<lparr>br_transfer := t\<lparr>tr_sent := tr_sent t + n\<rparr>\<rparr>))"

definition rate_allows :: "u32 \<Rightarrow> 'w bridge \<Rightarrow> bool \<times> 'w bridge" where
  "rate_allows now br =
     (let br1 = (if now - br_rate_window_start_ms br \<ge> 1000
                 then br\<lparr>br_rate_window_start_ms := now, br_rate_window_count := 0\<rparr> else br)
      in if br_rate_window_count br1 \<ge> max_events_per_s (br_limits br1) then (False, br1)
         else (True, br1\<lparr>br_rate_window_count := br_rate_window_count br1 + 1\<rparr>))"

fun event_type_of :: "nat \<Rightarrow> input_event_type" where
  "event_type_of 0 = ButtonDown"
| "event_type_of (Suc 0) = ButtonUp"
| "event_type_of (Suc (Suc 0)) = PointerDown"
| "event_type_of (Suc (Suc (Suc 0))) = PointerMove"
| "event_type_of _ = PointerUp"

definition kLastEventType :: u8 where "kLastEventType = 4"

text \<open>The event a request asks for; a time of zero means now.\<close>

definition requested_event :: "input_event_body \<Rightarrow> u32 \<Rightarrow> input_event" where
  "requested_event b now =
     \<lparr>ev_type = event_type_of (unat (ie_type b)), ev_origin = Remote, ev_button = ie_button b, ev_x = ie_x b,
      ev_y = ie_y b, ev_touch_id = ie_touch_id b, ev_at_ms = (if ie_at_ms b = 0 then now else ie_at_ms b)\<rparr>"

definition off_screen :: "input_event \<Rightarrow> shot \<Rightarrow> bool" where
  "off_screen e sh \<longleftrightarrow>
     sint (ev_x e) < 0 \<or> sint (ev_y e) < 0 \<or> sint (ev_x e) \<ge> uint (sh_width sh) \<or> sint (ev_y e) \<ge> uint (sh_height sh)"

definition not_injectable :: "'w device \<Rightarrow> 'w \<Rightarrow> input_event \<Rightarrow> bool" where
  "not_injectable dv w e =
     (case dv_buttons dv w of
        None \<Rightarrow> False
      | Some ds \<Rightarrow> ev_button e < dv_button_count dv w \<and> bd_flags (ds ! unat (ev_button e)) AND kButtonInjectable = 0)"

text \<open>Taking back an event the queue had no room for, coordinates included.\<close>

definition undo_event :: "input_event \<Rightarrow> u16 \<Rightarrow> u16 \<Rightarrow> u8 \<Rightarrow> input_state \<Rightarrow> input_state" where
  "undo_event e before_x before_y count s =
     (let undo = e\<lparr>ev_x := before_x, ev_y := before_y\<rparr> in
      case ev_type e of
        ButtonDown \<Rightarrow> snd (apply_event (undo\<lparr>ev_type := ButtonUp\<rparr>) count s)
      | ButtonUp \<Rightarrow> snd (apply_event (undo\<lparr>ev_type := ButtonDown\<rparr>) count s)
      | PointerDown \<Rightarrow> snd (apply_event (undo\<lparr>ev_type := PointerUp\<rparr>) count s)
      | PointerUp \<Rightarrow> snd (apply_event (undo\<lparr>ev_type := PointerDown\<rparr>) count s)
      | PointerMove \<Rightarrow> snd (apply_event undo count s))"

definition is_pointer_event :: "input_event \<Rightarrow> bool" where
  "is_pointer_event e \<longleftrightarrow> ev_type e = PointerDown \<or> ev_type e = PointerMove \<or> ev_type e = PointerUp"

definition is_button_event :: "input_event \<Rightarrow> bool" where
  "is_button_event e \<longleftrightarrow> ev_type e = ButtonDown \<or> ev_type e = ButtonUp"

text \<open>The second half of \<open>handle_input\<close>: an event that passed every test of its own.\<close>

definition inject :: "'w device \<Rightarrow> u16 \<Rightarrow> input_event \<Rightarrow> u32 \<Rightarrow> 'w bridge \<Rightarrow> 'w bridge" where
  "inject dv req_id e now br =
     (let count = dv_button_count dv (br_world br);
          before_x = pointer_x (br_state br);
          before_y = pointer_y (br_state br)
      in case apply_event e count (br_state br) of (applied, s) \<Rightarrow>
           if \<not> applied then send_error req_id BadInput (count_refused br)
           else case iq_push e (br_queue br) of (pushed, q) \<Rightarrow>
             if \<not> pushed
             then send_error req_id QueueFull
                    (count_refused (br\<lparr>br_queue := q, br_state := undo_event e before_x before_y count s\<rparr>))
             else
               let br1 = br\<lparr>br_queue := q, br_state := s\<rparr>;
                   br2 = (if ev_type e = ButtonDown \<and> ev_button e < kMaxButtons
                          then br1\<lparr>br_button_down_at := (br_button_down_at br1)[unat (ev_button e) := now]\<rparr> else br1);
                   br3 = (if ev_type e = PointerDown then br2\<lparr>br_pointer_down_at := now\<rparr> else br2)
               in send_message (reply_to req_id InputOk) []
                    (br3\<lparr>br_stats := (br_stats br3)\<lparr>st_events_injected := st_events_injected (br_stats br3) + 1\<rparr>\<rparr>))"

definition handle_input :: "'w device \<Rightarrow> u16 \<Rightarrow> bytes \<Rightarrow> u32 \<Rightarrow> 'w bridge \<Rightarrow> 'w bridge" where
  "handle_input dv req_id body now br =
     (case decode_input_event body of
        None \<Rightarrow> send_error req_id BadBody br
      | Some incoming \<Rightarrow>
          if ie_type incoming > kLastEventType then send_error req_id BadBody br
          else case rate_allows now br of (allowed, br1) \<Rightarrow>
            if \<not> allowed then send_error req_id RateLimited (count_refused br1)
            else
              let e = requested_event incoming now in
              case (if is_pointer_event e
                    then case dv_capture dv None (br_world br1) of
                           (sh, _, w) \<Rightarrow> (off_screen e sh, br1\<lparr>br_world := w\<rparr>)
                    else (False, br1)) of (outside, br2) \<Rightarrow>
                if outside then send_error req_id BadInput (count_refused br2)
                else if ev_type e = PointerDown \<and> ev_touch_id e \<ge> kMaxTouchPoints
                then send_error req_id TooManyTouches (count_refused br2)
                else if is_button_event e \<and> not_injectable dv (br_world br2) e
                then send_error req_id Unsupported (count_refused br2)
                else if (ev_type e = PointerUp \<or> ev_type e = PointerMove) \<and>
                        pointer_down (br_state br2) \<and> pointer_by (br_state br2) \<noteq> Remote
                then send_error req_id BadInput (count_refused br2)
                else inject dv req_id e now br2)"

definition handle_input_reset :: "u16 \<Rightarrow> u32 \<Rightarrow> 'w bridge \<Rightarrow> 'w bridge" where
  "handle_input_reset req_id now br =
     (case release_all Remote now (br_state br) (br_queue br) of
        (released, s, q) \<Rightarrow>
          send_message (reply_to req_id InputOk) [of_nat released, of_nat (held_count Remote s)]
            (br\<lparr>br_state := s, br_queue := q\<rparr>))"

definition handle_wait_stable :: "'w device \<Rightarrow> u16 \<Rightarrow> bytes \<Rightarrow> 'w bridge \<Rightarrow> 'w bridge" where
  "handle_wait_stable dv req_id body br =
     (if length body < 2 then send_error req_id BadInput br
      else
        let quiet_ms = ucast (body ! 0) OR push_bit 8 (ucast (body ! 1));
            queued = iq_count (br_queue br) \<noteq> 0;
            ready = (if \<not> queued \<and> dv_stable_since dv quiet_ms (br_world br) then 1 else 0)
        in send_message (reply_to req_id StableOk) [ready] br)"

definition handle_time_sync :: "'w device \<Rightarrow> u16 \<Rightarrow> bytes \<Rightarrow> 'w bridge \<Rightarrow> 'w bridge" where
  "handle_time_sync dv req_id body br =
     (case dv_synchronize dv of
        None \<Rightarrow> send_error req_id Unsupported br
      | Some synchronize \<Rightarrow>
          case decode_time_sync body of
            None \<Rightarrow> send_error req_id BadBody br
          | Some request \<Rightarrow>
              case synchronize request (br_world br) of (result, w) \<Rightarrow>
                let br1 = br\<lparr>br_world := w\<rparr> in
                if result \<noteq> TimeAccepted
                then send_error req_id (if result = TimeRejected then BadInput else OperationFailed) br1
                else send_message (reply_to req_id TimeSyncOk) [] br1)"

definition handle_mesh_configure :: "'w device \<Rightarrow> u16 \<Rightarrow> bytes \<Rightarrow> 'w bridge \<Rightarrow> 'w bridge" where
  "handle_mesh_configure dv req_id body br =
     (case dv_mesh dv of
        None \<Rightarrow> send_error req_id Unsupported br
      | Some mesh \<Rightarrow>
          if length body \<noteq> 4 then send_error req_id BadBody br
          else
            let passkey = ucast (body ! 0) OR push_bit 8 (ucast (body ! 1)) OR push_bit 16 (ucast (body ! 2)) OR
                          push_bit 24 (ucast (body ! 3)) in
            case mk_configure mesh passkey (br_world br) of (result, w) \<Rightarrow>
              let br1 = br\<lparr>br_world := w\<rparr> in
              if result \<noteq> MeshAccepted
              then send_error req_id (if result = MeshRejected then BadInput else OperationFailed) br1
              else send_message (reply_to req_id MeshOk) [] br1)"

definition handle_mesh_disconnect :: "'w device \<Rightarrow> u16 \<Rightarrow> bytes \<Rightarrow> 'w bridge \<Rightarrow> 'w bridge" where
  "handle_mesh_disconnect dv req_id body br =
     (case dv_mesh dv of
        None \<Rightarrow> send_error req_id Unsupported br
      | Some mesh \<Rightarrow>
          if length body \<noteq> 0 then send_error req_id BadBody br
          else case mk_disconnect mesh (br_world br) of (result, w) \<Rightarrow>
            let br1 = br\<lparr>br_world := w\<rparr> in
            if result \<noteq> MeshAccepted then send_error req_id OperationFailed br1
            else send_message (reply_to req_id MeshOk) [] br1)"

text \<open>The answer to a mesh request whose result is known.\<close>

definition mesh_answer :: "u16 \<Rightarrow> mesh_sink_result \<Rightarrow> 'w bridge \<Rightarrow> 'w bridge" where
  "mesh_answer req_id result br =
     (if result \<noteq> MeshAccepted then send_error req_id (mesh_error result) br
      else send_message (reply_to req_id MeshOk) [] br)"

definition handle_mesh_forget_bond :: "'w device \<Rightarrow> u16 \<Rightarrow> bytes \<Rightarrow> 'w bridge \<Rightarrow> 'w bridge" where
  "handle_mesh_forget_bond dv req_id body br =
     (case dv_mesh dv of
        None \<Rightarrow> send_error req_id Unsupported br
      | Some mesh \<Rightarrow>
          if length body \<noteq> 0 then send_error req_id BadBody br
          else if pa_active (br_forget br) then send_error req_id ErrBusy br
          else case mk_forget_bond mesh (br_world br) of (result, w) \<Rightarrow>
            let br1 = br\<lparr>br_world := w\<rparr> in
            if result = MeshPending then br1\<lparr>br_forget := \<lparr>pa_active = True, pa_req_id = req_id\<rparr>\<rparr>
            else mesh_answer req_id result br1)"

text \<open>The eight bytes at an offset, lowest first.\<close>

definition timestamp_at :: "nat \<Rightarrow> bytes \<Rightarrow> u64" where
  "timestamp_at k body = fold (\<lambda>i t. t OR push_bit (8 * i) (ucast (body ! (k + i)))) [0..<8] 0"

definition kSendHeader :: nat where "kSendHeader = 32 + 8"

definition handle_mesh_send :: "'w device \<Rightarrow> u16 \<Rightarrow> bytes \<Rightarrow> 'w bridge \<Rightarrow> 'w bridge" where
  "handle_mesh_send dv req_id body br =
     (case dv_mesh dv of
        None \<Rightarrow> send_error req_id Unsupported br
      | Some mesh \<Rightarrow>
          if length body \<le> kSendHeader then send_error req_id BadBody br
          else if pa_active (br_sending br) then send_error req_id ErrBusy br
          else case mk_send mesh (take 32 body) (drop kSendHeader body) (timestamp_at 32 body) (br_world br) of
            (result, w) \<Rightarrow>
              let br1 = br\<lparr>br_world := w\<rparr> in
              if result = MeshPending then br1\<lparr>br_sending := \<lparr>pa_active = True, pa_req_id = req_id\<rparr>\<rparr>
              else mesh_answer req_id result br1)"

definition kRoomBytes :: nat where "kRoomBytes = 32"
definition kFixedBytes :: nat where "kFixedBytes = kRoomBytes + 1 + 8"

definition handle_mesh_room_send :: "'w device \<Rightarrow> u16 \<Rightarrow> bytes \<Rightarrow> 'w bridge \<Rightarrow> 'w bridge" where
  "handle_mesh_room_send dv req_id body br =
     (case dv_mesh dv of
        None \<Rightarrow> send_error req_id Unsupported br
      | Some mesh \<Rightarrow>
          if length body \<le> kFixedBytes then send_error req_id BadBody br
          else
            let password_length = unat (body ! kRoomBytes); header = kFixedBytes + password_length in
            if password_length = 0 \<or> password_length > 15 \<or> length body \<le> header then send_error req_id BadBody br
            else if pa_active (br_sending br) then send_error req_id ErrBusy br
            else case mk_send_room mesh (take 32 body) (take password_length (drop (kRoomBytes + 1) body))
                        (drop header body) (timestamp_at (kRoomBytes + 1 + password_length) body) (br_world br) of
              (result, w) \<Rightarrow>
                let br1 = br\<lparr>br_world := w\<rparr> in
                if result = MeshPending then br1\<lparr>br_sending := \<lparr>pa_active = True, pa_req_id = req_id\<rparr>\<rparr>
                else mesh_answer req_id result br1)"

definition dispatch :: "'w device \<Rightarrow> envelope \<Rightarrow> bytes \<Rightarrow> u32 \<Rightarrow> 'w bridge \<Rightarrow> 'w bridge" where
  "dispatch dv env body now br =
     (let r = env_req_id env; op = env_op env in
      if op = opcode_code Hello then handle_hello dv r body now br
      else if op = opcode_code Capabilities then handle_capabilities dv r br
      else if op = opcode_code ScreenRequest then handle_screen dv r now br
      else if op = opcode_code OpInputEvent then handle_input dv r body now br
      else if op = opcode_code InputReset then handle_input_reset r now br
      else if op = opcode_code WaitStable then handle_wait_stable dv r body br
      else if op = opcode_code OpTimeSync then handle_time_sync dv r body br
      else if op = opcode_code MeshConfigure then handle_mesh_configure dv r body br
      else if op = opcode_code MeshDisconnect then handle_mesh_disconnect dv r body br
      else if op = opcode_code MeshForgetBond then handle_mesh_forget_bond dv r body br
      else if op = opcode_code MeshSend then handle_mesh_send dv r body br
      else if op = opcode_code MeshRoomSend then handle_mesh_room_send dv r body br
      else send_error r UnknownOpcode br)"

definition handle :: "'w device \<Rightarrow> bytes \<Rightarrow> u32 \<Rightarrow> 'w bridge \<Rightarrow> 'w bridge" where
  "handle dv payload now br =
     (case decode_message payload of
        None \<Rightarrow> count_error br
      | Some (env, body) \<Rightarrow>
          let br1 = br\<lparr>br_stats := (br_stats br)\<lparr>st_requests := st_requests (br_stats br) + 1\<rparr>\<rparr>
          in if env_cls env \<noteq> kClassDebug then send_error (env_req_id env) UnknownOpcode br1
             else if env_version env \<noteq> kDebugProtocolVersion \<and> env_op env \<noteq> opcode_code Hello
             then send_error (env_req_id env) VersionMismatch br1
             else dispatch dv env body now br1)"

section \<open>Housekeeping\<close>

definition answer_forget :: "'w device \<Rightarrow> 'w bridge \<Rightarrow> 'w bridge" where
  "answer_forget dv br =
     (case (pa_active (br_forget br), dv_mesh dv) of
        (True, Some mesh) \<Rightarrow>
          (case mk_forget_bond_outcome mesh (br_world br) of (outcome, w) \<Rightarrow>
             let br1 = br\<lparr>br_world := w\<rparr> in
             if outcome = MeshPending then br1
             else mesh_answer (pa_req_id (br_forget br)) outcome
                    (br1\<lparr>br_forget := (br_forget br1)\<lparr>pa_active := False\<rparr>\<rparr>))
      | _ \<Rightarrow> br)"

definition answer_send :: "'w device \<Rightarrow> 'w bridge \<Rightarrow> 'w bridge" where
  "answer_send dv br =
     (case (pa_active (br_sending br), dv_mesh dv) of
        (True, Some mesh) \<Rightarrow>
          (case mk_send_outcome mesh (br_world br) of (outcome, w) \<Rightarrow>
             let br1 = br\<lparr>br_world := w\<rparr> in
             if outcome = MeshPending then br1
             else mesh_answer (pa_req_id (br_sending br)) outcome
                    (br1\<lparr>br_sending := (br_sending br1)\<lparr>pa_active := False\<rparr>\<rparr>))
      | _ \<Rightarrow> br)"

definition count_expired :: "'w bridge \<Rightarrow> 'w bridge" where
  "count_expired br = br\<lparr>br_stats := (br_stats br)\<lparr>st_holds_expired := st_holds_expired (br_stats br) + 1\<rparr>\<rparr>"

definition expire_button :: "u32 \<Rightarrow> nat \<Rightarrow> 'w bridge \<Rightarrow> 'w bridge" where
  "expire_button now i br =
     (if button_down (of_nat i) (br_state br) \<and> button_origin (of_nat i) (br_state br) = Remote \<and>
         now - br_button_down_at br ! i > max_hold_ms (br_limits br)
      then
        let up = blank_event\<lparr>ev_type := ButtonUp, ev_origin := Remote, ev_button := of_nat i, ev_at_ms := now\<rparr> in
        case iq_push up (br_queue br) of (pushed, q) \<Rightarrow>
          if pushed
          then count_expired (br\<lparr>br_queue := q, br_state := snd (apply_event up kMaxButtons (br_state br))\<rparr>)
          else br\<lparr>br_queue := q\<rparr>
      else br)"

definition expire_pointer :: "u32 \<Rightarrow> 'w bridge \<Rightarrow> 'w bridge" where
  "expire_pointer now br =
     (let s = br_state br in
      if pointer_down s \<and> pointer_by s = Remote \<and> now - br_pointer_down_at br > max_hold_ms (br_limits br)
      then
        let up = blank_event\<lparr>ev_type := PointerUp, ev_origin := Remote, ev_x := pointer_x s, ev_y := pointer_y s,
                   ev_touch_id := pointer_touch_id s, ev_at_ms := now\<rparr> in
        case iq_push up (br_queue br) of (pushed, q) \<Rightarrow>
          if pushed
          then case apply_event up kMaxButtons s of (applied, s') \<Rightarrow>
                 let br1 = br\<lparr>br_queue := q, br_state := s'\<rparr> in if applied then count_expired br1 else br1
          else br\<lparr>br_queue := q\<rparr>
      else br)"

definition tick :: "'w device \<Rightarrow> u32 \<Rightarrow> 'w bridge \<Rightarrow> 'w bridge" where
  "tick dv now br =
     expire_pointer now (fold (expire_button now) [0..<unat kMaxButtons] (answer_send dv (answer_forget dv br)))"

end
