(* ===== verification/Bridge_Replies.thy ===== *)
theory Bridge_Replies
  imports Debug_Bridge "HOL-Library.Multiset"
begin

text \<open>
  The replies of the debug bridge (\<open>debug/src/bridge.cpp\<close>): the messages it sends, the ledger of
  requests and answers over any history of the bridge, and a small device used as an example.
\<close>

section \<open>Messages out\<close>

definition payload :: "u16 \<Rightarrow> opcode \<Rightarrow> bytes \<Rightarrow> bytes" where
  "payload req_id op body = the (encode_message (reply_to req_id op) body (kEnvelopeBytes + kMaxBody))"

lemma encode_reply: "length body \<le> kMaxBody \<Longrightarrow> encode_message (reply_to r op) body (kEnvelopeBytes + kMaxBody) = Some (payload r op body)"
  by (simp add: payload_def encode_message_def Let_def)

lemma send_reply: "length body \<le> kMaxBody \<Longrightarrow>
    send_message (reply_to r op) body br = br\<lparr>br_out := br_out br @ [payload r op body]\<rparr>"
  by (simp add: send_message_def encode_reply)

lemma decode_payload:
  assumes "length body \<le> kMaxBody"
  shows "decode_message (payload r op body) = Some ((reply_to r op)\<lparr>env_body_len := of_nat (length body)\<rparr>, body)"
proof -
  have "encode_message ((reply_to r op)\<lparr>env_body_len := of_nat (length body)\<rparr>) body (kEnvelopeBytes + kMaxBody) = Some (payload r op body)"
    unfolding encode_reply [OF assms, symmetric] by (simp add: encode_message_def)
  from decode_encode(1) [OF this] show ?thesis by simp
qed

lemma reply_to_fields [simp]: "env_req_id (reply_to r op) = r" "env_op (reply_to r op) = opcode_code op"
  by (simp_all add: reply_to_def)

lemma opcode_code_inj: "opcode_code a = opcode_code b \<longleftrightarrow> a = b"
  by (cases a; cases b) simp_all

text \<open>The bodies the bridge sends all fit in a message.\<close>

lemma small_bodies [simp]: "0 \<le> kMaxBody" "Suc 0 \<le> kMaxBody" "Suc (Suc 0) \<le> kMaxBody" "2 \<le> kMaxBody" "4 \<le> kMaxBody"
  by (simp_all add: kMaxBody_def kEnvelopeBytes_def)

lemma length_text_field [simp]: "0 < n \<Longrightarrow> length (text_field n s) = n"
  by (simp add: text_field_def Let_def min_def)

lemma send_error_eq: "send_error r code br =
    (count_error br)\<lparr>br_out := br_out br @ [payload r OpError (put_u16 (error_code_number code))]\<rparr>"
  by (simp add: send_error_def send_reply put_u16_def count_error_def)

section \<open>Every request is answered once\<close>

text \<open>The requests a payload answers: the image data and its end answer none.\<close>

definition answers :: "bytes \<Rightarrow> u16 multiset" where
  "answers p = (case decode_message p of
      None \<Rightarrow> {#}
    | Some (env, _) \<Rightarrow> if env_op env = opcode_code ScreenData \<or> env_op env = opcode_code ScreenEnd then {#}
                      else {#env_req_id env#})"

definition answered :: "bytes list \<Rightarrow> u16 multiset" where
  "answered out = sum_list (map answers out)"

text \<open>The requests whose answer is still owed.\<close>

definition owed :: "'w bridge \<Rightarrow> u16 multiset" where
  "owed br = (if pa_active (br_forget br) then {#pa_req_id (br_forget br)#} else {#}) +
             (if pa_active (br_sending br) then {#pa_req_id (br_sending br)#} else {#})"

definition ledger :: "'w bridge \<Rightarrow> u16 multiset" where
  "ledger br = answered (br_out br) + owed br"

lemma answers_payload: "length body \<le> kMaxBody \<Longrightarrow>
    answers (payload r op body) = (if op = ScreenData \<or> op = ScreenEnd then {#} else {#r#})"
  by (simp add: answers_def decode_payload opcode_code_inj del: opcode_code.simps)

lemma answered_snoc [simp]: "answered (out @ [p]) = answered out + answers p"
  by (simp add: answered_def)

lemma ledger_other [simp]:
  "ledger (br\<lparr>br_queue := q\<rparr>) = ledger br" "ledger (br\<lparr>br_state := s\<rparr>) = ledger br"
  "ledger (br\<lparr>br_world := w\<rparr>) = ledger br" "ledger (br\<lparr>br_frame := f\<rparr>) = ledger br"
  "ledger (br\<lparr>br_stats := st\<rparr>) = ledger br" "ledger (br\<lparr>br_transfer := t\<rparr>) = ledger br"
  "ledger (br\<lparr>br_button_down_at := b\<rparr>) = ledger br" "ledger (br\<lparr>br_pointer_down_at := p\<rparr>) = ledger br"
  "ledger (br\<lparr>br_rate_window_start_ms := a\<rparr>) = ledger br" "ledger (br\<lparr>br_rate_window_count := c\<rparr>) = ledger br"
  "ledger (br\<lparr>br_next_frame_id := i\<rparr>) = ledger br"
  by (simp_all add: ledger_def owed_def)

lemma ledger_counts [simp]: "ledger (count_error br) = ledger br" "ledger (count_refused br) = ledger br"
    "ledger (count_expired br) = ledger br"
  by (simp_all add: count_error_def count_refused_def count_expired_def)

lemma ledger_send: "length body \<le> kMaxBody \<Longrightarrow> ledger (send_message (reply_to r op) body br) =
    ledger br + (if op = ScreenData \<or> op = ScreenEnd then {#} else {#r#})"
  by (simp add: send_reply ledger_def owed_def answers_payload)

lemma ledger_error [simp]: "ledger (send_error r code br) = add_mset r (ledger br)"
  by (simp add: send_error_def ledger_send)

lemma ledger_mesh_answer [simp]: "ledger (mesh_answer r result br) = add_mset r (ledger br)"
  by (simp add: mesh_answer_def ledger_send)

lemma ledger_hello: "ledger (handle_hello dv r body now br) + (if decode_hello body = None then {#} else owed br) = ledger br + {#r#}"
proof (cases "decode_hello body")
  case None
  then show ?thesis by (simp add: handle_hello_def)
next
  case (Some incoming)
  obtain n s q where d: "release_all Remote now (br_state br) (br_queue br) = (n, s, q)" by (metis prod_cases3)
  have "ledger (handle_hello dv r body now br) = ledger (on_disconnect now br) + {#r#}"
    by (simp add: handle_hello_def Some Let_def encode_hello_def ledger_send kHelloBodyBytes_def kHelloV1BodyBytes_def
        kMaxBody_def kEnvelopeBytes_def)
  then show ?thesis by (simp add: Some on_disconnect_def d ledger_def owed_def)
qed

lemma ledger_capabilities:
  assumes "sound_device dv"
  shows "ledger (handle_capabilities dv r br) = ledger br + {#r#}"
proof -
  obtain sh x w where c: "dv_capture dv None (br_world br) = (sh, x, w)" by (metis prod_cases3)
  have n: "length (bd_id (ds ! i)) = 16" if "dv_buttons dv w = Some ds" "i < unat (dv_button_count dv w)" for ds i
    using assms that unfolding sound_device_def by (meson nth_mem order_less_le_trans)
  have m: "unat (if c > 4 then 4 else c) \<le> unat c" for c :: u8
    by (simp add: word_le_nat_alt word_less_nat_alt)
  have l: "length (case encode_capabilities b kCapabilitiesBodyBytes of None \<Rightarrow> [] | Some out \<Rightarrow> out) \<le> kMaxBody"
    if "\<And>i. i < 4 \<Longrightarrow> length (bd_id (cb_buttons b ! i)) = 16" for b
    using that by (simp add: encode_capabilities_def kCapabilitiesBodyBytes_def kMaxBody_def kEnvelopeBytes_def
        length_concat comp_def sum_list_triv upt_rec)
  show ?thesis unfolding handle_capabilities_def c prod.case Let_def
    by (subst ledger_send, rule l) (auto simp: blank_button_def dest!: n split: option.splits
        intro: order_less_le_trans [OF _ m])
qed

lemma ledger_screen: "ledger (handle_screen dv r now br) = ledger br + {#r#}"
  by (simp add: handle_screen_def Let_def ledger_send encode_screen_info_def kScreenInfoBodyBytes_def
      kMaxBody_def kEnvelopeBytes_def split: option.split prod.split)

lemma ledger_rate: "rate_allows now br = (b, br') \<Longrightarrow> ledger br' = ledger br"
  by (auto simp: rate_allows_def Let_def split: if_splits)

lemma ledger_inject [simp]: "ledger (inject dv r e now br) = ledger br + {#r#}"
  by (simp add: inject_def Let_def ledger_send split: prod.split)

lemma ledger_input: "ledger (handle_input dv r body now br) = ledger br + {#r#}"
proof (cases "decode_input_event body")
  case (Some incoming)
  obtain ok br1 where r: "rate_allows now br = (ok, br1)" by (cases "rate_allows now br")
  obtain sh x w where c: "dv_capture dv None (br_world br1) = (sh, x, w)" by (metis prod_cases3)
  obtain out br2 where o: "(if is_pointer_event (requested_event incoming now)
      then (off_screen (requested_event incoming now) sh, br1\<lparr>br_world := w\<rparr>) else (False, br1)) = (out, br2)" by fastforce
  have "ledger br1 = ledger br" using ledger_rate [OF r] .
  moreover have "ledger br2 = ledger br1" using o by (auto split: if_splits)
  ultimately show ?thesis
    unfolding handle_input_def Some option.case r prod.case c Let_def o by simp
qed (simp add: handle_input_def)

lemma ledger_reset: "ledger (handle_input_reset r now br) = ledger br + {#r#}"
proof -
  obtain n s q where d: "release_all Remote now (br_state br) (br_queue br) = (n, s, q)" by (metis prod_cases3)
  show ?thesis unfolding handle_input_reset_def d prod.case by (subst ledger_send) simp_all
qed

lemma ledger_wait: "ledger (handle_wait_stable dv r body br) = ledger br + {#r#}"
  unfolding handle_wait_stable_def Let_def by (simp add: ledger_send)

lemma ledger_time: "ledger (handle_time_sync dv r body br) = ledger br + {#r#}"
  unfolding handle_time_sync_def Let_def by (simp add: ledger_send split: option.split prod.split)

lemma ledger_configure: "ledger (handle_mesh_configure dv r body br) = ledger br + {#r#}"
  unfolding handle_mesh_configure_def Let_def by (simp add: ledger_send split: option.split prod.split)

lemma ledger_disconnect: "ledger (handle_mesh_disconnect dv r body br) = ledger br + {#r#}"
  unfolding handle_mesh_disconnect_def Let_def by (simp add: ledger_send split: option.split prod.split)

lemmas ledger_simple = ledger_reset ledger_wait ledger_time ledger_configure ledger_disconnect

lemma ledger_forget_slot: "\<not> pa_active (br_forget br) \<Longrightarrow>
    ledger (br\<lparr>br_forget := \<lparr>pa_active = True, pa_req_id = r\<rparr>\<rparr>) = ledger br + {#r#}"
  by (simp add: ledger_def owed_def)

lemma ledger_sending_slot: "\<not> pa_active (br_sending br) \<Longrightarrow>
    ledger (br\<lparr>br_sending := \<lparr>pa_active = True, pa_req_id = r\<rparr>\<rparr>) = ledger br + {#r#}"
  by (simp add: ledger_def owed_def)

lemma ledger_mesh:
  "ledger (handle_mesh_forget_bond dv r body br) = ledger br + {#r#}"
  "ledger (handle_mesh_send dv r body br) = ledger br + {#r#}"
  "ledger (handle_mesh_room_send dv r body br) = ledger br + {#r#}"
  by (simp_all add: handle_mesh_forget_bond_def handle_mesh_send_def handle_mesh_room_send_def Let_def
      ledger_forget_slot ledger_sending_slot split: option.split prod.split)

lemma ledger_answer_forget: "ledger (answer_forget dv br) = ledger br"
  by (auto simp: answer_forget_def Let_def ledger_def owed_def mesh_answer_def send_error_eq send_reply answers_payload
      count_error_def split: option.split prod.split bool.split)

lemma ledger_answer_send: "ledger (answer_send dv br) = ledger br"
  by (auto simp: answer_send_def Let_def ledger_def owed_def mesh_answer_def send_error_eq send_reply answers_payload
      count_error_def split: option.split prod.split bool.split)

lemma ledger_expire [simp]: "ledger (expire_button now i br) = ledger br" "ledger (expire_pointer now br) = ledger br"
  by (auto simp: expire_button_def expire_pointer_def Let_def split: prod.split)

lemma ledger_expire_all [simp]: "ledger (fold (expire_button now) xs br) = ledger br"
  by (induction xs arbitrary: br) simp_all

lemma ledger_tick: "ledger (tick dv now br) = ledger br"
  by (simp add: tick_def ledger_answer_forget ledger_answer_send)

lemma pump_body: "length (put_u32 a @ take (if n < kChunkBytes then n else kChunkBytes) f) \<le> kMaxBody"
  by (auto simp: kChunkBytes_def kMaxBody_def kEnvelopeBytes_def)

lemma ledger_pump: "ledger (snd (pump br)) = ledger br"
  using pump_body by (auto simp: pump_def Let_def ledger_send simp del: length_append)

text \<open>Everything that can happen to a bridge, from either side of it.\<close>

datatype 'w bridge_op =
    Handled bytes u32
  | Pumped
  | Ticked u32
  | Dropped u32
  | InputLayer "input_state \<Rightarrow> input_queue \<Rightarrow> input_state \<times> input_queue"
  | Outside "'w \<Rightarrow> 'w"

fun bridge_step :: "'w device \<Rightarrow> 'w bridge_op \<Rightarrow> 'w bridge \<Rightarrow> 'w bridge" where
  "bridge_step dv (Handled p now) br = handle dv p now br"
| "bridge_step dv Pumped br = snd (pump br)"
| "bridge_step dv (Ticked now) br = tick dv now br"
| "bridge_step dv (Dropped now) br = on_disconnect now br"
| "bridge_step dv (InputLayer f) br =
     br\<lparr>br_state := fst (f (br_state br) (br_queue br)), br_queue := snd (f (br_state br) (br_queue br))\<rparr>"
| "bridge_step dv (Outside f) br = br\<lparr>br_world := f (br_world br)\<rparr>"

text \<open>A Hello that is understood ends the session before it, like a lost connection.\<close>

definition is_hello :: "bytes \<Rightarrow> bool" where
  "is_hello p = (case decode_message p of
      None \<Rightarrow> False
    | Some (env, body) \<Rightarrow> env_cls env = kClassDebug \<and> env_op env = opcode_code Hello \<and> decode_hello body \<noteq> None)"

fun ends_session :: "'w bridge_op \<Rightarrow> bool" where
  "ends_session (Handled p now) = is_hello p"
| "ends_session (Dropped now) = True"
| "ends_session _ = False"

fun asked :: "'w bridge_op \<Rightarrow> u16 multiset" where
  "asked (Handled p now) = (case decode_message p of None \<Rightarrow> {#} | Some (env, _) \<Rightarrow> {#env_req_id env#})"
| "asked _ = {#}"

fun abandoned :: "'w device \<Rightarrow> 'w bridge_op list \<Rightarrow> 'w bridge \<Rightarrow> u16 multiset" where
  "abandoned dv [] br = {#}"
| "abandoned dv (x # xs) br = (if ends_session x then owed br else {#}) + abandoned dv xs (bridge_step dv x br)"

lemma owed_stats [simp]: "owed (br\<lparr>br_stats := st\<rparr>) = owed br"
  by (simp add: owed_def)

lemma ledger_dispatch:
  assumes "sound_device dv"
  shows "ledger (dispatch dv env body now br) +
      (if env_op env = opcode_code Hello \<and> decode_hello body \<noteq> None then owed br else {#}) = ledger br + {#env_req_id env#}"
proof (cases "env_op env = opcode_code Hello")
  case True
  then show ?thesis using ledger_hello [of dv "env_req_id env" body now br]
    by (cases "decode_hello body") (simp_all add: dispatch_def)
next
  case False
  then show ?thesis
    by (simp add: dispatch_def Let_def ledger_capabilities [OF assms] ledger_screen ledger_input ledger_simple ledger_mesh
        del: opcode_code.simps)
qed

lemma ledger_step:
  assumes "sound_device dv"
  shows "ledger (bridge_step dv x br) + (if ends_session x then owed br else {#}) = ledger br + asked x"
proof (cases x)
  case (Handled p now)
  show ?thesis
  proof (cases "decode_message p")
    case None
    then show ?thesis by (simp add: Handled handle_def is_hello_def)
  next
    case (Some a)
    obtain env body where a: "a = (env, body)" by (cases a)
    show ?thesis
      using ledger_dispatch [OF assms, of env body now "br\<lparr>br_stats := (br_stats br)\<lparr>st_requests := st_requests (br_stats br) + 1\<rparr>\<rparr>"] Some
      by (auto simp: Handled handle_def is_hello_def a Let_def simp del: opcode_code.simps)
  qed
next
  case (Dropped now)
  obtain n s q where d: "release_all Remote now (br_state br) (br_queue br) = (n, s, q)" by (metis prod_cases3)
  show ?thesis by (simp add: Dropped on_disconnect_def d ledger_def owed_def)
qed (simp_all add: ledger_pump ledger_tick)

section \<open>A device to try it on\<close>

text \<open>
  A three-byte screen without buttons or a clock to set, and a mesh sink that answers late to a
  forgotten bond and refuses all else. The world is not used.
\<close>

definition demo_mesh :: "unit mesh_sink" where
  "demo_mesh = \<lparr>mk_configure = (\<lambda>_ w. (MeshRejected, w)), mk_disconnect = (\<lambda>w. (MeshRejected, w)),
     mk_forget_bond = (\<lambda>w. (MeshPending, w)), mk_forget_bond_outcome = (\<lambda>w. (MeshAccepted, w)),
     mk_send = (\<lambda>_ _ _ w. (MeshRejected, w)), mk_send_room = (\<lambda>_ _ _ _ w. (MeshRejected, w)),
     mk_send_outcome = (\<lambda>w. (MeshPending, w))\<rparr>"

definition demo_shot :: "bool \<Rightarrow> capture_failure \<Rightarrow> shot" where
  "demo_shot ok why = \<lparr>sh_ok = ok, sh_width = 1, sh_height = 1, sh_format = Rgb888, sh_orientation = 0,
     sh_bytes = 3, sh_why = why\<rparr>"

definition demo_device :: "unit device" where
  "demo_device = \<lparr>dv_capture = (\<lambda>buf w. case buf of
       None \<Rightarrow> (demo_shot False ShapeQuery, [], w)
     | Some b \<Rightarrow> if length b < 3 then (demo_shot False BufferTooSmall, b, w)
                 else (demo_shot True CaptureOk, [1, 2, 3] @ drop 3 b, w)),
     dv_board_id = (\<lambda>_. [100]), dv_build_id = (\<lambda>_. [101]), dv_button_count = (\<lambda>_. 0), dv_buttons = (\<lambda>_. None),
     dv_stable_since = (\<lambda>_ _. True), dv_synchronize = None, dv_mesh = Some demo_mesh\<rparr>"

lemma demo_device_sound: "sound_device demo_device"
  by (auto simp: sound_device_def demo_device_def demo_shot_def split: if_splits)

definition demo_bridge :: "unit bridge" where
  "demo_bridge = new_bridge new_input_queue new_input_state () (Some (replicate 8 0)) default_bridge_limits"

text \<open>
  C8. Every request is answered exactly once. Over any history of messages, pumps, ticks,
  disconnections and outside events, the ids of the replies sent, with the ids still owed a late
  answer and those whose session ended first, are exactly the ids of the requests that arrived,
  each as often as it was asked; nothing else is ever sent as an answer.
\<close>
theorem every_request_is_answered_once:
  assumes "sound_device dv"
  shows "answered (br_out (run_ops (bridge_step dv) ops br)) + owed (run_ops (bridge_step dv) ops br) + abandoned dv ops br =
    answered (br_out br) + owed br + sum_list (map asked ops)"
proof (induction ops arbitrary: br)
  case (Cons x xs)
  show ?case using Cons.IH [of "bridge_step dv x br"] ledger_step [OF assms, of x br]
    by (simp add: ledger_def ac_simps)
qed simp

lemma every_request_is_answered_once_witness:
  "let ops = [Handled (payload 7 MeshForgetBond []) 0, Ticked 5]; b = run_ops (bridge_step demo_device) ops demo_bridge
   in answered (br_out b) + owed b + abandoned demo_device ops demo_bridge = {#7#}"
proof -
  have "asked (Handled (payload 7 MeshForgetBond []) 0) = {#7#}" by (simp add: decode_payload)
  then show ?thesis
    using every_request_is_answered_once [OF demo_device_sound, of "[Handled (payload 7 MeshForgetBond []) 0, Ticked 5]" demo_bridge]
    by (simp add: Let_def demo_bridge_def new_bridge_def owed_def no_pending_def answered_def del: run_ops.simps abandoned.simps)
qed

end
