(* ===== verification/Bridge_Input.thy ===== *)
theory Bridge_Input
  imports Bridge_Replies
begin

text \<open>
  The input side of the debug bridge: \<open>handle_input\<close> with its rollback when the queue is full, and
  the expiry of holds in \<open>tick\<close>.
\<close>

section \<open>An input request happens whole or not at all\<close>

text \<open>What an observer of the input state can see: who holds each button, where the pointer was last, and its finger.\<close>

definition held_view :: "input_state \<Rightarrow> input_origin option list \<times> u16 \<times> u16 \<times> (u8 \<times> input_origin) option" where
  "held_view s =
     (map (\<lambda>i. if button_held s ! i then Some (button_by s ! i) else None) [0..<unat kMaxButtons],
      pointer_x s, pointer_y s, if pointer_down s then Some (pointer_touch_id s, pointer_by s) else None)"

text \<open>A finger that is down is one the interface knows.\<close>

definition touch_ok :: "input_state \<Rightarrow> bool" where
  "touch_ok s \<longleftrightarrow> (pointer_down s \<longrightarrow> pointer_touch_id s < kMaxTouchPoints)"

lemma apply_event_touch: "touch_ok s \<Longrightarrow> touch_ok (snd (apply_event e n s))"
  by (auto simp: touch_ok_def apply_event_def Let_def not_le split: input_event_type.splits)

lemma new_input_state_touch: "touch_ok new_input_state"
  by (simp add: touch_ok_def new_input_state_def)

lemma unat_less_kMaxButtons: "b < kMaxButtons \<Longrightarrow> unat b < 3"
  by (simp add: word_less_nat_alt)

lemma undo_event_view:
  assumes "input_inv s" and "touch_ok s" and "apply_event e n s = (True, s')" and "ev_origin e = Remote"
    and "ev_type e = PointerUp \<or> ev_type e = PointerMove \<Longrightarrow> pointer_down s \<Longrightarrow> pointer_by s = Remote"
  shows "held_view (undo_event e (pointer_x s) (pointer_y s) n s') = held_view s"
    and "input_inv (undo_event e (pointer_x s) (pointer_y s) n s')" and "touch_ok (undo_event e (pointer_x s) (pointer_y s) n s')"
proof -
  have i: "input_inv s'" "touch_ok s'" using apply_event_inv [OF assms(1), of e n] apply_event_touch [OF assms(2), of e n] assms(3) by simp_all
  show "input_inv (undo_event e (pointer_x s) (pointer_y s) n s')" "touch_ok (undo_event e (pointer_x s) (pointer_y s) n s')"
    using i by (auto simp: undo_event_def Let_def apply_event_inv apply_event_touch split: input_event_type.split)
  obtain a b c where h: "button_held s = [a, b, c]" using assms(1) by (auto simp: input_inv_def numeral_3_eq_3 length_Suc_conv)
  obtain p q r where o: "button_by s = [p, q, r]" using assms(1) by (auto simp: input_inv_def numeral_3_eq_3 length_Suc_conv)
  have b: "unat (ev_button e) = 0 \<or> unat (ev_button e) = Suc 0 \<or> unat (ev_button e) = Suc (Suc 0)" if "\<not> kMaxButtons \<le> ev_button e"
    using unat_less_kMaxButtons [of "ev_button e"] that by (auto simp: not_le)
  note defs = undo_event_def apply_event_def held_view_def Let_def
  show "held_view (undo_event e (pointer_x s) (pointer_y s) n s') = held_view s"
  proof (cases "ev_type e")
    case ButtonDown
    with assms(3) have d: "\<not> n \<le> ev_button e" "\<not> kMaxButtons \<le> ev_button e" "\<not> button_held s ! unat (ev_button e)"
      "s' = s\<lparr>button_held := (button_held s)[unat (ev_button e) := True], button_by := (button_by s)[unat (ev_button e) := Remote]\<rparr>"
      using assms(4) by (auto simp: apply_event_def Let_def split: if_splits)
    from b [OF d(2)] show ?thesis using ButtonDown d assms(4)
      by (elim disjE) (simp_all add: defs h o upt_rec numeral_3_eq_3)
  next
    case ButtonUp
    with assms(3) have d: "\<not> n \<le> ev_button e" "\<not> kMaxButtons \<le> ev_button e" "button_held s ! unat (ev_button e)"
      "button_by s ! unat (ev_button e) = Remote"
      "s' = s\<lparr>button_held := (button_held s)[unat (ev_button e) := False]\<rparr>"
      using assms(4) by (auto simp: apply_event_def Let_def split: if_splits)
    from b [OF d(2)] show ?thesis using ButtonUp d assms(4)
      by (elim disjE) (simp_all add: defs h o upt_rec numeral_3_eq_3)
  next
    case PointerDown
    with assms(3) have d: "\<not> kMaxTouchPoints \<le> ev_touch_id e" "\<not> pointer_down s"
      "s' = s\<lparr>pointer_down := True, pointer_touch_id := ev_touch_id e, pointer_x := ev_x e, pointer_y := ev_y e, pointer_by := ev_origin e\<rparr>"
      by (auto simp: apply_event_def Let_def split: if_splits)
    then show ?thesis using PointerDown by (simp add: defs)
  next
    case PointerMove
    with assms(3) have d: "pointer_down s" "ev_touch_id e = pointer_touch_id s" "s' = s\<lparr>pointer_x := ev_x e, pointer_y := ev_y e\<rparr>"
      by (auto simp: apply_event_def Let_def split: if_splits)
    then show ?thesis using PointerMove by (simp add: defs)
  next
    case PointerUp
    with assms(3) have d: "pointer_down s" "ev_touch_id e = pointer_touch_id s"
      "s' = s\<lparr>pointer_down := False, pointer_x := ev_x e, pointer_y := ev_y e\<rparr>"
      by (auto simp: apply_event_def Let_def split: if_splits)
    moreover have "\<not> kMaxTouchPoints \<le> pointer_touch_id s" "pointer_by s = Remote"
      using d assms(2,5) PointerUp by (auto simp: touch_ok_def not_le)
    ultimately show ?thesis using PointerUp assms(4) by (simp add: defs)
  qed
qed

text \<open>
  What an input request may do: nothing but answer with an error, or put the event in the queue
  and in the state and answer that it did. In both cases one message goes out.
\<close>

definition input_untouched :: "'w bridge \<Rightarrow> 'w bridge \<Rightarrow> bool" where
  "input_untouched br br' \<longleftrightarrow> iq_abs (br_queue br') = iq_abs (br_queue br) \<and> held_view (br_state br') = held_view (br_state br) \<and>
     br_button_down_at br' = br_button_down_at br \<and> br_pointer_down_at br' = br_pointer_down_at br"

definition injected :: "u16 \<Rightarrow> u8 \<Rightarrow> u32 \<Rightarrow> input_event \<Rightarrow> 'w bridge \<Rightarrow> 'w bridge \<Rightarrow> bool" where
  "injected r n now e br br' \<longleftrightarrow>
     ev_origin e = Remote \<and> apply_event e n (br_state br) = (True, br_state br') \<and>
     iq_abs (br_queue br') = iq_abs (br_queue br) @ [e] \<and>
     br_button_down_at br' = (if ev_type e = ButtonDown then (br_button_down_at br)[unat (ev_button e) := now] else br_button_down_at br) \<and>
     br_pointer_down_at br' = (if ev_type e = PointerDown then now else br_pointer_down_at br) \<and>
     br_out br' = br_out br @ [payload r InputOk []]"

definition input_ok :: "'w bridge \<Rightarrow> bool" where
  "input_ok br \<longleftrightarrow> iq_inv (br_queue br) \<and> input_inv (br_state br) \<and> touch_ok (br_state br)"

definition refused :: "u16 \<Rightarrow> 'w bridge \<Rightarrow> 'w bridge \<Rightarrow> bool" where
  "refused r br br' \<longleftrightarrow> input_untouched br br' \<and>
     (\<exists>code. br_out br' = br_out br @ [payload r OpError (put_u16 (error_code_number code))])"

lemma refused_error:
  assumes "br_queue br1 = br_queue br" "br_state br1 = br_state br" "br_button_down_at br1 = br_button_down_at br"
    "br_pointer_down_at br1 = br_pointer_down_at br" "br_out br1 = br_out br" "input_ok br"
  shows "refused r br (send_error r code br1)" "refused r br (send_error r code (count_refused br1))"
    "input_ok (send_error r code br1)" "input_ok (send_error r code (count_refused br1))"
  using assms by (auto simp: refused_def input_untouched_def input_ok_def send_error_eq count_refused_def count_error_def)

lemma applied_button: "apply_event e n s = (True, s') \<Longrightarrow> ev_type e = ButtonDown \<Longrightarrow> ev_button e < kMaxButtons"
  by (auto simp: apply_event_def Let_def not_le split: if_splits)

lemma inject_whole:
  assumes "input_ok br" and "ev_origin e = Remote"
    and "ev_type e = PointerUp \<or> ev_type e = PointerMove \<Longrightarrow> pointer_down (br_state br) \<Longrightarrow> pointer_by (br_state br) = Remote"
  shows "input_ok (inject dv r e now br) \<and>
    (refused r br (inject dv r e now br) \<or> injected r (dv_button_count dv (br_world br)) now e br (inject dv r e now br))"
proof -
  let ?n = "dv_button_count dv (br_world br)"
  have inv: "iq_inv (br_queue br)" "input_inv (br_state br)" "touch_ok (br_state br)" using assms(1) by (simp_all add: input_ok_def)
  obtain ok s where a: "apply_event e ?n (br_state br) = (ok, s)" by (cases "apply_event e ?n (br_state br)")
  obtain pushed q where p: "iq_push e (br_queue br) = (pushed, q)" by (cases "iq_push e (br_queue br)")
  show ?thesis
  proof (cases ok)
    case False
    then show ?thesis using refused_error [of br br] assms(1) by (simp add: inject_def Let_def a)
  next
    case ok: True
    have q: "iq_inv q" using iq_push_inv [OF inv(1), of e] p by simp
    show ?thesis
    proof (cases pushed)
      case False
      have full: "iq_abs q = iq_abs (br_queue br)"
        using fst_iq_push [OF inv(1), of e] iq_abs_push [OF inv(1), of e] p False by simp
      note u = undo_event_view [OF inv(2,3) a [unfolded ok [THEN iffD2 [OF eq_True]]] assms(2,3), simplified]
      have "refused r br (inject dv r e now br)" using ok False full u
        by (simp add: inject_def Let_def a p refused_def input_untouched_def send_error_eq count_refused_def count_error_def
            del: error_code_number.simps) blast
      moreover have "input_ok (inject dv r e now br)" using ok False u q
        by (simp add: inject_def Let_def a p input_ok_def send_error_eq count_refused_def count_error_def)
      ultimately show ?thesis by blast
    next
      case True
      have push: "iq_abs q = iq_abs (br_queue br) @ [e]"
        using fst_iq_push [OF inv(1), of e] iq_abs_push [OF inv(1), of e] p True by simp
      have s: "input_inv s" "touch_ok s"
        using apply_event_inv [OF inv(2), of e ?n] apply_event_touch [OF inv(3), of e ?n] a by simp_all
      have b: "ev_type e = ButtonDown \<Longrightarrow> ev_button e < kMaxButtons" using applied_button [of e ?n] a ok by simp
      have "injected r ?n now e br (inject dv r e now br)" using ok True a p push b assms(2)
        by (auto simp: inject_def Let_def injected_def send_reply)
      moreover have "input_ok (inject dv r e now br)" using ok True a p q s
        by (auto simp: inject_def Let_def input_ok_def send_reply)
      ultimately show ?thesis by blast
    qed
  qed
qed

lemma rate_allows_other:
  "rate_allows now br = (b, br1) \<Longrightarrow> br_queue br1 = br_queue br \<and> br_state br1 = br_state br \<and> br_world br1 = br_world br \<and>
     br_button_down_at br1 = br_button_down_at br \<and> br_pointer_down_at br1 = br_pointer_down_at br \<and> br_out br1 = br_out br \<and>
     br_transfer br1 = br_transfer br \<and> br_frame br1 = br_frame br \<and> br_limits br1 = br_limits br"
  by (auto simp: rate_allows_def Let_def split: if_splits)

text \<open>Both verdicts look only at the input side of where they start.\<close>

lemma refused_cong:
  assumes "br_queue a = br_queue b" "br_state a = br_state b" "br_button_down_at a = br_button_down_at b"
    "br_pointer_down_at a = br_pointer_down_at b" "br_out a = br_out b"
  shows "refused r a c = refused r b c"
  using assms by (simp add: refused_def input_untouched_def)

lemma injected_cong:
  assumes "br_queue a = br_queue b" "br_state a = br_state b" "br_button_down_at a = br_button_down_at b"
    "br_pointer_down_at a = br_pointer_down_at b" "br_out a = br_out b"
  shows "injected r n now e a c = injected r n now e b c"
  using assms by (simp add: injected_def)

text \<open>
  C21. An input request happens whole or not at all. From a bridge whose queue and input state
  are well formed, the request sends one message. Either it is an error, and then the queue
  holds the same events, every button and the pointer are held by whoever held them, the
  pointer is where it was and no hold timer moved, even where the state machine had taken the
  event before the queue refused it; or it is the confirmation, and then one remote event was
  accepted by the state machine and stands at the end of the queue, and its hold timer starts
  now. The bridge stays well formed.
\<close>
theorem input_is_atomic:
  assumes "input_ok br"
  shows "input_ok (handle_input dv r body now br) \<and>
    (refused r br (handle_input dv r body now br) \<or>
     (\<exists>e w. injected r (dv_button_count dv w) now e br (handle_input dv r body now br)))"
proof (cases "decode_input_event body")
  case None
  then show ?thesis using refused_error [of br br r BadBody] assms by (simp add: handle_input_def)
next
  case (Some b)
  let ?e = "requested_event b now"
  obtain ok br1 where r: "rate_allows now br = (ok, br1)" by (cases "rate_allows now br")
  obtain sh x w where c: "dv_capture dv None (br_world br1) = (sh, x, w)" by (metis prod_cases3)
  obtain out br2 where o: "(if is_pointer_event ?e then (off_screen ?e sh, br1\<lparr>br_world := w\<rparr>) else (False, br1)) = (out, br2)" by fastforce
  have same: "br_queue br1 = br_queue br" "br_state br1 = br_state br" "br_button_down_at br1 = br_button_down_at br"
    "br_pointer_down_at br1 = br_pointer_down_at br" "br_out br1 = br_out br" using rate_allows_other [OF r] by simp_all
  then have same2: "br_queue br2 = br_queue br" "br_state br2 = br_state br" "br_button_down_at br2 = br_button_down_at br"
    "br_pointer_down_at br2 = br_pointer_down_at br" "br_out br2 = br_out br" using o by (auto split: if_splits)
  have e: "ev_origin ?e = Remote" by (simp add: requested_event_def)
  note h = handle_input_def Some option.case r prod.case c Let_def o
  define Q where "Q = (\<lambda>b'. input_ok b' \<and> (refused r br b' \<or> (\<exists>e w. injected r (dv_button_count dv w) now e br b')))"
  have err: "Q (send_error r code br)" "Q (send_error r code (count_refused br1))" "Q (send_error r code (count_refused br2))" for code
    using refused_error [of br br r code] refused_error [OF same assms, of r code] refused_error [OF same2 assms, of r code] assms
    by (simp_all add: Q_def)
  have "input_ok br2" using assms same2 by (simp add: input_ok_def)
  from inject_whole [OF this e, of dv r now]
  have inj: "Q (inject dv r ?e now br2)"
    if "\<not> ((ev_type ?e = PointerUp \<or> ev_type ?e = PointerMove) \<and> pointer_down (br_state br2) \<and> pointer_by (br_state br2) \<noteq> Remote)"
    unfolding Q_def using that same2 refused_cong [OF same2] injected_cong [OF same2] by metis
  have "Q (handle_input dv r body now br)" unfolding h using err inj by simp
  then show ?thesis by (simp add: Q_def)
qed

lemma demo_bridge_ok: "input_ok demo_bridge"
  by (simp add: input_ok_def demo_bridge_def new_bridge_def new_input_queue_inv new_input_state_inv new_input_state_touch)

lemma input_is_atomic_witness:
  "let b = handle_input demo_device 1 (replicate 11 0) 5 demo_bridge
   in input_ok b \<and> (refused 1 demo_bridge b \<or> (\<exists>e w. injected 1 (dv_button_count demo_device w) 5 e demo_bridge b))"
  unfolding Let_def by (rule input_is_atomic [OF demo_bridge_ok])

section \<open>A crashed client holds nothing for long\<close>

lemma push_full: "iq_inv q \<Longrightarrow> iq_push e q = (False, q') \<Longrightarrow> iq_count q' = kInputCapacity \<and> iq_inv q' \<and> iq_abs q' = iq_abs q"
  using iq_abs_push [of q e] iq_push_inv [of q e] by (auto simp: iq_push_def split: if_splits)

lemma push_grows: "iq_inv q \<Longrightarrow> iq_push e q = (b, q') \<Longrightarrow> iq_inv q' \<and> iq_count q \<le> iq_count q'"
  using iq_push_inv [of q e] by (auto simp: iq_push_def split: if_splits)

text \<open>What one expiry may do: lift holds, and add to the queue.\<close>

definition expires :: "'w bridge \<Rightarrow> 'w bridge \<Rightarrow> bool" where
  "expires br br' \<longleftrightarrow> input_ok br' \<and> iq_count (br_queue br) \<le> iq_count (br_queue br') \<and>
     br_button_down_at br' = br_button_down_at br \<and> br_pointer_down_at br' = br_pointer_down_at br \<and> br_limits br' = br_limits br \<and>
     button_by (br_state br') = button_by (br_state br) \<and> pointer_by (br_state br') = pointer_by (br_state br) \<and>
     (\<forall>i < 3. button_held (br_state br') ! i \<longrightarrow> button_held (br_state br) ! i) \<and>
     (\<forall>i < 3. button_by (br_state br) ! i = Physical \<longrightarrow> button_held (br_state br') ! i = button_held (br_state br) ! i) \<and>
     (pointer_down (br_state br') \<longrightarrow> pointer_down (br_state br)) \<and>
     (pointer_by (br_state br) = Physical \<longrightarrow> pointer_down (br_state br') = pointer_down (br_state br))"

lemma expires_refl: "input_ok br \<Longrightarrow> expires br br"
  by (simp add: expires_def)

lemma expires_trans: "expires a b \<Longrightarrow> expires b c \<Longrightarrow> expires a c"
  by (auto simp: expires_def)

text \<open>Still held too long.\<close>

definition overdue :: "u32 \<Rightarrow> nat \<Rightarrow> 'w bridge \<Rightarrow> bool" where
  "overdue now i br \<longleftrightarrow> button_held (br_state br) ! i \<and> button_by (br_state br) ! i = Remote \<and>
     now - br_button_down_at br ! i > max_hold_ms (br_limits br)"

definition pointer_overdue :: "u32 \<Rightarrow> 'w bridge \<Rightarrow> bool" where
  "pointer_overdue now br \<longleftrightarrow> pointer_down (br_state br) \<and> pointer_by (br_state br) = Remote \<and>
     now - br_pointer_down_at br > max_hold_ms (br_limits br)"

definition queue_full :: "'w bridge \<Rightarrow> bool" where
  "queue_full br \<longleftrightarrow> iq_count (br_queue br) = kInputCapacity"

lemma expires_full: "expires br br' \<Longrightarrow> queue_full br \<Longrightarrow> queue_full br'"
  using iq_inv_bound [of "br_queue br'"] by (auto simp: expires_def queue_full_def input_ok_def)

lemma expires_overdue: "expires br br' \<Longrightarrow> i < 3 \<Longrightarrow> overdue now i br' \<Longrightarrow> overdue now i br"
  by (auto simp: expires_def overdue_def)

lemma small_button: "i < 3 \<Longrightarrow> unat (of_nat i :: u8) = i \<and> (of_nat i :: u8) < kMaxButtons"
  by (simp add: unat_of_nat take_bit_nat_eq_self word_less_nat_alt)

lemma expire_button_expires:
  assumes "input_ok br" and "i < 3"
  shows "expires br (expire_button now i br)" and "overdue now i (expire_button now i br) \<Longrightarrow> queue_full (expire_button now i br)"
proof -
  let ?up = "blank_event\<lparr>ev_type := ButtonUp, ev_origin := Remote, ev_button := of_nat i, ev_at_ms := now\<rparr>"
  let ?s = "br_state br"
  have inv: "iq_inv (br_queue br)" "input_inv ?s" "touch_ok ?s" using assms(1) by (simp_all add: input_ok_def)
  have len: "i < length (button_held ?s)" using inv(2) assms(2) by (simp add: input_inv_def)
  note b = small_button [OF assms(2)]
  have o: "button_down (of_nat i) ?s \<and> button_origin (of_nat i) ?s = Remote \<and> now - br_button_down_at br ! i > max_hold_ms (br_limits br)
      \<longleftrightarrow> overdue now i br"
    using b by (simp add: button_down_def button_origin_def overdue_def)
  obtain p q where p: "iq_push ?up (br_queue br) = (p, q)" by (cases "iq_push ?up (br_queue br)")
  note grow = push_grows [OF inv(1) p]
  have a: "apply_event ?up kMaxButtons ?s = (True, ?s\<lparr>button_held := (button_held ?s)[i := False]\<rparr>)" if "overdue now i br"
    using that b by (simp add: apply_event_def overdue_def not_le)
  have keep: "input_inv (?s\<lparr>button_held := (button_held ?s)[i := False]\<rparr>)" "touch_ok (?s\<lparr>button_held := (button_held ?s)[i := False]\<rparr>)"
    using inv by (simp_all add: input_inv_def touch_ok_def)
  have held: "(button_held ?s)[i := False] ! j \<longrightarrow> button_held ?s ! j" for j
    by (cases "j = i") (use len in auto)
  consider (idle) "\<not> overdue now i br" | (full) "overdue now i br" "\<not> p" | (up) "overdue now i br" p by blast
  then have "expires br (expire_button now i br) \<and> (overdue now i (expire_button now i br) \<longrightarrow> queue_full (expire_button now i br))"
  proof cases
    case idle
    then show ?thesis using assms(1) by (simp add: expire_button_def o expires_refl)
  next
    case full
    then show ?thesis using push_full [OF inv(1), of ?up q] p grow inv
      by (simp add: expire_button_def o expires_def input_ok_def queue_full_def)
  next
    case up
    then have "expire_button now i br = count_expired (br\<lparr>br_queue := q, br_state := ?s\<lparr>button_held := (button_held ?s)[i := False]\<rparr>\<rparr>)"
      using a by (simp add: expire_button_def o p Let_def)
    moreover have "\<not> overdue now i (br\<lparr>br_queue := q, br_state := ?s\<lparr>button_held := (button_held ?s)[i := False]\<rparr>\<rparr>)"
      using len by (simp add: overdue_def)
    moreover have "button_by ?s ! j = Physical \<Longrightarrow> (button_held ?s)[i := False] ! j = button_held ?s ! j" for j
      using up by (cases "j = i") (simp_all add: overdue_def)
    ultimately show ?thesis using grow keep held
      by (auto simp: expires_def input_ok_def count_expired_def overdue_def)
  qed
  then show "expires br (expire_button now i br)" "overdue now i (expire_button now i br) \<Longrightarrow> queue_full (expire_button now i br)" by simp_all
qed

lemma expire_pointer_expires:
  assumes "input_ok br"
  shows "expires br (expire_pointer now br)" and "pointer_overdue now (expire_pointer now br) \<Longrightarrow> queue_full (expire_pointer now br)"
proof -
  let ?s = "br_state br"
  let ?up = "blank_event\<lparr>ev_type := PointerUp, ev_origin := Remote, ev_x := pointer_x ?s, ev_y := pointer_y ?s,
                   ev_touch_id := pointer_touch_id ?s, ev_at_ms := now\<rparr>"
  have inv: "iq_inv (br_queue br)" "input_inv ?s" "touch_ok ?s" using assms by (simp_all add: input_ok_def)
  obtain p q where p: "iq_push ?up (br_queue br) = (p, q)" by (cases "iq_push ?up (br_queue br)")
  note grow = push_grows [OF inv(1) p]
  have a: "apply_event ?up kMaxButtons ?s = (True, ?s\<lparr>pointer_down := False\<rparr>)" if "pointer_down ?s"
    using that by (simp add: apply_event_def)
  have keep: "input_inv (?s\<lparr>pointer_down := False\<rparr>)" "touch_ok (?s\<lparr>pointer_down := False\<rparr>)"
    using inv by (simp_all add: input_inv_def touch_ok_def)
  consider (idle) "\<not> pointer_overdue now br" | (full) "pointer_overdue now br" "\<not> p" | (up) "pointer_overdue now br" p by blast
  then have "expires br (expire_pointer now br) \<and> (pointer_overdue now (expire_pointer now br) \<longrightarrow> queue_full (expire_pointer now br))"
  proof cases
    case idle
    then have "expire_pointer now br = br" by (auto simp: expire_pointer_def pointer_overdue_def Let_def)
    then show ?thesis using assms idle by (simp add: expires_refl)
  next
    case full
    then have "expire_pointer now br = br\<lparr>br_queue := q\<rparr>" by (simp add: expire_pointer_def pointer_overdue_def Let_def p)
    then show ?thesis using push_full [OF inv(1), of ?up q] p grow inv full
      by (simp add: expires_def input_ok_def queue_full_def)
  next
    case up
    then have "expire_pointer now br = count_expired (br\<lparr>br_queue := q, br_state := ?s\<lparr>pointer_down := False\<rparr>\<rparr>)"
      using a by (simp add: expire_pointer_def pointer_overdue_def p Let_def)
    then show ?thesis using grow keep up
      by (auto simp: expires_def input_ok_def count_expired_def pointer_overdue_def)
  qed
  then show "expires br (expire_pointer now br)" "pointer_overdue now (expire_pointer now br) \<Longrightarrow> queue_full (expire_pointer now br)" by simp_all
qed

text \<open>The late answers leave the input side alone.\<close>

definition input_side :: "'w bridge \<Rightarrow> input_queue \<times> input_state \<times> u32 list \<times> u32 \<times> bridge_limits" where
  "input_side br = (br_queue br, br_state br, br_button_down_at br, br_pointer_down_at br, br_limits br)"

lemma mesh_answer_input_side: "input_side (mesh_answer r result b) = input_side b"
  by (simp add: mesh_answer_def send_error_eq count_error_def send_reply input_side_def)

lemma late_input_side: "input_side (answer_forget dv b) = input_side b" "input_side (answer_send dv b) = input_side b"
  by (auto simp: answer_forget_def answer_send_def Let_def mesh_answer_input_side split: option.split prod.split bool.split)
    (simp_all add: input_side_def)

lemma answers_input_side: "input_side (answer_send dv (answer_forget dv br)) = input_side br"
  by (simp add: late_input_side)

lemma input_side_eq: "input_side b = input_side b' \<Longrightarrow>
    (input_ok b \<longleftrightarrow> input_ok b') \<and> (expires b c \<longleftrightarrow> expires b' c)"
  by (simp add: input_side_def input_ok_def expires_def)

lemma expires_ok: "expires a b \<Longrightarrow> input_ok b"
  by (simp add: expires_def)

text \<open>
  A crashed client holds nothing for long. A tick lifts every button and the finger that a
  remote has held for longer than the limit, by the difference of the wrapping clocks, or else
  leaves the input queue full so that it is tried again; it never touches what a person holds,
  presses nothing, forgets no timer and drops no queued event.
\<close>
theorem tick_expires_holds:
  assumes "input_ok br"
  shows "expires br (tick dv now br) \<and>
    ((\<exists>i<3. overdue now i (tick dv now br)) \<or> pointer_overdue now (tick dv now br) \<longrightarrow> queue_full (tick dv now br))"
proof -
  define b where "b = answer_send dv (answer_forget dv br)"
  define b0 where "b0 = expire_button now 0 b"
  define b1 where "b1 = expire_button now 1 b0"
  define b2 where "b2 = expire_button now 2 b1"
  have t: "tick dv now br = expire_pointer now b2"
    by (simp add: tick_def b2_def b1_def b0_def b_def upt_rec numeral_3_eq_3 numeral_2_eq_2)
  note side = input_side_eq [OF answers_input_side [of dv br, folded b_def]]
  have "input_ok b" using side assms by blast
  then have e0: "expires b b0" "overdue now 0 b0 \<Longrightarrow> queue_full b0" using expire_button_expires [of b 0 now] by (simp_all add: b0_def)
  then have e1: "expires b0 b1" "overdue now 1 b1 \<Longrightarrow> queue_full b1"
    using expire_button_expires [OF expires_ok [OF e0(1)], of 1 now] by (simp_all add: b1_def)
  then have e2: "expires b1 b2" "overdue now 2 b2 \<Longrightarrow> queue_full b2"
    using expire_button_expires [OF expires_ok [OF e1(1)], of 2 now] by (simp_all add: b2_def)
  have e3: "expires b2 (tick dv now br)" "pointer_overdue now (tick dv now br) \<Longrightarrow> queue_full (tick dv now br)"
    using expire_pointer_expires [OF expires_ok [OF e2(1)], of now] by (simp_all add: t)
  note r13 = expires_trans [OF e2(1) e3(1)]
  note r03 = expires_trans [OF e1(1) r13]
  have "queue_full (tick dv now br)" if "i < 3" "overdue now i (tick dv now br)" for i
    using that expires_full [OF r03] expires_full [OF r13] expires_full [OF e3(1)] e0(2) e1(2) e2(2)
      expires_overdue [OF r03] expires_overdue [OF r13] expires_overdue [OF e3(1)] three_cases [OF that(1)]
    by (metis one_less_numeral_iff semiring_norm(77) numeral_3_eq_3 zero_less_Suc lessI numeral_2_eq_2)
  then show ?thesis using e3(2) side expires_trans [OF e0(1) r03] by blast
qed

lemma tick_expires_holds_witness:
  "let b = tick demo_device 40000 demo_bridge
   in expires demo_bridge b \<and> ((\<exists>i<3. overdue 40000 i b) \<or> pointer_overdue 40000 b \<longrightarrow> queue_full b)"
  unfolding Let_def by (rule tick_expires_holds [OF demo_bridge_ok])

end
