(* ===== verification/Bridge_Transfer.thy ===== *)
theory Bridge_Transfer
  imports Bridge_Input
begin

text \<open>
  Screen transfers of the debug bridge: \<open>handle_screen\<close> and \<open>pump\<close>, against a receiver that
  reassembles the frame.
\<close>

section \<open>A screen transfer delivers the frame\<close>

text \<open>The messages a transfer has still to send, in order.\<close>

function transfer_messages :: "u16 \<Rightarrow> u32 \<Rightarrow> bytes \<Rightarrow> nat \<Rightarrow> nat \<Rightarrow> bytes list" where
  "transfer_messages r frame_id frame tot sent =
     (if sent \<ge> tot then [payload r ScreenEnd (put_u32 frame_id)]
      else
        let n = (if tot - sent < kChunkBytes then tot - sent else kChunkBytes)
        in payload r ScreenData (put_u32 (of_nat sent) @ take n (drop sent frame)) #
           transfer_messages r frame_id frame tot (sent + n))"
  by pat_completeness auto
termination
  by (relation "measure (\<lambda>(r, i, f, tot, sent). tot - sent)") (auto simp: kChunkBytes_def kMaxBody_def kEnvelopeBytes_def)

declare transfer_messages.simps [simp del]

definition transfer_rest :: "'w bridge \<Rightarrow> bytes list" where
  "transfer_rest br =
     (let t = br_transfer br in
      if tr_active t
      then transfer_messages (tr_req_id t) (tr_frame_id t) (case br_frame br of None \<Rightarrow> [] | Some f \<Rightarrow> f) (tr_total t) (tr_sent t)
      else [])"

lemma transfer_rest_active: "transfer_rest br \<noteq> [] \<longleftrightarrow> tr_active (br_transfer br)"
  by (auto simp: transfer_rest_def Let_def) (subst (asm) transfer_messages.simps, auto simp: Let_def split: if_splits)

lemma chunk_fits: "length (put_u32 a @ take (if n < kChunkBytes then n else kChunkBytes) f) \<le> kMaxBody"
  using pump_body .

lemma length_put_u32_max: "length (put_u32 a) \<le> kMaxBody"
  by simp

lemma pump_sends_next:
  assumes "tr_active (br_transfer br)"
  shows "br_out (snd (pump br)) = br_out br @ [hd (transfer_rest br)] \<and> transfer_rest (snd (pump br)) = tl (transfer_rest br) \<and>
    (fst (pump br) \<longleftrightarrow> tl (transfer_rest br) \<noteq> [])"
proof (cases "tr_sent (br_transfer br) \<ge> tr_total (br_transfer br)")
  case True
  then show ?thesis using assms
    by (simp add: pump_def Let_def transfer_rest_def transfer_messages.simps [of _ _ _ "tr_total (br_transfer br)" "tr_sent (br_transfer br)"]
        send_reply [OF length_put_u32_max])
next
  case False
  let ?t = "br_transfer br"
  let ?n = "if tr_total ?t - tr_sent ?t < kChunkBytes then tr_total ?t - tr_sent ?t else kChunkBytes"
  let ?f = "case br_frame br of None \<Rightarrow> [] | Some f \<Rightarrow> f"
  have p: "snd (pump br) = br\<lparr>br_out := br_out br @ [payload (tr_req_id ?t) ScreenData (put_u32 (of_nat (tr_sent ?t)) @ take ?n (drop (tr_sent ?t) ?f))],
      br_transfer := ?t\<lparr>tr_sent := tr_sent ?t + ?n\<rparr>\<rparr>" and m: "fst (pump br)"
    using False assms unfolding pump_def Let_def by (simp_all add: send_reply [OF chunk_fits])
  have r: "transfer_rest br = payload (tr_req_id ?t) ScreenData (put_u32 (of_nat (tr_sent ?t)) @ take ?n (drop (tr_sent ?t) ?f)) #
      transfer_messages (tr_req_id ?t) (tr_frame_id ?t) ?f (tr_total ?t) (tr_sent ?t + ?n)"
    using False assms by (simp add: transfer_rest_def Let_def transfer_messages.simps [of _ _ _ "tr_total ?t" "tr_sent ?t"])
  have "transfer_rest (snd (pump br)) = tl (transfer_rest br)"
    unfolding r p using assms by (simp add: transfer_rest_def Let_def)
  moreover have "transfer_messages q i f t s \<noteq> []" for q i f t s
    by (subst transfer_messages.simps) (simp add: Let_def)
  ultimately show ?thesis using m unfolding r p by simp
qed

lemma transfer_messages_end: "transfer_messages r i f t t = [payload r ScreenEnd (put_u32 i)]"
  by (subst transfer_messages.simps) simp

text \<open>The receiving end: data in order of its offsets, then the end of that frame.\<close>

fun receive :: "u32 \<Rightarrow> bytes \<Rightarrow> bytes list \<Rightarrow> bytes option" where
  "receive frame_id acc [] = None"
| "receive frame_id acc (p # ps) =
     (case decode_message p of
        None \<Rightarrow> None
      | Some (env, body) \<Rightarrow>
          if env_op env = opcode_code ScreenData \<and> get_u32 body = of_nat (length acc)
          then receive frame_id (acc @ drop 4 body) ps
          else if env_op env = opcode_code ScreenEnd \<and> ps = [] \<and> get_u32 body = frame_id then Some acc
          else None)"

lemma receive_messages:
  assumes "tot \<le> length frame" and "sent \<le> tot"
  shows "receive i (take sent frame) (transfer_messages r i frame tot sent) = Some (take tot frame) \<and>
    length (transfer_messages r i frame tot sent) = (tot - sent + 177) div 178 + 1"
  using assms
proof (induction r i frame tot sent rule: transfer_messages.induct)
  case (1 r i frame tot sent)
  show ?case
  proof (cases "sent \<ge> tot")
    case True
    then show ?thesis using 1(3)
      by (simp add: transfer_messages_end decode_payload)
  next
    case False
    define n where "n = (if tot - sent < kChunkBytes then tot - sent else kChunkBytes)"
    have n: "sent + n \<le> tot" "0 < n" "n \<le> 178" using False by (auto simp: n_def kChunkBytes_def kMaxBody_def kEnvelopeBytes_def)
    have k: "length (put_u32 (of_nat sent) @ take n (drop sent frame)) \<le> kMaxBody"
      unfolding n_def by (rule chunk_fits)
    have acc: "take sent frame @ take n (drop sent frame) = take (sent + n) frame" by (simp add: take_add)
    have len: "length (take sent frame) = sent" using 1(2,3) by simp
    have split: "tot - sent = n + (tot - (sent + n))" using n by simp
    have "n < 178 \<Longrightarrow> tot = sent + n" using False by (simp add: n_def kChunkBytes_def kMaxBody_def kEnvelopeBytes_def split: if_splits)
    then have count: "(tot - sent + 177) div 178 = Suc ((tot - (sent + n) + 177) div 178)"
      using n split by (cases "n < 178") auto
    have step: "transfer_messages r i frame tot sent =
        payload r ScreenData (put_u32 (of_nat sent) @ take n (drop sent frame)) # transfer_messages r i frame tot (sent + n)"
      using False by (subst transfer_messages.simps) (simp add: n_def Let_def)
    show ?thesis using 1(1) [OF False n_def 1(2) n(1)]
      unfolding step count by (simp add: decode_payload [OF k] acc len del: length_append length_take)
  qed
qed

text \<open>Nothing but a pump or the end of the session moves a transfer.\<close>

definition transfer_side :: "'w bridge \<Rightarrow> transfer \<times> bytes option" where
  "transfer_side br = (br_transfer br, br_frame br)"

lemma transfer_side_other [simp]:
  "transfer_side (br\<lparr>br_queue := q\<rparr>) = transfer_side br" "transfer_side (br\<lparr>br_state := s\<rparr>) = transfer_side br"
  "transfer_side (br\<lparr>br_world := w\<rparr>) = transfer_side br"
  "transfer_side (br\<lparr>br_stats := st\<rparr>) = transfer_side br" 
  "transfer_side (br\<lparr>br_forget := a1\<rparr>) = transfer_side br" "transfer_side (br\<lparr>br_sending := a2\<rparr>) = transfer_side br"
  "transfer_side (br\<lparr>br_button_down_at := b\<rparr>) = transfer_side br" "transfer_side (br\<lparr>br_pointer_down_at := p\<rparr>) = transfer_side br"
  "transfer_side (br\<lparr>br_rate_window_start_ms := a\<rparr>) = transfer_side br" "transfer_side (br\<lparr>br_rate_window_count := c\<rparr>) = transfer_side br"
  "transfer_side (br\<lparr>br_out := out\<rparr>) = transfer_side br"
  by (simp_all add: transfer_side_def)

lemma transfer_side_send [simp]: "transfer_side (send_message env body br) = transfer_side br"
  by (simp add: send_message_def split: option.split)

lemma transfer_side_counts [simp]: "transfer_side (count_error br) = transfer_side br" "transfer_side (count_refused br) = transfer_side br"
    "transfer_side (count_expired br) = transfer_side br" "transfer_side (send_error r code br) = transfer_side br"
  by (simp_all add: count_error_def count_refused_def count_expired_def send_error_def)

lemma transfer_side_rate: "rate_allows now br = (b, br') \<Longrightarrow> transfer_side br' = transfer_side br"
  using rate_allows_other by (auto simp: transfer_side_def)

lemma transfer_side_inject [simp]: "transfer_side (inject dv r e now br) = transfer_side br"
  by (simp add: inject_def Let_def split: prod.split)

lemma transfer_side_input [simp]: "transfer_side (handle_input dv r body now br) = transfer_side br"
proof (cases "decode_input_event body")
  case (Some incoming)
  obtain ok br1 where r: "rate_allows now br = (ok, br1)" by (cases "rate_allows now br")
  obtain sh x w where c: "dv_capture dv None (br_world br1) = (sh, x, w)" by (metis prod_cases3)
  obtain out br2 where o: "(if is_pointer_event (requested_event incoming now)
      then (off_screen (requested_event incoming now) sh, br1\<lparr>br_world := w\<rparr>) else (False, br1)) = (out, br2)" by fastforce
  have "transfer_side br1 = transfer_side br" using transfer_side_rate [OF r] .
  moreover have "transfer_side br2 = transfer_side br1" using o by (auto split: if_splits)
  ultimately show ?thesis
    unfolding handle_input_def Some option.case r prod.case c Let_def o by simp
qed (simp add: handle_input_def)

lemma transfer_side_mesh_answer [simp]: "transfer_side (mesh_answer r result br) = transfer_side br"
  by (simp add: mesh_answer_def)

lemma transfer_side_requests [simp]:
  "transfer_side (handle_capabilities dv r br) = transfer_side br"
  "transfer_side (handle_input_reset r now br) = transfer_side br"
  "transfer_side (handle_wait_stable dv r body br) = transfer_side br"
  "transfer_side (handle_time_sync dv r body br) = transfer_side br"
  "transfer_side (handle_mesh_configure dv r body br) = transfer_side br"
  "transfer_side (handle_mesh_disconnect dv r body br) = transfer_side br"
  unfolding handle_capabilities_def handle_input_reset_def handle_wait_stable_def handle_time_sync_def handle_mesh_configure_def
      handle_mesh_disconnect_def Let_def by (simp_all split: option.split prod.split)

lemma transfer_side_mesh [simp]:
  "transfer_side (handle_mesh_forget_bond dv r body br) = transfer_side br"
  "transfer_side (handle_mesh_send dv r body br) = transfer_side br"
  "transfer_side (handle_mesh_room_send dv r body br) = transfer_side br"
  unfolding handle_mesh_forget_bond_def handle_mesh_send_def handle_mesh_room_send_def Let_def
  by (simp_all split: option.split prod.split)

lemma transfer_side_late [simp]: "transfer_side (answer_forget dv br) = transfer_side br" "transfer_side (answer_send dv br) = transfer_side br"
  unfolding answer_forget_def answer_send_def Let_def by (simp_all split: option.split prod.split bool.split)

lemma transfer_side_expire [simp]: "transfer_side (expire_button now i br) = transfer_side br" "transfer_side (expire_pointer now br) = transfer_side br"
  by (auto simp: expire_button_def expire_pointer_def Let_def split: prod.split)

lemma transfer_side_expire_all [simp]: "transfer_side (fold (expire_button now) xs br) = transfer_side br"
  by (induction xs arbitrary: br) simp_all

lemma transfer_side_tick [simp]: "transfer_side (tick dv now br) = transfer_side br"
  by (simp add: tick_def)

lemma transfer_side_dispatch:
  assumes "tr_active (br_transfer br)" and "\<not> (env_op env = opcode_code Hello \<and> decode_hello body \<noteq> None)"
  shows "transfer_side (dispatch dv env body now br) = transfer_side br"
proof -
  have "transfer_side (handle_screen dv r now br) = transfer_side br" for r using assms(1) by (simp add: handle_screen_def)
  moreover have "decode_hello body = None \<Longrightarrow> transfer_side (handle_hello dv r body now br) = transfer_side br" for r
    by (simp add: handle_hello_def)
  ultimately show ?thesis using assms(2) by (simp add: dispatch_def Let_def del: opcode_code.simps)
qed

lemma transfer_side_step:
  assumes "tr_active (br_transfer br)" and "\<not> ends_session x" and "x \<noteq> Pumped"
  shows "transfer_side (bridge_step dv x br) = transfer_side br"
proof (cases x)
  case (Handled p now)
  show ?thesis
  proof (cases "decode_message p")
    case (Some a)
    obtain env body where a: "a = (env, body)" by (cases a)
    let ?br = "br\<lparr>br_stats := (br_stats br)\<lparr>st_requests := st_requests (br_stats br) + 1\<rparr>\<rparr>"
    have "env_cls env = kClassDebug \<Longrightarrow> transfer_side (dispatch dv env body now ?br) = transfer_side ?br"
      using assms(1,2) Some by (intro transfer_side_dispatch) (auto simp: Handled is_hello_def a simp del: opcode_code.simps)
    then show ?thesis by (simp add: Handled handle_def Some a Let_def)
  qed (simp add: Handled handle_def)
qed (use assms in simp_all)

text \<open>What the pumps of a history send.\<close>

fun pump_trace :: "'w device \<Rightarrow> 'w bridge_op list \<Rightarrow> 'w bridge \<Rightarrow> bytes list" where
  "pump_trace dv [] br = []"
| "pump_trace dv (x # xs) br =
     (case x of Pumped \<Rightarrow> drop (length (br_out br)) (br_out (snd (pump br))) | _ \<Rightarrow> []) @
     pump_trace dv xs (bridge_step dv x br)"

definition pumps :: "'w bridge_op list \<Rightarrow> nat" where
  "pumps ops = length (filter (\<lambda>x. case x of Pumped \<Rightarrow> True | _ \<Rightarrow> False) ops)"

lemma transfer_rest_side: "transfer_side a = transfer_side b \<Longrightarrow> transfer_rest a = transfer_rest b"
  by (simp add: transfer_side_def transfer_rest_def Let_def)

lemma transfer_runs:
  assumes "list_all (\<lambda>x. \<not> ends_session x) ops" and "pumps ops < length (transfer_rest br)"
  shows "pump_trace dv ops br = take (pumps ops) (transfer_rest br) \<and>
    transfer_rest (run_ops (bridge_step dv) ops br) = drop (pumps ops) (transfer_rest br)"
  using assms
proof (induction ops arbitrary: br)
  case (Cons x xs)
  have act: "tr_active (br_transfer br)" using Cons.prems(2) transfer_rest_active [of br] by auto
  then obtain m ms where r: "transfer_rest br = m # ms" using transfer_rest_active [of br] by (cases "transfer_rest br") auto
  show ?case
  proof (cases "x = Pumped")
    case True
    have "pumps xs < length (transfer_rest (bridge_step dv x br))"
      using Cons.prems(2) pump_sends_next [OF act] True by (simp add: pumps_def r)
    from Cons.IH [OF _ this] Cons.prems(1) pump_sends_next [OF act] True show ?thesis
      by (simp add: pumps_def r)
  next
    case False
    then have "transfer_rest (bridge_step dv x br) = transfer_rest br"
      using transfer_side_step [OF act _ False, of dv] Cons.prems(1) by (intro transfer_rest_side) simp
    moreover have p: "pumps (x # xs) = pumps xs" using False by (cases x) (simp_all add: pumps_def)
    moreover have "pump_trace dv (x # xs) br = pump_trace dv xs (bridge_step dv x br)" using False by (cases x) simp_all
    moreover have "list_all (\<lambda>x. \<not> ends_session x) xs" using Cons.prems(1) by simp
    ultimately show ?thesis using Cons.IH [of "bridge_step dv x br"] Cons.prems(2) by (simp only: run_ops.simps)
  qed
qed (simp add: pumps_def)

lemma pump_trace_append: "pump_trace dv (xs @ ys) br = pump_trace dv xs br @ pump_trace dv ys (run_ops (bridge_step dv) xs br)"
  by (induction xs arbitrary: br) simp_all

lemma tl_drop_nonempty: "tl (drop k xs) \<noteq> [] \<longleftrightarrow> Suc k < length xs"
  by (simp add: tl_drop not_le flip: drop_Suc)

text \<open>An accepted request for the screen announces the frame and leaves the whole of it to send.\<close>

lemma screen_accepted:
  assumes "sound_device dv" and "\<not> tr_active (br_transfer br)" and "tr_active (br_transfer (handle_screen dv r now br))"
  obtains image info where "br_out (handle_screen dv r now br) = br_out br @ [payload r ScreenInfo (the (encode_screen_info info kScreenInfoBodyBytes))]"
    and "si_total_bytes info = of_nat (length image)" and "si_crc32 info = crc32 image 0" and "si_at_ms info = now"
    and "length image \<le> (case br_frame br of None \<Rightarrow> 0 | Some f \<Rightarrow> length f)"
    and "receive (si_frame_id info) [] (transfer_rest (handle_screen dv r now br)) = Some image"
    and "length (transfer_rest (handle_screen dv r now br)) = (length image + 177) div 178 + 1"
proof -
  have keep: "br_transfer (send_error q c b) = br_transfer b" for q c and b :: "'a bridge"
    by (simp add: send_error_eq count_error_def)
  obtain frame where f: "br_frame br = Some frame" using assms(2,3) by (cases "br_frame br") (auto simp: handle_screen_def keep)
  obtain shape y w1 where c1: "dv_capture dv None (br_world br) = (shape, y, w1)" by (metis prod_cases3)
  obtain sh frame' w2 where c2: "dv_capture dv (Some frame) w1 = (sh, frame', w2)" by (metis prod_cases3)
  have ok: "sh_ok sh" "sh_bytes sh \<noteq> 0" "frame \<noteq> []" "\<not> length frame < sh_bytes shape"
    using assms(2,3) by (auto simp: handle_screen_def f c1 c2 keep Let_def split: if_splits)
  have len: "length frame' = length frame" "sh_bytes sh \<le> length frame" using assms(1) c2 ok(1) unfolding sound_device_def by blast+
  define info where "info = \<lparr>si_frame_id = br_next_frame_id br, si_width = sh_width sh, si_height = sh_height sh, si_format = sh_format sh,
      si_orientation = sh_orientation sh, si_total_bytes = of_nat (sh_bytes sh), si_crc32 = crc32 (take (sh_bytes sh) frame') 0, si_at_ms = now\<rparr>"
  have l: "length (the (encode_screen_info i kScreenInfoBodyBytes)) \<le> kMaxBody"
    "(case encode_screen_info i kScreenInfoBodyBytes of None \<Rightarrow> [] | Some out \<Rightarrow> out) = the (encode_screen_info i kScreenInfoBodyBytes)" for i
    by (simp_all add: encode_screen_info_def kScreenInfoBodyBytes_def kMaxBody_def kEnvelopeBytes_def)
  have eq: "handle_screen dv r now br = br\<lparr>br_world := w2, br_frame := Some frame', br_next_frame_id := br_next_frame_id br + 1,
      br_out := br_out br @ [payload r ScreenInfo (the (encode_screen_info info kScreenInfoBodyBytes))],
      br_transfer := \<lparr>tr_active = True, tr_req_id = r, tr_sent = 0, tr_total = sh_bytes sh, tr_frame_id = br_next_frame_id br\<rparr>\<rparr>"
    using assms(2) ok unfolding handle_screen_def f option.case c1 c2 prod.case Let_def
    by (simp add: info_def l(2) send_reply [OF l(1)])
  have rest: "transfer_rest (handle_screen dv r now br) = transfer_messages r (br_next_frame_id br) frame' (sh_bytes sh) 0"
    by (simp add: eq transfer_rest_def)
  note m = receive_messages [of "sh_bytes sh" frame' 0 "br_next_frame_id br" r]
  have out: "br_out (handle_screen dv r now br) = br_out br @ [payload r ScreenInfo (the (encode_screen_info info kScreenInfoBodyBytes))]"
    by (simp add: eq)
  have id: "si_frame_id info = br_next_frame_id br" by (simp add: info_def)
  show thesis
    by (rule that [of info "take (sh_bytes sh) frame'"], rule out) (use len m in \<open>simp_all add: info_def rest f\<close>)
qed

text \<open>
  C9. A screen transfer delivers the frame. When a request for the screen is accepted, the reply
  states the size and the checksum of an image that fits the frame buffer, and what is left to
  send is that image: a receiver that wants its chunks in order of their offsets, closed by the
  end of that very frame, gets exactly it, in one message per 178 bytes and one more. Then
  whatever else happens short of the end of the session - more requests, other captures, input,
  ticks - the pumps send exactly these messages in order, and the transfer is over with the last.
\<close>
theorem screen_transfer_delivers:
  assumes "sound_device dv" and "\<not> tr_active (br_transfer br)" and "tr_active (br_transfer (handle_screen dv r now br))"
    and "length (case br_frame br of None \<Rightarrow> [] | Some f \<Rightarrow> f) < 2 ^ 32"
    and "list_all (\<lambda>x. \<not> ends_session x) ops" and "pumps ops < length (transfer_rest (handle_screen dv r now br))"
  shows "\<exists>image info body.
    br_out (handle_screen dv r now br) = br_out br @ [payload r ScreenInfo body] \<and> decode_screen_info body = Some info \<and>
    unat (si_total_bytes info) = length image \<and> si_crc32 info = crc32 image 0 \<and>
    receive (si_frame_id info) [] (transfer_rest (handle_screen dv r now br)) = Some image \<and>
    length (transfer_rest (handle_screen dv r now br)) = (length image + 177) div 178 + 1 \<and>
    pump_trace dv (ops @ [Pumped]) (handle_screen dv r now br) = take (pumps ops + 1) (transfer_rest (handle_screen dv r now br)) \<and>
    (tr_active (br_transfer (run_ops (bridge_step dv) (ops @ [Pumped]) (handle_screen dv r now br))) \<longleftrightarrow>
      pumps ops + 1 < length (transfer_rest (handle_screen dv r now br)))"
proof -
  let ?b = "handle_screen dv r now br"
  obtain image info where s: "br_out ?b = br_out br @ [payload r ScreenInfo (the (encode_screen_info info kScreenInfoBodyBytes))]"
    "si_total_bytes info = of_nat (length image)" "si_crc32 info = crc32 image 0" "si_at_ms info = now"
    "length image \<le> (case br_frame br of None \<Rightarrow> 0 | Some f \<Rightarrow> length f)"
    "receive (si_frame_id info) [] (transfer_rest ?b) = Some image" "length (transfer_rest ?b) = (length image + 177) div 178 + 1"
    using screen_accepted [OF assms(1-3)] by blast
  have d: "decode_screen_info (the (encode_screen_info info kScreenInfoBodyBytes)) = Some info"
    using screen_info_roundtrip(1) [of info kScreenInfoBodyBytes] by (simp add: encode_screen_info_def)
  have "length image < 2 ^ 32" using s(5) assms(4) by (auto split: option.splits)
  then have u: "unat (si_total_bytes info) = length image" by (simp add: s(2) unat_of_nat take_bit_nat_eq_self)
  note t = transfer_runs [OF assms(5,6), of dv]
  let ?c = "run_ops (bridge_step dv) ops ?b"
  have rest: "transfer_rest ?c \<noteq> []" using t assms(6) by simp
  then have act: "tr_active (br_transfer ?c)" by (simp add: transfer_rest_active)
  note p = pump_sends_next [OF act]
  have "pump_trace dv (ops @ [Pumped]) ?b = take (pumps ops + 1) (transfer_rest ?b)"
    using t p assms(6) rest unfolding pump_trace_append by (simp add: take_Suc_conv_app_nth hd_drop_conv_nth)
  moreover have "tr_active (br_transfer (snd (pump ?c))) \<longleftrightarrow> pumps ops + 1 < length (transfer_rest ?b)"
    using t p unfolding transfer_rest_active [symmetric] by (simp add: tl_drop_nonempty)
  moreover have "run_ops (bridge_step dv) (ops @ [Pumped]) ?b = snd (pump ?c)" by (simp add: run_ops_append)
  ultimately show ?thesis using s(1,3,6,7) d u by metis
qed

lemma screen_transfer_delivers_witness:
  "let b = handle_screen demo_device 9 100 demo_bridge
   in length (transfer_rest b) = 2 \<and> pump_trace demo_device [Pumped, Ticked 101, Pumped] b = transfer_rest b \<and>
      \<not> tr_active (br_transfer (run_ops (bridge_step demo_device) [Pumped, Ticked 101, Pumped] b))"
proof -
  let ?b = "handle_screen demo_device 9 100 demo_bridge"
  have idle: "\<not> tr_active (br_transfer demo_bridge)" "length (case br_frame demo_bridge of None \<Rightarrow> [] | Some f \<Rightarrow> f) < 2 ^ 32"
    by (simp_all add: demo_bridge_def new_bridge_def no_transfer_def)
  have act: "tr_active (br_transfer ?b)" "tr_total (br_transfer ?b) = 3" "tr_sent (br_transfer ?b) = 0"
    by (simp_all add: handle_screen_def demo_bridge_def new_bridge_def no_transfer_def demo_device_def demo_shot_def Let_def)
  then have len: "length (transfer_rest ?b) = 2"
    by (simp add: transfer_rest_def Let_def transfer_messages.simps [of _ _ _ "3" 0] transfer_messages_end
        kChunkBytes_def kMaxBody_def kEnvelopeBytes_def)
  then show ?thesis
    using screen_transfer_delivers [OF demo_device_sound idle(1) act(1) idle(2), of "[Pumped, Ticked 101]"]
    by (simp add: Let_def pumps_def del: pump_trace.simps run_ops.simps) blast
qed

end
