(* ===== verification/Position.thy ===== *)
theory Position
  imports Clock
begin

text \<open>
  What a receiver reports and how old or poor it may be before it stops being a position:
  \<open>core/include/attadipa/core/motion.h\<close>, \<open>core/src/motion.cpp\<close>,
  \<open>core/include/attadipa/core/position.h\<close> and \<open>core/src/position.cpp\<close>. Degrees, altitudes
  and other signed fields are integers in the range of their C++ type.
\<close>

section \<open>Which body a sensor speaks for\<close>

datatype sensor_body = BodyUnknown | Watch | Node | CompanionBody

fun sensor_body_to_string :: "sensor_body \<Rightarrow> string" where
  "sensor_body_to_string BodyUnknown = ''Unknown''"
| "sensor_body_to_string Watch = ''Watch''"
| "sensor_body_to_string Node = ''Node''"
| "sensor_body_to_string CompanionBody = ''Companion''"

record motion_evidence =
  me_body :: sensor_body
  me_known :: bool
  me_moving :: bool

definition no_motion_evidence :: motion_evidence where
  "no_motion_evidence = \<lparr>me_body = BodyUnknown, me_known = False, me_moving = False\<rparr>"

definition speaks_for :: "sensor_body \<Rightarrow> motion_evidence \<Rightarrow> bool" where
  "speaks_for about m \<longleftrightarrow> me_known m \<and> about \<noteq> BodyUnknown \<and> me_body m = about"

definition says_at_rest :: "sensor_body \<Rightarrow> motion_evidence \<Rightarrow> bool" where
  "says_at_rest about m \<longleftrightarrow> speaks_for about m \<and> \<not> me_moving m"

definition says_in_motion :: "sensor_body \<Rightarrow> motion_evidence \<Rightarrow> bool" where
  "says_in_motion about m \<longleftrightarrow> speaks_for about m \<and> me_moving m"

definition is_coherent :: "motion_evidence \<Rightarrow> bool" where
  "is_coherent m \<longleftrightarrow> \<not> me_known m \<or> me_body m \<noteq> BodyUnknown"

section \<open>An observation\<close>

record geo_position =
  latitude_e7 :: int
  longitude_e7 :: int

definition kLatitudeMaxE7 :: int where "kLatitudeMaxE7 = 900000000"
definition kLongitudeMaxE7 :: int where "kLongitudeMaxE7 = 1800000000"

definition in_range :: "geo_position \<Rightarrow> bool" where
  "in_range p \<longleftrightarrow> latitude_e7 p \<ge> - kLatitudeMaxE7 \<and> latitude_e7 p \<le> kLatitudeMaxE7 \<and>
     longitude_e7 p \<ge> - kLongitudeMaxE7 \<and> longitude_e7 p \<le> kLongitudeMaxE7"

datatype fix_type = FixUnknown | FixNoFix | TimeOnly | TwoD | ThreeD | DeadReckoning

definition kFixTypeCount :: nat where "kFixTypeCount = 6"

datatype position_source =
  SourceUnknown | LocalGnss | NodeGnss | CompanionSource | Manual | Simulated

datatype receiver_indication = Unsupported | IndicationUnknown | IndicationNone | Warning | Critical

record protection_level =
  pl_horizontal_mm :: u32
  pl_vertical_mm :: u32
  pl_valid :: bool

record receiver_native =
  rn_vendor :: u16
  rn_status :: u32
  rn_security :: u32
  rn_interference :: u32

record gnss_observation =
  observed_at :: monotonic
  receiver_time :: "wall_time option"
  receiver_time_valid :: bool
  fix_type :: fix_type
  go_position :: "geo_position option"
  altitude_msl_mm :: "int option"
  altitude_ellipsoid_mm :: "int option"
  speed_mm_s :: "u32 option"
  course_centideg :: "u16 option"
  horizontal_accuracy_mm :: "u32 option"
  vertical_accuracy_mm :: "u32 option"
  speed_accuracy_mm_s :: "u32 option"
  hdop_centi :: "u16 option"
  pdop_centi :: "u16 option"
  satellites_used :: "u8 option"
  satellites_in_view :: "u8 option"
  cn0_max_dbhz :: "u8 option"
  cn0_mean_dbhz :: "u8 option"
  jamming :: receiver_indication
  spoofing :: receiver_indication
  go_protection_level :: "protection_level option"
  go_source :: position_source
  go_native :: receiver_native

definition new_gnss_observation :: gnss_observation where
  "new_gnss_observation =
     \<lparr>observed_at = 0, receiver_time = None, receiver_time_valid = False, fix_type = FixUnknown,
      go_position = None, altitude_msl_mm = None, altitude_ellipsoid_mm = None, speed_mm_s = None,
      course_centideg = None, horizontal_accuracy_mm = None, vertical_accuracy_mm = None,
      speed_accuracy_mm_s = None, hdop_centi = None, pdop_centi = None, satellites_used = None,
      satellites_in_view = None, cn0_max_dbhz = None, cn0_mean_dbhz = None,
      jamming = IndicationUnknown, spoofing = IndicationUnknown, go_protection_level = None,
      go_source = SourceUnknown,
      go_native = \<lparr>rn_vendor = 0, rn_status = 0, rn_security = 0, rn_interference = 0\<rparr>\<rparr>"

section \<open>What an observation is worth\<close>

datatype position_validity = NoFix | Stale | ValidityDegraded | Valid

definition kPositionValidityCount :: nat where "kPositionValidityCount = 4"

record validity_policy =
  stale_after :: millis
  degraded_accuracy_mm :: u32
  degraded_hdop_centi :: u16
  vp_min_satellites :: u8

definition default_validity_policy :: validity_policy where
  "default_validity_policy =
     \<lparr>stale_after = 30000, degraded_accuracy_mm = 25000, degraded_hdop_centi = 500, vp_min_satellites = 4\<rparr>"

text \<open>\<open>opt.has_value() && P(*opt)\<close>, the shape of every test on an optional field.\<close>

definition has_and :: "('a \<Rightarrow> bool) \<Rightarrow> 'a option \<Rightarrow> bool" where
  "has_and P x = (case x of None \<Rightarrow> False | Some v \<Rightarrow> P v)"

lemma has_and_simps [simp]: "\<not> has_and P None" "has_and P (Some v) = P v"
  by (simp_all add: has_and_def)

lemma has_and_iff: "has_and P x \<longleftrightarrow> (\<exists>v. x = Some v \<and> P v)"
  by (cases x) auto

definition classify :: "gnss_observation \<Rightarrow> monotonic \<Rightarrow> validity_policy \<Rightarrow> position_validity" where
  "classify ob now policy =
     (if go_position ob = None \<or> fix_type ob = FixNoFix \<or> fix_type ob = TimeOnly \<or> fix_type ob = FixUnknown
      then NoFix
      else if \<not> in_range (the (go_position ob)) then NoFix
      else if elapsed (observed_at ob) now \<ge> stale_after policy then Stale
      else if fix_type ob = TwoD then ValidityDegraded
      else if fix_type ob = DeadReckoning then ValidityDegraded
      else if satellites_used ob = None \<or> the (satellites_used ob) < vp_min_satellites policy
      then ValidityDegraded
      else if has_and (\<lambda>a. a > degraded_accuracy_mm policy) (horizontal_accuracy_mm ob) then ValidityDegraded
      else if has_and (\<lambda>x. x > degraded_hdop_centi policy) (hdop_centi ob) then ValidityDegraded
      else Valid)"

fun fix_type_to_string :: "fix_type \<Rightarrow> string" where
  "fix_type_to_string FixUnknown = ''Unknown''"
| "fix_type_to_string FixNoFix = ''NoFix''"
| "fix_type_to_string TimeOnly = ''TimeOnly''"
| "fix_type_to_string TwoD = ''TwoD''"
| "fix_type_to_string ThreeD = ''ThreeD''"
| "fix_type_to_string DeadReckoning = ''DeadReckoning''"

fun position_source_to_string :: "position_source \<Rightarrow> string" where
  "position_source_to_string SourceUnknown = ''Unknown''"
| "position_source_to_string LocalGnss = ''LocalGnss''"
| "position_source_to_string NodeGnss = ''NodeGnss''"
| "position_source_to_string CompanionSource = ''Companion''"
| "position_source_to_string Manual = ''Manual''"
| "position_source_to_string Simulated = ''Simulated''"

fun body_of :: "position_source \<Rightarrow> sensor_body" where
  "body_of LocalGnss = Watch"
| "body_of NodeGnss = Node"
| "body_of CompanionSource = CompanionBody"
| "body_of SourceUnknown = BodyUnknown"
| "body_of Manual = BodyUnknown"
| "body_of Simulated = BodyUnknown"

fun receiver_indication_to_string :: "receiver_indication \<Rightarrow> string" where
  "receiver_indication_to_string Unsupported = ''Unsupported''"
| "receiver_indication_to_string IndicationUnknown = ''Unknown''"
| "receiver_indication_to_string IndicationNone = ''None''"
| "receiver_indication_to_string Warning = ''Warning''"
| "receiver_indication_to_string Critical = ''Critical''"

fun position_validity_to_string :: "position_validity \<Rightarrow> string" where
  "position_validity_to_string NoFix = ''NoFix''"
| "position_validity_to_string Stale = ''Stale''"
| "position_validity_to_string ValidityDegraded = ''Degraded''"
| "position_validity_to_string Valid = ''Valid''"

section \<open>Validity only decays\<close>

text \<open>The verdicts in the order of the enumeration: worse is smaller.\<close>

fun validity_rank :: "position_validity \<Rightarrow> nat" where
  "validity_rank NoFix = 0" | "validity_rank Stale = 1" | "validity_rank ValidityDegraded = 2" | "validity_rank Valid = 3"

instantiation position_validity :: linorder
begin

definition less_eq_position_validity :: "position_validity \<Rightarrow> position_validity \<Rightarrow> bool" where
  "less_eq_position_validity a b \<longleftrightarrow> validity_rank a \<le> validity_rank b"

definition less_position_validity :: "position_validity \<Rightarrow> position_validity \<Rightarrow> bool" where
  "less_position_validity a b \<longleftrightarrow> validity_rank a < validity_rank b"

lemma validity_rank_inj: "validity_rank a = validity_rank b \<Longrightarrow> a = b"
  by (cases a; cases b) simp_all

instance
  by standard (auto simp: less_eq_position_validity_def less_position_validity_def intro: validity_rank_inj)

end

text \<open>An observation never becomes better with age: only a new one can.\<close>

lemma classify_decays:
  assumes "now \<le> later"
  shows "classify ob later policy \<le> classify ob now policy"
proof -
  have "elapsed (observed_at ob) now \<le> elapsed (observed_at ob) later" by (rule elapsed_mono [OF assms])
  then show ?thesis by (auto simp: classify_def less_eq_position_validity_def)
qed

text \<open>A position that is not \<open>NoFix\<close> is there and is on the globe.\<close>

lemma classified_in_range:
  "classify ob now policy \<noteq> NoFix \<Longrightarrow> \<exists>p. go_position ob = Some p \<and> in_range p"
  by (auto simp: classify_def split: if_splits)

end
