(* ===== verification/Geo.thy ===== *)
theory Geo
  imports Position
begin

text \<open>
  The integer distance of \<open>core/include/attadipa/core/geo.h\<close> and \<open>core/src/geo.cpp\<close>: a flat
  approximation over 10^-7 degrees with a table of cosines, and an integer square root by
  Newton's iteration. \<open>std::int64_t\<close> values are integers, C++'s truncating division is \<open>sdiv\<close>
  and \<open>smod\<close>, and \<open>distance_arithmetic_fits\<close> shows that none of them leaves its type.
  \<open>initial_bearing\<close> and \<open>great_circle_mm\<close> compute with \<open>double\<close> and the C library's
  trigonometry and are not modelled.
\<close>

section \<open>Integer square root\<close>

text \<open>
  \<open>value / guess\<close> has no value when the guess is zero: \<open>None\<close> is the program that stopped there.
\<close>

definition checked_div :: "u64 \<Rightarrow> u64 \<Rightarrow> u64 option" where
  "checked_div a b = (if b = 0 then None else Some (a div b))"

function (domintros) isqrt_loop :: "u64 \<Rightarrow> u64 \<Rightarrow> u64 \<Rightarrow> u64 option" where
  "isqrt_loop v guess succ =
     (if succ < guess
      then (case checked_div v succ of None \<Rightarrow> None | Some q \<Rightarrow> isqrt_loop v succ ((succ + q) div 2))
      else Some guess)"
  by pat_completeness auto
termination
  by (relation "measure (\<lambda>(v, guess, succ). unat guess)") (auto simp: word_less_unat)

declare isqrt_loop.simps [simp del]

definition isqrt :: "u64 \<Rightarrow> u64 option" where
  "isqrt v = (if v = 0 then Some 0 else isqrt_loop v v ((v + 1) div 2))"

text \<open>Newton's step from any positive guess never undershoots the root.\<close>

lemma newton_not_below:
  fixes g s v :: nat
  assumes "0 < g" and "s * s \<le> v"
  shows "s \<le> (g + v div g) div 2"
proof -
  have "int (2 * s * g) \<le> int (g * g + s * s)"
  proof -
    have "0 \<le> (int g - int s) * (int g - int s)" by simp
    then show ?thesis by (simp add: algebra_simps)
  qed
  then have "2 * s * g \<le> g * g + s * s" by linarith
  then have "2 * s * g \<le> g * g + v" using assms(2) by linarith
  then have "2 * s * g div g \<le> (g * g + v) div g" by (rule div_le_mono)
  then have "2 * s \<le> g + v div g" using assms(1) by simp
  then show ?thesis by simp
qed

text \<open>The invariant of the loop: the guess is at least every root, and \<open>next\<close> is its Newton step.\<close>

definition newton_inv :: "u64 \<Rightarrow> u64 \<Rightarrow> u64 \<Rightarrow> bool" where
  "newton_inv v g n \<longleftrightarrow> 0 < unat g \<and> unat n = (unat g + unat v div unat g) div 2 \<and>
     unat g \<le> unat v \<and> (\<forall>s. s * s \<le> unat v \<longrightarrow> s \<le> unat g)"

lemma newton_sum_fits:
  assumes "0 < g" and "g \<le> v" and "v < 2 ^ 64 - 1"
  shows "g + v div g < (2::nat) ^ 64"
proof (cases "g = 1")
  case True
  then show ?thesis using assms by simp
next
  case False
  then have "v div g \<le> v div 2" using assms by (intro div_le_mono2) auto
  show ?thesis
  proof (cases "2 * g \<le> v")
    case True
    with \<open>v div g \<le> v div 2\<close> assms(3) show ?thesis by linarith
  next
    case False
    then have "v div g \<le> 1" using assms by (metis One_nat_def div_less_iff_less_mult less_Suc_eq_le not_le mult.commute numeral_2_eq_2)
    with assms show ?thesis by linarith
  qed
qed

lemma newton_inv_step:
  assumes "newton_inv v g n" and "n < g" and "unat v < 2 ^ 64 - 1" and "v \<noteq> 0"
  shows "newton_inv v n ((n + v div n) div 2)"
proof -
  from assms(1) have i: "0 < unat g" "unat n = (unat g + unat v div unat g) div 2" "unat g \<le> unat v"
    "\<And>s. s * s \<le> unat v \<Longrightarrow> s \<le> unat g" by (auto simp: newton_inv_def)
  have low: "s \<le> unat n" if "s * s \<le> unat v" for s unfolding i(2) by (rule newton_not_below [OF i(1) that])
  have "1 * 1 \<le> unat v" using assms(4) by (simp add: unat_gt_0 Suc_le_eq)
  from low [OF this] have pos: "0 < unat n" by simp
  have ng: "unat n \<le> unat v" using assms(2) i(3) by (simp add: word_less_unat)
  have "unat (n + v div n) = unat n + unat v div unat n"
    using newton_sum_fits [OF pos ng assms(3)] by (simp add: unat_word_ariths unat_div)
  then have "unat ((n + v div n) div 2) = (unat n + unat v div unat n) div 2" by (simp add: unat_div)
  with pos ng low show ?thesis by (auto simp: newton_inv_def)
qed

definition floor_root :: "u64 \<Rightarrow> u64 \<Rightarrow> bool" where
  "floor_root v r \<longleftrightarrow> unat r * unat r \<le> unat v \<and> unat v < (unat r + 1) * (unat r + 1)"

lemma isqrt_loop_correct:
  assumes "newton_inv v g n" and "unat v < 2 ^ 64 - 1" and "v \<noteq> 0"
  shows "\<exists>r. isqrt_loop v g n = Some r \<and> floor_root v r"
  using assms
proof (induction v g n rule: isqrt_loop.induct)
  case (1 v g n)
  show ?case
  proof (cases "n < g")
    case True
    note inv = newton_inv_step [OF 1(2) True 1(3,4)]
    then have "n \<noteq> 0" by (auto simp: newton_inv_def)
    then have d: "checked_div v n = Some (v div n)" by (simp add: checked_div_def)
    from 1(1) [OF True d inv 1(3,4)] True d show ?thesis by (simp add: isqrt_loop.simps [of v g n])
  next
    case False
    from 1(2) have i: "0 < unat g" "unat n = (unat g + unat v div unat g) div 2"
      "\<And>s. s * s \<le> unat v \<Longrightarrow> s \<le> unat g" by (auto simp: newton_inv_def)
    from False have "unat g \<le> (unat g + unat v div unat g) div 2" using i(2) by (simp add: word_less_unat)
    then have "unat g \<le> unat v div unat g" by linarith
    then have "unat g * unat g \<le> unat v" using i(1)
      by (meson le_trans mult_le_mono2 times_div_less_eq_dividend)
    moreover have "\<not> (unat g + 1) * (unat g + 1) \<le> unat v" using i(3) [of "unat g + 1"] by auto
    ultimately show ?thesis using False by (simp add: isqrt_loop.simps [of v g n] floor_root_def)
  qed
qed

lemma isqrt_floor_root:
  assumes "unat v < 2 ^ 64 - 1"
  shows "\<exists>r. isqrt v = Some r \<and> floor_root v r"
proof (cases "v = 0")
  case True
  then show ?thesis by (simp add: isqrt_def floor_root_def)
next
  case False
  have p: "0 < unat v" using False by (simp add: unat_gt_0)
  have "unat ((v + 1) div 2) = (unat v + unat v div unat v) div 2"
  proof -
    have "v + 1 \<noteq> 0" using assms plus_one_zero [of v] by auto
    then have "unat (v + 1) = unat v + 1" by (rule unat_plus_one)
    with p show ?thesis by (simp add: unat_div)
  qed
  moreover have "s \<le> unat v" if "s * s \<le> unat v" for s
    using le_square [of s] that by linarith
  ultimately have "newton_inv v v ((v + 1) div 2)" using p unfolding newton_inv_def by blast
  from isqrt_loop_correct [OF this assms False] False show ?thesis by (simp add: isqrt_def)
qed

lemma unat_largest: "unat (- 1 :: u64) = 2 ^ 64 - 1"
  by (simp add: unsigned_minus_1_eq_mask mask_eq_exp_minus_1)

lemma isqrt_of_largest: "isqrt (- 1) = None"
proof -
  have "(0 :: u64) < - 1" by (simp add: word_gt_0)
  then show ?thesis by (simp add: isqrt_def isqrt_loop.simps [of "- 1" "- 1"] checked_div_def)
qed

lemma unat_below_largest: "v \<noteq> - 1 \<Longrightarrow> unat v < 2 ^ 64 - 1" for v :: u64
  using unsigned_less [where 'a = nat, of v] unat_largest word_eq_unat [of v "- 1"] by auto

lemma isqrt_loop_ends: "isqrt_loop_dom (w, guess, succ)"
  by (induction "unat guess" arbitrary: guess succ rule: less_induct)
    (rule isqrt_loop.domintros, simp add: word_less_unat)

text \<open>
  C26. The loop of the integer square root always ends, for the guess falls at every turn. For every
  value but one it answers the floor of the root, no sum of Newton's iteration wrapping and no
  division being by zero. The one is the largest value of the type: there \<open>guess + 1\<close> wraps to
  zero before the loop, the first guess of the loop is zero, and the program divides by it.
\<close>
theorem isqrt_is_floor_root:
  "(\<forall>p. isqrt_loop_dom p) \<and>
   (case isqrt v of None \<Rightarrow> unat v = 2 ^ 64 - 1
    | Some r \<Rightarrow> unat v \<noteq> 2 ^ 64 - 1 \<and> unat r * unat r \<le> unat v \<and> unat v < (unat r + 1) * (unat r + 1))"
proof (cases "v = - 1")
  case True
  then show ?thesis using isqrt_loop_ends by (auto simp: isqrt_of_largest unat_largest)
next
  case False
  then have v: "unat v < 2 ^ 64 - 1" by (rule unat_below_largest)
  from isqrt_floor_root [OF this] v isqrt_loop_ends show ?thesis by (auto simp: floor_root_def)
qed

section \<open>Degrees to millimetres\<close>

definition kCosTable1024 :: "nat list" where
  "kCosTable1024 =
    [1024, 1024, 1023, 1023, 1022, 1020, 1018, 1016, 1014, 1011,
     1008, 1005, 1002,  998,  994,  989,  984,  979,  974,  968,
      962,  956,  949,  943,  935,  928,  920,  912,  904,  896,
      887,  878,  868,  859,  849,  839,  828,  818,  807,  796,
      784,  773,  761,  749,  737,  724,  711,  698,  685,  672,
      658,  644,  630,  616,  602,  587,  573,  558,  543,  527,
      512,  496,  481,  465,  449,  433,  416,  400,  384,  367,
      350,  333,  316,  299,  282,  265,  248,  230,  213,  195,
      178,  160,  143,  125,  107,   89,   71,   54,   36,   18,
        0]"

definition kMillimetresPerLatE7Num :: int where "kMillimetresPerLatE7Num = 11132"
definition kMillimetresPerLatE7Den :: int where "kMillimetresPerLatE7Den = 1000"
definition kDistanceSaturated :: u32 where "kDistanceSaturated = 1000000000"
definition kE7PerDegree :: int where "kE7PerDegree = 10000000"
definition kCosScale :: int where "kCosScale = 2 ^ 24"

definition lat_e7_to_mm :: "int \<Rightarrow> int" where
  "lat_e7_to_mm delta = (delta * kMillimetresPerLatE7Num) sdiv kMillimetresPerLatE7Den"

definition cos_magnitude :: "int \<Rightarrow> int" where
  "cos_magnitude lat =
     (let m = (if lat < 0 then - lat else lat)
      in if m > kLatitudeMaxE7 then kLatitudeMaxE7 else m)"

definition cos_weighted :: "int \<Rightarrow> int" where
  "cos_weighted lat =
     (let m = cos_magnitude lat;
          degrees = m sdiv kE7PerDegree;
          frac = m smod kE7PerDegree;
          lower = int (kCosTable1024 ! nat degrees);
          upper = (if degrees < 90 then int (kCosTable1024 ! nat (degrees + 1)) else 0)
      in lower * (kE7PerDegree - frac) + upper * frac)"

definition cos_scaled :: "int \<Rightarrow> int" where
  "cos_scaled lat =
     (cos_weighted lat * (kCosScale sdiv 1024) + kE7PerDegree sdiv 2) sdiv kE7PerDegree"

definition lon_e7_to_mm :: "int \<Rightarrow> int \<Rightarrow> int" where
  "lon_e7_to_mm delta mean_lat = (lat_e7_to_mm delta * cos_scaled mean_lat) sdiv kCosScale"

definition clamp_component :: "int \<Rightarrow> int" where
  "clamp_component mm =
     (let limit = uint kDistanceSaturated
      in if mm > limit then limit else if mm < - limit then - limit else mm)"

definition wrap_longitude :: "int \<Rightarrow> int" where
  "wrap_longitude dlon =
     (let full_turn = 2 * kLongitudeMaxE7
      in if dlon > kLongitudeMaxE7 then dlon - full_turn
         else if dlon < - kLongitudeMaxE7 then dlon + full_turn else dlon)"

text \<open>
  The two components and the distance they span; \<open>None\<close> where the square root would divide by
  zero, which \<open>distance_never_faults\<close> excludes.
\<close>

definition distance_components :: "geo_position \<Rightarrow> geo_position \<Rightarrow> int \<times> int" where
  "distance_components a b =
     (let dlat = latitude_e7 a - latitude_e7 b;
          dlon = wrap_longitude (longitude_e7 a - longitude_e7 b);
          mean_lat = (latitude_e7 a + latitude_e7 b) sdiv 2
      in (clamp_component (lat_e7_to_mm dlat), clamp_component (lon_e7_to_mm dlon mean_lat)))"

definition checked_distance_mm :: "geo_position \<Rightarrow> geo_position \<Rightarrow> u32 option" where
  "checked_distance_mm a b =
     (if \<not> in_range a \<or> \<not> in_range b then Some kDistanceSaturated
      else
        let (dy, dx) = distance_components a b;
            squared = word_of_int (dy * dy) + word_of_int (dx * dx)
        in case isqrt squared of
             None \<Rightarrow> None
           | Some result \<Rightarrow> Some (if result \<ge> ucast kDistanceSaturated then kDistanceSaturated else ucast result))"

definition distance_mm :: "geo_position \<Rightarrow> geo_position \<Rightarrow> u32" where
  "distance_mm a b = the (checked_distance_mm a b)"

section \<open>Truncating division\<close>

lemma sdiv_minus: "(- a) sdiv b = - (a sdiv b)" for a b :: int
  by (simp add: signed_divide_int_def sgn_minus)

lemma sdiv_nonneg: "0 \<le> a \<Longrightarrow> 0 < b \<Longrightarrow> a sdiv b = a div b" for a b :: int
  by (cases "a = 0") (simp_all add: signed_divide_int_def)

lemma smod_nonneg: "0 \<le> a \<Longrightarrow> 0 < b \<Longrightarrow> a smod b = a mod b" for a b :: int
  by (cases "a = 0") (simp_all add: signed_modulo_int_def)

lemma abs_sdiv: "0 < b \<Longrightarrow> \<bar>a sdiv b\<bar> = \<bar>a\<bar> div b" for a b :: int
  by (cases "a = 0") (auto simp: signed_divide_int_def abs_mult abs_sgn_eq pos_imp_zdiv_nonneg_iff)

lemma abs_sdiv_le: "0 < b \<Longrightarrow> \<bar>a\<bar> \<le> c * b \<Longrightarrow> \<bar>a sdiv b\<bar> \<le> c" for a b c :: int
  using zdiv_mono1 [of "\<bar>a\<bar>" "c * b" b] by (simp add: abs_sdiv)

section \<open>The cosine\<close>

lemma cos_table: "k \<le> 90 \<Longrightarrow> kCosTable1024 ! k \<le> 1024"
proof -
  have "list_all (\<lambda>x. x \<le> 1024) kCosTable1024 \<and> length kCosTable1024 = 91" by code_simp
  then show "k \<le> 90 \<Longrightarrow> kCosTable1024 ! k \<le> 1024" by (auto simp: list_all_length)
qed

lemma cos_magnitude_bounds: "0 \<le> cos_magnitude lat" "cos_magnitude lat \<le> 900000000"
  by (auto simp: cos_magnitude_def kLatitudeMaxE7_def Let_def)

lemma cos_weighted_bounds: "0 \<le> cos_weighted lat \<and> cos_weighted lat \<le> 1024 * 10000000"
proof -
  define m where "m = cos_magnitude lat"
  have m: "0 \<le> m" "m \<le> 900000000" using cos_magnitude_bounds by (simp_all add: m_def)
  define f where "f = m mod 10000000"
  have f: "0 \<le> f" "f < 10000000" by (simp_all add: f_def)
  define l where "l = int (kCosTable1024 ! nat (m div 10000000))"
  define u where "u = (if m div 10000000 < 90 then int (kCosTable1024 ! nat (m div 10000000 + 1)) else 0)"
  have lu: "0 \<le> l" "l \<le> 1024" "0 \<le> u" "u \<le> 1024"
    using cos_table [of "nat (m div 10000000)"] cos_table [of "nat (m div 10000000 + 1)"] m
    by (auto simp: l_def u_def)
  have w: "cos_weighted lat = l * (10000000 - f) + u * f"
    using m unfolding cos_weighted_def Let_def kE7PerDegree_def m_def [symmetric]
    by (simp add: sdiv_nonneg smod_nonneg l_def u_def f_def)
  have "l * (10000000 - f) \<le> 1024 * (10000000 - f)" "u * f \<le> 1024 * f"
    using mult_right_mono [of l 1024 "10000000 - f"] mult_right_mono [of u 1024 f] lu f by simp_all
  then have "cos_weighted lat \<le> 1024 * (10000000 - f) + 1024 * f" unfolding w by (rule add_mono)
  moreover have "0 \<le> cos_weighted lat" unfolding w using lu f by (simp add: add_nonneg_nonneg)
  ultimately show ?thesis by (simp add: algebra_simps)
qed

lemma cos_scaled_bounds: "0 \<le> cos_scaled lat \<and> cos_scaled lat \<le> kCosScale"
proof -
  define w where "w = cos_weighted lat"
  have w: "0 \<le> w" "w \<le> 10240000000" using cos_weighted_bounds [of lat] by (simp_all add: w_def)
  have c: "kCosScale sdiv 1024 = 16384" "kE7PerDegree sdiv 2 = 5000000"
    by (simp_all add: kCosScale_def kE7PerDegree_def sdiv_nonneg)
  have "cos_scaled lat = (w * 16384 + 5000000) div 10000000"
    using w by (simp add: cos_scaled_def c w_def kE7PerDegree_def sdiv_nonneg)
  moreover have "(w * 16384 + 5000000) div 10000000 \<le> 16777216" using w by linarith
  moreover have "0 \<le> (w * 16384 + 5000000) div 10000000" using w by linarith
  ultimately show ?thesis by (simp add: kCosScale_def)
qed

section \<open>The components\<close>

lemma clamp_component_minus: "clamp_component (- x) = - clamp_component x"
  by (auto simp: clamp_component_def Let_def kDistanceSaturated_def)

lemma clamp_component_bound: "\<bar>clamp_component x\<bar> \<le> 1000000000"
  by (auto simp: clamp_component_def Let_def kDistanceSaturated_def)

lemma wrap_longitude_minus: "wrap_longitude (- x) = - wrap_longitude x"
  by (auto simp: wrap_longitude_def Let_def kLongitudeMaxE7_def)

lemma lat_e7_to_mm_minus: "lat_e7_to_mm (- x) = - lat_e7_to_mm x"
  by (simp add: lat_e7_to_mm_def sdiv_minus)

lemma lon_e7_to_mm_minus: "lon_e7_to_mm (- x) m = - lon_e7_to_mm x m"
  by (simp add: lon_e7_to_mm_def lat_e7_to_mm_minus sdiv_minus)

lemma distance_components_swap:
  "distance_components b a = (- fst (distance_components a b), - snd (distance_components a b))"
proof -
  have "latitude_e7 b - latitude_e7 a = - (latitude_e7 a - latitude_e7 b)"
    "longitude_e7 b - longitude_e7 a = - (longitude_e7 a - longitude_e7 b)"
    "latitude_e7 b + latitude_e7 a = latitude_e7 a + latitude_e7 b" by simp_all
  then show ?thesis unfolding distance_components_def Let_def
    by (simp only: wrap_longitude_minus lat_e7_to_mm_minus lon_e7_to_mm_minus clamp_component_minus fst_conv snd_conv)
qed

lemma squares_fit:
  assumes "\<bar>dy\<bar> \<le> 1000000000" and "\<bar>dx\<bar> \<le> 1000000000"
  shows "unat (word_of_int (dy * dy) + word_of_int (dx * dx) :: u64) = nat (dy * dy + dx * dx)"
    and "0 \<le> dy * dy + dx * dx" and "dy * dy + dx * dx \<le> 2000000000000000000"
proof -
  have *: "0 \<le> d * d \<and> d * d \<le> 1000000000000000000" if "\<bar>d\<bar> \<le> 1000000000" for d :: int
    using mult_mono [OF that that] by (simp add: abs_mult_self_eq)
  from * [OF assms(1)] * [OF assms(2)]
  show b: "0 \<le> dy * dy + dx * dx" "dy * dy + dx * dx \<le> 2000000000000000000" by simp_all
  have "word_of_int (dy * dy) + word_of_int (dx * dx) = (word_of_int (dy * dy + dx * dx) :: u64)" by simp
  then show "unat (word_of_int (dy * dy) + word_of_int (dx * dx) :: u64) = nat (dy * dy + dx * dx)"
    using b by (simp only: unsigned_of_int) (simp add: take_bit_int_eq_self)
qed

section \<open>The distance\<close>

lemma distance_components_bound:
  "\<bar>fst (distance_components a b)\<bar> \<le> 1000000000" "\<bar>snd (distance_components a b)\<bar> \<le> 1000000000"
  by (simp_all add: distance_components_def Let_def clamp_component_bound)

lemma distance_mm_cases:
  assumes "in_range a" and "in_range b" and "distance_components a b = (dy, dx)"
  shows "checked_distance_mm a b = Some (distance_mm a b)"
    and "\<exists>r. r * r \<le> nat (dy * dy + dx * dx) \<and> nat (dy * dy + dx * dx) < (r + 1) * (r + 1) \<and>
     unat (distance_mm a b) = min r (unat kDistanceSaturated)"
proof -
  have bd: "\<bar>dy\<bar> \<le> 1000000000" "\<bar>dx\<bar> \<le> 1000000000"
    using distance_components_bound [of a b] assms(3) by simp_all
  define q :: u64 where "q = word_of_int (dy * dy) + word_of_int (dx * dx)"
  note f = squares_fit [OF bd, folded q_def]
  have "unat q < 2 ^ 64 - 1" using f by simp
  then obtain r where r: "isqrt q = Some r" "floor_root q r" using isqrt_floor_root by blast
  have le: "ucast kDistanceSaturated \<le> r \<longleftrightarrow> 1000000000 \<le> unat r"
    by (simp add: word_le_unat kDistanceSaturated_def)
  have u: "unat (ucast r :: u32) = unat r" if "unat r < 1000000000"
    using that by (simp add: unsigned_ucast_eq take_bit_nat_eq_self)
  have eq: "checked_distance_mm a b = Some (if ucast kDistanceSaturated \<le> r then kDistanceSaturated else ucast r)"
    using assms r(1) unfolding q_def checked_distance_mm_def by (simp add: Let_def)
  then have "unat (distance_mm a b) = min (unat r) (unat kDistanceSaturated)"
    using u unfolding distance_mm_def eq option.sel le by (auto simp: kDistanceSaturated_def)
  with r(2) f(1) eq show "checked_distance_mm a b = Some (distance_mm a b)"
    "\<exists>r. r * r \<le> nat (dy * dy + dx * dx) \<and> nat (dy * dy + dx * dx) < (r + 1) * (r + 1) \<and>
     unat (distance_mm a b) = min r (unat kDistanceSaturated)"
    by (simp add: distance_mm_def, intro exI [of _ "unat r"]) (auto simp: floor_root_def)
qed

lemma distance_never_faults: "checked_distance_mm a b = Some (distance_mm a b)"
proof (cases "in_range a \<and> in_range b")
  case True
  then show ?thesis using distance_mm_cases(1) [of a b "fst (distance_components a b)" "snd (distance_components a b)"] by simp
next
  case False
  then show ?thesis by (auto simp: distance_mm_def checked_distance_mm_def)
qed

lemma distance_off_the_globe: "\<not> (in_range a \<and> in_range b) \<Longrightarrow> distance_mm a b = kDistanceSaturated"
  by (auto simp: distance_mm_def checked_distance_mm_def)

text \<open>
  Between two positions on the globe the distance is the floor of the length of its two
  components, saturated at a thousand kilometres. It is the same from either end, it is zero
  between a position and itself, and a position off the globe is as far as anything can be.
\<close>
theorem distance_is_floor_of_length:
  "(\<forall>dy dx. in_range a \<and> in_range b \<and> distance_components a b = (dy, dx) \<longrightarrow>
     (\<exists>r. r * r \<le> nat (dy * dy + dx * dx) \<and> nat (dy * dy + dx * dx) < (r + 1) * (r + 1) \<and>
        unat (distance_mm a b) = min r (unat kDistanceSaturated))) \<and>
   distance_mm a b = distance_mm b a \<and> distance_mm a b \<le> kDistanceSaturated \<and>
   (in_range a \<longrightarrow> distance_mm a a = 0) \<and> (\<not> in_range b \<longrightarrow> distance_mm a b = kDistanceSaturated)"
proof (intro conjI allI impI)
  fix dy dx
  assume "in_range a \<and> in_range b \<and> distance_components a b = (dy, dx)"
  then show "\<exists>r. r * r \<le> nat (dy * dy + dx * dx) \<and> nat (dy * dy + dx * dx) < (r + 1) * (r + 1) \<and>
        unat (distance_mm a b) = min r (unat kDistanceSaturated)"
    by (elim conjE) (rule distance_mm_cases(2))
next
  show "distance_mm a b = distance_mm b a"
    by (simp add: distance_mm_def checked_distance_mm_def distance_components_swap [of b a] case_prod_beta conj_commute disj_commute)
next
  show "distance_mm a b \<le> kDistanceSaturated"
  proof (cases "in_range a \<and> in_range b")
    case True
    then obtain r where "unat (distance_mm a b) = min r (unat kDistanceSaturated)"
      using distance_mm_cases(2) [of a b "fst (distance_components a b)" "snd (distance_components a b)"] by auto
    then show ?thesis by (simp add: word_le_unat)
  qed (simp add: distance_off_the_globe)
next
  assume a: "in_range a"
  have "distance_components a a = (0, 0)"
    by (simp add: distance_components_def Let_def lat_e7_to_mm_def lon_e7_to_mm_def wrap_longitude_def
        clamp_component_def kLongitudeMaxE7_def kDistanceSaturated_def sdiv_nonneg kMillimetresPerLatE7Den_def kCosScale_def)
  from distance_mm_cases(2) [OF a a this] show "distance_mm a a = 0" by (auto simp: word_eq_unat)
next
  assume "\<not> in_range b"
  then show "distance_mm a b = kDistanceSaturated" by (simp add: distance_off_the_globe)
qed

lemma distance_is_floor_of_length_witness:
  "let a = \<lparr>latitude_e7 = 557558000, longitude_e7 = 376173000\<rparr>; b = \<lparr>latitude_e7 = 557559000, longitude_e7 = 376174000\<rparr>
   in in_range a \<and> in_range b \<and> distance_mm a b = distance_mm b a \<and> unat (distance_mm a b) = 12774"
proof -
  define a where "a = \<lparr>latitude_e7 = 557558000, longitude_e7 = 376173000\<rparr>"
  define b where "b = \<lparr>latitude_e7 = 557559000, longitude_e7 = 376174000\<rparr>"
  have "in_range a \<and> in_range b \<and> unat (distance_mm a b) = 12774" unfolding a_def b_def by code_simp
  with distance_is_floor_of_length [of a b] show ?thesis unfolding a_def b_def by (simp add: Let_def)
qed

text \<open>
  For positions on the globe no intermediate value of the distance leaves its 64-bit type,
  the index into the table of cosines stays inside it, and the cosine is between zero and one.
\<close>
theorem distance_arithmetic_fits:
  assumes "in_range a" and "in_range b"
  shows "let dlat = latitude_e7 a - latitude_e7 b; dlon = wrap_longitude (longitude_e7 a - longitude_e7 b);
             mean = (latitude_e7 a + latitude_e7 b) sdiv 2; (dy, dx) = distance_components a b
         in list_all is_i64 [latitude_e7 a + latitude_e7 b, longitude_e7 a - longitude_e7 b,
              dlat * kMillimetresPerLatE7Num, dlon * kMillimetresPerLatE7Num,
              cos_weighted mean * (kCosScale sdiv 1024) + kE7PerDegree sdiv 2,
              lat_e7_to_mm dlon * cos_scaled mean, dy * dy + dx * dx] \<and>
            nat (cos_magnitude mean sdiv kE7PerDegree) < length kCosTable1024 \<and>
            (cos_magnitude mean sdiv kE7PerDegree < 90 \<longrightarrow>
               nat (cos_magnitude mean sdiv kE7PerDegree + 1) < length kCosTable1024) \<and>
            0 \<le> cos_scaled mean \<and> cos_scaled mean \<le> kCosScale"
proof -
  define dlat where "dlat = latitude_e7 a - latitude_e7 b"
  define dlon where "dlon = wrap_longitude (longitude_e7 a - longitude_e7 b)"
  define mean where "mean = (latitude_e7 a + latitude_e7 b) sdiv 2"
  obtain dy dx where c: "distance_components a b = (dy, dx)" by (cases "distance_components a b")
  have r: "\<bar>dlat\<bar> \<le> 1800000000" "\<bar>dlon\<bar> \<le> 1800000000" "\<bar>longitude_e7 a - longitude_e7 b\<bar> \<le> 3600000000"
    "\<bar>latitude_e7 a + latitude_e7 b\<bar> \<le> 1800000000"
    using assms by (auto simp: in_range_def dlat_def dlon_def wrap_longitude_def Let_def kLatitudeMaxE7_def kLongitudeMaxE7_def)
  have w: "0 \<le> cos_weighted mean" "cos_weighted mean \<le> 10240000000" using cos_weighted_bounds [of mean] by simp_all
  have k: "0 \<le> cos_scaled mean" "cos_scaled mean \<le> 16777216"
    using cos_scaled_bounds [of mean] by (simp_all add: kCosScale_def)
  have l: "\<bar>lat_e7_to_mm dlon\<bar> \<le> 20037600000"
    unfolding lat_e7_to_mm_def kMillimetresPerLatE7Num_def kMillimetresPerLatE7Den_def
    by (rule abs_sdiv_le) (use r(2) in auto)
  have p: "\<bar>lat_e7_to_mm dlon * cos_scaled mean\<bar> \<le> 20037600000 * 16777216"
    unfolding abs_mult by (rule mult_mono) (use l k in auto)
  have bd: "\<bar>dy\<bar> \<le> 1000000000" "\<bar>dx\<bar> \<le> 1000000000"
    using distance_components_bound [of a b] c by simp_all
  have sq: "- 9223372036854775808 \<le> dy * dy + dx * dx" "dy * dy + dx * dx \<le> 9223372036854775807"
    using squares_fit(2,3) [OF bd] by linarith+
  have i: "cos_magnitude mean sdiv kE7PerDegree \<le> 90" "0 \<le> cos_magnitude mean sdiv kE7PerDegree"
    using cos_magnitude_bounds [of mean] by (simp_all add: kE7PerDegree_def sdiv_nonneg pos_imp_zdiv_nonneg_iff)
  have len: "length kCosTable1024 = 91" by (simp add: kCosTable1024_def)
  have s: "kCosScale sdiv 1024 = 16384" "kE7PerDegree sdiv 2 = 5000000"
    by (simp_all add: kCosScale_def kE7PerDegree_def sdiv_nonneg)
  have "list_all is_i64 [latitude_e7 a + latitude_e7 b, longitude_e7 a - longitude_e7 b,
              dlat * kMillimetresPerLatE7Num, dlon * kMillimetresPerLatE7Num,
              cos_weighted mean * (kCosScale sdiv 1024) + kE7PerDegree sdiv 2,
              lat_e7_to_mm dlon * cos_scaled mean, dy * dy + dx * dx]"
    using r w p sq unfolding s kMillimetresPerLatE7Num_def is_i64_def i64_min_def i64_max_def by auto
  then show ?thesis
    unfolding dlat_def [symmetric] dlon_def [symmetric] mean_def [symmetric] c Let_def prod.case
    using i len k by (auto simp: kCosScale_def)
qed

lemma distance_arithmetic_fits_witness:
  "let p = \<lparr>latitude_e7 = 900000000, longitude_e7 = 1800000000\<rparr>; q = \<lparr>latitude_e7 = - 900000000, longitude_e7 = - 1800000000\<rparr>
   in in_range p \<and> in_range q \<and> is_i64 (longitude_e7 p - longitude_e7 q) \<and> longitude_e7 p - longitude_e7 q = 3600000000"
proof -
  define p where "p = \<lparr>latitude_e7 = 900000000, longitude_e7 = 1800000000\<rparr>"
  define q where "q = \<lparr>latitude_e7 = - 900000000, longitude_e7 = - 1800000000\<rparr>"
  have "in_range p" "in_range q" unfolding p_def q_def by code_simp+
  with distance_arithmetic_fits [of p q] show ?thesis unfolding p_def q_def
    by (simp add: Let_def case_prod_beta)
qed

end
