(* ===== verification/Trust.thy ===== *)
theory Trust
  imports Geo
begin

text \<open>
  Whether a position is worth navigating by: \<open>core/include/attadipa/core/trust.h\<close> and
  \<open>core/src/trust.cpp\<close>. \<open>TrustEngine\<close> weighs allegations with hysteresis, remembers the last
  trusted position and keeps a bounded log of its transitions; \<open>TrustEvaluator\<close> turns receiver
  observations into allegations. The index \<open>recorded_\<close> of the log is a natural number: it counts
  transitions of state, and only its remainder by sixteen and the comparison with sixteen are used.
\<close>

section \<open>States and reasons\<close>

datatype trust_state = Untrusted | Degraded | Trusted

fun trust_rank :: "trust_state \<Rightarrow> nat" where
  "trust_rank Untrusted = 0" | "trust_rank Degraded = 1" | "trust_rank Trusted = 2"

instantiation trust_state :: linorder
begin

definition less_eq_trust_state :: "trust_state \<Rightarrow> trust_state \<Rightarrow> bool" where
  "less_eq_trust_state a b \<longleftrightarrow> trust_rank a \<le> trust_rank b"

definition less_trust_state :: "trust_state \<Rightarrow> trust_state \<Rightarrow> bool" where
  "less_trust_state a b \<longleftrightarrow> trust_rank a < trust_rank b"

lemma trust_rank_inj: "trust_rank a = trust_rank b \<Longrightarrow> a = b"
  by (cases a; cases b) simp_all

instance
  by standard (auto simp: less_eq_trust_state_def less_trust_state_def intro: trust_rank_inj)

end

lemma trust_order [simp]:
  "Untrusted \<le> s" "s \<le> Trusted" "\<not> s < Untrusted" "\<not> Trusted < s" "Untrusted < Degraded" "Degraded < Trusted"
  "Untrusted < Trusted" "Degraded \<le> s \<longleftrightarrow> s \<noteq> Untrusted" "s \<le> Degraded \<longleftrightarrow> s \<noteq> Trusted"
  "s < Degraded \<longleftrightarrow> s = Untrusted" "Degraded < s \<longleftrightarrow> s = Trusted" "s < Trusted \<longleftrightarrow> s \<noteq> Trusted"
  "Trusted \<le> s \<longleftrightarrow> s = Trusted" "s \<le> Untrusted \<longleftrightarrow> s = Untrusted" "Untrusted < s \<longleftrightarrow> s \<noteq> Untrusted"
  by (cases s; simp add: less_eq_trust_state_def less_trust_state_def)+

definition worse_than :: "trust_state \<Rightarrow> trust_state \<Rightarrow> bool" where
  "worse_than a b \<longleftrightarrow> a < b"

fun one_better :: "trust_state \<Rightarrow> trust_state" where
  "one_better Untrusted = Degraded"
| "one_better Degraded = Trusted"
| "one_better Trusted = Trusted"

datatype trust_reason =
    ReceiverJamming | ReceiverSpoofing | ProtectionLevelInvalid | ProtectionLevelExceeded
  | MotionDisagreement | ImplausibleSpeed | ImplausibleAltitudeRate | PositionJump | ClockDisagreement
  | ProviderDisagreement | ConstellationAnomaly | AccuracyPoor | InsufficientSatellites | StalePosition
  | FixLost

text \<open>The enumerators in order, which is the order the loops over \<open>kTrustReasonCount\<close> take.\<close>

definition all_reasons :: "trust_reason list" where
  "all_reasons =
     [ReceiverJamming, ReceiverSpoofing, ProtectionLevelInvalid, ProtectionLevelExceeded,
      MotionDisagreement, ImplausibleSpeed, ImplausibleAltitudeRate, PositionJump, ClockDisagreement,
      ProviderDisagreement, ConstellationAnomaly, AccuracyPoor, InsufficientSatellites, StalePosition, FixLost]"

definition kTrustReasonCount :: nat where "kTrustReasonCount = 15"

fun reason_index :: "trust_reason \<Rightarrow> nat" where
  "reason_index ReceiverJamming = 0"
| "reason_index ReceiverSpoofing = 1"
| "reason_index ProtectionLevelInvalid = 2"
| "reason_index ProtectionLevelExceeded = 3"
| "reason_index MotionDisagreement = 4"
| "reason_index ImplausibleSpeed = 5"
| "reason_index ImplausibleAltitudeRate = 6"
| "reason_index PositionJump = 7"
| "reason_index ClockDisagreement = 8"
| "reason_index ProviderDisagreement = 9"
| "reason_index ConstellationAnomaly = 10"
| "reason_index AccuracyPoor = 11"
| "reason_index InsufficientSatellites = 12"
| "reason_index StalePosition = 13"
| "reason_index FixLost = 14"

definition trust_reason_bit :: "trust_reason \<Rightarrow> u32" where
  "trust_reason_bit r = push_bit (reason_index r) 1"

fun trust_state_to_string :: "trust_state \<Rightarrow> string" where
  "trust_state_to_string Untrusted = ''Untrusted''"
| "trust_state_to_string Degraded = ''Degraded''"
| "trust_state_to_string Trusted = ''Trusted''"

definition stored_trust_to_string :: "trust_state option \<Rightarrow> string" where
  "stored_trust_to_string s = (case s of None \<Rightarrow> ''NotEvaluated'' | Some t \<Rightarrow> trust_state_to_string t)"

fun trust_reason_to_string :: "trust_reason \<Rightarrow> string" where
  "trust_reason_to_string ReceiverJamming = ''ReceiverJamming''"
| "trust_reason_to_string ReceiverSpoofing = ''ReceiverSpoofing''"
| "trust_reason_to_string ProtectionLevelInvalid = ''ProtectionLevelInvalid''"
| "trust_reason_to_string ProtectionLevelExceeded = ''ProtectionLevelExceeded''"
| "trust_reason_to_string MotionDisagreement = ''MotionDisagreement''"
| "trust_reason_to_string ImplausibleSpeed = ''ImplausibleSpeed''"
| "trust_reason_to_string ImplausibleAltitudeRate = ''ImplausibleAltitudeRate''"
| "trust_reason_to_string PositionJump = ''PositionJump''"
| "trust_reason_to_string ClockDisagreement = ''ClockDisagreement''"
| "trust_reason_to_string ProviderDisagreement = ''ProviderDisagreement''"
| "trust_reason_to_string ConstellationAnomaly = ''ConstellationAnomaly''"
| "trust_reason_to_string AccuracyPoor = ''AccuracyPoor''"
| "trust_reason_to_string InsufficientSatellites = ''InsufficientSatellites''"
| "trust_reason_to_string StalePosition = ''StalePosition''"
| "trust_reason_to_string FixLost = ''FixLost''"

definition trust_or :: "trust_state option \<Rightarrow> trust_state \<Rightarrow> trust_state" where
  "trust_or stored when_not_evaluated = (case stored of None \<Rightarrow> when_not_evaluated | Some s \<Rightarrow> s)"

section \<open>The policy\<close>

record trust_policy =
  weight :: "trust_reason \<Rightarrow> u8"
  degrade_at :: u16
  untrust_at :: u16
  recover_below :: u16
  evidence_ttl :: millis
  recover_hold :: millis
  uncertainty_growth_mm_s :: u32
  implausible_speed_mm_s :: u32
  implausible_altitude_rate_mm_s :: u32
  jump_while_still_mm :: u32
  clock_disagreement_s :: u32
  observed_at_forward_skew :: millis
  protection_level_limit_mm :: u32
  provider_disagreement_mm :: u32
  provider_comparison_window :: millis
  provider_departure_grace :: millis
  accuracy_poor_mm :: u32
  assumed_accuracy_mm :: u32
  min_satellites :: u8

fun default_weight :: "trust_reason \<Rightarrow> u8" where
  "default_weight ReceiverSpoofing = 70"
| "default_weight MotionDisagreement = 45"
| "default_weight PositionJump = 40"
| "default_weight ImplausibleSpeed = 40"
| "default_weight ReceiverJamming = 35"
| "default_weight ProtectionLevelInvalid = 30"
| "default_weight ClockDisagreement = 30"
| "default_weight ProviderDisagreement = 30"
| "default_weight ProtectionLevelExceeded = 25"
| "default_weight ImplausibleAltitudeRate = 25"
| "default_weight ConstellationAnomaly = 25"
| "default_weight StalePosition = 20"
| "default_weight FixLost = 20"
| "default_weight AccuracyPoor = 15"
| "default_weight InsufficientSatellites = 15"

definition default_trust_policy :: trust_policy where
  "default_trust_policy =
     \<lparr>weight = default_weight, degrade_at = 30, untrust_at = 60, recover_below = 15, evidence_ttl = 15000,
      recover_hold = 5000, uncertainty_growth_mm_s = 1500, implausible_speed_mm_s = 55000,
      implausible_altitude_rate_mm_s = 30000, jump_while_still_mm = 50000, clock_disagreement_s = 60,
      observed_at_forward_skew = 50, protection_level_limit_mm = 50000, provider_disagreement_mm = 250000,
      provider_comparison_window = 5000, provider_departure_grace = 120000, accuracy_poor_mm = 50000,
      assumed_accuracy_mm = 50000, min_satellites = 4\<rparr>"

section \<open>The engine\<close>

record trust_transition =
  tt_from :: trust_state
  tt_to :: trust_state
  tt_reasons :: u32
  tt_at :: monotonic

definition blank_transition :: trust_transition where
  "blank_transition = \<lparr>tt_from = Trusted, tt_to = Trusted, tt_reasons = 0, tt_at = 0\<rparr>"

definition kLogCapacity :: nat where "kLogCapacity = 16"

record trust_engine =
  te_policy :: trust_policy
  te_state :: trust_state
  te_live :: u32
  te_unconfirmed :: u32
  te_abandoned :: u32
  te_score :: u16
  te_evidence_at :: "trust_reason \<Rightarrow> monotonic"
  te_clean_since_valid :: bool
  te_clean_since :: monotonic
  te_has_last_trusted :: bool
  te_last_trusted :: geo_position
  te_last_trusted_at :: monotonic
  te_last_trusted_accuracy_mm :: u32
  te_log :: "trust_transition list"
  te_recorded :: nat

definition new_trust_engine :: "trust_policy \<Rightarrow> trust_engine" where
  "new_trust_engine policy =
     \<lparr>te_policy = policy, te_state = Trusted, te_live = 0, te_unconfirmed = 0, te_abandoned = 0, te_score = 0,
      te_evidence_at = (\<lambda>_. 0), te_clean_since_valid = False, te_clean_since = 0,
      te_has_last_trusted = False, te_last_trusted = \<lparr>latitude_e7 = 0, longitude_e7 = 0\<rparr>,
      te_last_trusted_at = 0, te_last_trusted_accuracy_mm = 0,
      te_log = replicate kLogCapacity blank_transition, te_recorded = 0\<rparr>"

definition te_report :: "trust_reason \<Rightarrow> monotonic \<Rightarrow> trust_engine \<Rightarrow> trust_engine" where
  "te_report r at e =
     e\<lparr>te_evidence_at := (te_evidence_at e)(r := at),
       te_live := te_live e OR trust_reason_bit r,
       te_unconfirmed := te_unconfirmed e AND NOT (trust_reason_bit r),
       te_abandoned := te_abandoned e AND NOT (trust_reason_bit r)\<rparr>"

definition te_clear :: "trust_reason \<Rightarrow> trust_engine \<Rightarrow> trust_engine" where
  "te_clear r e =
     e\<lparr>te_live := te_live e AND NOT (trust_reason_bit r),
       te_unconfirmed := te_unconfirmed e AND NOT (trust_reason_bit r),
       te_abandoned := te_abandoned e AND NOT (trust_reason_bit r)\<rparr>"

definition te_stop_awaiting :: "trust_reason \<Rightarrow> trust_engine \<Rightarrow> trust_engine" where
  "te_stop_awaiting r e =
     e\<lparr>te_unconfirmed := te_unconfirmed e AND NOT (trust_reason_bit r),
       te_abandoned := te_abandoned e OR trust_reason_bit r\<rparr>"

definition te_holds :: "trust_reason \<Rightarrow> trust_engine \<Rightarrow> bool" where
  "te_holds r e \<longleftrightarrow> te_live e AND trust_reason_bit r \<noteq> 0"

definition te_awaiting_confirmation :: "trust_reason \<Rightarrow> trust_engine \<Rightarrow> bool" where
  "te_awaiting_confirmation r e \<longleftrightarrow> te_unconfirmed e AND trust_reason_bit r \<noteq> 0"

definition te_enter :: "trust_state \<Rightarrow> monotonic \<Rightarrow> trust_engine \<Rightarrow> trust_engine" where
  "te_enter succ now e =
     (if succ = te_state e then e
      else e\<lparr>te_log := (te_log e)[te_recorded e mod kLogCapacity :=
                \<lparr>tt_from = te_state e, tt_to = succ, tt_reasons = te_live e, tt_at = now\<rparr>],
             te_recorded := te_recorded e + 1, te_state := succ\<rparr>)"

definition te_target :: "trust_engine \<Rightarrow> trust_state" where
  "te_target e =
     (if te_score e \<ge> untrust_at (te_policy e) then Untrusted
      else if te_score e \<ge> degrade_at (te_policy e) then Degraded
      else Trusted)"

definition te_evaluate :: "monotonic \<Rightarrow> trust_engine \<Rightarrow> trust_engine" where
  "te_evaluate now e =
     (if worse_than (te_target e) (te_state e)
      then te_enter (te_target e) now (e\<lparr>te_clean_since_valid := False\<rparr>)
      else if te_score e > recover_below (te_policy e) then e\<lparr>te_clean_since_valid := False\<rparr>
      else if te_unconfirmed e \<noteq> 0 then e\<lparr>te_clean_since_valid := False\<rparr>
      else if \<not> te_clean_since_valid e then e\<lparr>te_clean_since_valid := True, te_clean_since := now\<rparr>
      else if te_state e \<noteq> Trusted \<and> elapsed (te_clean_since e) now \<ge> recover_hold (te_policy e)
      then (te_enter (one_better (te_state e)) now e)\<lparr>te_clean_since := now\<rparr>
      else e)"

definition te_expire1 :: "monotonic \<Rightarrow> trust_reason \<Rightarrow> trust_engine \<Rightarrow> trust_engine" where
  "te_expire1 now r e =
     (if te_live e AND trust_reason_bit r \<noteq> 0 \<and>
         elapsed (te_evidence_at e r) now \<ge> evidence_ttl (te_policy e)
      then e\<lparr>te_live := te_live e AND NOT (trust_reason_bit r),
             te_unconfirmed := (if te_abandoned e AND trust_reason_bit r = 0
                                then te_unconfirmed e OR trust_reason_bit r else te_unconfirmed e)\<rparr>
      else e)"

definition te_total :: "trust_engine \<Rightarrow> u32" where
  "te_total e =
     fold (\<lambda>r total. if te_live e AND trust_reason_bit r \<noteq> 0 then total + ucast (weight (te_policy e) r) else total)
       all_reasons 0"

definition te_update :: "monotonic \<Rightarrow> trust_engine \<Rightarrow> trust_engine" where
  "te_update now e =
     (let e1 = fold (te_expire1 now) all_reasons e;
          total = te_total e1;
          e2 = e1\<lparr>te_score := (if total > 0xFFFF then 0xFFFF else ucast total)\<rparr>
      in te_evaluate now e2)"

definition te_remember :: "gnss_observation \<Rightarrow> monotonic \<Rightarrow> trust_engine \<Rightarrow> trust_engine" where
  "te_remember ob now e =
     (case go_position ob of
        None \<Rightarrow> e
      | Some p \<Rightarrow>
          if \<not> in_range p then e
          else e\<lparr>te_has_last_trusted := True, te_last_trusted := p, te_last_trusted_at := now,
                 te_last_trusted_accuracy_mm :=
                   (case horizontal_accuracy_mm ob of Some a \<Rightarrow> a | None \<Rightarrow> assumed_accuracy_mm (te_policy e))\<rparr>)"

definition te_last_trusted_position :: "trust_engine \<Rightarrow> geo_position option" where
  "te_last_trusted_position e = (if \<not> te_has_last_trusted e then None else Some (te_last_trusted e))"

definition saturating_add :: "u32 \<Rightarrow> u32 \<Rightarrow> u32" where
  "saturating_add a b = clamp_u32 (ucast a + ucast b)"

definition te_uncertainty_mm :: "monotonic \<Rightarrow> trust_engine \<Rightarrow> u32" where
  "te_uncertainty_mm now e =
     (if \<not> te_has_last_trusted e then 0
      else let seconds = ucast (elapsed (te_last_trusted_at e) now) div (1000 :: u64);
               grown = seconds * ucast (uncertainty_growth_mm_s (te_policy e))
           in saturating_add (te_last_trusted_accuracy_mm e) (clamp_u32 grown))"

definition te_transitions_logged :: "trust_engine \<Rightarrow> nat" where
  "te_transitions_logged e = (if te_recorded e < kLogCapacity then te_recorded e else kLogCapacity)"

definition te_transition :: "nat \<Rightarrow> trust_engine \<Rightarrow> trust_transition" where
  "te_transition i e =
     (let kept = te_transitions_logged e
      in if i \<ge> kept then blank_transition
         else let oldest = (if te_recorded e < kLogCapacity then 0 else te_recorded e mod kLogCapacity)
              in te_log e ! ((oldest + i) mod kLogCapacity))"

definition te_reset :: "trust_engine \<Rightarrow> trust_engine" where
  "te_reset e =
     e\<lparr>te_state := Trusted, te_live := 0, te_unconfirmed := 0, te_abandoned := 0, te_score := 0,
       te_clean_since_valid := False, te_has_last_trusted := False, te_recorded := 0,
       te_evidence_at := (\<lambda>_. 0)\<rparr>"

section \<open>Masks of reasons\<close>

lemma reason_index_inj: "reason_index r = reason_index s \<longleftrightarrow> r = s"
  by (cases r; cases s) simp_all

lemma reason_index_bound: "reason_index r < 32"
  by (cases r) simp_all

lemma has_reason: "m AND trust_reason_bit r = 0 \<longleftrightarrow> \<not> bit m (reason_index r)"
  by (simp add: trust_reason_bit_def and_exp_eq_0_iff_not_bit)

lemma bit_trust_reason_bit: "bit (trust_reason_bit s) (reason_index r) \<longleftrightarrow> r = s"
  using reason_index_bound [of r] by (auto simp: trust_reason_bit_def bit_simps reason_index_inj)

lemma reason_masks [simp]:
  "(m OR n) AND trust_reason_bit r = 0 \<longleftrightarrow> m AND trust_reason_bit r = 0 \<and> n AND trust_reason_bit r = 0"
  "trust_reason_bit s AND trust_reason_bit r = 0 \<longleftrightarrow> r \<noteq> s"
  "(m AND NOT (trust_reason_bit s)) AND trust_reason_bit r = 0 \<longleftrightarrow> m AND trust_reason_bit r = 0 \<or> r = s"
  using reason_index_bound [of r]
  by (auto simp: has_reason bit_or_iff bit_and_iff bit_not_iff bit_trust_reason_bit)

lemma all_reasons_all [simp]: "r \<in> set all_reasons"
  by (cases r) (simp_all add: all_reasons_def)

section \<open>Expiry and the score\<close>

definition expired :: "monotonic \<Rightarrow> trust_engine \<Rightarrow> trust_reason \<Rightarrow> bool" where
  "expired now e r \<longleftrightarrow> elapsed (te_evidence_at e r) now \<ge> evidence_ttl (te_policy e)"

definition same_but_masks :: "trust_engine \<Rightarrow> trust_engine \<Rightarrow> bool" where
  "same_but_masks e e' \<longleftrightarrow> (\<exists>l u. e' = e\<lparr>te_live := l, te_unconfirmed := u\<rparr>)"

lemma te_expire1_spec:
  "same_but_masks e (te_expire1 now x e)"
  "te_live (te_expire1 now x e) AND trust_reason_bit r = 0 \<longleftrightarrow>
     te_live e AND trust_reason_bit r = 0 \<or> r = x \<and> expired now e x"
  "te_unconfirmed (te_expire1 now x e) AND trust_reason_bit r = 0 \<longleftrightarrow>
     te_unconfirmed e AND trust_reason_bit r = 0 \<and>
     \<not> (r = x \<and> te_holds x e \<and> expired now e x \<and> te_abandoned e AND trust_reason_bit x = 0)"
proof -
  have "te_expire1 now x e = e\<lparr>te_live := te_live (te_expire1 now x e), te_unconfirmed := te_unconfirmed (te_expire1 now x e)\<rparr>"
    by (simp add: te_expire1_def)
  then show "same_but_masks e (te_expire1 now x e)" unfolding same_but_masks_def by blast
qed (auto simp: te_expire1_def expired_def te_holds_def)

lemma same_but_masks_refl: "same_but_masks e e"
  unfolding same_but_masks_def by (intro exI [of _ "te_live e"] exI [of _ "te_unconfirmed e"]) simp

lemma same_but_masks_trans: "same_but_masks a b \<Longrightarrow> same_but_masks b c \<Longrightarrow> same_but_masks a c"
proof -
  assume "same_but_masks a b" "same_but_masks b c"
  then obtain l u l' u' where "b = a\<lparr>te_live := l, te_unconfirmed := u\<rparr>" "c = b\<lparr>te_live := l', te_unconfirmed := u'\<rparr>"
    unfolding same_but_masks_def by blast
  then have "c = a\<lparr>te_live := l', te_unconfirmed := u'\<rparr>" by simp
  then show "same_but_masks a c" unfolding same_but_masks_def by blast
qed

lemma same_but_masks_fields:
  assumes "same_but_masks e e'"
  shows "te_policy e' = te_policy e" "te_state e' = te_state e" "te_abandoned e' = te_abandoned e"
    "te_evidence_at e' = te_evidence_at e" "te_clean_since_valid e' = te_clean_since_valid e"
    "te_clean_since e' = te_clean_since e" "te_log e' = te_log e" "te_recorded e' = te_recorded e"
    "te_has_last_trusted e' = te_has_last_trusted e" "te_last_trusted e' = te_last_trusted e"
    "expired now e' r = expired now e r"
proof -
  obtain l u where e: "e' = e\<lparr>te_live := l, te_unconfirmed := u\<rparr>" using assms unfolding same_but_masks_def by blast
  show "te_policy e' = te_policy e" "te_state e' = te_state e" "te_abandoned e' = te_abandoned e"
    "te_evidence_at e' = te_evidence_at e" "te_clean_since_valid e' = te_clean_since_valid e"
    "te_clean_since e' = te_clean_since e" "te_log e' = te_log e" "te_recorded e' = te_recorded e"
    "te_has_last_trusted e' = te_has_last_trusted e" "te_last_trusted e' = te_last_trusted e"
    "expired now e' r = expired now e r"
    unfolding e by (simp_all add: expired_def)
qed

lemma fold_expire:
  "same_but_masks e (fold (te_expire1 now) rs e) \<and>
   (te_live (fold (te_expire1 now) rs e) AND trust_reason_bit r = 0 \<longleftrightarrow>
     te_live e AND trust_reason_bit r = 0 \<or> r \<in> set rs \<and> expired now e r) \<and>
   (te_unconfirmed (fold (te_expire1 now) rs e) AND trust_reason_bit r = 0 \<longleftrightarrow>
     te_unconfirmed e AND trust_reason_bit r = 0 \<and>
     \<not> (r \<in> set rs \<and> te_holds r e \<and> expired now e r \<and> te_abandoned e AND trust_reason_bit r = 0))"
proof (induction rs arbitrary: e)
  case Nil
  then show ?case by (simp add: same_but_masks_refl)
next
  case (Cons x rs)
  let ?e = "te_expire1 now x e"
  note f = same_but_masks_fields [OF te_expire1_spec(1) [where e = e and now = now and x = x]]
  have "te_holds r ?e \<longleftrightarrow> te_holds r e \<and> \<not> (r = x \<and> expired now e x)"
    by (simp add: te_holds_def te_expire1_spec(2))
  then show ?case using Cons.IH [of ?e] te_expire1_spec [where e = e and now = now and x = x] same_but_masks_trans
    by (auto simp: f)
qed

definition live_weight :: "trust_engine \<Rightarrow> trust_reason \<Rightarrow> nat" where
  "live_weight e r = (if te_holds r e then unat (weight (te_policy e) r) else 0)"

definition allegation_weight :: "trust_engine \<Rightarrow> nat" where
  "allegation_weight e = sum_list (map (live_weight e) all_reasons)"

lemma total_fold:
  fixes t :: u32
  shows "unat t + 255 * length rs < 2 ^ 32 \<Longrightarrow>
   unat (fold (\<lambda>r total. if te_live e AND trust_reason_bit r \<noteq> 0 then total + ucast (weight (te_policy e) r) else total) rs t)
     = unat t + sum_list (map (live_weight e) rs)"
proof (induction rs arbitrary: t)
  case (Cons r rs)
  have w: "unat (weight (te_policy e) r) \<le> 255" using unat_bound [of "weight (te_policy e) r"] by simp
  have "unat (t + ucast (weight (te_policy e) r)) = unat t + unat (weight (te_policy e) r)"
    using Cons.prems w by (simp add: unat_word_ariths unsigned_ucast_eq take_bit_nat_eq_self)
  with Cons.IH [of t] Cons.IH [of "t + ucast (weight (te_policy e) r)"] Cons.prems w show ?case
    by (auto simp: live_weight_def te_holds_def)
qed simp

lemma weights_bound: "sum_list (map (live_weight e) rs) \<le> 255 * length rs"
proof (induction rs)
  case (Cons r rs)
  have "live_weight e r \<le> 255" using unat_bound [of "weight (te_policy e) r"] by (simp add: live_weight_def)
  with Cons.IH show ?case by simp
qed simp

lemma unat_te_total: "unat (te_total e) = allegation_weight e"
  unfolding te_total_def allegation_weight_def by (subst total_fold) (simp_all add: all_reasons_def)

lemma allegation_weight_bound: "allegation_weight e \<le> 3825"
  using weights_bound [of e all_reasons] by (simp add: allegation_weight_def all_reasons_def)

text \<open>The engine just before the state is judged: expired, and with its score.\<close>

definition te_settled :: "monotonic \<Rightarrow> trust_engine \<Rightarrow> trust_engine" where
  "te_settled now e =
     (let e1 = fold (te_expire1 now) all_reasons e
      in e1\<lparr>te_score := (if te_total e1 > 0xFFFF then 0xFFFF else ucast (te_total e1))\<rparr>)"

lemma te_update_settled: "te_update now e = te_evaluate now (te_settled now e)"
  by (simp add: te_update_def te_settled_def Let_def)

lemma te_settled_fields:
  "te_policy (te_settled now e) = te_policy e" "te_state (te_settled now e) = te_state e"
  "te_abandoned (te_settled now e) = te_abandoned e" "te_evidence_at (te_settled now e) = te_evidence_at e"
  "te_clean_since_valid (te_settled now e) = te_clean_since_valid e"
  "te_clean_since (te_settled now e) = te_clean_since e"
  "te_log (te_settled now e) = te_log e" "te_recorded (te_settled now e) = te_recorded e"
  "te_has_last_trusted (te_settled now e) = te_has_last_trusted e"
  "te_last_trusted (te_settled now e) = te_last_trusted e"
  using same_but_masks_fields [of e "fold (te_expire1 now) all_reasons e"] fold_expire [of e now all_reasons]
  by (simp_all add: te_settled_def Let_def)

lemma te_settled_masks:
  "te_holds r (te_settled now e) \<longleftrightarrow> te_holds r e \<and> \<not> expired now e r"
  "te_awaiting_confirmation r (te_settled now e) \<longleftrightarrow>
     te_awaiting_confirmation r e \<or> te_holds r e \<and> expired now e r \<and> te_abandoned e AND trust_reason_bit r = 0"
  using fold_expire [of e now all_reasons r]
  by (auto simp: te_settled_def Let_def te_holds_def te_awaiting_confirmation_def)

lemma allegation_weight_score [simp]: "allegation_weight (e\<lparr>te_score := x\<rparr>) = allegation_weight e"
proof -
  have "live_weight (e\<lparr>te_score := x\<rparr>) = live_weight e" by (rule ext) (simp add: live_weight_def te_holds_def)
  then show ?thesis by (simp add: allegation_weight_def)
qed

lemma te_settled_score: "unat (te_score (te_settled now e)) = allegation_weight (te_settled now e)"
proof -
  define e1 where "e1 = fold (te_expire1 now) all_reasons e"
  have u: "unat (te_total e1) \<le> 3825" using allegation_weight_bound [of e1] by (simp add: unat_te_total)
  then have "\<not> te_total e1 > 0xFFFF" by (simp add: word_less_unat)
  then have "unat (te_score (te_settled now e)) = unat (te_total e1)"
    using u by (simp add: te_settled_def e1_def Let_def unsigned_ucast_eq take_bit_nat_eq_self)
  moreover have "allegation_weight (te_settled now e) = allegation_weight e1"
    by (simp add: te_settled_def e1_def Let_def)
  ultimately show ?thesis by (simp add: unat_te_total)
qed

end
