(* ===== verification/Trust_Engine.thy ===== *)
theory Trust_Engine
  imports Trust
begin

text \<open>
  What the hysteresis of \<open>TrustEngine\<close> guarantees, over any sequence of its operations: how the
  state falls, what it takes to climb, what the log remembers and how the circle around the last
  trusted position grows.
\<close>

section \<open>One evaluation\<close>

lemma te_enter_fields [simp]:
  "te_policy (te_enter s now e) = te_policy e" "te_state (te_enter s now e) = s" "te_live (te_enter s now e) = te_live e"
  "te_unconfirmed (te_enter s now e) = te_unconfirmed e" "te_abandoned (te_enter s now e) = te_abandoned e"
  "te_score (te_enter s now e) = te_score e" "te_evidence_at (te_enter s now e) = te_evidence_at e"
  "te_clean_since_valid (te_enter s now e) = te_clean_since_valid e"
  "te_clean_since (te_enter s now e) = te_clean_since e"
  by (simp_all add: te_enter_def)

lemma te_evaluate_fields [simp]:
  "te_policy (te_evaluate now e) = te_policy e" "te_live (te_evaluate now e) = te_live e"
  "te_unconfirmed (te_evaluate now e) = te_unconfirmed e" "te_abandoned (te_evaluate now e) = te_abandoned e"
  "te_score (te_evaluate now e) = te_score e" "te_evidence_at (te_evaluate now e) = te_evidence_at e"
  by (simp_all add: te_evaluate_def)

definition te_clean :: "trust_engine \<Rightarrow> bool" where
  "te_clean e \<longleftrightarrow> te_score e \<le> recover_below (te_policy e) \<and> te_unconfirmed e = 0"

text \<open>The four ways an evaluation can go.\<close>

lemma te_evaluate_cases:
  obtains (fall) "te_target e < te_state e" "te_state (te_evaluate now e) = te_target e"
      "\<not> te_clean_since_valid (te_evaluate now e)"
  | (dirty) "te_state e \<le> te_target e" "\<not> te_clean e" "te_state (te_evaluate now e) = te_state e"
      "\<not> te_clean_since_valid (te_evaluate now e)"
  | (begin_hold) "te_state e \<le> te_target e" "te_clean e" "\<not> te_clean_since_valid e" "te_state (te_evaluate now e) = te_state e"
      "te_clean_since_valid (te_evaluate now e)" "te_clean_since (te_evaluate now e) = now"
  | (climb) "te_state e \<le> te_target e" "te_clean e" "te_clean_since_valid e" "te_state e \<noteq> Trusted"
      "elapsed (te_clean_since e) now \<ge> recover_hold (te_policy e)"
      "te_state (te_evaluate now e) = one_better (te_state e)"
      "te_clean_since_valid (te_evaluate now e)" "te_clean_since (te_evaluate now e) = now"
  | (hold) "te_state e \<le> te_target e" "te_clean e" "te_clean_since_valid e" "te_evaluate now e = e"
proof -
  consider "te_target e < te_state e" | "te_state e \<le> te_target e" "\<not> te_clean e"
    | "te_state e \<le> te_target e" "te_clean e" "\<not> te_clean_since_valid e"
    | "te_state e \<le> te_target e" "te_clean e" "te_clean_since_valid e" "te_state e \<noteq> Trusted"
        "elapsed (te_clean_since e) now \<ge> recover_hold (te_policy e)"
    | "te_state e \<le> te_target e" "te_clean e" "te_clean_since_valid e"
        "\<not> (te_state e \<noteq> Trusted \<and> elapsed (te_clean_since e) now \<ge> recover_hold (te_policy e))"
    by (cases "te_target e < te_state e") (auto simp: not_less)
  then show ?thesis
  proof cases
    case 1
    show ?thesis by (rule fall) (use 1 in \<open>simp_all add: te_evaluate_def worse_than_def\<close>)
  next
    case 2
    then have "\<not> worse_than (te_target e) (te_state e)" by (simp add: worse_than_def)
    then show ?thesis
      by (intro dirty) (use 2 in \<open>auto simp: te_evaluate_def te_clean_def\<close>)
  next
    case 3
    then have "te_evaluate now e = e\<lparr>te_clean_since_valid := True, te_clean_since := now\<rparr>"
      by (auto simp: te_evaluate_def worse_than_def te_clean_def)
    then show ?thesis by (intro begin_hold) (use 3 in simp_all)
  next
    case 4
    then have "te_evaluate now e = (te_enter (one_better (te_state e)) now e)\<lparr>te_clean_since := now\<rparr>"
      by (auto simp: te_evaluate_def worse_than_def te_clean_def)
    then show ?thesis by (intro climb) (use 4 in simp_all)
  next
    case 5
    show ?thesis by (rule hold) (use 5 in \<open>auto simp: te_evaluate_def worse_than_def te_clean_def\<close>)
  qed
qed

lemma one_better_above: "s \<noteq> Trusted \<Longrightarrow> s < one_better s"
  by (cases s) auto

text \<open>A policy whose thresholds are in order, as the default's are.\<close>

definition coherent_policy :: "trust_policy \<Rightarrow> bool" where
  "coherent_policy p \<longleftrightarrow> recover_below p < degrade_at p \<and> degrade_at p \<le> untrust_at p"

lemma default_policy_coherent: "coherent_policy default_trust_policy"
  by (simp add: coherent_policy_def default_trust_policy_def)

lemma clean_target: "coherent_policy (te_policy e) \<Longrightarrow> te_clean e \<Longrightarrow> te_target e = Trusted"
  by (auto simp: coherent_policy_def te_clean_def te_target_def)

lemma te_target_evaluate [simp]: "te_target (te_evaluate now e) = te_target e"
  by (simp add: te_target_def)

lemma te_clean_evaluate [simp]: "te_clean (te_evaluate now e) = te_clean e"
  by (simp add: te_clean_def)

lemma te_holds_evaluate [simp]: "te_holds r (te_evaluate now e) = te_holds r e"
  by (simp add: te_holds_def)

lemma allegation_weight_cong:
  "te_live e' = te_live e \<Longrightarrow> te_policy e' = te_policy e \<Longrightarrow> allegation_weight e' = allegation_weight e"
proof -
  assume "te_live e' = te_live e" "te_policy e' = te_policy e"
  then have "live_weight e' = live_weight e" by (intro ext) (simp add: live_weight_def te_holds_def)
  then show ?thesis by (simp add: allegation_weight_def)
qed

text \<open>
  An update first lets evidence as old as its time to live lapse, then scores exactly the
  weights of the allegations still live, and never leaves the state better than that score
  allows: reaching the thresholds takes it down at once, to the level the score calls for,
  while the way up is one level at a time and only from a score that would allow better.
\<close>
theorem update_judges_the_live_evidence:
  assumes "coherent_policy (te_policy e)" and u: "te_update now e = e'"
  shows "(\<forall>r. te_holds r e' \<longleftrightarrow> te_holds r e \<and> \<not> expired now e r) \<and>
    unat (te_score e') = allegation_weight e' \<and>
    te_state e' \<le> te_target e' \<and>
    (te_state e' < te_state e \<longrightarrow> te_state e' = te_target e') \<and>
    (te_state e < te_state e' \<longrightarrow> te_state e' = one_better (te_state e) \<and> te_clean e')"
proof -
  define s where "s = te_settled now e"
  have e': "e' = te_evaluate now s" using u by (simp add: te_update_settled s_def)
  have f: "te_state s = te_state e" "te_policy s = te_policy e" by (simp_all add: s_def te_settled_fields)
  have sc: "unat (te_score e') = allegation_weight e'"
    using te_settled_score [of now e] allegation_weight_cong [of e' s] by (simp add: e' s_def)
  have st: "te_state e' \<le> te_target e' \<and> (te_state e' < te_state e \<longrightarrow> te_state e' = te_target e') \<and>
    (te_state e < te_state e' \<longrightarrow> te_state e' = one_better (te_state e) \<and> te_clean e')"
    using assms(1) clean_target [of s] unfolding e' f [symmetric]
    by (cases rule: te_evaluate_cases [of s now]) (auto simp: f dest: less_imp_le less_asym one_better_above)
  have h: "te_holds r e' \<longleftrightarrow> te_holds r e \<and> \<not> expired now e r" for r
    by (simp add: e' s_def te_settled_masks(1))
  from h sc st show ?thesis by blast
qed

lemma update_judges_the_live_evidence_witness:
  "let e = te_report ReceiverSpoofing 1000 (new_trust_engine default_trust_policy); e' = te_update 1000 e
   in te_state e' \<le> te_target e' \<and> unat (te_score e') = allegation_weight e' \<and> te_state e' = Untrusted"
proof -
  define e where "e = te_report ReceiverSpoofing 1000 (new_trust_engine default_trust_policy)"
  have c: "te_state (te_update 1000 e) = Untrusted" unfolding e_def by code_simp
  have "te_policy e = default_trust_policy" by (simp add: e_def te_report_def new_trust_engine_def)
  with update_judges_the_live_evidence [of e 1000 "te_update 1000 e"] default_policy_coherent c
  show ?thesis by (simp add: e_def Let_def)
qed

section \<open>Recovery is earned\<close>

datatype trust_event =
  Report trust_reason monotonic | Clear trust_reason | StopAwaiting trust_reason | Update monotonic
| Remember gnss_observation monotonic | Reset

fun trust_step :: "trust_event \<Rightarrow> trust_engine \<Rightarrow> trust_engine" where
  "trust_step (Report r at) e = te_report r at e"
| "trust_step (Clear r) e = te_clear r e"
| "trust_step (StopAwaiting r) e = te_stop_awaiting r e"
| "trust_step (Update now) e = te_update now e"
| "trust_step (Remember ob now) e = te_remember ob now e"
| "trust_step Reset e = te_reset e"

definition trust_run :: "trust_event list \<Rightarrow> trust_engine \<Rightarrow> trust_engine" where
  "trust_run es e = fold trust_step es e"

lemma trust_run_simps [simp]:
  "trust_run [] e = e" "trust_run (x # xs) e = trust_run xs (trust_step x e)"
  "trust_run (xs @ ys) e = trust_run ys (trust_run xs e)"
  by (simp_all add: trust_run_def)

text \<open>
  The allegations nobody has taken back: reported, and since then neither cleared by a detector
  nor given up because their subject is gone.
\<close>

fun allege :: "trust_event \<Rightarrow> trust_reason set \<Rightarrow> trust_reason set" where
  "allege (Report r at) A = insert r A"
| "allege (Clear r) A = A - {r}"
| "allege (StopAwaiting r) A = A - {r}"
| "allege (Update now) A = A"
| "allege (Remember ob now) A = A"
| "allege Reset A = {}"

definition alleged :: "trust_event list \<Rightarrow> trust_reason set" where
  "alleged es = fold allege es {}"

definition accounted :: "trust_reason set \<Rightarrow> trust_engine \<Rightarrow> bool" where
  "accounted A e \<longleftrightarrow> (\<forall>r\<in>A. (te_holds r e \<or> te_awaiting_confirmation r e) \<and>
      te_abandoned e AND trust_reason_bit r = 0)"

lemma te_remember_fields:
  "te_policy (te_remember ob now e) = te_policy e" "te_state (te_remember ob now e) = te_state e"
  "te_live (te_remember ob now e) = te_live e" "te_unconfirmed (te_remember ob now e) = te_unconfirmed e"
  "te_abandoned (te_remember ob now e) = te_abandoned e" "te_score (te_remember ob now e) = te_score e"
  "te_clean_since_valid (te_remember ob now e) = te_clean_since_valid e"
  "te_clean_since (te_remember ob now e) = te_clean_since e"
  "te_log (te_remember ob now e) = te_log e" "te_recorded (te_remember ob now e) = te_recorded e"
  "te_evidence_at (te_remember ob now e) = te_evidence_at e"
  by (simp_all add: te_remember_def split: option.splits)

lemma accounted_step: "accounted A e \<Longrightarrow> accounted (allege ev A) (trust_step ev e)"
proof (cases ev)
  case (Update now)
  assume "accounted A e"
  then show ?thesis
    by (auto simp: Update accounted_def te_update_settled te_settled_masks te_settled_fields
        te_awaiting_confirmation_def te_settled_masks(2) [unfolded te_awaiting_confirmation_def])
qed (auto simp: accounted_def te_report_def te_clear_def te_stop_awaiting_def te_holds_def te_reset_def
    te_awaiting_confirmation_def te_remember_fields)

lemma accounted_run: "accounted (alleged es) (trust_run es (new_trust_engine p))"
proof (induction es rule: rev_induct)
  case (snoc x xs)
  from accounted_step [OF this, of x] show ?case by (simp add: alleged_def)
qed (simp add: accounted_def alleged_def)

lemma te_policy_step: "te_policy (trust_step ev e) = te_policy e"
  by (cases ev) (simp_all add: te_report_def te_clear_def te_stop_awaiting_def te_reset_def te_remember_fields
      te_update_settled te_settled_fields)

lemma te_policy_run: "te_policy (trust_run es e) = te_policy e"
  by (induction es arbitrary: e) (simp_all add: te_policy_step)

text \<open>
  Since the update at \<open>t\<close>, every update found the engine clean and left it in the state it is in.
\<close>

definition quiet_since :: "trust_policy \<Rightarrow> trust_event list \<Rightarrow> monotonic \<Rightarrow> bool" where
  "quiet_since p es t \<longleftrightarrow> (\<exists>pre post. es = pre @ Update t # post \<and>
     (\<forall>q1 u q2. Update t # post = q1 @ Update u # q2 \<longrightarrow>
        te_clean (trust_run (pre @ q1 @ [Update u]) (new_trust_engine p)) \<and>
        te_state (trust_run (pre @ q1 @ [Update u]) (new_trust_engine p)) =
          te_state (trust_run es (new_trust_engine p))))"

lemma quiet_since_now:
  assumes "te_clean (trust_run (es @ [Update t]) (new_trust_engine p))"
  shows "quiet_since p (es @ [Update t]) t"
  unfolding quiet_since_def
proof (intro exI conjI allI impI)
  show "es @ [Update t] = es @ Update t # []" by simp
  fix q1 u q2
  assume "[Update t] = q1 @ Update u # q2"
  then have "q1 = [] \<and> u = t" by (cases q1) auto
  then show "te_clean (trust_run (es @ q1 @ [Update u]) (new_trust_engine p))"
    "te_state (trust_run (es @ q1 @ [Update u]) (new_trust_engine p)) =
          te_state (trust_run (es @ [Update t]) (new_trust_engine p))" using assms by simp_all
qed

lemma quiet_since_snoc:
  assumes "quiet_since p es t"
    and s: "te_state (trust_run (es @ [x]) (new_trust_engine p)) = te_state (trust_run es (new_trust_engine p))"
    and c: "\<And>u. x = Update u \<Longrightarrow> te_clean (trust_run (es @ [x]) (new_trust_engine p))"
  shows "quiet_since p (es @ [x]) t"
proof -
  obtain pre post where e: "es = pre @ Update t # post" and q: "\<And>q1 u q2. Update t # post = q1 @ Update u # q2 \<Longrightarrow>
      te_clean (trust_run (pre @ q1 @ [Update u]) (new_trust_engine p)) \<and>
      te_state (trust_run (pre @ q1 @ [Update u]) (new_trust_engine p)) = te_state (trust_run es (new_trust_engine p))"
    using assms(1) unfolding quiet_since_def by blast
  have "te_clean (trust_run (pre @ q1 @ [Update u]) (new_trust_engine p)) \<and>
      te_state (trust_run (pre @ q1 @ [Update u]) (new_trust_engine p)) = te_state (trust_run (es @ [x]) (new_trust_engine p))"
    if d: "Update t # (post @ [x]) = q1 @ Update u # q2" for q1 u q2
  proof (cases q2 rule: rev_cases)
    case Nil
    with d have "(Update t # post) @ [x] = q1 @ [Update u]" by simp
    then have "q1 = Update t # post" "x = Update u" by (metis append1_eq_conv)+
    then have eq: "pre @ q1 @ [Update u] = es @ [x]" using e by simp
    show ?thesis unfolding eq using c [OF \<open>x = Update u\<close>] by blast
  next
    case (snoc q y)
    with d have "(Update t # post) @ [x] = (q1 @ Update u # q) @ [y]" by simp
    then have "Update t # post = q1 @ Update u # q" by (metis append1_eq_conv)
    from q [OF this] s show ?thesis by simp
  qed
  moreover have "es @ [x] = pre @ Update t # (post @ [x])" using e by simp
  ultimately show ?thesis unfolding quiet_since_def by blast
qed

lemma clean_since_is_quiet:
  "te_clean_since_valid (trust_run es (new_trust_engine p)) \<Longrightarrow>
   quiet_since p es (te_clean_since (trust_run es (new_trust_engine p)))"
proof (induction es rule: rev_induct)
  case Nil
  then show ?case by (simp add: new_trust_engine_def)
next
  case (snoc x xs)
  define e where "e = trust_run xs (new_trust_engine p)"
  have r: "trust_run (xs @ [x]) (new_trust_engine p) = trust_step x e" by (simp add: e_def)
  show ?case
  proof (cases "\<exists>u. x = Update u")
    case False
    then have "te_clean_since_valid e \<and> te_clean_since (trust_step x e) = te_clean_since e \<and> te_state (trust_step x e) = te_state e"
      using snoc.prems unfolding r
      by (cases x) (auto simp: te_report_def te_clear_def te_stop_awaiting_def te_remember_fields te_reset_def)
    then have v: "te_clean_since_valid e" "te_clean_since (trust_step x e) = te_clean_since e" "te_state (trust_step x e) = te_state e"
      by simp_all
    have "quiet_since p (xs @ [x]) (te_clean_since e)"
      by (rule quiet_since_snoc [OF snoc.IH [folded e_def, OF v(1)]]) (use v False in \<open>auto simp: e_def\<close>)
    then show ?thesis unfolding r v(2) .
  next
    case True
    then obtain now where x: "x = Update now" by blast
    define s where "s = te_settled now e"
    have st: "trust_step x e = te_evaluate now s" by (simp add: x te_update_settled s_def)
    have now: "quiet_since p (xs @ [x]) now" if "te_clean s"
      using quiet_since_now [of xs now p] that r unfolding x st [unfolded x] by simp
    show ?thesis
    proof (cases rule: te_evaluate_cases [of s now])
      case fall
      with snoc.prems show ?thesis unfolding r st by simp
    next
      case dirty
      with snoc.prems show ?thesis unfolding r st by simp
    next
      case begin_hold
      with now show ?thesis unfolding r st by simp
    next
      case climb
      with now show ?thesis unfolding r st by simp
    next
      case hold
      have v: "te_clean_since_valid e" using hold(3) by (simp add: s_def te_settled_fields)
      have rr: "trust_run (xs @ [x]) (new_trust_engine p) = s" unfolding r st hold(4) ..
      have "quiet_since p (xs @ [x]) (te_clean_since e)"
      proof (rule quiet_since_snoc [OF snoc.IH [folded e_def, OF v]])
        show "te_state (trust_run (xs @ [x]) (new_trust_engine p)) = te_state (trust_run xs (new_trust_engine p))"
          unfolding rr by (simp add: s_def te_settled_fields e_def)
        show "te_clean (trust_run (xs @ [x]) (new_trust_engine p))" unfolding rr by (rule hold(2))
      qed
      then show ?thesis unfolding r st hold(4) by (simp add: s_def te_settled_fields)
    qed
  qed
qed

text \<open>
  C7. Silence never restores trust. Over any sequence of operations on a new engine, the only
  step that raises the state, other than \<open>reset\<close>, is an update that raises it by one level, and
  then every allegation made and not taken back is still live and inside a score of at most
  \<open>recover_below\<close>, none is waiting for its detector, and every update for at least the hold time
  before found the engine clean in the very state it leaves.
\<close>
theorem trust_is_earned_back:
  assumes "te_state (trust_run es (new_trust_engine p)) < te_state (trust_run (es @ [ev]) (new_trust_engine p))"
  shows "ev = Reset \<or>
    (\<exists>now. ev = Update now \<and>
      (let before = trust_run es (new_trust_engine p); after = trust_run (es @ [ev]) (new_trust_engine p)
       in te_state after = one_better (te_state before) \<and>
          te_unconfirmed after = 0 \<and> te_score after \<le> recover_below p \<and>
          unat (te_score after) = allegation_weight after \<and>
          (\<forall>r\<in>alleged es. te_holds r after)) \<and>
      (\<exists>t. quiet_since p es t \<and> recover_hold p \<le> elapsed t now))"
proof (cases ev)
  case (Update now)
  define e where "e = trust_run es (new_trust_engine p)"
  define s where "s = te_settled now e"
  have a: "trust_run (es @ [ev]) (new_trust_engine p) = te_evaluate now s"
    by (simp add: Update e_def s_def te_update_settled)
  have f: "te_state s = te_state e" "te_policy s = p" "te_clean_since s = te_clean_since e"
    "te_clean_since_valid s = te_clean_since_valid e"
    by (simp_all add: s_def te_settled_fields e_def te_policy_run) (simp add: new_trust_engine_def)
  from assms have up: "te_state s < te_state (te_evaluate now s)" unfolding a by (simp add: f e_def)
  have ac: "accounted (alleged es) (te_evaluate now s)"
    using accounted_run [of "es @ [ev]" p] unfolding a by (simp add: alleged_def Update)
  have sc: "unat (te_score (te_evaluate now s)) = allegation_weight (te_evaluate now s)"
    using te_settled_score [of now e] allegation_weight_cong [of "te_evaluate now s" s] by (simp add: s_def)
  show ?thesis
  proof (cases rule: te_evaluate_cases [of s now])
    case climb
    have q: "quiet_since p es (te_clean_since e)"
      using clean_since_is_quiet [of es p] climb(3) f(4) by (simp add: e_def)
    have h: "\<forall>r\<in>alleged es. te_holds r (te_evaluate now s)"
      using ac climb(2) by (auto simp: accounted_def te_clean_def te_awaiting_confirmation_def)
    have "recover_hold p \<le> elapsed (te_clean_since e) now" using climb(5) by (simp add: f)
    with q have "\<exists>t. quiet_since p es t \<and> recover_hold p \<le> elapsed t now" by blast
    then show ?thesis using h sc climb(2,6) unfolding a by (simp add: Update e_def [symmetric] f te_clean_def Let_def)
  qed (use up in \<open>auto simp: not_less\<close>)
qed (use assms in \<open>simp_all add: te_report_def te_clear_def te_stop_awaiting_def te_remember_fields\<close>)

text \<open>Jammed, cleared, and Trusted again six seconds later: the hold of five was served.\<close>

lemma trust_is_earned_back_witness:
  "let es = [Report ReceiverJamming 0, Update 0, Clear ReceiverJamming, Update 1000]
   in te_state (trust_run es (new_trust_engine default_trust_policy)) = Degraded \<and>
      te_state (trust_run (es @ [Update 6000]) (new_trust_engine default_trust_policy)) = Trusted \<and>
      (\<exists>t. quiet_since default_trust_policy es t \<and> recover_hold default_trust_policy \<le> elapsed t 6000)"
proof -
  define es where "es = [Report ReceiverJamming 0, Update 0, Clear ReceiverJamming, Update 1000]"
  have s: "te_state (trust_run es (new_trust_engine default_trust_policy)) = Degraded"
    "te_state (trust_run (es @ [Update 6000]) (new_trust_engine default_trust_policy)) = Trusted"
    unfolding es_def by code_simp+
  then show ?thesis using trust_is_earned_back [of es default_trust_policy "Update 6000"]
    unfolding es_def Let_def by auto
qed

section \<open>The log\<close>

text \<open>Every change of state since the last reset, oldest first.\<close>

definition record_change :: "trust_event \<Rightarrow> trust_engine \<Rightarrow> trust_transition list \<Rightarrow> trust_transition list" where
  "record_change ev e H =
     (case ev of
        Reset \<Rightarrow> []
      | Update now \<Rightarrow>
          if te_state (trust_step ev e) = te_state e then H
          else H @ [\<lparr>tt_from = te_state e, tt_to = te_state (trust_step ev e),
                     tt_reasons = te_live (trust_step ev e), tt_at = now\<rparr>]
      | _ \<Rightarrow> H)"

fun changes :: "trust_event list \<Rightarrow> trust_engine \<Rightarrow> trust_transition list \<Rightarrow> trust_transition list" where
  "changes [] e H = H"
| "changes (x # xs) e H = changes xs (trust_step x e) (record_change x e H)"

definition chained :: "trust_transition list \<Rightarrow> trust_state \<Rightarrow> bool" where
  "chained H s \<longleftrightarrow> (\<forall>i. i + 1 < length H \<longrightarrow> tt_to (H ! i) = tt_from (H ! (i + 1))) \<and>
     (if H = [] then s = Trusted else tt_from (hd H) = Trusted \<and> tt_to (last H) = s) \<and>
     (\<forall>t\<in>set H. tt_from t \<noteq> tt_to t)"

definition log_holds :: "trust_engine \<Rightarrow> trust_transition list \<Rightarrow> bool" where
  "log_holds e H \<longleftrightarrow> te_recorded e = length H \<and> length (te_log e) = kLogCapacity \<and>
     (\<forall>j < length H. length H \<le> j + kLogCapacity \<longrightarrow> te_log e ! (j mod kLogCapacity) = H ! j) \<and>
     chained H (te_state e)"

lemma chained_append:
  assumes "chained H (tt_from t)" and "tt_from t \<noteq> tt_to t"
  shows "chained (H @ [t]) (tt_to t)"
proof -
  have "tt_to ((H @ [t]) ! i) = tt_from ((H @ [t]) ! (i + 1))" if "i + 1 < length (H @ [t])" for i
  proof (cases "i + 1 < length H")
    case True
    then show ?thesis using assms(1) by (simp add: chained_def nth_append)
  next
    case False
    with that have i: "i + 1 = length H" by simp
    then have n: "H \<noteq> []" by auto
    then have "H ! i = last H" using i [symmetric] by (simp add: last_conv_nth)
    then show ?thesis using assms(1) i n by (simp add: chained_def nth_append)
  qed
  then show ?thesis using assms by (cases H) (auto simp: chained_def)
qed

lemma mod_apart: "j mod n = k mod n \<Longrightarrow> j < k \<Longrightarrow> k < j + n \<Longrightarrow> False" for j k n :: nat
  by (metis add.commute add_less_cancel_left dvd_imp_le le_add_diff_inverse2 less_imp_le_nat mod_eq_dvd_iff_nat
      not_le zero_less_diff)

lemma te_enter_log:
  assumes "log_holds e H" and "s \<noteq> te_state e"
  shows "log_holds (te_enter s now e) (H @ [\<lparr>tt_from = te_state e, tt_to = s, tt_reasons = te_live e, tt_at = now\<rparr>])"
proof -
  define t where "t = \<lparr>tt_from = te_state e, tt_to = s, tt_reasons = te_live e, tt_at = now\<rparr>"
  have l: "te_recorded e = length H" "length (te_log e) = kLogCapacity" "chained H (te_state e)"
    "\<And>j. j < length H \<Longrightarrow> length H \<le> j + kLogCapacity \<Longrightarrow> te_log e ! (j mod kLogCapacity) = H ! j"
    using assms(1) by (simp_all add: log_holds_def)
  have e: "te_recorded (te_enter s now e) = length H + 1" "te_state (te_enter s now e) = s"
    "te_log (te_enter s now e) = (te_log e)[length H mod kLogCapacity := t]"
    using assms(2) l(1) by (simp_all add: te_enter_def t_def)
  have "chained (H @ [t]) (tt_to t)" by (rule chained_append) (use l(3) assms(2) in \<open>simp_all add: t_def\<close>)
  then have ch: "chained (H @ [t]) s" by (simp add: t_def)
  have "(te_log e)[length H mod kLogCapacity := t] ! (j mod kLogCapacity) = (H @ [t]) ! j"
    if j: "j < length (H @ [t])" "length (H @ [t]) \<le> j + kLogCapacity" for j
  proof (cases "j = length H")
    case True
    then show ?thesis using l(2) by (simp add: kLogCapacity_def)
  next
    case False
    then have "j < length H" "length H < j + kLogCapacity" using j by simp_all
    moreover from this have "length H mod kLogCapacity \<noteq> j mod kLogCapacity" using mod_apart by metis
    ultimately show ?thesis using l(4) [of j] by (simp add: nth_append)
  qed
  with e ch l(2) show ?thesis unfolding t_def [symmetric] log_holds_def by simp
qed

lemma log_holds_cong:
  "te_log e' = te_log e \<Longrightarrow> te_recorded e' = te_recorded e \<Longrightarrow> te_state e' = te_state e \<Longrightarrow> log_holds e' H = log_holds e H"
  by (simp add: log_holds_def)

lemma te_enter_same: "te_enter (te_state e) now e = e"
  by (simp add: te_enter_def)

text \<open>An evaluation enters at most one state, and nothing else touches the log.\<close>

lemma te_evaluate_enters:
  "te_log (te_evaluate now e) = te_log (te_enter (te_state (te_evaluate now e)) now e) \<and>
   te_recorded (te_evaluate now e) = te_recorded (te_enter (te_state (te_evaluate now e)) now e)"
proof (cases "worse_than (te_target e) (te_state e)")
  case True
  then have "te_evaluate now e = te_enter (te_target e) now (e\<lparr>te_clean_since_valid := False\<rparr>)"
    by (simp add: te_evaluate_def)
  then show ?thesis by (simp add: te_enter_def)
next
  case False
  show ?thesis
  proof (cases "\<not> te_score e > recover_below (te_policy e) \<and> te_unconfirmed e = 0 \<and> te_clean_since_valid e \<and>
      te_state e \<noteq> Trusted \<and> elapsed (te_clean_since e) now \<ge> recover_hold (te_policy e)")
    case True
    with False have "te_evaluate now e = (te_enter (one_better (te_state e)) now e)\<lparr>te_clean_since := now\<rparr>"
      by (auto simp: te_evaluate_def)
    then show ?thesis by (simp add: te_enter_def)
  next
    case nc: False
    have "te_log (te_evaluate now e) = te_log e \<and> te_recorded (te_evaluate now e) = te_recorded e \<and>
        te_state (te_evaluate now e) = te_state e"
      using False nc by (auto simp: te_evaluate_def)
    then show ?thesis by (simp add: te_enter_same)
  qed
qed

lemma log_holds_step: "log_holds e H \<Longrightarrow> log_holds (trust_step ev e) (record_change ev e H)"
proof (cases ev)
  case (Update now)
  assume h: "log_holds e H"
  define s where "s = te_settled now e"
  have f: "te_state s = te_state e" "te_log s = te_log e" "te_recorded s = te_recorded e"
    by (simp_all add: s_def te_settled_fields)
  have hs: "log_holds s H" using h log_holds_cong [of s e H] by (simp add: f)
  define n where "n = te_state (te_evaluate now s)"
  have st: "trust_step ev e = te_evaluate now s" by (simp add: Update te_update_settled s_def)
  have eq: "log_holds (te_evaluate now s) K = log_holds (te_enter n now s) K" for K
    by (rule log_holds_cong) (use te_evaluate_enters [of now s] in \<open>simp_all add: n_def\<close>)
  show ?thesis
  proof (cases "n = te_state s")
    case True
    then have r: "record_change ev e H = H" using st unfolding Update by (simp add: record_change_def f n_def [symmetric])
    show ?thesis unfolding st r eq using hs True te_enter_same [of s now] by simp
  next
    case False
    then have r: "record_change ev e H = H @ [\<lparr>tt_from = te_state s, tt_to = n, tt_reasons = te_live s, tt_at = now\<rparr>]"
      using st unfolding Update by (simp add: record_change_def f n_def [symmetric])
    show ?thesis unfolding st r eq by (rule te_enter_log [OF hs False])
  qed
qed (auto simp: record_change_def log_holds_def te_report_def te_clear_def te_stop_awaiting_def
    te_remember_fields te_reset_def chained_def)

lemma log_holds_run: "log_holds e H \<Longrightarrow> log_holds (trust_run es e) (changes es e H)"
  by (induction es arbitrary: e H) (simp_all add: log_holds_step)

lemma log_holds_new: "log_holds (new_trust_engine p) []"
  by (simp add: log_holds_def new_trust_engine_def chained_def)

text \<open>
  The log is the recent past. Over any sequence of operations on a new engine it keeps the
  last sixteen changes of state since the last reset, oldest first, the count keeps counting
  beyond them, and each kept change leaves from where the one before arrived, the last at the
  present state; an index past what is kept reads a blank entry.
\<close>
theorem log_is_the_recent_past:
  "let e = trust_run es (new_trust_engine p); H = changes es (new_trust_engine p) []
   in te_recorded e = length H \<and> chained H (te_state e) \<and>
      te_transitions_logged e = min (length H) kLogCapacity \<and>
      map (\<lambda>i. te_transition i e) [0..<te_transitions_logged e] = drop (length H - kLogCapacity) H \<and>
      te_transition (te_transitions_logged e + k) e = blank_transition"
proof -
  define e where "e = trust_run es (new_trust_engine p)"
  define H where "H = changes es (new_trust_engine p) []"
  have "log_holds e H" unfolding e_def H_def by (rule log_holds_run [OF log_holds_new])
  then have l: "te_recorded e = length H" "chained H (te_state e)"
    "\<And>j. j < length H \<Longrightarrow> length H \<le> j + kLogCapacity \<Longrightarrow> te_log e ! (j mod kLogCapacity) = H ! j"
    by (simp_all add: log_holds_def)
  have k: "te_transitions_logged e = min (length H) kLogCapacity" by (simp add: te_transitions_logged_def l(1))
  have "te_transition i e = drop (length H - kLogCapacity) H ! i" if i: "i < te_transitions_logged e" for i
  proof (cases "length H < kLogCapacity")
    case True
    then have "te_transition i e = te_log e ! (i mod kLogCapacity)"
      using i by (simp add: te_transition_def Let_def l(1))
    with True i k l(3) [of i] show ?thesis by simp
  next
    case False
    define j where "j = length H - kLogCapacity + i"
    have "(length H mod kLogCapacity + i) mod kLogCapacity = j mod kLogCapacity"
    proof -
      have "length H + i = j + kLogCapacity" using False by (simp add: j_def)
      then show ?thesis unfolding mod_add_left_eq by simp
    qed
    then have "te_transition i e = te_log e ! (j mod kLogCapacity)"
      using i False by (simp add: te_transition_def Let_def l(1))
    also have "\<dots> = H ! j" using l(3) [of j] i k False by (simp add: j_def)
    finally show ?thesis using False i k by (simp add: j_def)
  qed
  then have "map (\<lambda>i. te_transition i e) [0..<te_transitions_logged e] = drop (length H - kLogCapacity) H"
    by (intro nth_equalityI) (simp_all add: k)
  moreover have "te_transition (te_transitions_logged e + k) e = blank_transition"
    by (simp add: te_transition_def Let_def)
  ultimately show ?thesis unfolding e_def [symmetric] H_def [symmetric] Let_def using l k by simp
qed

section \<open>The growing circle\<close>

text \<open>Never shrinking while time passes, and never less than the fix it grew from.\<close>

lemma unat_uncertainty:
  assumes "te_has_last_trusted e"
  shows "unat (te_uncertainty_mm now e) =
    min (unat (te_last_trusted_accuracy_mm e) +
         min (unat (elapsed (te_last_trusted_at e) now) div 1000 * unat (uncertainty_growth_mm_s (te_policy e))) (2 ^ 32 - 1))
      (2 ^ 32 - 1)"
proof -
  define s where "s = unat (elapsed (te_last_trusted_at e) now) div 1000"
  define g where "g = unat (uncertainty_growth_mm_s (te_policy e))"
  have b: "s \<le> 2 ^ 32 - 1" "g \<le> 2 ^ 32 - 1"
    using unat_bound [of "elapsed (te_last_trusted_at e) now"] unat_bound [of "uncertainty_growth_mm_s (te_policy e)"]
    by (simp_all add: s_def g_def)
  have su: "unat (ucast (elapsed (te_last_trusted_at e) now) div (1000 :: u64)) = s"
    by (simp add: s_def unat_div unat_upcast)
  have "s * g \<le> (2 ^ 32 - 1) * (2 ^ 32 - 1)" using b by (rule mult_le_mono)
  then have m: "unat ((ucast (elapsed (te_last_trusted_at e) now) div (1000 :: u64)) * ucast (uncertainty_growth_mm_s (te_policy e))) = s * g"
    unfolding unat_word_ariths(2) su by (simp add: g_def unat_upcast)
  have add: "unat (saturating_add a c) = min (unat a + unat c) (2 ^ 32 - 1)" for a c :: u32
    using unat_bound [of a] unat_bound [of c] by (simp add: saturating_add_def unat_clamp_u32 unat_word_ariths unat_upcast)
  show ?thesis using assms
    by (simp add: te_uncertainty_mm_def Let_def add unat_clamp_u32 m s_def [symmetric] g_def [symmetric] del: of_nat_mult)
qed

text \<open>
  The circle around the last trusted position never shrinks while time passes, is never
  tighter than the fix it grew from, and grows by exactly the policy's speed over each whole
  second until it saturates at the largest 32-bit value; it never wraps.
\<close>
theorem uncertainty_only_grows:
  assumes "te_has_last_trusted e" and "now \<le> later"
  shows "te_uncertainty_mm now e \<le> te_uncertainty_mm later e \<and>
    te_last_trusted_accuracy_mm e \<le> te_uncertainty_mm now e \<and>
    unat (te_uncertainty_mm now e) = min (2 ^ 32 - 1)
      (unat (te_last_trusted_accuracy_mm e) +
       unat (elapsed (te_last_trusted_at e) now) div 1000 * unat (uncertainty_growth_mm_s (te_policy e)))"
proof -
  define a where "a = unat (te_last_trusted_accuracy_mm e)"
  define g where "g = unat (uncertainty_growth_mm_s (te_policy e))"
  define s where "s t = unat (elapsed (te_last_trusted_at e) t) div 1000 * g" for t
  have u: "unat (te_uncertainty_mm t e) = min (2 ^ 32 - 1) (a + s t)" for t
    unfolding unat_uncertainty [OF assms(1)] a_def s_def g_def by (simp add: min_def)
  have "unat (elapsed (te_last_trusted_at e) now) \<le> unat (elapsed (te_last_trusted_at e) later)"
    using elapsed_mono [OF assms(2)] by (simp add: word_le_unat)
  then have "s now \<le> s later" unfolding s_def by (intro mult_le_mono1 div_le_mono)
  moreover have "a \<le> 2 ^ 32 - 1" using unat_bound [of "te_last_trusted_accuracy_mm e"] by (simp add: a_def)
  ultimately show ?thesis unfolding word_le_unat u s_def [symmetric] g_def [symmetric] a_def [symmetric]
    by (simp add: min_le_iff_disj)
qed

lemma uncertainty_only_grows_witness:
  "let e = te_remember (new_gnss_observation\<lparr>go_position := Some \<lparr>latitude_e7 = 0, longitude_e7 = 0\<rparr>,
             horizontal_accuracy_mm := Some 3000\<rparr>) 1000 (new_trust_engine default_trust_policy)
   in te_has_last_trusted e \<and> unat (te_uncertainty_mm 11000 e) = 18000 \<and> te_uncertainty_mm 11000 e \<le> te_uncertainty_mm 99000 e"
proof -
  define e where "e = te_remember (new_gnss_observation\<lparr>go_position := Some \<lparr>latitude_e7 = 0, longitude_e7 = 0\<rparr>,
             horizontal_accuracy_mm := Some 3000\<rparr>) 1000 (new_trust_engine default_trust_policy)"
  have "te_has_last_trusted e \<and> unat (te_uncertainty_mm 11000 e) = 18000" unfolding e_def by code_simp
  with uncertainty_only_grows [of e 11000 99000] show ?thesis unfolding e_def by (simp add: Let_def)
qed

end
