(* ===== verification/Trust_Evaluator.thy ===== *)
theory Trust_Evaluator
  imports Trust_Engine
begin

text \<open>
  \<open>TrustEvaluator\<close> of \<open>core/include/attadipa/core/trust.h\<close> and \<open>core/src/trust.cpp\<close>: what it
  keeps of earlier observations, and how each new one becomes reports and retractions to the
  engine it owns. \<open>observe\<close> is cut into the paragraphs of the C++ function, in their order.
\<close>

section \<open>The evaluator\<close>

record comparable_position =
  cp_position :: geo_position
  cp_measured_at :: monotonic

record trust_evaluator =
  ev_engine :: trust_engine
  ev_previous_body :: sensor_body
  ev_have_previous :: bool
  ev_previous_position :: geo_position
  ev_previous_position_at :: monotonic
  ev_have_previous_altitude :: bool
  ev_previous_altitude_mm :: int
  ev_previous_altitude_at :: monotonic
  ev_have_previous_in_view :: bool
  ev_previous_in_view :: u8
  ev_local_comparable :: "comparable_position option"
  ev_have_other_comparable :: bool
  ev_other_last_comparable_at :: monotonic

definition new_trust_evaluator :: "trust_policy \<Rightarrow> trust_evaluator" where
  "new_trust_evaluator policy =
     \<lparr>ev_engine = new_trust_engine policy, ev_previous_body = BodyUnknown,
      ev_have_previous = False, ev_previous_position = \<lparr>latitude_e7 = 0, longitude_e7 = 0\<rparr>,
      ev_previous_position_at = 0, ev_have_previous_altitude = False, ev_previous_altitude_mm = 0,
      ev_previous_altitude_at = 0, ev_have_previous_in_view = False, ev_previous_in_view = 0,
      ev_local_comparable = None, ev_have_other_comparable = False, ev_other_last_comparable_at = 0\<rparr>"

definition trust_set :: "trust_reason \<Rightarrow> bool \<Rightarrow> monotonic \<Rightarrow> trust_engine \<Rightarrow> trust_engine" where
  "trust_set r active now e = (if active then te_report r now e else te_clear r e)"

subsection \<open>The paragraphs of an observation\<close>

definition meet_body :: "gnss_observation \<Rightarrow> trust_evaluator \<Rightarrow> trust_evaluator" where
  "meet_body ob ev =
     (if body_of (go_source ob) \<noteq> ev_previous_body ev
      then ev\<lparr>ev_previous_body := body_of (go_source ob), ev_have_previous := False,
              ev_have_previous_altitude := False, ev_have_previous_in_view := False,
              ev_local_comparable := None\<rparr>
      else ev)"

definition hear_indication :: "trust_reason \<Rightarrow> receiver_indication \<Rightarrow> monotonic \<Rightarrow> trust_engine \<Rightarrow> trust_engine" where
  "hear_indication r ind now e =
     (if ind = Warning \<or> ind = Critical then te_report r now e
      else if ind = IndicationNone then te_clear r e
      else e)"

definition hear_receiver :: "gnss_observation \<Rightarrow> monotonic \<Rightarrow> trust_engine \<Rightarrow> trust_engine" where
  "hear_receiver ob now e =
     (let e1 = hear_indication ReceiverSpoofing (spoofing ob) now e;
          e2 = hear_indication ReceiverJamming (jamming ob) now e1
      in case go_protection_level ob of
           Some level \<Rightarrow>
             trust_set ProtectionLevelExceeded
               (pl_valid level \<and> pl_horizontal_mm level > protection_level_limit_mm (te_policy e)) now
               (trust_set ProtectionLevelInvalid (\<not> pl_valid level) now e2)
         | None \<Rightarrow> te_clear ProtectionLevelExceeded (te_clear ProtectionLevelInvalid e2))"

definition judge_quality :: "gnss_observation \<Rightarrow> position_validity \<Rightarrow> monotonic \<Rightarrow> trust_engine \<Rightarrow> trust_engine" where
  "judge_quality ob validity now e =
     (let p = te_policy e;
          e1 = trust_set FixLost (validity = NoFix) now e;
          e2 = trust_set StalePosition (validity = Stale) now e1;
          e3 = trust_set AccuracyPoor (has_and (\<lambda>a. a > accuracy_poor_mm p) (horizontal_accuracy_mm ob)) now e2;
          e4 = trust_set InsufficientSatellites (has_and (\<lambda>n. n < min_satellites p) (satellites_used ob)) now e3
      in trust_set ImplausibleSpeed (has_and (\<lambda>v. v > implausible_speed_mm_s p) (speed_mm_s ob)) now e4)"

definition constellation_anomaly :: "gnss_observation \<Rightarrow> trust_evaluator \<Rightarrow> bool" where
  "constellation_anomaly ob ev \<longleftrightarrow>
     has_and (\<lambda>used. has_and (\<lambda>view. used > view) (satellites_in_view ob)) (satellites_used ob) \<or>
     has_and (\<lambda>view. ev_have_previous_in_view ev \<and> ev_previous_in_view ev \<ge> 8 \<and> view = 0) (satellites_in_view ob)"

definition judge_constellation :: "gnss_observation \<Rightarrow> monotonic \<Rightarrow> trust_evaluator \<Rightarrow> trust_evaluator" where
  "judge_constellation ob now ev =
     (let anomaly = constellation_anomaly ob ev;
          ev1 = (case satellites_in_view ob of
                   Some view \<Rightarrow> ev\<lparr>ev_previous_in_view := view, ev_have_previous_in_view := True\<rparr>
                 | None \<Rightarrow> ev)
      in ev1\<lparr>ev_engine := trust_set ConstellationAnomaly anomaly now (ev_engine ev1)\<rparr>)"

definition observed_in_future :: "gnss_observation \<Rightarrow> monotonic \<Rightarrow> trust_policy \<Rightarrow> bool" where
  "observed_in_future ob now p \<longleftrightarrow> elapsed now (observed_at ob) > observed_at_forward_skew p"

definition clock_disagrees :: "gnss_observation \<Rightarrow> wall_time option \<Rightarrow> monotonic \<Rightarrow> trust_policy \<Rightarrow> bool" where
  "clock_disagrees ob device_time now p \<longleftrightarrow>
     receiver_time_valid ob \<and>
     has_and (\<lambda>theirs. has_and (\<lambda>ours. seconds_between theirs ours > ucast (clock_disagreement_s p)) device_time)
       (receiver_time ob) \<or>
     observed_in_future ob now p"

definition is_a_measurement :: "position_validity \<Rightarrow> bool" where
  "is_a_measurement validity \<longleftrightarrow> validity = Valid \<or> validity = ValidityDegraded"

text \<open>The position against the one before it: whether it jumped, and whether it moved at rest.\<close>

definition judge_position ::
  "gnss_observation \<Rightarrow> position_validity \<Rightarrow> motion_evidence \<Rightarrow> bool \<Rightarrow> trust_evaluator
     \<Rightarrow> bool \<times> bool \<times> trust_evaluator" where
  "judge_position ob validity motion in_future ev =
     (case go_position ob of
        None \<Rightarrow> (False, False, ev)
      | Some pos \<Rightarrow>
          if \<not> in_range pos then (False, False, ev)
          else
            let p = te_policy (ev_engine ev);
                in_order = (\<not> in_future \<and> (\<not> ev_have_previous ev \<or> observed_at ob \<ge> ev_previous_position_at ev));
                compared = (is_a_measurement validity \<and> ev_have_previous ev);
                dt = elapsed (ev_previous_position_at ev) (observed_at ob);
                moved = distance_mm pos (ev_previous_position ev);
                implied = (ucast moved * 1000 :: u64) div ucast dt;
                jumped = (compared \<and> dt > 0 \<and> implied > ucast (implausible_speed_mm_s p));
                at_rest = (compared \<and> says_at_rest (body_of (go_source ob)) motion \<and> moved > jump_while_still_mm p);
                ev1 = (if is_a_measurement validity \<and> in_order
                       then ev\<lparr>ev_previous_position := pos, ev_previous_position_at := observed_at ob,
                               ev_have_previous := True,
                               ev_local_comparable := Some \<lparr>cp_position = pos, cp_measured_at = observed_at ob\<rparr>\<rparr>
                       else ev)
            in (jumped, at_rest, ev1))"

definition judge_altitude ::
  "gnss_observation \<Rightarrow> position_validity \<Rightarrow> bool \<Rightarrow> trust_evaluator \<Rightarrow> bool \<times> trust_evaluator" where
  "judge_altitude ob validity in_future ev =
     (case altitude_msl_mm ob of
        None \<Rightarrow> (False, ev)
      | Some alt \<Rightarrow>
          let p = te_policy (ev_engine ev);
              in_order = (\<not> in_future \<and>
                (\<not> ev_have_previous_altitude ev \<or> observed_at ob \<ge> ev_previous_altitude_at ev));
              dt = elapsed (ev_previous_altitude_at ev) (observed_at ob);
              delta = \<bar>alt - ev_previous_altitude_mm ev\<bar>;
              rate = (word_of_int delta * 1000 :: u64) div ucast dt;
              absurd = (is_a_measurement validity \<and> ev_have_previous_altitude ev \<and> dt > 0 \<and>
                        rate > ucast (implausible_altitude_rate_mm_s p));
              ev1 = (if is_a_measurement validity \<and> in_order
                     then ev\<lparr>ev_previous_altitude_mm := alt, ev_previous_altitude_at := observed_at ob,
                             ev_have_previous_altitude := True\<rparr>
                     else ev)
          in (absurd, ev1))"

subsection \<open>The operations\<close>

definition ev_observe ::
  "gnss_observation \<Rightarrow> position_validity \<Rightarrow> motion_evidence \<Rightarrow> wall_time option \<Rightarrow> monotonic
     \<Rightarrow> trust_evaluator \<Rightarrow> trust_evaluator" where
  "ev_observe ob validity motion device_time now ev0 =
     (let p = te_policy (ev_engine ev0);
          ev1 = meet_body ob ev0;
          ev2 = ev1\<lparr>ev_engine := judge_quality ob validity now (hear_receiver ob now (ev_engine ev1))\<rparr>;
          ev3 = judge_constellation ob now ev2;
          ev4 = ev3\<lparr>ev_engine := trust_set ClockDisagreement (clock_disagrees ob device_time now p) now (ev_engine ev3)\<rparr>;
          in_future = observed_in_future ob now p;
          (jumped, at_rest, ev5) = judge_position ob validity motion in_future ev4;
          (absurd, ev6) = judge_altitude ob validity in_future ev5;
          e = te_update now
                (trust_set ImplausibleAltitudeRate absurd now
                  (trust_set MotionDisagreement at_rest now
                    (trust_set PositionJump jumped now (ev_engine ev6))))
      in ev6\<lparr>ev_engine := (if te_state e = Trusted \<and> validity = Valid then te_remember ob now e else e)\<rparr>)"

definition ev_refresh :: "position_validity \<Rightarrow> monotonic \<Rightarrow> trust_evaluator \<Rightarrow> trust_evaluator" where
  "ev_refresh validity now ev =
     ev\<lparr>ev_engine := te_update now
          (trust_set StalePosition (validity = Stale) now
            (trust_set FixLost (validity = NoFix) now (ev_engine ev)))\<rparr>"

definition ev_compare_provider ::
  "gnss_observation \<Rightarrow> position_validity \<Rightarrow> monotonic \<Rightarrow> trust_evaluator \<Rightarrow> trust_evaluator" where
  "ev_compare_provider other other_validity now ev =
     (let p = te_policy (ev_engine ev);
          window = provider_comparison_window p;
          can_answer = (is_a_measurement other_validity \<and> has_and in_range (go_position other) \<and>
                        elapsed (observed_at other) now \<le> window);
          ev1 = (if can_answer
                 then ev\<lparr>ev_have_other_comparable := True, ev_other_last_comparable_at := now\<rparr> else ev);
          gone_quiet = (ev_have_other_comparable ev1 \<and>
                        elapsed (ev_other_last_comparable_at ev1) now > provider_departure_grace p)
      in if \<not> can_answer
         then if \<not> gone_quiet then ev1
              else ev1\<lparr>ev_engine := te_stop_awaiting ProviderDisagreement (ev_engine ev1)\<rparr>
         else case ev_local_comparable ev1 of
                None \<Rightarrow> ev1
              | Some here \<Rightarrow>
                  if elapsed (cp_measured_at here) now > window then ev1
                  else
                    let apart = distance_mm (cp_position here) (the (go_position other))
                    in ev1\<lparr>ev_engine := te_update now
                         (trust_set ProviderDisagreement (apart > provider_disagreement_mm p) now (ev_engine ev1))\<rparr>)"

definition ev_provider_detached :: "trust_evaluator \<Rightarrow> trust_evaluator" where
  "ev_provider_detached ev = ev\<lparr>ev_engine := te_stop_awaiting ProviderDisagreement (ev_engine ev)\<rparr>"

definition ev_reset :: "trust_evaluator \<Rightarrow> trust_evaluator" where
  "ev_reset ev =
     ev\<lparr>ev_engine := te_reset (ev_engine ev), ev_have_previous := False, ev_have_previous_altitude := False,
        ev_have_previous_in_view := False, ev_local_comparable := None, ev_have_other_comparable := False\<rparr>"

section \<open>Every operation is a run of the engine\<close>

datatype evaluator_op =
  Observe gnss_observation position_validity motion_evidence "wall_time option" monotonic
| Refresh position_validity monotonic
| CompareProvider gnss_observation position_validity monotonic
| ProviderDetached
| ResetEvaluator

fun ev_step :: "evaluator_op \<Rightarrow> trust_evaluator \<Rightarrow> trust_evaluator" where
  "ev_step (Observe ob validity motion device_time now) ev = ev_observe ob validity motion device_time now ev"
| "ev_step (Refresh validity now) ev = ev_refresh validity now ev"
| "ev_step (CompareProvider ob validity now) ev = ev_compare_provider ob validity now ev"
| "ev_step ProviderDetached ev = ev_provider_detached ev"
| "ev_step ResetEvaluator ev = ev_reset ev"

definition set_event :: "trust_reason \<Rightarrow> bool \<Rightarrow> monotonic \<Rightarrow> trust_event" where
  "set_event r active now = (if active then Report r now else Clear r)"

definition indication_events :: "trust_reason \<Rightarrow> receiver_indication \<Rightarrow> monotonic \<Rightarrow> trust_event list" where
  "indication_events r ind now =
     (if ind = Warning \<or> ind = Critical then [Report r now] else if ind = IndicationNone then [Clear r] else [])"

text \<open>What an observation says of the past: compared with what the evaluator kept of it.\<close>

definition geometry ::
  "gnss_observation \<Rightarrow> position_validity \<Rightarrow> motion_evidence \<Rightarrow> monotonic \<Rightarrow> trust_evaluator \<Rightarrow> bool \<times> bool \<times> bool" where
  "geometry ob validity motion now ev =
     (let in_future = observed_in_future ob now (te_policy (ev_engine ev));
          (jumped, at_rest, ev1) = judge_position ob validity motion in_future (meet_body ob ev)
      in (jumped, at_rest, fst (judge_altitude ob validity in_future ev1)))"

text \<open>The conclusions an observation draws afresh each time, with the test behind each.\<close>

definition conclusions ::
  "gnss_observation \<Rightarrow> position_validity \<Rightarrow> motion_evidence \<Rightarrow> wall_time option \<Rightarrow> monotonic \<Rightarrow> trust_evaluator
     \<Rightarrow> (trust_reason \<times> bool) list" where
  "conclusions ob validity motion device_time now ev =
     (let p = te_policy (ev_engine ev);
          (jumped, at_rest, absurd) = geometry ob validity motion now ev
      in [(ProtectionLevelInvalid, has_and (\<lambda>l. \<not> pl_valid l) (go_protection_level ob)),
          (ProtectionLevelExceeded,
            has_and (\<lambda>l. pl_valid l \<and> pl_horizontal_mm l > protection_level_limit_mm p) (go_protection_level ob)),
          (FixLost, validity = NoFix), (StalePosition, validity = Stale),
          (AccuracyPoor, has_and (\<lambda>a. a > accuracy_poor_mm p) (horizontal_accuracy_mm ob)),
          (InsufficientSatellites, has_and (\<lambda>n. n < min_satellites p) (satellites_used ob)),
          (ImplausibleSpeed, has_and (\<lambda>v. v > implausible_speed_mm_s p) (speed_mm_s ob)),
          (ConstellationAnomaly, constellation_anomaly ob (meet_body ob ev)),
          (ClockDisagreement, clock_disagrees ob device_time now p),
          (PositionJump, jumped), (MotionDisagreement, at_rest), (ImplausibleAltitudeRate, absurd)])"

definition observe_events ::
  "gnss_observation \<Rightarrow> position_validity \<Rightarrow> motion_evidence \<Rightarrow> wall_time option \<Rightarrow> monotonic \<Rightarrow> trust_evaluator
     \<Rightarrow> trust_event list" where
  "observe_events ob validity motion device_time now ev =
     indication_events ReceiverSpoofing (spoofing ob) now @ indication_events ReceiverJamming (jamming ob) now @
     map (\<lambda>(r, b). set_event r b now) (conclusions ob validity motion device_time now ev) @ [Update now]"

lemma trust_set_event: "trust_set r active now e = trust_step (set_event r active now) e"
  by (simp add: trust_set_def set_event_def)

lemma hear_indication_events: "hear_indication r ind now e = trust_run (indication_events r ind now) e"
  by (simp add: hear_indication_def indication_events_def)

lemma hear_receiver_events:
  "hear_receiver ob now e =
     trust_run (indication_events ReceiverSpoofing (spoofing ob) now @ indication_events ReceiverJamming (jamming ob) now @
         [set_event ProtectionLevelInvalid (has_and (\<lambda>l. \<not> pl_valid l) (go_protection_level ob)) now,
          set_event ProtectionLevelExceeded
            (has_and (\<lambda>l. pl_valid l \<and> pl_horizontal_mm l > protection_level_limit_mm (te_policy e)) (go_protection_level ob)) now]) e"
  by (simp add: hear_receiver_def hear_indication_events trust_set_event Let_def split: option.split)
    (simp add: set_event_def)

lemma te_policy_set [simp]: "te_policy (trust_set r active now e) = te_policy e"
  by (simp add: trust_set_event te_policy_step)

lemma te_policy_hear [simp]: "te_policy (hear_receiver ob now e) = te_policy e"
  by (simp add: hear_receiver_events te_policy_run te_policy_step del: trust_run_simps)

lemma meet_body_engine [simp]: "ev_engine (meet_body ob ev) = ev_engine ev"
  by (simp add: meet_body_def)

text \<open>The paragraphs that compare with the past look at the evaluator's memory of it, not at the engine.\<close>

lemma judge_constellation_frame:
  "ev_engine (judge_constellation ob now ev) = trust_set ConstellationAnomaly (constellation_anomaly ob ev) now (ev_engine ev)"
  by (simp add: judge_constellation_def Let_def split: option.split)

lemma constellation_anomaly_engine [simp]: "constellation_anomaly ob (ev\<lparr>ev_engine := e\<rparr>) = constellation_anomaly ob ev"
  by (simp add: constellation_anomaly_def)

definition same_memory :: "trust_evaluator \<Rightarrow> trust_evaluator \<Rightarrow> bool" where
  "same_memory a b \<longleftrightarrow> te_policy (ev_engine a) = te_policy (ev_engine b) \<and>
     ev_have_previous a = ev_have_previous b \<and> ev_previous_position a = ev_previous_position b \<and>
     ev_previous_position_at a = ev_previous_position_at b \<and>
     ev_have_previous_altitude a = ev_have_previous_altitude b \<and>
     ev_previous_altitude_mm a = ev_previous_altitude_mm b \<and> ev_previous_altitude_at a = ev_previous_altitude_at b"

lemma judge_position_memory:
  assumes "same_memory a b"
  shows "fst (judge_position ob v m f b) = fst (judge_position ob v m f a)"
    and "fst (snd (judge_position ob v m f b)) = fst (snd (judge_position ob v m f a))"
    and "same_memory (snd (snd (judge_position ob v m f a))) (snd (snd (judge_position ob v m f b)))"
    and "ev_engine (snd (snd (judge_position ob v m f a))) = ev_engine a"
  using assms by (simp_all add: judge_position_def same_memory_def Let_def split: option.split) blast

lemma judge_altitude_memory:
  assumes "same_memory a b"
  shows "fst (judge_altitude ob v f b) = fst (judge_altitude ob v f a)"
    and "ev_engine (snd (judge_altitude ob v f a)) = ev_engine a"
  using assms by (auto simp: judge_altitude_def same_memory_def Let_def split: option.splits)

lemma observe_engine:
  assumes "geometry ob validity motion now ev = (jumped, at_rest, absurd)"
  shows "\<exists>ev'. ev_observe ob validity motion device_time now ev =
    ev'\<lparr>ev_engine := (let e = te_update now (trust_set ImplausibleAltitudeRate absurd now
        (trust_set MotionDisagreement at_rest now (trust_set PositionJump jumped now
        (trust_set ClockDisagreement (clock_disagrees ob device_time now (te_policy (ev_engine ev))) now
        (trust_set ConstellationAnomaly (constellation_anomaly ob (meet_body ob ev)) now
        (judge_quality ob validity now (hear_receiver ob now (ev_engine ev))))))))
      in if te_state e = Trusted \<and> validity = Valid then te_remember ob now e else e)\<rparr>"
proof -
  define p where "p = te_policy (ev_engine ev)"
  define f where "f = observed_in_future ob now p"
  define ev1 where "ev1 = meet_body ob ev"
  define ev2 where "ev2 = ev1\<lparr>ev_engine := judge_quality ob validity now (hear_receiver ob now (ev_engine ev1))\<rparr>"
  define ev3 where "ev3 = judge_constellation ob now ev2"
  define ev4 where "ev4 = ev3\<lparr>ev_engine := trust_set ClockDisagreement (clock_disagrees ob device_time now p) now (ev_engine ev3)\<rparr>"
  obtain j r ev5 where j: "judge_position ob validity motion f ev4 = (j, r, ev5)" by (metis prod_cases3)
  obtain b ev6 where b: "judge_altitude ob validity f ev5 = (b, ev6)" by (metis prod.exhaust)
  have o: "ev_observe ob validity motion device_time now ev = ev6\<lparr>ev_engine :=
      (let e = te_update now (trust_set ImplausibleAltitudeRate b now
          (trust_set MotionDisagreement r now (trust_set PositionJump j now (ev_engine ev6))))
       in if te_state e = Trusted \<and> validity = Valid then te_remember ob now e else e)\<rparr>"
    using j b unfolding ev_observe_def p_def f_def ev4_def ev3_def ev2_def ev1_def by (simp add: Let_def)
  have pol: "te_policy (judge_quality ob validity now (hear_receiver ob now (ev_engine ev))) = p"
    by (simp add: judge_quality_def Let_def p_def)
  have m: "same_memory ev4 ev1"
    by (simp add: same_memory_def ev4_def ev3_def judge_constellation_def ev2_def Let_def pol ev1_def p_def split: option.split)
  note mp = judge_position_memory [OF m, of ob validity motion f]
  have m5: "same_memory ev5 (snd (snd (judge_position ob validity motion f ev1)))" using mp(3) j by simp
  have e6: "ev_engine ev6 = ev_engine ev4" using mp(4) judge_altitude_memory(2) [OF m5] j b by (metis snd_conv)
  have g: "j = jumped" "r = at_rest" "b = absurd"
    using mp(1,2) judge_altitude_memory(1) [OF m5, of ob validity f] assms j b
    by (auto simp: geometry_def Let_def p_def [symmetric] f_def [symmetric] ev1_def case_prod_beta)
  have e4: "ev_engine ev4 = trust_set ClockDisagreement (clock_disagrees ob device_time now p) now
      (trust_set ConstellationAnomaly (constellation_anomaly ob ev1) now
        (judge_quality ob validity now (hear_receiver ob now (ev_engine ev))))"
    by (simp add: ev4_def ev3_def judge_constellation_frame ev2_def ev1_def)
  show ?thesis unfolding o e6 g e4 by (intro exI [of _ ev6]) (simp add: p_def ev1_def)
qed

lemma observe_is_run:
  "ev_engine (ev_observe ob validity motion device_time now ev) =
     (let e = trust_run (observe_events ob validity motion device_time now ev) (ev_engine ev)
      in if te_state e = Trusted \<and> validity = Valid then te_remember ob now e else e)"
proof -
  obtain jumped at_rest absurd where g: "geometry ob validity motion now ev = (jumped, at_rest, absurd)"
    by (metis prod_cases3)
  from observe_engine [OF g, of device_time] show ?thesis
    by (auto simp: observe_events_def conclusions_def g judge_quality_def hear_receiver_events trust_set_event Let_def
        te_policy_run te_policy_step)
qed

definition compare_events ::
  "gnss_observation \<Rightarrow> position_validity \<Rightarrow> monotonic \<Rightarrow> trust_evaluator \<Rightarrow> trust_event list" where
  "compare_events other other_validity now ev =
     (let p = te_policy (ev_engine ev);
          window = provider_comparison_window p
      in if is_a_measurement other_validity \<and> has_and in_range (go_position other) \<and> elapsed (observed_at other) now \<le> window
         then (case ev_local_comparable ev of
                 None \<Rightarrow> []
               | Some here \<Rightarrow>
                   if elapsed (cp_measured_at here) now > window then []
                   else [set_event ProviderDisagreement
                           (distance_mm (cp_position here) (the (go_position other)) > provider_disagreement_mm p) now,
                         Update now])
         else if ev_have_other_comparable ev \<and> elapsed (ev_other_last_comparable_at ev) now > provider_departure_grace p
         then [StopAwaiting ProviderDisagreement] else [])"

definition op_events :: "evaluator_op \<Rightarrow> trust_evaluator \<Rightarrow> trust_event list" where
  "op_events op ev =
     (case op of
        Observe ob validity motion device_time now \<Rightarrow>
          observe_events ob validity motion device_time now ev @
          (if te_state (trust_run (observe_events ob validity motion device_time now ev) (ev_engine ev)) = Trusted \<and> validity = Valid
           then [Remember ob now] else [])
      | Refresh validity now \<Rightarrow>
          [set_event FixLost (validity = NoFix) now, set_event StalePosition (validity = Stale) now, Update now]
      | CompareProvider other validity now \<Rightarrow> compare_events other validity now ev
      | ProviderDetached \<Rightarrow> [StopAwaiting ProviderDisagreement]
      | ResetEvaluator \<Rightarrow> [Reset])"

lemma op_events_run: "ev_engine (ev_step op ev) = trust_run (op_events op ev) (ev_engine ev)"
proof (cases op)
  case (Observe ob validity motion device_time now)
  then show ?thesis by (auto simp: op_events_def observe_is_run Let_def)
next
  case (CompareProvider other validity now)
  then show ?thesis
    by (auto simp: op_events_def compare_events_def ev_compare_provider_def Let_def trust_set_event split: option.split)
qed (simp_all add: op_events_def ev_refresh_def trust_set_event ev_provider_detached_def ev_reset_def)

definition ev_run :: "evaluator_op list \<Rightarrow> trust_evaluator \<Rightarrow> trust_evaluator" where
  "ev_run ops ev = fold ev_step ops ev"

fun events_of :: "evaluator_op list \<Rightarrow> trust_evaluator \<Rightarrow> trust_event list" where
  "events_of [] ev = []"
| "events_of (op # ops) ev = op_events op ev @ events_of ops (ev_step op ev)"

text \<open>
  C24. Whatever the evaluator is asked to do, its engine has been through exactly the reports,
  retractions and updates its operations stand for, so what holds of every run of an engine
  holds of it; in particular each allegation it raised and nobody took back is still live or
  still awaited. The only retraction of a disagreement between providers is a comparison the
  other side could answer, and only a departure stops waiting for one.
\<close>
theorem evaluator_is_a_run_of_its_engine:
  "let es = events_of ops (new_trust_evaluator p); e = ev_engine (ev_run ops (new_trust_evaluator p))
   in e = trust_run es (new_trust_engine p) \<and>
      alleged es \<subseteq> {r. te_holds r e \<or> te_awaiting_confirmation r e}"
proof -
  have r: "ev_engine (ev_run ops ev) = trust_run (events_of ops ev) (ev_engine ev)" for ev
    by (induction ops arbitrary: ev) (simp_all add: ev_run_def op_events_run)
  have n: "ev_engine (new_trust_evaluator p) = new_trust_engine p" by (simp add: new_trust_evaluator_def)
  show ?thesis using accounted_run [of "events_of ops (new_trust_evaluator p)" p]
    by (auto simp: r n Let_def accounted_def)
qed

section \<open>What an observation concludes\<close>

lemma trust_reason_bit_nonzero [simp]: "trust_reason_bit r \<noteq> 0"
  using reason_masks(2) [of r r] by (metis and.idem)

lemma te_holds_set [simp]:
  "te_holds r (trust_step (set_event s a now) e) \<longleftrightarrow> (if r = s then a else te_holds r e)"
  "te_evidence_at (trust_step (set_event s a now) e) r = (if r = s \<and> a then now else te_evidence_at e r)"
  by (auto simp: set_event_def te_report_def te_clear_def te_holds_def)

lemma te_holds_remember [simp]: "te_holds r (te_remember ob now e) = te_holds r e"
  by (simp add: te_holds_def te_remember_fields)

lemma te_holds_update: "te_holds r (te_update now e) \<longleftrightarrow> te_holds r e \<and> \<not> expired now e r"
  by (simp add: te_update_settled te_settled_masks)

lemma expired_now:
  "evidence_ttl (te_policy e) \<noteq> 0 \<Longrightarrow> te_evidence_at e r = now \<Longrightarrow> \<not> expired now e r"
  by (simp add: expired_def word_le_unat unat_eq_0)

lemma set_all_others:
  "r \<notin> set (map fst c) \<Longrightarrow> te_holds r (trust_run (map (\<lambda>(r, b). set_event r b now) c) e) = te_holds r e \<and>
     te_evidence_at (trust_run (map (\<lambda>(r, b). set_event r b now) c) e) r = te_evidence_at e r"
  by (induction c arbitrary: e) auto

lemma set_all_holds:
  "distinct (map fst c) \<Longrightarrow> (r, b) \<in> set c \<Longrightarrow>
     te_holds r (trust_run (map (\<lambda>(r, b). set_event r b now) c) e) = b \<and>
     (b \<longrightarrow> te_evidence_at (trust_run (map (\<lambda>(r, b). set_event r b now) c) e) r = now)"
proof (induction c arbitrary: e)
  case (Cons x c)
  obtain s a where x: "x = (s, a)" by (cases x)
  show ?case
  proof (cases "(r, b) \<in> set c")
    case True
    with Cons show ?thesis by (simp add: x)
  next
    case False
    with Cons.prems have "r = s" "b = a" "r \<notin> set (map fst c)" by (auto simp: x)
    then show ?thesis using set_all_others [of r c now] by (simp add: x)
  qed
qed simp

text \<open>
  After an observation each of the twelve conclusions it draws from the frame, the clocks
  and the fix before it stands exactly when its test says so, whatever was alleged before; the
  receiver's own alarms stand if it raises them, and fall only if it says there is nothing
  wrong.
\<close>
theorem observation_concludes:
  assumes "evidence_ttl (te_policy (ev_engine ev)) \<noteq> 0"
  shows "let e = ev_engine (ev_observe ob validity motion device_time now ev)
    in list_all (\<lambda>(r, b). te_holds r e = b) (conclusions ob validity motion device_time now ev) \<and>
       (spoofing ob = Warning \<or> spoofing ob = Critical \<longrightarrow> te_holds ReceiverSpoofing e) \<and>
       (spoofing ob = IndicationNone \<longrightarrow> \<not> te_holds ReceiverSpoofing e) \<and>
       (jamming ob = Warning \<or> jamming ob = Critical \<longrightarrow> te_holds ReceiverJamming e) \<and>
       (jamming ob = IndicationNone \<longrightarrow> \<not> te_holds ReceiverJamming e)"
proof -
  obtain jumped at_rest absurd where g: "geometry ob validity motion now ev = (jumped, at_rest, absurd)"
    by (metis prod_cases3)
  define c where "c = conclusions ob validity motion device_time now ev"
  define e0 where "e0 = trust_run (indication_events ReceiverSpoofing (spoofing ob) now @
    indication_events ReceiverJamming (jamming ob) now) (ev_engine ev)"
  define e1 where "e1 = trust_run (map (\<lambda>(r, b). set_event r b now) c) e0"
  have h: "te_holds r (ev_engine (ev_observe ob validity motion device_time now ev)) \<longleftrightarrow>
      te_holds r e1 \<and> \<not> expired now e1 r" for r
    by (simp add: observe_is_run observe_events_def e1_def e0_def c_def te_holds_update Let_def)
  have ttl: "evidence_ttl (te_policy e1) \<noteq> 0" using assms by (simp add: e1_def e0_def te_policy_run)
  have d: "map fst c = [ProtectionLevelInvalid, ProtectionLevelExceeded, FixLost, StalePosition, AccuracyPoor,
      InsufficientSatellites, ImplausibleSpeed, ConstellationAnomaly, ClockDisagreement, PositionJump,
      MotionDisagreement, ImplausibleAltitudeRate]"
    by (simp add: c_def conclusions_def g Let_def)
  have "distinct (map fst c)" unfolding d by simp
  note con = set_all_holds [OF this, where now = now and e = e0, folded e1_def]
  have "ReceiverSpoofing \<notin> set (map fst c)" "ReceiverJamming \<notin> set (map fst c)" unfolding d by simp_all
  note ind = set_all_others [OF this(1), where now = now and e = e0, folded e1_def]
    set_all_others [OF this(2), where now = now and e = e0, folded e1_def]
  have i0: "(spoofing ob = Warning \<or> spoofing ob = Critical \<longrightarrow> te_holds ReceiverSpoofing e0 \<and> te_evidence_at e0 ReceiverSpoofing = now) \<and>
      (spoofing ob = IndicationNone \<longrightarrow> \<not> te_holds ReceiverSpoofing e0) \<and>
      (jamming ob = Warning \<or> jamming ob = Critical \<longrightarrow> te_holds ReceiverJamming e0 \<and> te_evidence_at e0 ReceiverJamming = now) \<and>
      (jamming ob = IndicationNone \<longrightarrow> \<not> te_holds ReceiverJamming e0)"
    by (auto simp: e0_def indication_events_def te_report_def te_clear_def te_holds_def)
  have "te_holds r (ev_engine (ev_observe ob validity motion device_time now ev)) = b" if m: "(r, b) \<in> set c" for r b
    unfolding h using con [OF m] expired_now [OF ttl, of r now] by auto
  then have "list_all (\<lambda>(r, b). te_holds r (ev_engine (ev_observe ob validity motion device_time now ev)) = b) c"
    by (auto simp: list_all_iff)
  then show ?thesis
    using i0 ind expired_now [OF ttl, of ReceiverSpoofing now] expired_now [OF ttl, of ReceiverJamming now]
    unfolding c_def [symmetric] Let_def by (simp add: h)
qed

text \<open>A receiver that cries spoof on its first fix, with the default policy.\<close>

lemma observation_concludes_witness:
  "let ob = new_gnss_observation\<lparr>spoofing := Critical, fix_type := ThreeD, observed_at := 1000,
              go_position := Some \<lparr>latitude_e7 = 557558000, longitude_e7 = 376173000\<rparr>\<rparr>;
       e = ev_engine (ev_observe ob ValidityDegraded no_motion_evidence None 1000 (new_trust_evaluator default_trust_policy))
   in te_holds ReceiverSpoofing e \<and> \<not> te_holds FixLost e"
proof -
  define ob where "ob = new_gnss_observation\<lparr>spoofing := Critical, fix_type := ThreeD, observed_at := 1000,
              go_position := Some \<lparr>latitude_e7 = 557558000, longitude_e7 = 376173000\<rparr>\<rparr>"
  define ev where "ev = new_trust_evaluator default_trust_policy"
  have "evidence_ttl (te_policy (ev_engine ev)) \<noteq> 0" unfolding ev_def by code_simp
  note o = observation_concludes [OF this, of ob ValidityDegraded no_motion_evidence None 1000, unfolded Let_def list_all_iff]
  have "(FixLost, False) \<in> set (conclusions ob ValidityDegraded no_motion_evidence None 1000 ev)"
    by (simp add: conclusions_def case_prod_beta Let_def)
  then have "\<not> te_holds FixLost (ev_engine (ev_observe ob ValidityDegraded no_motion_evidence None 1000 ev))"
    using o by blast
  moreover have "spoofing ob = Critical" by (simp add: ob_def)
  then have "te_holds ReceiverSpoofing (ev_engine (ev_observe ob ValidityDegraded no_motion_evidence None 1000 ev))"
    using o by blast
  ultimately show ?thesis unfolding ob_def ev_def by (simp add: Let_def)
qed

section \<open>Silence is not an all-clear\<close>

text \<open>
  A comparison with another provider that cannot be made - the other has measured nothing,
  is off the globe or too old, or this device has nothing recent of its own - neither raises
  nor withdraws an allegation and never moves the state; what it may do is stop waiting for a
  retraction, and only when the other side has been unable to answer for longer than the
  departure grace.
\<close>
theorem silence_is_not_an_all_clear:
  fixes other other_validity now ev
  defines "after \<equiv> ev_compare_provider other other_validity now ev"
  assumes "\<not> (is_a_measurement other_validity \<and> has_and in_range (go_position other) \<and>
        elapsed (observed_at other) now \<le> provider_comparison_window (te_policy (ev_engine ev))) \<or>
      \<not> has_and (\<lambda>here. elapsed (cp_measured_at here) now \<le> provider_comparison_window (te_policy (ev_engine ev)))
        (ev_local_comparable ev)"
  shows "te_live (ev_engine after) = te_live (ev_engine ev) \<and> te_state (ev_engine after) = te_state (ev_engine ev) \<and>
    te_score (ev_engine after) = te_score (ev_engine ev) \<and> te_log (ev_engine after) = te_log (ev_engine ev) \<and>
    (te_unconfirmed (ev_engine after) = te_unconfirmed (ev_engine ev) \<or>
     te_unconfirmed (ev_engine after) = te_unconfirmed (ev_engine ev) AND NOT (trust_reason_bit ProviderDisagreement) \<and>
     ev_have_other_comparable ev \<and>
     elapsed (ev_other_last_comparable_at ev) now > provider_departure_grace (te_policy (ev_engine ev)))"
proof (cases "is_a_measurement other_validity \<and> has_and in_range (go_position other) \<and>
        elapsed (observed_at other) now \<le> provider_comparison_window (te_policy (ev_engine ev))")
  case True
  with assms(2) have "\<not> has_and (\<lambda>here. elapsed (cp_measured_at here) now \<le> provider_comparison_window (te_policy (ev_engine ev)))
        (ev_local_comparable ev)" by blast
  then have "ev_engine after = ev_engine ev"
    using True by (auto simp: after_def ev_compare_provider_def Let_def not_le split: option.split)
  then show ?thesis by simp
next
  case False
  show ?thesis
  proof (cases "ev_have_other_comparable ev \<and>
     elapsed (ev_other_last_comparable_at ev) now > provider_departure_grace (te_policy (ev_engine ev))")
    case True
    then have "ev_engine after = te_stop_awaiting ProviderDisagreement (ev_engine ev)"
      using False by (auto simp: after_def ev_compare_provider_def Let_def)
    then show ?thesis using True by (simp add: te_stop_awaiting_def)
  next
    case nq: False
    then have "ev_engine after = ev_engine ev"
      using False by (auto simp: after_def ev_compare_provider_def Let_def)
    then show ?thesis by simp
  qed
qed

lemma silence_is_not_an_all_clear_witness:
  "let ev = ev_provider_detached (new_trust_evaluator default_trust_policy)
   in te_state (ev_engine (ev_compare_provider new_gnss_observation NoFix 5000 ev)) = te_state (ev_engine ev) \<and>
      te_live (ev_engine (ev_compare_provider new_gnss_observation NoFix 5000 ev)) = te_live (ev_engine ev)"
  using silence_is_not_an_all_clear [of NoFix new_gnss_observation 5000 "ev_provider_detached (new_trust_evaluator default_trust_policy)"]
  by (simp add: is_a_measurement_def Let_def)

end
