(* ===== verification/Hardware.thy ===== *)
theory Hardware
  imports Attadipa_Prelude
begin

text \<open>
  What a board is known to carry and what state each part is in: \<open>platform/\<close> \<open>hardware_feature\<close>,
  \<open>radio_info\<close>, \<open>board_profile.h\<close> and \<open>profile_inventory.cpp\<close>. The virtual class
  \<open>HardwareInventory\<close> is the record \<open>hardware\<close> of its answers; \<open>ProfileInventory\<close> implements it.
  The panel's dots per inch are computed in floating point and left out.
\<close>

section \<open>Features\<close>

datatype hardware_feature =
    Display | Touchpad | Buttons | PmuChip | BatterySense | RtcChip | AccelerometerSensor | Gyroscope
  | MagnetometerSensor | RadioChipset | GnssReceiver | HapticActuator | AudioOutDevice | AudioInDevice
  | IrTransmitter | SdCard | Wifi | Ble | Usb

fun feature_index :: "hardware_feature \<Rightarrow> nat" where
  "feature_index Display = 0"
| "feature_index Touchpad = 1"
| "feature_index Buttons = 2"
| "feature_index PmuChip = 3"
| "feature_index BatterySense = 4"
| "feature_index RtcChip = 5"
| "feature_index AccelerometerSensor = 6"
| "feature_index Gyroscope = 7"
| "feature_index MagnetometerSensor = 8"
| "feature_index RadioChipset = 9"
| "feature_index GnssReceiver = 10"
| "feature_index HapticActuator = 11"
| "feature_index AudioOutDevice = 12"
| "feature_index AudioInDevice = 13"
| "feature_index IrTransmitter = 14"
| "feature_index SdCard = 15"
| "feature_index Wifi = 16"
| "feature_index Ble = 17"
| "feature_index Usb = 18"

definition kHardwareFeatureCount :: nat where "kHardwareFeatureCount = 19"

definition all_features :: "hardware_feature list" where
  "all_features = [Display, Touchpad, Buttons, PmuChip, BatterySense, RtcChip, AccelerometerSensor, Gyroscope,
     MagnetometerSensor, RadioChipset, GnssReceiver, HapticActuator, AudioOutDevice, AudioInDevice,
     IrTransmitter, SdCard, Wifi, Ble, Usb]"

datatype hardware_state = Absent | Untouched | RailOff | Initialising | PartFailed | PartReady

definition feature_bit :: "hardware_feature \<Rightarrow> u32" where
  "feature_bit f = push_bit (feature_index f) 1"

section \<open>Radios\<close>

datatype radio_chip = UnknownChip | Sx1262 | Sx1280 | Lr1121 | Cc1101 | Si4432

datatype modulation = NoModulation | Lora | Fsk | Gfsk | Msk | Ook | Ask | Flrc | LrFhss

fun modulation_code :: "modulation \<Rightarrow> u16" where
  "modulation_code NoModulation = 0"
| "modulation_code Lora = 1"
| "modulation_code Fsk = 2"
| "modulation_code Gfsk = 4"
| "modulation_code Msk = 8"
| "modulation_code Ook = 16"
| "modulation_code Ask = 32"
| "modulation_code Flrc = 64"
| "modulation_code LrFhss = 128"

definition has_modulation :: "u16 \<Rightarrow> modulation \<Rightarrow> bool" where
  "has_modulation m d \<longleftrightarrow> m AND modulation_code d \<noteq> 0"

record band_range =
  lo_hz :: u32
  hi_hz :: u32

definition no_band :: band_range where "no_band = \<lparr>lo_hz = 0, hi_hz = 0\<rparr>"

definition band_empty :: "band_range \<Rightarrow> bool" where
  "band_empty b \<longleftrightarrow> lo_hz b = 0 \<and> hi_hz b = 0"

definition band_contains :: "u32 \<Rightarrow> band_range \<Rightarrow> bool" where
  "band_contains hz b \<longleftrightarrow> hz \<ge> lo_hz b \<and> hz \<le> hi_hz b"

definition band_overlaps :: "band_range \<Rightarrow> band_range \<Rightarrow> bool" where
  "band_overlaps other b \<longleftrightarrow> \<not> band_empty b \<and> \<not> band_empty other \<and> lo_hz b \<le> hi_hz other \<and> lo_hz other \<le> hi_hz b"

datatype mesh_core_support = Untested | MeshSupported | NeedsWork | Impossible

record radio_info =
  ri_chip :: radio_chip
  ri_modulations :: u16
  ri_bands :: "band_range list"
  ri_band_count :: nat
  ri_max_conducted_dbm :: int
  ri_meshcore :: mesh_core_support

definition can_do_lora :: "radio_info \<Rightarrow> bool" where
  "can_do_lora r \<longleftrightarrow> has_modulation (ri_modulations r) Lora"

definition covers :: "band_range \<Rightarrow> radio_info \<Rightarrow> bool" where
  "covers band r \<longleftrightarrow> list_ex (\<lambda>i. band_overlaps band (ri_bands r ! i)) [0..<min (ri_band_count r) 3]"

definition kUnknownDbm :: int where "kUnknownDbm = - 128"

fun radio_info_for :: "radio_chip \<Rightarrow> radio_info" where
  "radio_info_for Sx1262 =
     \<lparr>ri_chip = Sx1262, ri_modulations = modulation_code Lora OR modulation_code Gfsk OR modulation_code LrFhss,
      ri_bands = [\<lparr>lo_hz = 150000000, hi_hz = 960000000\<rparr>, no_band, no_band], ri_band_count = 1,
      ri_max_conducted_dbm = kUnknownDbm, ri_meshcore = MeshSupported\<rparr>"
| "radio_info_for Sx1280 =
     \<lparr>ri_chip = Sx1280, ri_modulations = modulation_code Lora OR modulation_code Gfsk OR modulation_code Flrc,
      ri_bands = [\<lparr>lo_hz = 2400000000, hi_hz = 2500000000\<rparr>, no_band, no_band], ri_band_count = 1,
      ri_max_conducted_dbm = kUnknownDbm, ri_meshcore = NeedsWork\<rparr>"
| "radio_info_for Lr1121 =
     \<lparr>ri_chip = Lr1121, ri_modulations = modulation_code Lora OR modulation_code Gfsk OR modulation_code LrFhss,
      ri_bands = [\<lparr>lo_hz = 150000000, hi_hz = 960000000\<rparr>, \<lparr>lo_hz = 1900000000, hi_hz = 2200000000\<rparr>,
                  \<lparr>lo_hz = 2400000000, hi_hz = 2500000000\<rparr>], ri_band_count = 3,
      ri_max_conducted_dbm = kUnknownDbm, ri_meshcore = NeedsWork\<rparr>"
| "radio_info_for Cc1101 =
     \<lparr>ri_chip = Cc1101, ri_modulations = modulation_code Fsk OR modulation_code Gfsk OR modulation_code Ook OR
        modulation_code Ask OR modulation_code Msk,
      ri_bands = [\<lparr>lo_hz = 300000000, hi_hz = 348000000\<rparr>, \<lparr>lo_hz = 387000000, hi_hz = 464000000\<rparr>,
                  \<lparr>lo_hz = 779000000, hi_hz = 928000000\<rparr>], ri_band_count = 3,
      ri_max_conducted_dbm = kUnknownDbm, ri_meshcore = Impossible\<rparr>"
| "radio_info_for Si4432 =
     \<lparr>ri_chip = Si4432, ri_modulations = modulation_code Fsk OR modulation_code Gfsk OR modulation_code Ook,
      ri_bands = [\<lparr>lo_hz = 240000000, hi_hz = 930000000\<rparr>, no_band, no_band], ri_band_count = 1,
      ri_max_conducted_dbm = kUnknownDbm, ri_meshcore = Impossible\<rparr>"
| "radio_info_for UnknownChip =
     \<lparr>ri_chip = UnknownChip, ri_modulations = 0, ri_bands = [no_band, no_band, no_band], ri_band_count = 0,
      ri_max_conducted_dbm = kUnknownDbm, ri_meshcore = Untested\<rparr>"

definition kEntries :: "(string \<times> radio_chip) list" where
  "kEntries = [(''unknown'', UnknownChip), (''sx1262'', Sx1262), (''sx1280'', Sx1280), (''lr1121'', Lr1121),
     (''cc1101'', Cc1101), (''si4432'', Si4432)]"

definition parse_radio_chip :: "string \<Rightarrow> radio_chip option" where
  "parse_radio_chip name = map_of kEntries name"

text \<open>A chip that has no LoRa modulator is the only one MeshCore is impossible on.\<close>

lemma impossible_iff_no_lora: "ri_meshcore (radio_info_for c) = Impossible \<longleftrightarrow> c \<noteq> UnknownChip \<and> \<not> can_do_lora (radio_info_for c)"
  by (cases c) (simp_all add: can_do_lora_def has_modulation_def)

section \<open>The inventory\<close>

record hardware =
  hw_present :: "hardware_feature \<Rightarrow> bool"
  hw_state :: "hardware_feature \<Rightarrow> hardware_state"
  hw_radio :: "radio_info option"

record board_profile =
  bp_present_mask :: u32
  bp_radio :: radio_info

definition profile_present :: "board_profile \<Rightarrow> hardware_feature \<Rightarrow> bool" where
  "profile_present p f \<longleftrightarrow> bp_present_mask p AND feature_bit f \<noteq> 0"

record profile_inventory =
  pi_profile :: board_profile
  pi_states :: "hardware_state list"

definition new_profile_inventory :: "board_profile \<Rightarrow> profile_inventory" where
  "new_profile_inventory p =
     \<lparr>pi_profile = p, pi_states = map (\<lambda>f. if profile_present p f then Untouched else Absent) all_features\<rparr>"

definition pi_present :: "profile_inventory \<Rightarrow> hardware_feature \<Rightarrow> bool" where
  "pi_present v f = profile_present (pi_profile v) f"

definition pi_state :: "profile_inventory \<Rightarrow> hardware_feature \<Rightarrow> hardware_state" where
  "pi_state v f =
     (if feature_index f < kHardwareFeatureCount then pi_states v ! feature_index f else Absent)"

definition pi_radio :: "profile_inventory \<Rightarrow> radio_info option" where
  "pi_radio v = (if pi_present v RadioChipset then Some (bp_radio (pi_profile v)) else None)"

definition pi_set_state :: "hardware_feature \<Rightarrow> hardware_state \<Rightarrow> profile_inventory \<Rightarrow> profile_inventory" where
  "pi_set_state f s v =
     (if feature_index f \<ge> kHardwareFeatureCount \<or> \<not> profile_present (pi_profile v) f then v
      else v\<lparr>pi_states := (pi_states v)[feature_index f := s]\<rparr>)"

definition pi_view :: "profile_inventory \<Rightarrow> hardware" where
  "pi_view v = \<lparr>hw_present = pi_present v, hw_state = pi_state v, hw_radio = pi_radio v\<rparr>"

definition pi_inv :: "profile_inventory \<Rightarrow> bool" where
  "pi_inv v \<longleftrightarrow> length (pi_states v) = kHardwareFeatureCount \<and> (\<forall>f. \<not> pi_present v f \<longrightarrow> pi_state v f = Absent)"

lemma feature_index_less: "feature_index f < kHardwareFeatureCount"
  by (cases f) (simp_all add: kHardwareFeatureCount_def)

lemma feature_index_inj: "feature_index f = feature_index g \<longleftrightarrow> f = g"
  by (cases f; cases g) simp_all

lemma all_features_nth: "all_features ! feature_index f = f"
  by (cases f) (simp_all add: all_features_def)

lemma length_all_features [simp]: "length all_features = kHardwareFeatureCount"
  by (simp add: all_features_def kHardwareFeatureCount_def)

lemma new_profile_state: "pi_state (new_profile_inventory p) f = (if profile_present p f then Untouched else Absent)"
  by (simp add: pi_state_def new_profile_inventory_def feature_index_less all_features_nth)

lemma new_profile_inventory_inv [inv_rules]: "pi_inv (new_profile_inventory p)"
  by (simp add: pi_inv_def new_profile_state pi_present_def) (simp add: new_profile_inventory_def)

lemma pi_set_state_state:
  assumes "pi_inv v"
  shows "pi_state (pi_set_state f s v) = (pi_state v)(f := if pi_present v f then s else pi_state v f)"
proof (rule ext)
  fix g
  show "pi_state (pi_set_state f s v) g = ((pi_state v)(f := if pi_present v f then s else pi_state v f)) g"
    using assms feature_index_less [of f] feature_index_less [of g]
    by (simp add: pi_set_state_def pi_state_def pi_present_def pi_inv_def nth_list_update feature_index_inj not_le)
qed

lemma pi_set_state_present: "pi_present (pi_set_state f s v) = pi_present v" "pi_radio (pi_set_state f s v) = pi_radio v"
  by (auto simp: pi_set_state_def pi_present_def pi_radio_def)

lemma pi_set_state_inv [inv_rules]:
  assumes "pi_inv v"
  shows "pi_inv (pi_set_state f s v)"
proof -
  have "length (pi_states (pi_set_state f s v)) = length (pi_states v)" by (simp add: pi_set_state_def)
  then show ?thesis using assms pi_set_state_state [OF assms, of f s]
    by (simp add: pi_inv_def pi_set_state_present)
qed

text \<open>What a client of the inventory relies on, whoever implements it.\<close>

locale inventory_contract =
  fixes view :: "'s \<Rightarrow> hardware"
    and inv :: "'s \<Rightarrow> bool"
    and set_state :: "hardware_feature \<Rightarrow> hardware_state \<Rightarrow> 's \<Rightarrow> 's"
  assumes absent_state: "inv v \<Longrightarrow> \<not> hw_present (view v) f \<Longrightarrow> hw_state (view v) f = Absent"
    and radio_present: "inv v \<Longrightarrow> hw_radio (view v) = None \<longleftrightarrow> \<not> hw_present (view v) RadioChipset"
    and set_inv: "inv v \<Longrightarrow> inv (set_state f s v)"
    and set_present: "inv v \<Longrightarrow> hw_present (view (set_state f s v)) = hw_present (view v)"
    and set_radio: "inv v \<Longrightarrow> hw_radio (view (set_state f s v)) = hw_radio (view v)"
    and set_state: "inv v \<Longrightarrow> hw_state (view (set_state f s v)) g =
      (if g = f \<and> hw_present (view v) f then s else hw_state (view v) g)"
begin

text \<open>A part that is not there cannot be given a state.\<close>

lemma set_absent: "inv v \<Longrightarrow> \<not> hw_present (view v) f \<Longrightarrow> view (set_state f s v) = view v"
  using set_present [of v f s] set_radio [of v f s] set_state [of v f s] by (intro hardware.equality) (auto simp: fun_eq_iff)

lemma set_twice: "inv v \<Longrightarrow> view (set_state f t (set_state f s v)) = view (set_state f t v)"
  using set_inv [of v f s] by (intro hardware.equality) (auto simp: fun_eq_iff set_present set_radio set_state)

lemma set_commute:
  "inv v \<Longrightarrow> f \<noteq> g \<Longrightarrow> view (set_state f s (set_state g t v)) = view (set_state g t (set_state f s v))"
  using set_inv [of v f s] set_inv [of v g t] by (intro hardware.equality) (auto simp: fun_eq_iff set_present set_radio set_state)

end

interpretation inventory: inventory_contract pi_view pi_inv pi_set_state
  by unfold_locales
    (simp_all add: pi_view_def inv_rules pi_set_state_state pi_set_state_present, auto simp: pi_inv_def pi_radio_def)

end
