(* ===== verification/Capability_Registry.thy ===== *)
theory Capability_Registry
  imports Hardware
begin

text \<open>
  What the watch can do and where it would come from: \<open>core/\<close> \<open>availability\<close>, \<open>capability\<close> and
  \<open>capability_registry\<close>. The registry asks an inventory of the hardware, the bound node and the
  companion, and prefers what works, local first.
\<close>

section \<open>Availability\<close>

datatype availability = AvUnsupported | Unprovisioned | Unreachable | Incompatible | AvFailed | AvOff | AvReady

datatype origin = Local | NodeOrigin

datatype validity = ValidityUnknown | IsValid | IsStale | IsInvalid

record provider_ref =
  pr_origin :: origin
  pr_id :: u16

record capability_source =
  cs_availability :: availability
  cs_provider :: provider_ref

fun remedy_rank :: "availability \<Rightarrow> int" where
  "remedy_rank AvReady = 6"
| "remedy_rank AvOff = 5"
| "remedy_rank AvFailed = 4"
| "remedy_rank Unreachable = 3"
| "remedy_rank Incompatible = 2"
| "remedy_rank Unprovisioned = 1"
| "remedy_rank AvUnsupported = 0"

fun availability_to_string :: "availability \<Rightarrow> string" where
  "availability_to_string AvUnsupported = ''unsupported''"
| "availability_to_string Unprovisioned = ''unprovisioned''"
| "availability_to_string Unreachable = ''unreachable''"
| "availability_to_string Incompatible = ''incompatible''"
| "availability_to_string AvFailed = ''failed''"
| "availability_to_string AvOff = ''off''"
| "availability_to_string AvReady = ''ready''"

fun origin_to_string :: "origin \<Rightarrow> string" where
  "origin_to_string Local = ''local''"
| "origin_to_string NodeOrigin = ''node''"

fun validity_to_string :: "validity \<Rightarrow> string" where
  "validity_to_string ValidityUnknown = ''unknown''"
| "validity_to_string IsValid = ''valid''"
| "validity_to_string IsStale = ''stale''"
| "validity_to_string IsInvalid = ''invalid''"

section \<open>Capabilities\<close>

datatype capability =
    Time | Position | Heading | MotionSensing | MeshMessaging | Haptics | AudioPlayback | AudioCapture
  | NotificationRelay | InfraredBlast | PersistentStorage | RemovableStorage | CompanionLink

fun capability_index :: "capability \<Rightarrow> nat" where
  "capability_index Time = 0"
| "capability_index Position = 1"
| "capability_index Heading = 2"
| "capability_index MotionSensing = 3"
| "capability_index MeshMessaging = 4"
| "capability_index Haptics = 5"
| "capability_index AudioPlayback = 6"
| "capability_index AudioCapture = 7"
| "capability_index NotificationRelay = 8"
| "capability_index InfraredBlast = 9"
| "capability_index PersistentStorage = 10"
| "capability_index RemovableStorage = 11"
| "capability_index CompanionLink = 12"

definition kCapabilityCount :: nat where "kCapabilityCount = 13"

definition capability_bit :: "capability \<Rightarrow> u16" where
  "capability_bit c = push_bit (capability_index c) 1"

fun capability_to_string :: "capability \<Rightarrow> string" where
  "capability_to_string Time = ''Time''"
| "capability_to_string Position = ''Position''"
| "capability_to_string Heading = ''Heading''"
| "capability_to_string MotionSensing = ''MotionSensing''"
| "capability_to_string MeshMessaging = ''MeshMessaging''"
| "capability_to_string Haptics = ''Haptics''"
| "capability_to_string AudioPlayback = ''AudioPlayback''"
| "capability_to_string AudioCapture = ''AudioCapture''"
| "capability_to_string NotificationRelay = ''NotificationRelay''"
| "capability_to_string InfraredBlast = ''InfraredBlast''"
| "capability_to_string PersistentStorage = ''PersistentStorage''"
| "capability_to_string RemovableStorage = ''RemovableStorage''"
| "capability_to_string CompanionLink = ''CompanionLink''"

section \<open>The registry\<close>

record node_link =
  nk_bound :: bool
  nk_reachable :: bool
  nk_compatible :: bool
  nk_provides :: u16

definition new_node_link :: node_link where
  "new_node_link = \<lparr>nk_bound = False, nk_reachable = False, nk_compatible = True, nk_provides = 0\<rparr>"

definition offers :: "capability \<Rightarrow> node_link \<Rightarrow> bool" where
  "offers c n \<longleftrightarrow> nk_provides n AND capability_bit c \<noteq> 0"

record companion_link =
  cl_bound :: bool
  cl_reachable :: bool

record capability_registry =
  cr_inventory :: hardware
  cr_node :: node_link
  cr_companion :: companion_link

definition new_capability_registry :: "hardware \<Rightarrow> capability_registry" where
  "new_capability_registry hw =
     \<lparr>cr_inventory = hw, cr_node = new_node_link, cr_companion = \<lparr>cl_bound = False, cl_reachable = False\<rparr>\<rparr>"

definition set_node_link :: "node_link \<Rightarrow> capability_registry \<Rightarrow> capability_registry" where
  "set_node_link n r = r\<lparr>cr_node := n\<rparr>"

definition set_companion :: "companion_link \<Rightarrow> capability_registry \<Rightarrow> capability_registry" where
  "set_companion c r = r\<lparr>cr_companion := c\<rparr>"

definition kNodeProvidable :: u16 where
  "kNodeProvidable = capability_bit Position OR capability_bit Heading OR capability_bit MeshMessaging OR capability_bit Time"

fun from_state :: "hardware_state \<Rightarrow> availability" where
  "from_state Absent = AvUnsupported"
| "from_state Untouched = AvOff"
| "from_state RailOff = AvOff"
| "from_state Initialising = AvOff"
| "from_state PartFailed = AvFailed"
| "from_state PartReady = AvReady"

definition by_feature :: "hardware \<Rightarrow> hardware_feature \<Rightarrow> availability" where
  "by_feature hw f = (if hw_present hw f then from_state (hw_state hw f) else AvUnsupported)"

fun local_availability :: "capability \<Rightarrow> capability_registry \<Rightarrow> availability" where
  "local_availability Time r = AvReady"
| "local_availability Position r = by_feature (cr_inventory r) GnssReceiver"
| "local_availability Heading r =
     (if hw_present (cr_inventory r) MagnetometerSensor then by_feature (cr_inventory r) MagnetometerSensor
      else by_feature (cr_inventory r) GnssReceiver)"
| "local_availability MotionSensing r = by_feature (cr_inventory r) AccelerometerSensor"
| "local_availability MeshMessaging r =
     (case hw_radio (cr_inventory r) of
        None \<Rightarrow> AvUnsupported
      | Some radio \<Rightarrow>
          if \<not> can_do_lora radio \<or> ri_meshcore radio \<noteq> MeshSupported then AvUnsupported
          else by_feature (cr_inventory r) RadioChipset)"
| "local_availability Haptics r = by_feature (cr_inventory r) HapticActuator"
| "local_availability AudioPlayback r = by_feature (cr_inventory r) AudioOutDevice"
| "local_availability AudioCapture r = by_feature (cr_inventory r) AudioInDevice"
| "local_availability InfraredBlast r = by_feature (cr_inventory r) IrTransmitter"
| "local_availability PersistentStorage r = AvReady"
| "local_availability RemovableStorage r = by_feature (cr_inventory r) SdCard"
| "local_availability NotificationRelay r =
     (if \<not> hw_present (cr_inventory r) Ble then AvUnsupported
      else if \<not> cl_bound (cr_companion r) then Unprovisioned
      else if cl_reachable (cr_companion r) then AvReady else Unreachable)"
| "local_availability CompanionLink r =
     (if \<not> hw_present (cr_inventory r) Ble then AvUnsupported
      else if \<not> cl_bound (cr_companion r) then Unprovisioned
      else if cl_reachable (cr_companion r) then AvReady else Unreachable)"

definition node_availability :: "capability \<Rightarrow> capability_registry \<Rightarrow> availability" where
  "node_availability c r =
     (if kNodeProvidable AND capability_bit c = 0 then AvUnsupported
      else if \<not> nk_bound (cr_node r) then Unprovisioned
      else if \<not> offers c (cr_node r) then Unprovisioned
      else if \<not> nk_compatible (cr_node r) then Incompatible
      else if \<not> nk_reachable (cr_node r) then Unreachable
      else AvReady)"

definition local_ref :: provider_ref where "local_ref = \<lparr>pr_origin = Local, pr_id = 0\<rparr>"
definition node_ref :: provider_ref where "node_ref = \<lparr>pr_origin = NodeOrigin, pr_id = 0\<rparr>"

definition source :: "capability \<Rightarrow> capability_registry \<Rightarrow> capability_source" where
  "source c r =
     (let from_local = \<lparr>cs_availability = local_availability c r, cs_provider = local_ref\<rparr> in
      if cs_availability from_local = AvReady then from_local
      else
        let from_node = \<lparr>cs_availability = node_availability c r, cs_provider = node_ref\<rparr> in
        if cs_availability from_node = AvReady then from_node
        else if cs_availability from_local = AvUnsupported \<and> cs_availability from_node = AvUnsupported then from_local
        else if remedy_rank (cs_availability from_local) \<ge> remedy_rank (cs_availability from_node) then from_local
        else from_node)"

definition availability_of :: "capability \<Rightarrow> capability_registry \<Rightarrow> availability" where
  "availability_of c r = cs_availability (source c r)"

definition provider_of :: "capability \<Rightarrow> capability_registry \<Rightarrow> provider_ref" where
  "provider_of c r = cs_provider (source c r)"

definition supports :: "capability \<Rightarrow> capability_registry \<Rightarrow> bool" where
  "supports c r \<longleftrightarrow> availability_of c r \<noteq> AvUnsupported"

definition is_available :: "capability \<Rightarrow> capability_registry \<Rightarrow> bool" where
  "is_available c r \<longleftrightarrow> availability_of c r = AvReady"

section \<open>The best remedy wins\<close>

text \<open>Availabilities ordered by how little is left to do.\<close>

lemma remedy_rank_inj: "remedy_rank a = remedy_rank b \<longleftrightarrow> a = b"
  by (cases a; cases b) simp_all

instantiation availability :: linorder
begin

definition less_eq_availability :: "availability \<Rightarrow> availability \<Rightarrow> bool" where
  "less_eq_availability a b \<longleftrightarrow> remedy_rank a \<le> remedy_rank b"

definition less_availability :: "availability \<Rightarrow> availability \<Rightarrow> bool" where
  "less_availability a b \<longleftrightarrow> remedy_rank a < remedy_rank b"

instance
  by standard (auto simp: less_eq_availability_def less_availability_def remedy_rank_inj)

end

lemma unsupported_least: "AvUnsupported \<le> a" "a \<le> AvReady"
  by (cases a; simp add: less_eq_availability_def)+

lemma capability_index_less: "capability_index c < 16"
  by (cases c) simp_all

lemma capability_bit_iff: "bit (capability_bit c) n \<longleftrightarrow> n = capability_index c"
  using capability_index_less [of c] by (auto simp: capability_bit_def bit_push_bit_iff bit_1_iff bit_exp_iff)

lemma and_capability_bit: "w AND capability_bit c = 0 \<longleftrightarrow> \<not> bit w (capability_index c)"
  using bit_eq_iff [of "w AND capability_bit c" 0] capability_index_less [of c]
  by (simp add: bit_and_iff capability_bit_iff) blast

lemma node_providable: "kNodeProvidable AND capability_bit c \<noteq> 0 \<longleftrightarrow> c \<in> {Position, Heading, MeshMessaging, Time}"
  unfolding and_capability_bit by (cases c) (auto simp: kNodeProvidable_def bit_or_iff capability_bit_iff)

lemma availability_of_max: "availability_of c r = max (local_availability c r) (node_availability c r)"
  by (cases "local_availability c r"; cases "node_availability c r")
    (simp_all add: availability_of_def source_def max_def less_eq_availability_def)

text \<open>One link is at least as good as another for what it offers.\<close>

definition node_no_worse :: "node_link \<Rightarrow> node_link \<Rightarrow> bool" where
  "node_no_worse a b \<longleftrightarrow> (nk_bound a \<longrightarrow> nk_bound b) \<and> (nk_reachable a \<longrightarrow> nk_reachable b) \<and>
     (nk_compatible a \<longrightarrow> nk_compatible b) \<and> nk_provides a AND NOT (nk_provides b) = 0"

lemma offers_mono: "nk_provides a AND NOT (nk_provides b) = 0 \<Longrightarrow> offers c a \<Longrightarrow> offers c b"
  using capability_index_less [of c] unfolding offers_def and_capability_bit and_not_self_zero
  by (metis bit_and_iff)

lemma node_availability_mono: "node_no_worse (cr_node r) n \<Longrightarrow> node_availability c r \<le> node_availability c (set_node_link n r)"
  using offers_mono [of "cr_node r" n c]
  by (auto simp: node_availability_def node_no_worse_def set_node_link_def less_eq_availability_def)

lemma local_availability_node: "local_availability c (set_node_link n r) = local_availability c r"
  by (cases c) (simp_all add: set_node_link_def split: option.split)

text \<open>
  C33. A capability comes from where the least is left to do. Its availability is the better of
  what the watch and the bound node can give, the watch's own when they tie; the node is named
  as provider only for the four things a node can give, and a node that is ready only when it is
  bound, reachable, compatible and offers it; the capability is supported when either could ever
  give it; and a node that becomes more capable never makes anything less available.
\<close>
theorem capability_source_is_best_remedy:
  assumes "node_no_worse (cr_node r) n"
  shows "availability_of c r = max (local_availability c r) (node_availability c r) \<and>
    (pr_origin (provider_of c r) = Local \<longleftrightarrow> node_availability c r \<le> local_availability c r) \<and>
    (pr_origin (provider_of c r) = NodeOrigin \<longrightarrow> c \<in> {Position, Heading, MeshMessaging, Time}) \<and>
    (is_available c r \<and> pr_origin (provider_of c r) = NodeOrigin \<longrightarrow>
       nk_bound (cr_node r) \<and> nk_reachable (cr_node r) \<and> nk_compatible (cr_node r) \<and> offers c (cr_node r)) \<and>
    (supports c r \<longleftrightarrow> local_availability c r \<noteq> AvUnsupported \<or> c \<in> {Position, Heading, MeshMessaging, Time}) \<and>
    availability_of c r \<le> availability_of c (set_node_link n r)"
proof -
  have prov: "pr_origin (provider_of c r) = Local \<longleftrightarrow> node_availability c r \<le> local_availability c r"
    by (cases "local_availability c r"; cases "node_availability c r")
      (simp_all add: provider_of_def source_def local_ref_def node_ref_def less_eq_availability_def)
  have unsup: "node_availability c r \<noteq> AvUnsupported \<longleftrightarrow> c \<in> {Position, Heading, MeshMessaging, Time}"
    using node_providable [of c] by (auto simp: node_availability_def)
  have node: "pr_origin (provider_of c r) = NodeOrigin \<longleftrightarrow> local_availability c r < node_availability c r"
    using prov by (metis linorder_not_le origin.exhaust origin.distinct(1))
  then have "c \<in> {Position, Heading, MeshMessaging, Time}" if "pr_origin (provider_of c r) = NodeOrigin"
    using that unsup unsupported_least(1) [of "local_availability c r"] by (metis linorder_not_le)
  moreover have "nk_bound (cr_node r) \<and> nk_reachable (cr_node r) \<and> nk_compatible (cr_node r) \<and> offers c (cr_node r)"
    if "is_available c r" "pr_origin (provider_of c r) = NodeOrigin"
  proof -
    have "node_availability c r = AvReady" using that node by (simp add: is_available_def availability_of_max max_def split: if_splits)
    then show ?thesis by (simp add: node_availability_def split: if_splits)
  qed
  moreover have "supports c r \<longleftrightarrow> local_availability c r \<noteq> AvUnsupported \<or> c \<in> {Position, Heading, MeshMessaging, Time}"
    using unsup unsupported_least(1) [of "local_availability c r"] unsupported_least(1) [of "node_availability c r"]
    by (auto simp: supports_def availability_of_max max_def)
  moreover have "availability_of c r \<le> availability_of c (set_node_link n r)"
    using node_availability_mono [OF assms, of c] by (simp add: availability_of_max local_availability_node max.coboundedI2)
  ultimately show ?thesis using prov availability_of_max by blast
qed

text \<open>The registry over a board profile: what a part's state does to the capability it carries.\<close>

context inventory_contract begin

lemma by_feature_set:
  "inv v \<Longrightarrow> by_feature (view (set_state f s v)) g =
     (if g = f \<and> hw_present (view v) f then from_state s else by_feature (view v) g)"
  by (simp add: by_feature_def set_present set_state)

text \<open>Bringing a part up makes no capability less available.\<close>

lemma by_feature_ready: "inv v \<Longrightarrow> by_feature (view v) g \<le> by_feature (view (set_state f PartReady v)) g"
  using unsupported_least(2) [of "by_feature (view v) g"] by (auto simp: by_feature_set)

lemma local_ready:
  "inv v \<Longrightarrow> cr_inventory r = view v \<Longrightarrow>
     local_availability c r \<le> local_availability c (r\<lparr>cr_inventory := view (set_state f PartReady v)\<rparr>)"
  by (cases c) (auto simp: by_feature_ready set_present set_radio split: option.split)

end

lemma capability_source_is_best_remedy_witness:
  "let r = new_capability_registry (pi_view (new_profile_inventory \<lparr>bp_present_mask = 0, bp_radio = radio_info_for Sx1262\<rparr>));
       n = \<lparr>nk_bound = True, nk_reachable = True, nk_compatible = True, nk_provides = capability_bit Position\<rparr>
   in availability_of Position r = Unprovisioned \<and> availability_of Position r \<le> availability_of Position (set_node_link n r)"
proof -
  let ?r = "new_capability_registry (pi_view (new_profile_inventory \<lparr>bp_present_mask = 0, bp_radio = radio_info_for Sx1262\<rparr>))"
  let ?n = "\<lparr>nk_bound = True, nk_reachable = True, nk_compatible = True, nk_provides = capability_bit Position\<rparr>"
  have "node_no_worse (cr_node ?r) ?n" by (simp add: node_no_worse_def new_capability_registry_def new_node_link_def)
  note t = capability_source_is_best_remedy [OF this, of Position]
  have "local_availability Position ?r = AvUnsupported"
    by (simp add: new_capability_registry_def by_feature_def pi_view_def pi_present_def new_profile_inventory_def profile_present_def)
  moreover have "node_availability Position ?r = Unprovisioned"
    by (simp add: node_availability_def kNodeProvidable_def capability_bit_def new_capability_registry_def new_node_link_def)
  ultimately have "availability_of Position ?r = Unprovisioned" using t by (simp add: max_def less_eq_availability_def)
  with t show ?thesis unfolding Let_def by blast
qed

end
