(* ===== verification/Time_Service.thy ===== *)
theory Time_Service
  imports Clock Capability_Registry Interfaces
begin

text \<open>
  The wall clock the watch displays: \<open>core/include/attadipa/core/time_service.h\<close> and
  \<open>core/src/time_service.cpp\<close>. One observation is held at a time, with where it came from and how
  long it stays fresh; what is shown is that observation carried forward by the monotonic clock.
  Seconds of the wall clock and minutes of offset are integers in the range of their C++ types.
\<close>

section \<open>Observations\<close>

datatype time_source =
  NoSource | Rtc | ManualTime | CompanionTime | NetworkTime | GnssTime | MeshTime | SimulatedTime

datatype time_quality = QualityUnknown | Provisional | Trusted

fun quality_level :: "time_quality \<Rightarrow> nat" where
  "quality_level QualityUnknown = 0"
| "quality_level Provisional = 1"
| "quality_level Trusted = 2"

record time_observation =
  to_utc :: wall_time
  to_observed_at :: monotonic
  to_fresh_for :: millis
  to_age_at_source_ms :: u32
  to_source :: time_source
  to_quality :: time_quality
  to_allow_large_correction :: bool

definition new_time_observation :: time_observation where
  "new_time_observation = \<lparr>to_utc = 0, to_observed_at = 0, to_fresh_for = 0, to_age_at_source_ms = 0,
     to_source = NoSource, to_quality = QualityUnknown, to_allow_large_correction = False\<rparr>"

record time_policy =
  max_silent_correction_seconds :: u32
  recently_corrected_for :: millis

definition default_time_policy :: time_policy where
  "default_time_policy = \<lparr>max_silent_correction_seconds = 300, recently_corrected_for = 300000\<rparr>"

record time_zone_offset =
  tz_minutes_east_of_utc :: int
  tz_valid_until :: monotonic
  tz_configured :: bool

record 'a timed =
  tm_value :: 'a
  tm_age_at_source_ms :: u32
  tm_age_at_us_ms :: u32
  tm_validity :: validity

definition new_timed :: "'a \<Rightarrow> 'a timed" where
  "new_timed v = \<lparr>tm_value = v, tm_age_at_source_ms = 0, tm_age_at_us_ms = 0, tm_validity = ValidityUnknown\<rparr>"

record time_state =
  tst_utc :: "wall_time timed"
  tst_local :: "wall_time timed"
  tst_availability :: availability
  tst_source :: time_source
  tst_quality :: time_quality
  tst_last_sync :: monotonic
  tst_has_last_sync :: bool
  tst_timezone_valid :: bool
  tst_timezone_offset_minutes :: int
  tst_recently_corrected :: bool

definition new_time_state :: time_state where
  "new_time_state = \<lparr>tst_utc = new_timed 0, tst_local = new_timed 0, tst_availability = Unprovisioned,
     tst_source = NoSource, tst_quality = QualityUnknown, tst_last_sync = 0, tst_has_last_sync = False,
     tst_timezone_valid = False, tst_timezone_offset_minutes = 0, tst_recently_corrected = False\<rparr>"

record time_service =
  svc_policy :: time_policy
  svc_observation :: time_observation
  svc_timezone :: time_zone_offset
  svc_last_sync :: monotonic
  svc_corrected_at :: monotonic
  svc_reported_source :: time_source
  svc_reported_availability :: availability
  svc_reported_validity :: validity
  svc_has_observation :: bool
  svc_has_last_sync :: bool
  svc_has_correction :: bool
  svc_has_report :: bool

definition new_time_service :: "time_policy \<Rightarrow> time_service" where
  "new_time_service p = \<lparr>svc_policy = p, svc_observation = new_time_observation,
     svc_timezone = \<lparr>tz_minutes_east_of_utc = 0, tz_valid_until = 0, tz_configured = False\<rparr>, svc_last_sync = 0,
     svc_corrected_at = 0, svc_reported_source = NoSource, svc_reported_availability = Unprovisioned,
     svc_reported_validity = ValidityUnknown, svc_has_observation = False, svc_has_last_sync = False,
     svc_has_correction = False, svc_has_report = False\<rparr>"

section \<open>Carrying an observation forward\<close>

fun source_priority :: "time_source \<Rightarrow> int" where
  "source_priority GnssTime = 60"
| "source_priority NetworkTime = 50"
| "source_priority CompanionTime = 40"
| "source_priority MeshTime = 30"
| "source_priority ManualTime = 20"
| "source_priority Rtc = 10"
| "source_priority SimulatedTime = 0"
| "source_priority NoSource = - 1"

definition u64_max :: u64 where "u64_max = 0xFFFFFFFFFFFFFFFF"

definition age_ms :: "time_observation \<Rightarrow> monotonic \<Rightarrow> u64" where
  "age_ms ob now =
     (if now < to_observed_at ob then u64_max
      else
        let transit = now - to_observed_at ob
        in if transit > u64_max - ucast (to_age_at_source_ms ob) then u64_max
           else transit + ucast (to_age_at_source_ms ob))"

definition age_field :: "u64 \<Rightarrow> u32" where
  "age_field age = (if age > 0xFFFFFFFF then 0xFFFFFFFF else ucast age)"

definition add_seconds :: "wall_time \<Rightarrow> u64 \<Rightarrow> wall_time" where
  "add_seconds t seconds =
     (if uint seconds > i64_max \<or> t > i64_max - uint seconds then i64_max else t + uint seconds)"

definition add_offset :: "wall_time \<Rightarrow> int \<Rightarrow> wall_time" where
  "add_offset utc minutes =
     (let seconds = minutes * 60 in
      if seconds > 0 \<and> utc > i64_max - seconds then i64_max
      else if seconds < 0 \<and> utc < i64_min - seconds then i64_min
      else utc + seconds)"

definition projected :: "time_observation \<Rightarrow> monotonic \<Rightarrow> wall_time" where
  "projected ob now = add_seconds (to_utc ob) (age_ms ob now div 1000)"

definition validity_at :: "time_observation \<Rightarrow> monotonic \<Rightarrow> validity" where
  "validity_at ob now =
     (if now < to_observed_at ob then IsInvalid
      else if to_quality ob \<noteq> Trusted then IsStale
      else if to_fresh_for ob \<noteq> 0 \<and> age_ms ob now < ucast (to_fresh_for ob) then IsValid
      else IsStale)"

section \<open>The service\<close>

definition ts_observe :: "time_observation \<Rightarrow> time_service \<Rightarrow> bool \<times> time_service" where
  "ts_observe candidate t =
     (let ob = svc_observation t; at = to_observed_at candidate in
      if to_source candidate = NoSource \<or> to_quality candidate = QualityUnknown \<or>
         (to_quality candidate = Trusted \<and> to_fresh_for candidate = 0)
      then (False, t)
      else if svc_has_observation t \<and> at < to_observed_at ob then (False, t)
      else if svc_has_observation t \<and> \<not> svc_has_report t \<and> validity_at ob at = IsValid \<and>
              (validity_at candidate at \<noteq> IsValid \<or>
               quality_level (to_quality candidate) < quality_level (to_quality ob) \<or>
               (to_quality candidate = to_quality ob \<and> source_priority (to_source candidate) < source_priority (to_source ob)))
      then (False, t)
      else
        let correction = seconds_between (projected ob at) (to_utc candidate) in
        if svc_has_observation t \<and> to_quality ob = Trusted \<and> to_quality candidate = Trusted \<and>
           validity_at ob at = IsValid \<and> correction > ucast (max_silent_correction_seconds (svc_policy t)) \<and>
           \<not> to_allow_large_correction candidate
        then (False, t)
        else
          let corrected = (svc_has_observation t \<and> correction \<noteq> 0);
              t1 = t\<lparr>svc_observation := candidate, svc_has_observation := True, svc_has_report := False\<rparr>;
              t2 = (if to_quality candidate = Trusted then t1\<lparr>svc_last_sync := at, svc_has_last_sync := True\<rparr> else t1);
              t3 = (if corrected then t2\<lparr>svc_corrected_at := at, svc_has_correction := True\<rparr> else t2)
          in (True, t3))"

definition kMaximumOffsetMinutes :: int where "kMaximumOffsetMinutes = 14 * 60"

definition set_timezone :: "int \<Rightarrow> monotonic \<Rightarrow> monotonic \<Rightarrow> time_service \<Rightarrow> bool \<times> time_service" where
  "set_timezone minutes valid_until now t =
     (if minutes < - kMaximumOffsetMinutes \<or> minutes > kMaximumOffsetMinutes \<or> valid_until \<le> now then (False, t)
      else (True, t\<lparr>svc_timezone := \<lparr>tz_minutes_east_of_utc = minutes, tz_valid_until = valid_until, tz_configured = True\<rparr>\<rparr>))"

definition set_provisional_timezone :: "int \<Rightarrow> time_service \<Rightarrow> bool \<times> time_service" where
  "set_provisional_timezone minutes t =
     (if minutes < - kMaximumOffsetMinutes \<or> minutes > kMaximumOffsetMinutes then (False, t)
      else (True, t\<lparr>svc_timezone := \<lparr>tz_minutes_east_of_utc = minutes, tz_valid_until = 0, tz_configured = True\<rparr>\<rparr>))"

definition ts_report :: "time_source \<Rightarrow> availability \<Rightarrow> validity \<Rightarrow> time_service \<Rightarrow> time_service" where
  "ts_report src avail val t =
     (if avail = AvReady \<or> (svc_has_observation t \<and> src \<noteq> to_source (svc_observation t)) then t
      else t\<lparr>svc_reported_source := src, svc_reported_availability := avail, svc_reported_validity := val,
             svc_has_report := True\<rparr>)"

definition ts_state :: "monotonic \<Rightarrow> time_service \<Rightarrow> time_state" where
  "ts_state now t =
     (let ob = svc_observation t; zone = svc_timezone t;
          r0 = new_time_state\<lparr>
            tst_source := (if svc_has_observation t then to_source ob else svc_reported_source t),
            tst_quality := (if svc_has_observation t then to_quality ob else QualityUnknown),
            tst_availability := (if svc_has_report t then svc_reported_availability t
                                 else if svc_has_observation t then AvReady else Unprovisioned),
            tst_has_last_sync := svc_has_last_sync t, tst_last_sync := svc_last_sync t,
            tst_timezone_valid := tz_configured zone \<and> now < tz_valid_until zone,
            tst_timezone_offset_minutes := tz_minutes_east_of_utc zone\<rparr> in
      if \<not> svc_has_observation t
      then
        let v = (if svc_has_report t then svc_reported_validity t else ValidityUnknown)
        in r0\<lparr>tst_utc := (tst_utc r0)\<lparr>tm_validity := v\<rparr>, tst_local := (tst_local r0)\<lparr>tm_validity := v\<rparr>\<rparr>
      else
        let utc = \<lparr>tm_value = projected ob now, tm_age_at_source_ms = to_age_at_source_ms ob,
                   tm_age_at_us_ms = age_field (if now < to_observed_at ob then u64_max else now - to_observed_at ob),
                   tm_validity = validity_at ob now\<rparr>;
            loc = utc\<lparr>tm_value := add_offset (tm_value utc) (tz_minutes_east_of_utc zone),
                      tm_validity := (if tm_validity utc = IsValid \<and> \<not> tst_timezone_valid r0 then IsStale else tm_validity utc)\<rparr>;
            utc1 = (if svc_has_report t then utc\<lparr>tm_validity := svc_reported_validity t\<rparr> else utc);
            loc1 = (if svc_has_report t then loc\<lparr>tm_validity := svc_reported_validity t\<rparr> else loc)
        in r0\<lparr>tst_utc := utc1, tst_local := loc1,
              tst_recently_corrected := svc_has_correction t \<and> now \<ge> svc_corrected_at t \<and>
                elapsed (svc_corrected_at t) now < recently_corrected_for (svc_policy t)\<rparr>)"

fun time_source_to_string :: "time_source \<Rightarrow> string" where
  "time_source_to_string NoSource = ''None''"
| "time_source_to_string Rtc = ''Rtc''"
| "time_source_to_string ManualTime = ''Manual''"
| "time_source_to_string CompanionTime = ''Companion''"
| "time_source_to_string NetworkTime = ''Network''"
| "time_source_to_string GnssTime = ''Gnss''"
| "time_source_to_string MeshTime = ''Mesh''"
| "time_source_to_string SimulatedTime = ''Simulated''"

fun time_quality_to_string :: "time_quality \<Rightarrow> string" where
  "time_quality_to_string QualityUnknown = ''Unknown''"
| "time_quality_to_string Provisional = ''Provisional''"
| "time_quality_to_string Trusted = ''Trusted''"

section \<open>Arithmetic\<close>

text \<open>The age counts both how old the sample was and how long ago it came, and saturates.\<close>

lemma unat_u64_max: "unat u64_max = 2 ^ 64 - 1"
  by (simp add: u64_max_def)

lemma unat_age_ms:
  "unat (age_ms ob now) = (if now < to_observed_at ob then 2 ^ 64 - 1
     else min (2 ^ 64 - 1) (unat now - unat (to_observed_at ob) + unat (to_age_at_source_ms ob)))"
proof (cases "now < to_observed_at ob")
  case False
  then have le: "to_observed_at ob \<le> now" by simp
  let ?tr = "now - to_observed_at ob" and ?a = "ucast (to_age_at_source_ms ob) :: u64"
  have a: "unat ?a = unat (to_age_at_source_ms ob)" by (simp add: unat_upcast)
  have s: "unat (u64_max - ?a) = 2 ^ 64 - 1 - unat ?a"
    using unat_bound [of ?a] by (subst unat_sub) (simp_all add: word_le_unat unat_u64_max)
  have tr: "unat ?tr = unat now - unat (to_observed_at ob)" using le by (simp add: unat_sub_le)
  show ?thesis
  proof (cases "?tr > u64_max - ?a")
    case True
    then have "2 ^ 64 - 1 - unat ?a < unat ?tr" by (simp add: word_less_unat s)
    then show ?thesis using True False by (simp add: age_ms_def Let_def unat_u64_max tr [symmetric] a)
  next
    case f: False
    then have "unat ?tr + unat ?a \<le> 2 ^ 64 - 1" using unat_bound [of ?a] by (simp add: word_less_unat s not_less)
    moreover from this have "unat (?tr + ?a) = unat ?tr + unat ?a"
      by (subst unat_word_ariths(1)) simp
    ultimately show ?thesis using f False by (simp add: age_ms_def Let_def tr [symmetric] a)
  qed
qed (simp add: age_ms_def unat_u64_max)

lemma unat_age_field: "unat (age_field a) = min (unat a) (2 ^ 32 - 1)"
  using unat_clamp_u32 [of a] by (simp add: age_field_def clamp_u32_def)

text \<open>Seconds are added without overflow.\<close>

lemma add_seconds_sat:
  assumes "is_i64 t" and "uint s \<le> i64_max"
  shows "add_seconds t s = min i64_max (t + uint s)" and "is_i64 (add_seconds t s)"
proof -
  obtain k where k: "k = uint s" "0 \<le> k" by simp
  then show "add_seconds t s = min i64_max (t + uint s)" "is_i64 (add_seconds t s)"
    using assms unfolding add_seconds_def k(1) [symmetric] by (auto simp: is_i64_def i64_min_def i64_max_def min_def)
qed

lemma add_offset_sat:
  assumes "is_i64 t" and "\<bar>m\<bar> \<le> 2 ^ 15"
  shows "add_offset t m = max i64_min (min i64_max (t + m * 60))" and "is_i64 (add_offset t m)"
  using assms
  by (auto simp: add_offset_def Let_def is_i64_def i64_min_def i64_max_def min_def max_def)

definition good_observation :: "time_observation \<Rightarrow> bool" where
  "good_observation ob \<longleftrightarrow> is_i64 (to_utc ob)"

lemma uint_age_secs: "uint (age_ms ob now div 1000) = int (unat (age_ms ob now) div 1000)"
proof -
  have "unat (age_ms ob now div 1000) = unat (age_ms ob now) div unat (1000 :: u64)" by (rule unat_div_distrib)
  also have "unat (1000 :: u64) = 1000" by simp
  finally show ?thesis by (metis of_nat_unat)
qed

lemma age_secs_small: "int (unat (age_ms ob now) div 1000) \<le> i64_max"
proof -
  have "unat (age_ms ob now) \<le> 2 ^ 64 - 1" using unat_bound [of "age_ms ob now"] by simp
  then have "unat (age_ms ob now) div 1000 \<le> 2 ^ 63 - 1" by simp
  then show ?thesis by (simp add: i64_max_def)
qed

lemma projected_sat:
  assumes "good_observation ob"
  shows "projected ob now = min i64_max (to_utc ob + int (unat (age_ms ob now) div 1000))" and "is_i64 (projected ob now)"
  using add_seconds_sat [of "to_utc ob" "age_ms ob now div 1000"] assms age_secs_small [of ob now]
  unfolding projected_def good_observation_def uint_age_secs by simp_all

lemma projected_mono:
  assumes "good_observation ob" and "to_observed_at ob \<le> now" and "now \<le> later"
  shows "projected ob now \<le> projected ob later"
proof -
  have "unat (age_ms ob now) \<le> unat (age_ms ob later)"
    using assms(2,3) by (simp add: unat_age_ms word_le_unat word_less_unat not_less)
  then have "unat (age_ms ob now) div 1000 \<le> unat (age_ms ob later) div 1000" by (rule div_le_mono)
  then show ?thesis unfolding projected_sat(1) [OF assms(1)] by simp
qed

section \<open>Runs of the service\<close>

datatype time_op =
    Observe time_observation
  | SetZone int monotonic monotonic
  | SetProvisionalZone int
  | Report time_source availability validity

fun time_step :: "time_op \<Rightarrow> time_service \<Rightarrow> time_service" where
  "time_step (Observe ob) t = snd (ts_observe ob t)"
| "time_step (SetZone m until now) t = snd (set_timezone m until now t)"
| "time_step (SetProvisionalZone m) t = snd (set_provisional_timezone m t)"
| "time_step (Report src avail val) t = ts_report src avail val t"

text \<open>The seconds of an observation are a 64-bit integer.\<close>

fun good_op :: "time_op \<Rightarrow> bool" where
  "good_op (Observe ob) = good_observation ob"
| "good_op _ = True"

definition time_inv :: "time_service \<Rightarrow> bool" where
  "time_inv t \<longleftrightarrow>
     good_observation (svc_observation t) \<and> \<bar>tz_minutes_east_of_utc (svc_timezone t)\<bar> \<le> kMaximumOffsetMinutes \<and>
     (svc_has_observation t \<longrightarrow> to_source (svc_observation t) \<noteq> NoSource \<and> to_quality (svc_observation t) \<noteq> QualityUnknown \<and>
        (to_quality (svc_observation t) = Trusted \<longrightarrow>
           to_fresh_for (svc_observation t) \<noteq> 0 \<and> svc_has_last_sync t \<and> svc_last_sync t = to_observed_at (svc_observation t))) \<and>
     (svc_has_last_sync t \<longrightarrow> svc_has_observation t \<and> svc_last_sync t \<le> to_observed_at (svc_observation t)) \<and>
     (svc_has_correction t \<longrightarrow> svc_has_observation t \<and> svc_corrected_at t \<le> to_observed_at (svc_observation t))"

lemma new_time_service_inv [inv_rules]: "time_inv (new_time_service p)"
  by (simp add: time_inv_def new_time_service_def new_time_observation_def good_observation_def is_i64_def i64_min_def
      i64_max_def kMaximumOffsetMinutes_def)

lemma ts_observe_cases:
  obtains (refused) "ts_observe c t = (False, t)"
  | (accepted) t' where "ts_observe c t = (True, t')" "svc_observation t' = c" "svc_has_observation t'" "\<not> svc_has_report t'"
      "svc_policy t' = svc_policy t" "svc_timezone t' = svc_timezone t"
      "to_source c \<noteq> NoSource" "to_quality c \<noteq> QualityUnknown" "to_quality c = Trusted \<longrightarrow> to_fresh_for c \<noteq> 0"
      "svc_has_observation t \<longrightarrow> to_observed_at (svc_observation t) \<le> to_observed_at c"
      "svc_has_last_sync t' \<longleftrightarrow> svc_has_last_sync t \<or> to_quality c = Trusted"
      "svc_last_sync t' = (if to_quality c = Trusted then to_observed_at c else svc_last_sync t)"
      "svc_has_correction t' \<longrightarrow> svc_has_correction t \<and> svc_corrected_at t' = svc_corrected_at t \<or> svc_corrected_at t' = to_observed_at c"
  by (cases "fst (ts_observe c t)") (auto simp: ts_observe_def Let_def not_less split: if_splits)

lemma time_step_inv: "time_inv t \<Longrightarrow> good_op x \<Longrightarrow> time_inv (time_step x t)"
proof (cases x)
  case (Observe c)
  assume t: "time_inv t" and g: "good_op x"
  show ?thesis
  proof (cases rule: ts_observe_cases [of c t])
    case refused
    then show ?thesis using t by (simp add: Observe)
  next
    case (accepted t')
    have "svc_last_sync t \<le> to_observed_at c" if "svc_has_last_sync t" using that t accepted(10) by (auto simp: time_inv_def)
    moreover have "svc_corrected_at t \<le> to_observed_at c" if "svc_has_correction t" using that t accepted(10) by (auto simp: time_inv_def)
    ultimately show ?thesis using t g accepted by (auto simp: Observe time_inv_def)
  qed
qed (auto simp: time_inv_def set_timezone_def set_provisional_timezone_def ts_report_def abs_le_iff)

lemma time_run_inv: "list_all good_op ops \<Longrightarrow> time_inv t \<Longrightarrow> time_inv (run_ops time_step ops t)"
  by (induction ops arbitrary: t) (auto intro: time_step_inv)

text \<open>The reading without a report.\<close>

lemma ts_state_reading:
  assumes "svc_has_observation t"
  shows "tm_value (tst_utc (ts_state now t)) = projected (svc_observation t) now"
    and "tm_value (tst_local (ts_state now t)) = add_offset (projected (svc_observation t) now) (tz_minutes_east_of_utc (svc_timezone t))"
    and "\<not> svc_has_report t \<Longrightarrow> tm_validity (tst_utc (ts_state now t)) = validity_at (svc_observation t) now"
    and "\<not> svc_has_report t \<Longrightarrow> tm_validity (tst_local (ts_state now t)) =
      (if validity_at (svc_observation t) now = IsValid \<and> \<not> tst_timezone_valid (ts_state now t) then IsStale
       else validity_at (svc_observation t) now)"
    and "tst_quality (ts_state now t) = to_quality (svc_observation t)"
  using assms by (simp_all add: ts_state_def Let_def new_time_state_def)

lemma validity_at_valid:
  "validity_at ob now = IsValid \<longleftrightarrow> to_quality ob = Trusted \<and> to_observed_at ob \<le> now \<and>
     unat now - unat (to_observed_at ob) + unat (to_age_at_source_ms ob) < unat (to_fresh_for ob)"
proof -
  have f: "unat (ucast (to_fresh_for ob) :: u64) = unat (to_fresh_for ob)" by (simp add: unat_upcast)
  have "unat (to_fresh_for ob) < 2 ^ 64 - 1" using unat_bound [of "to_fresh_for ob"] by simp
  then have "age_ms ob now < ucast (to_fresh_for ob) \<longleftrightarrow>
      unat now - unat (to_observed_at ob) + unat (to_age_at_source_ms ob) < unat (to_fresh_for ob)" if "to_observed_at ob \<le> now"
    using that by (simp add: word_less_unat f unat_age_ms word_le_unat not_less) linarith
  then show ?thesis by (auto simp: validity_at_def word_eq_unat)
qed

text \<open>
  C31. The clock that is shown is honest. After any operations, unless a provider has reported
  trouble, the time is valid exactly while the observation behind it is trusted, not from the
  future, and younger - by its age when it came and the time since - than it stays fresh; it is
  that observation plus the whole seconds of that age, it never runs backwards between two
  observations, local time is within fourteen hours of it and is valid only if the
  offset is, and nothing overflows. The last synchronisation shown is never later than the
  observation held.
\<close>
theorem shown_time_is_honest:
  assumes "list_all good_op ops" and "t = run_ops time_step ops (new_time_service p)" and "svc_has_observation t"
    and "now \<le> later"
  shows "tm_value (tst_utc (ts_state now t)) =
      min i64_max (to_utc (svc_observation t) + int (unat (age_ms (svc_observation t) now) div 1000)) \<and>
    is_i64 (tm_value (tst_utc (ts_state now t))) \<and> is_i64 (tm_value (tst_local (ts_state now t))) \<and>
    \<bar>tm_value (tst_local (ts_state now t)) - tm_value (tst_utc (ts_state now t))\<bar> \<le> 14 * 60 * 60 \<and>
    (\<not> svc_has_report t \<longrightarrow> (tm_validity (tst_utc (ts_state now t)) = IsValid \<longleftrightarrow>
       tst_quality (ts_state now t) = Trusted \<and> to_observed_at (svc_observation t) \<le> now \<and>
       unat now - unat (to_observed_at (svc_observation t)) + unat (to_age_at_source_ms (svc_observation t)) < unat (to_fresh_for (svc_observation t)))) \<and>
    (\<not> svc_has_report t \<and> tm_validity (tst_local (ts_state now t)) = IsValid \<longrightarrow>
       tst_timezone_valid (ts_state now t) \<and> tm_validity (tst_utc (ts_state now t)) = IsValid) \<and>
    (to_observed_at (svc_observation t) \<le> now \<longrightarrow> tm_value (tst_utc (ts_state now t)) \<le> tm_value (tst_utc (ts_state later t))) \<and>
    (svc_has_last_sync t \<longrightarrow> svc_last_sync t \<le> to_observed_at (svc_observation t))"
proof -
  have inv: "time_inv t" unfolding assms(2) by (rule time_run_inv [OF assms(1) new_time_service_inv])
  then have g: "good_observation (svc_observation t)" and z: "\<bar>tz_minutes_east_of_utc (svc_timezone t)\<bar> \<le> 840"
    by (simp_all add: time_inv_def kMaximumOffsetMinutes_def)
  note r = ts_state_reading [OF assms(3)]
  note p = projected_sat [OF g, of now]
  have o: "add_offset (projected (svc_observation t) now) (tz_minutes_east_of_utc (svc_timezone t)) =
      max i64_min (min i64_max (projected (svc_observation t) now + tz_minutes_east_of_utc (svc_timezone t) * 60))"
    "is_i64 (add_offset (projected (svc_observation t) now) (tz_minutes_east_of_utc (svc_timezone t)))"
    using z by (intro add_offset_sat p(2); simp)+
  have d: "\<bar>add_offset (projected (svc_observation t) now) (tz_minutes_east_of_utc (svc_timezone t)) - projected (svc_observation t) now\<bar> \<le> 14 * 60 * 60"
    using p(2) z unfolding o(1) is_i64_def by (auto simp: min_def max_def abs_le_iff)
  have "svc_has_last_sync t \<longrightarrow> svc_last_sync t \<le> to_observed_at (svc_observation t)" using inv by (simp add: time_inv_def)
  moreover have "projected (svc_observation t) now \<le> projected (svc_observation t) later" if "to_observed_at (svc_observation t) \<le> now"
    using projected_mono [OF g that assms(4)] .
  moreover have "\<not> svc_has_report t \<longrightarrow> (tm_validity (tst_utc (ts_state now t)) = IsValid \<longleftrightarrow>
       tst_quality (ts_state now t) = Trusted \<and> to_observed_at (svc_observation t) \<le> now \<and>
       unat now - unat (to_observed_at (svc_observation t)) + unat (to_age_at_source_ms (svc_observation t)) < unat (to_fresh_for (svc_observation t)))"
    using r(3,5) validity_at_valid by simp
  moreover have "\<not> svc_has_report t \<and> tm_validity (tst_local (ts_state now t)) = IsValid \<longrightarrow>
       tst_timezone_valid (ts_state now t) \<and> tm_validity (tst_utc (ts_state now t)) = IsValid"
    using r(3,4) by (auto split: if_splits)
  ultimately show ?thesis using p o(2) d unfolding r(1,2) ts_state_reading(1) [OF assms(3), of later] by blast
qed

text \<open>
  C32. A valid clock is not moved silently. While what is shown is valid and no trouble was
  reported, an observation that does not announce a large correction is taken only if it is trusted,
  fresh, of a source at least as good, no older than what is held, and within the silent
  limit of the time shown; then the time shown moves by at most that limit and the whole
  seconds the sample had aged before it came - the code compares the sample's own time, not the
  time carried forward by that age - and otherwise nothing changes.
\<close>
theorem valid_clock_moves_within_limit:
  assumes "list_all good_op ops" and "t = run_ops time_step ops (new_time_service p)" and "good_observation c"
    and "svc_has_observation t" and "\<not> svc_has_report t" and "tm_validity (tst_utc (ts_state (to_observed_at c) t)) = IsValid"
    and "\<not> to_allow_large_correction c" and "ts_observe c t = (ok, t')"
  shows "(\<not> ok \<longrightarrow> t' = t) \<and>
    (ok \<longrightarrow> to_quality c = Trusted \<and> validity_at c (to_observed_at c) = IsValid \<and>
       source_priority (to_source (svc_observation t)) \<le> source_priority (to_source c) \<and>
       to_observed_at (svc_observation t) \<le> to_observed_at c \<and>
       \<bar>to_utc c - tm_value (tst_utc (ts_state (to_observed_at c) t))\<bar> \<le> int (unat (max_silent_correction_seconds (svc_policy t))) \<and>
       \<bar>tm_value (tst_utc (ts_state (to_observed_at c) t')) - tm_value (tst_utc (ts_state (to_observed_at c) t))\<bar>
         \<le> int (unat (max_silent_correction_seconds (svc_policy t))) + int (unat (to_age_at_source_ms c) div 1000))"
proof -
  let ?ob = "svc_observation t" and ?at = "to_observed_at c"
  have inv: "time_inv t" unfolding assms(2) by (rule time_run_inv [OF assms(1) new_time_service_inv])
  then have g: "good_observation ?ob" by (simp add: time_inv_def)
  note r = ts_state_reading [OF assms(4), of ?at]
  have v: "validity_at ?ob ?at = IsValid" using assms(5,6) r(3) by simp
  then have q: "to_quality ?ob = Trusted" by (simp add: validity_at_valid)
  show ?thesis
  proof (cases rule: ts_observe_cases [of c t])
    case refused
    then show ?thesis using assms(8) by simp
  next
    case (accepted t2)
    have t2: "t' = t2" ok using accepted(1) assms(8) by simp_all
    have c: "validity_at c ?at = IsValid" "\<not> quality_level (to_quality c) < quality_level (to_quality ?ob)"
      "to_quality c = to_quality ?ob \<longrightarrow> source_priority (to_source ?ob) \<le> source_priority (to_source c)"
      using accepted(1) assms(4,5) v by (auto simp: ts_observe_def Let_def not_less split: if_splits)
    have tq: "to_quality c = Trusted" using c(1) by (simp add: validity_at_valid)
    have "seconds_between (projected ?ob ?at) (to_utc c) \<le> ucast (max_silent_correction_seconds (svc_policy t))"
      using accepted(1) assms(4,5,7) v q tq by (auto simp: ts_observe_def Let_def not_less split: if_splits)
    then have "uint (seconds_between (projected ?ob ?at) (to_utc c)) \<le> uint (ucast (max_silent_correction_seconds (svc_policy t)) :: u64)"
      by (simp add: word_le_def)
    also have "\<dots> = int (unat (ucast (max_silent_correction_seconds (svc_policy t)) :: u64))" by simp
    also have "\<dots> = int (unat (max_silent_correction_seconds (svc_policy t)))" by (subst unat_upcast) simp_all
    finally have s: "\<bar>projected ?ob ?at - to_utc c\<bar> \<le> int (unat (max_silent_correction_seconds (svc_policy t)))"
      using uint_seconds_between [OF projected_sat(2) [OF g, of ?at], of "to_utc c"] assms(3) by (simp add: good_observation_def)
    have age: "unat (age_ms c ?at) = unat (to_age_at_source_ms c)"
      using unat_bound [of "to_age_at_source_ms c"] by (simp add: unat_age_ms)
    have "to_utc c \<le> i64_max" using assms(3) by (simp add: good_observation_def is_i64_def)
    then have p: "to_utc c \<le> projected c ?at" "projected c ?at \<le> to_utc c + int (unat (to_age_at_source_ms c) div 1000)"
      unfolding projected_sat(1) [OF assms(3), of ?at] age by simp_all
    have n: "tm_value (tst_utc (ts_state ?at t')) = projected c ?at"
      using ts_state_reading(1) [of t' ?at] accepted(2,3) t2 by simp
    show ?thesis using t2 c tq q accepted(10) assms(4) s p unfolding n r(1) by auto
  qed
qed

definition gnss_sample :: "wall_time \<Rightarrow> u32 \<Rightarrow> monotonic \<Rightarrow> time_observation" where
  "gnss_sample utc age at = \<lparr>to_utc = utc, to_observed_at = at, to_fresh_for = 3600000, to_age_at_source_ms = age,
     to_source = GnssTime, to_quality = Trusted, to_allow_large_correction = False\<rparr>"

lemma gnss_sample_good: "\<bar>utc\<bar> \<le> 10000000000 \<Longrightarrow> good_observation (gnss_sample utc age at)"
  by (auto simp: good_observation_def gnss_sample_def is_i64_def i64_min_def i64_max_def)

lemma first_sample: "ts_observe (gnss_sample u 0 at) (new_time_service p) =
    (True, (new_time_service p)\<lparr>svc_observation := gnss_sample u 0 at, svc_has_observation := True, svc_last_sync := at, svc_has_last_sync := True\<rparr>)"
  by (simp add: ts_observe_def Let_def gnss_sample_def new_time_service_def)

text \<open>The service after one sample of the satellites.\<close>

definition one_sample :: time_service where
  "one_sample = run_ops time_step [Observe (gnss_sample 1700000000 0 5)] (new_time_service default_time_policy)"

lemma one_sample_fields:
  "svc_has_observation one_sample" "svc_observation one_sample = gnss_sample 1700000000 0 5" "\<not> svc_has_report one_sample"
  "svc_policy one_sample = default_time_policy"
  unfolding one_sample_def run_ops.simps time_step.simps first_sample by (simp_all add: new_time_service_def)

lemma one_sample_good: "list_all good_op [Observe (gnss_sample 1700000000 0 5)]"
  using gnss_sample_good [of 1700000000] by simp

lemma shown_time_is_honest_witness:
  "tm_validity (tst_utc (ts_state 2005 one_sample)) = IsValid \<and> tm_value (tst_utc (ts_state 2005 one_sample)) = 1700000002"
  using shown_time_is_honest [OF one_sample_good one_sample_def one_sample_fields(1), of 2005 2005]
  by (simp add: one_sample_fields ts_state_reading(5)) (simp add: gnss_sample_def unat_age_ms i64_max_def)

lemma one_sample_reads:
  "tm_validity (tst_utc (ts_state 1005 one_sample)) = IsValid" "projected (svc_observation one_sample) 1005 = 1700000001"
  using ts_state_reading(3) [OF one_sample_fields(1,3), of 1005] projected_sat(1) [OF gnss_sample_good [of 1700000000 0 5], of 1005]
  by (simp_all add: one_sample_fields validity_at_valid) (simp_all add: gnss_sample_def unat_age_ms i64_max_def)

lemma second_sample:
  assumes "u = 1700000001"
  shows "fst (ts_observe (gnss_sample u age 1005) one_sample) \<longleftrightarrow> unat age < 3600000"
proof -
  have "seconds_between 1700000001 1700000001 = 0" by (simp add: seconds_between_def)
  moreover have "validity_at (gnss_sample u age 1005) 1005 = IsValid \<longleftrightarrow> unat age < 3600000"
    by (simp add: validity_at_valid) (simp add: gnss_sample_def)
  moreover have "validity_at (svc_observation one_sample) 1005 = IsValid"
    by (simp add: validity_at_valid one_sample_fields) (simp add: gnss_sample_def)
  ultimately show ?thesis
    by (simp add: ts_observe_def Let_def one_sample_fields(1,3) one_sample_reads(2) assms gnss_sample_def [of _ age])
      (simp add: one_sample_fields gnss_sample_def)
qed

lemma valid_clock_moves_within_limit_witness:
  "let (ok, t) = ts_observe (gnss_sample 1700000001 0 1005) one_sample
   in ok \<and> \<bar>tm_value (tst_utc (ts_state 1005 t)) - 1700000001\<bar> \<le> 300"
proof -
  obtain ok t where o: "ts_observe (gnss_sample 1700000001 0 1005) one_sample = (ok, t)" by (cases "ts_observe (gnss_sample 1700000001 0 1005) one_sample")
  have ok using second_sample [of 1700000001 0] by (simp add: o)
  have f: "to_observed_at (gnss_sample 1700000001 0 1005) = 1005" "\<not> to_allow_large_correction (gnss_sample 1700000001 0 1005)"
    "to_age_at_source_ms (gnss_sample 1700000001 0 1005) = 0" by (simp_all add: gnss_sample_def)
  have g: "good_observation (gnss_sample 1700000001 0 1005)" by (rule gnss_sample_good) simp
  from valid_clock_moves_within_limit [OF one_sample_good one_sample_def g one_sample_fields(1,3) _ f(2) o] \<open>ok\<close>
  show ?thesis by (simp add: f one_sample_reads ts_state_reading(1) [OF one_sample_fields(1)] one_sample_fields(4) o default_time_policy_def)
qed

text \<open>
  The age that the limit does not see: a sample taken ten minutes before it came, whose own time
  equals the time shown now, is accepted without announcing anything and moves the clock by ten
  minutes, twice the limit.
\<close>

lemma aged_sample_jumps:
  "let (ok, t) = ts_observe (gnss_sample 1700000001 600000 1005) one_sample
   in ok \<and> tm_value (tst_utc (ts_state 1005 t)) = tm_value (tst_utc (ts_state 1005 one_sample)) + 600"
proof -
  obtain ok t where o: "ts_observe (gnss_sample 1700000001 600000 1005) one_sample = (ok, t)"
    by (cases "ts_observe (gnss_sample 1700000001 600000 1005) one_sample")
  have ok using second_sample [of 1700000001 600000] by (simp add: o)
  then have t: "svc_has_observation t" "svc_observation t = gnss_sample 1700000001 600000 1005"
    using ts_observe_cases [of "gnss_sample 1700000001 600000 1005" one_sample] o by (metis Pair_inject)+
  have "projected (gnss_sample 1700000001 600000 1005) 1005 = 1700000601"
    using projected_sat(1) [OF gnss_sample_good [of 1700000001 600000 1005], of 1005]
    by simp (simp add: gnss_sample_def unat_age_ms i64_max_def)
  then show ?thesis using \<open>ok\<close>
    by (simp add: o ts_state_reading(1) [OF t(1)] ts_state_reading(1) [OF one_sample_fields(1)] one_sample_reads t(2))
qed

end
