(* ===== verification/Gnss_Power.thy ===== *)
theory Gnss_Power
  imports Position Power_State
begin

text \<open>
  When the receiver runs: \<open>core/include/attadipa/core/gnss_power.h\<close> and
  \<open>core/src/gnss_power.cpp\<close>. The policy is a pure function of the state, what the hardware is
  known to support, the power state of the watch and what moves.
\<close>

section \<open>States and capabilities\<close>

datatype gnss_state = GnssOff | Backup | Acquiring | Tracking | PowerSave | GnssDegraded

definition kGnssStateCount :: nat where "kGnssStateCount = 6"

datatype start_kind = Cold | Warm | Hot

datatype support_state = SupportUnknown | NotSupported | Supported

definition is_supported :: "support_state \<Rightarrow> bool" where
  "is_supported s \<longleftrightarrow> s = Supported"

definition is_established :: "support_state \<Rightarrow> bool" where
  "is_established s \<longleftrightarrow> s \<noteq> SupportUnknown"

record gnss_capabilities =
  backup_domain :: support_state
  power_save_mode :: support_state
  assistance :: support_state
  orbit_prediction :: support_state

definition fully_established :: "gnss_capabilities \<Rightarrow> bool" where
  "fully_established c \<longleftrightarrow> is_established (backup_domain c) \<and> is_established (power_save_mode c) \<and>
     is_established (assistance c) \<and> is_established (orbit_prediction c)"

record gnss_context =
  since_last_fix :: millis
  ephemeris_retained :: bool
  backup_retained :: bool
  receiver_body :: sensor_body
  gc_motion :: motion_evidence
  fresh_fix_requested :: bool
  device_power :: power_state
  gc_capabilities :: gnss_capabilities
  assistance_available :: bool

definition new_gnss_context :: gnss_context where
  "new_gnss_context = \<lparr>since_last_fix = 0, ephemeris_retained = False, backup_retained = False,
     receiver_body = BodyUnknown, gc_motion = no_motion_evidence, fresh_fix_requested = False,
     device_power = Active,
     gc_capabilities = \<lparr>backup_domain = SupportUnknown, power_save_mode = SupportUnknown,
       assistance = SupportUnknown, orbit_prediction = SupportUnknown\<rparr>,
     assistance_available = False\<rparr>"

definition own_body_at_rest :: "gnss_context \<Rightarrow> bool" where
  "own_body_at_rest c \<longleftrightarrow> says_at_rest (receiver_body c) (gc_motion c)"

definition own_body_in_motion :: "gnss_context \<Rightarrow> bool" where
  "own_body_in_motion c \<longleftrightarrow> says_in_motion (receiver_body c) (gc_motion c)"

section \<open>The policy\<close>

definition kHotStartWindow :: millis where "kHotStartWindow = 2 * 60 * 60 * 1000"

definition start_kind :: "gnss_context \<Rightarrow> start_kind" where
  "start_kind c =
     (if ephemeris_retained c \<and> since_last_fix c < kHotStartWindow then Hot
      else if is_supported (backup_domain (gc_capabilities c)) \<and> backup_retained c then Warm
      else Cold)"

definition gnss_transition_is_legal :: "gnss_state \<Rightarrow> gnss_state \<Rightarrow> gnss_capabilities \<Rightarrow> bool" where
  "gnss_transition_is_legal from to caps =
     (if from = to then True
      else if to = Backup \<and> \<not> is_supported (backup_domain caps) then False
      else if to = PowerSave \<and> \<not> is_supported (power_save_mode caps) then False
      else if to = GnssOff then True
      else case from of
        GnssOff \<Rightarrow> to = Acquiring
      | Backup \<Rightarrow> to = Acquiring
      | Acquiring \<Rightarrow> to = Tracking \<or> to = GnssDegraded \<or> to = Backup
      | Tracking \<Rightarrow> to = GnssDegraded \<or> to = PowerSave \<or> to = Backup \<or> to = Acquiring
      | PowerSave \<Rightarrow> to = Tracking \<or> to = Acquiring \<or> to = GnssDegraded \<or> to = Backup
      | GnssDegraded \<Rightarrow> to = Acquiring \<or> to = Tracking \<or> to = Backup)"

definition next_state :: "gnss_state \<Rightarrow> gnss_context \<Rightarrow> gnss_state" where
  "next_state current c =
     (let can = gc_capabilities c in
      if device_power c = PowerOff \<or> device_power c = DeepSleep
      then (if current = GnssOff then GnssOff
            else if is_supported (backup_domain can) then Backup else GnssOff)
      else if fresh_fix_requested c
      then (if current = GnssOff \<or> current = Backup then Acquiring
            else if current = PowerSave then Tracking
            else current)
      else if own_body_at_rest c \<and> current = Tracking
      then (if is_supported (power_save_mode can) then PowerSave
            else if is_supported (backup_domain can) then Backup
            else GnssOff)
      else if own_body_in_motion c \<and> (current = PowerSave \<or> current = Backup) then Acquiring
      else current)"

fun gnss_state_to_string :: "gnss_state \<Rightarrow> string" where
  "gnss_state_to_string GnssOff = ''Off''"
| "gnss_state_to_string Backup = ''Backup''"
| "gnss_state_to_string Acquiring = ''Acquiring''"
| "gnss_state_to_string Tracking = ''Tracking''"
| "gnss_state_to_string PowerSave = ''PowerSave''"
| "gnss_state_to_string GnssDegraded = ''Degraded''"

fun start_kind_to_string :: "start_kind \<Rightarrow> string" where
  "start_kind_to_string Cold = ''Cold''"
| "start_kind_to_string Warm = ''Warm''"
| "start_kind_to_string Hot = ''Hot''"

fun support_state_to_string :: "support_state \<Rightarrow> string" where
  "support_state_to_string SupportUnknown = ''Unknown''"
| "support_state_to_string NotSupported = ''Unsupported''"
| "support_state_to_string Supported = ''Supported''"

section \<open>The policy only takes legal steps\<close>

text \<open>A state the hardware is known to have.\<close>

definition state_supported :: "gnss_capabilities \<Rightarrow> gnss_state \<Rightarrow> bool" where
  "state_supported caps s \<longleftrightarrow> (s = Backup \<longrightarrow> is_supported (backup_domain caps)) \<and>
     (s = PowerSave \<longrightarrow> is_supported (power_save_mode caps))"

lemma next_state_legal: "gnss_transition_is_legal s (next_state s c) (gc_capabilities c)"
  by (cases s) (auto simp: next_state_def gnss_transition_is_legal_def Let_def)

lemma legal_supported: "state_supported caps s \<Longrightarrow> gnss_transition_is_legal s t caps \<Longrightarrow> state_supported caps t"
  by (auto simp: gnss_transition_is_legal_def state_supported_def split: if_splits)

text \<open>The receiver driven by a sequence of contexts, each with what the hardware itself did in between.\<close>

fun drive :: "gnss_context list \<Rightarrow> gnss_state \<Rightarrow> gnss_state list" where
  "drive [] s = []"
| "drive (c # cs) s = next_state s c # drive cs (next_state s c)"

text \<open>Two contexts that differ only in what moves, and neither speaks for the receiver's body.\<close>

definition motion_irrelevant :: "gnss_context \<Rightarrow> gnss_context \<Rightarrow> bool" where
  "motion_irrelevant c d \<longleftrightarrow> d = c\<lparr>gc_motion := gc_motion d\<rparr> \<and>
     \<not> speaks_for (receiver_body c) (gc_motion c) \<and> \<not> speaks_for (receiver_body c) (gc_motion d)"

lemma next_state_irrelevant:
  assumes "motion_irrelevant c d"
  shows "next_state s c = next_state s d"
proof -
  obtain m where d: "d = c\<lparr>gc_motion := m\<rparr>" using assms by (auto simp: motion_irrelevant_def)
  have "\<not> own_body_at_rest c" "\<not> own_body_in_motion c" "\<not> own_body_at_rest d" "\<not> own_body_in_motion d"
    using assms by (auto simp: d motion_irrelevant_def own_body_at_rest_def own_body_in_motion_def says_at_rest_def says_in_motion_def)
  then show ?thesis by (simp add: next_state_def d Let_def)
qed

lemma drive_legal:
  assumes "list_all (\<lambda>c. gc_capabilities c = caps) cs" and "state_supported caps s"
  shows "list_all (state_supported caps) (drive cs s) \<and>
    list_all (\<lambda>(a, b). gnss_transition_is_legal a b caps) (zip (s # drive cs s) (drive cs s))"
  using assms
proof (induction cs arbitrary: s)
  case (Cons c cs)
  have l: "gnss_transition_is_legal s (next_state s c) caps" using next_state_legal [of s c] Cons.prems(1) by simp
  with Cons.IH [of "next_state s c"] Cons.prems legal_supported [OF Cons.prems(2) l] show ?case by simp
qed simp

lemma drive_irrelevant: "list_all2 motion_irrelevant cs ds \<Longrightarrow> drive cs s = drive ds s"
proof (induction cs ds arbitrary: s rule: list_all2_induct)
  case (Cons c cs d ds)
  then show ?case using next_state_irrelevant [of c d s] by simp
qed simp

text \<open>The two states of the watch that take the receiver down with them; the lighter sleeps do not.\<close>

definition shuts_receiver_down :: "power_state \<Rightarrow> bool" where
  "shuts_receiver_down p \<longleftrightarrow> p = PowerOff \<or> p = DeepSleep"

lemma next_state_saves:
  assumes "\<not> shuts_receiver_down (device_power c)" and "next_state s c \<noteq> s" and "next_state s c \<in> {GnssOff, Backup, PowerSave}"
  shows "s = Tracking \<and> own_body_at_rest c \<and> \<not> fresh_fix_requested c"
  using assms by (auto simp: next_state_def Let_def shuts_receiver_down_def split: if_splits)

lemma next_state_asked:
  "\<not> shuts_receiver_down (device_power c) \<Longrightarrow> fresh_fix_requested c \<Longrightarrow> next_state s c \<notin> {GnssOff, Backup, PowerSave}"
  by (cases s) (auto simp: next_state_def Let_def shuts_receiver_down_def)

lemma next_state_light:
  "\<not> shuts_receiver_down p \<Longrightarrow> next_state s (c\<lparr>device_power := p\<rparr>) = next_state s (c\<lparr>device_power := Active\<rparr>)"
  by (auto simp: next_state_def Let_def shuts_receiver_down_def own_body_at_rest_def own_body_in_motion_def)

text \<open>
  C34. The receiver is driven legally and by its own body. Whatever contexts follow one another
  over a part with fixed capabilities, starting in a state the part has, every step the policy
  takes is a legal transition, and no state is entered that the part is not known to have. Evidence
  of motion that does not speak for the receiver's own body - a node in a moving car, a phone on a
  desk - changes nothing at all. A watch that is powered off or in deep sleep leaves the receiver
  off or in backup. In every other power state - the light sleep and the mesh-listening sleep among
  them, which the policy treats exactly as it treats an active watch - the receiver is sent to a
  saving state only from tracking, only while its own body is known to rest and nobody waits for a
  fix, and a request for a fix always leaves it running.
\<close>
theorem gnss_policy_is_sound:
  assumes "list_all (\<lambda>c. gc_capabilities c = caps) cs" and "state_supported caps s"
  shows "list_all (state_supported caps) (drive cs s) \<and>
    list_all (\<lambda>(a, b). gnss_transition_is_legal a b caps) (zip (s # drive cs s) (drive cs s)) \<and>
    (list_all2 motion_irrelevant cs ds \<longrightarrow> drive ds s = drive cs s) \<and>
    (device_power c = PowerOff \<or> device_power c = DeepSleep \<longrightarrow> next_state s c = GnssOff \<or> next_state s c = Backup) \<and>
    (\<not> shuts_receiver_down (device_power c) \<longrightarrow>
       next_state s c = next_state s (c\<lparr>device_power := Active\<rparr>) \<and>
       (next_state s c \<noteq> s \<and> next_state s c \<in> {GnssOff, Backup, PowerSave} \<longrightarrow>
          s = Tracking \<and> own_body_at_rest c \<and> \<not> fresh_fix_requested c) \<and>
       (fresh_fix_requested c \<longrightarrow> next_state s c \<notin> {GnssOff, Backup, PowerSave}))"
proof (intro conjI impI)
  show "list_all (state_supported caps) (drive cs s)"
    and "list_all (\<lambda>(a, b). gnss_transition_is_legal a b caps) (zip (s # drive cs s) (drive cs s))"
    using drive_legal [OF assms] by simp_all
  show "drive ds s = drive cs s" if "list_all2 motion_irrelevant cs ds" using drive_irrelevant [OF that] by simp
  show "next_state s c = GnssOff \<or> next_state s c = Backup" if "device_power c = PowerOff \<or> device_power c = DeepSleep"
    using that by (simp add: next_state_def Let_def)
  show "next_state s c = next_state s (c\<lparr>device_power := Active\<rparr>)" if "\<not> shuts_receiver_down (device_power c)"
    using next_state_light [OF that, of s c] by simp
qed (use next_state_saves [of c s] next_state_asked [of c s] in blast)+

lemma gnss_policy_is_sound_witness:
  "let ask = new_gnss_context\<lparr>fresh_fix_requested := True\<rparr>; sleep = new_gnss_context\<lparr>device_power := DeepSleep\<rparr>
   in drive [ask, sleep] GnssOff = [Acquiring, GnssOff] \<and>
      list_all (state_supported (gc_capabilities ask)) (drive [ask, sleep] GnssOff) \<and>
      next_state GnssOff (ask\<lparr>device_power := LightSleep\<rparr>) = Acquiring"
  using gnss_policy_is_sound [of "gc_capabilities new_gnss_context"
      "[new_gnss_context\<lparr>fresh_fix_requested := True\<rparr>, new_gnss_context\<lparr>device_power := DeepSleep\<rparr>]" GnssOff]
  by (simp add: Let_def state_supported_def next_state_def new_gnss_context_def is_supported_def)

end
