(* ===== verification/Minmea.thy ===== *)
theory Minmea
  imports Attadipa_Prelude
begin

text \<open>
  The sentence scanner the receiver is built on, \<open>gnss/vendor/minmea/minmea.c\<close>: the checksum, the
  field scanner and the three sentences the watch reads. A C string is the list of its bytes
  before the NUL; \<open>char_at s\<close> is \<open>*s\<close>, the NUL at its end. \<open>int_least32_t\<close> values are integers: the
  scanner's only unguarded product is the scale of a fraction, and the lemmas on
  \<open>scan_float\<close> say when it stays in its type. \<open>strtol\<close> is the one of the device, where \<open>long\<close> has 32
  bits and an overflow gives the nearest end.
\<close>

abbreviation ch_dollar :: u8 where "ch_dollar \<equiv> 0x24"
abbreviation ch_star :: u8 where "ch_star \<equiv> 0x2A"
abbreviation ch_plus :: u8 where "ch_plus \<equiv> 0x2B"
abbreviation ch_comma :: u8 where "ch_comma \<equiv> 0x2C"
abbreviation ch_minus :: u8 where "ch_minus \<equiv> 0x2D"
abbreviation ch_dot :: u8 where "ch_dot \<equiv> 0x2E"
abbreviation ch_space :: u8 where "ch_space \<equiv> 0x20"
abbreviation ch_cr :: u8 where "ch_cr \<equiv> 0x0D"
abbreviation ch_lf :: u8 where "ch_lf \<equiv> 0x0A"

section \<open>Characters\<close>

fun char_at :: "bytes \<Rightarrow> u8" where
  "char_at [] = 0"
| "char_at (c # cs) = c"

definition isprint :: "u8 \<Rightarrow> bool" where "isprint c \<longleftrightarrow> 0x20 \<le> c \<and> c \<le> 0x7E"
definition isdigit :: "u8 \<Rightarrow> bool" where "isdigit c \<longleftrightarrow> 0x30 \<le> c \<and> c \<le> 0x39"
definition isspace :: "u8 \<Rightarrow> bool" where "isspace c \<longleftrightarrow> c = ch_space \<or> (9 \<le> c \<and> c \<le> 13)"

definition digit_value :: "u8 \<Rightarrow> int" where "digit_value c = uint c - 0x30"

definition minmea_isfield :: "u8 \<Rightarrow> bool" where
  "minmea_isfield c \<longleftrightarrow> isprint c \<and> c \<noteq> ch_comma \<and> c \<noteq> ch_star"

definition hex2int :: "u8 \<Rightarrow> int" where
  "hex2int c =
     (if 0x30 \<le> c \<and> c \<le> 0x39 then uint c - 0x30
      else if 0x41 \<le> c \<and> c \<le> 0x46 then uint c - 0x41 + 10
      else if 0x61 \<le> c \<and> c \<le> 0x66 then uint c - 0x61 + 10
      else - 1)"

section \<open>The checksum\<close>

definition xor_sum :: "bytes \<Rightarrow> u8" where
  "xor_sum s = foldl (\<lambda>checksum c. checksum XOR c) 0 s"

definition minmea_checksum :: "bytes \<Rightarrow> u8" where
  "minmea_checksum s = xor_sum (takeWhile (\<lambda>c. c \<noteq> ch_star) (if char_at s = ch_dollar then tl s else s))"

text \<open>What may follow the checksum.\<close>

definition only_line_ends :: "bytes \<Rightarrow> bool" where
  "only_line_ends s \<longleftrightarrow> dropWhile (\<lambda>c. c = ch_cr \<or> c = ch_lf) s = []"

definition summed :: "u8 \<Rightarrow> bool" where
  "summed c \<longleftrightarrow> c \<noteq> ch_star \<and> isprint c"

definition minmea_check :: "bytes \<Rightarrow> bool \<Rightarrow> bool" where
  "minmea_check s strict =
     (if char_at s \<noteq> ch_dollar then False
      else
        let checksum = xor_sum (takeWhile summed (tl s)); rest = dropWhile summed (tl s) in
        if char_at rest = ch_star
        then
          let upper = hex2int (char_at (tl rest)) in
          if upper = - 1 then False
          else
            let lower = hex2int (char_at (tl (tl rest))) in
            if lower = - 1 then False
            else if uint checksum \<noteq> upper * 16 + lower then False
            else only_line_ends (drop 3 rest)
        else if strict then False
        else only_line_ends rest)"

section \<open>The scanner\<close>

record minmea_float =
  mf_value :: int
  mf_scale :: int

record minmea_date =
  md_day :: int
  md_month :: int
  md_year :: int

record minmea_time =
  mt_hours :: int
  mt_minutes :: int
  mt_seconds :: int
  mt_microseconds :: int

datatype scan_value =
    ScanChar u8
  | ScanDirection int
  | ScanFloat minmea_float
  | ScanInt int
  | ScanText bytes
  | ScanType bytes
  | ScanDate minmea_date
  | ScanTime minmea_time

definition int32_max :: int where "int32_max = 2 ^ 31 - 1"

text \<open>The loop of the \<open>f\<close> conversion: sign, value and scale so far.\<close>

fun float_loop :: "bytes \<Rightarrow> int \<Rightarrow> int \<Rightarrow> int \<Rightarrow> (int \<times> int \<times> int) option" where
  "float_loop [] sign val scale = Some (sign, val, scale)"
| "float_loop (c # cs) sign val scale =
     (if \<not> minmea_isfield c then Some (sign, val, scale)
      else if c = ch_plus \<and> sign = 0 \<and> val = - 1 then float_loop cs 1 val scale
      else if c = ch_minus \<and> sign = 0 \<and> val = - 1 then float_loop cs (- 1) val scale
      else if isdigit c
      then
        let digit = digit_value c; v = (if val = - 1 then 0 else val) in
        if v > (int32_max - digit) div 10
        then (if scale \<noteq> 0 then Some (sign, v, scale) else None)
        else float_loop cs sign (10 * v + digit) (if scale \<noteq> 0 then scale * 10 else scale)
      else if c = ch_dot \<and> scale = 0 then float_loop cs sign val 1
      else if c = ch_space
      then (if sign \<noteq> 0 \<or> val \<noteq> - 1 \<or> scale \<noteq> 0 then None else float_loop cs sign val scale)
      else None)"

definition scan_float :: "bytes option \<Rightarrow> minmea_float option" where
  "scan_float field =
     (case float_loop (case field of None \<Rightarrow> [] | Some f \<Rightarrow> f) 0 (- 1) 0 of
        None \<Rightarrow> None
      | Some (sign, val, scale) \<Rightarrow>
          if (sign \<noteq> 0 \<or> scale \<noteq> 0) \<and> val = - 1 then None
          else
            let (v, s) = (if val = - 1 then (0, 0) else if scale = 0 then (val, 1) else (val, scale))
            in Some \<lparr>mf_value = (if sign \<noteq> 0 then v * sign else v), mf_scale = s\<rparr>)"

text \<open>\<open>strtol\<close> in base ten: the value and where it stopped.\<close>

definition decimal :: "bytes \<Rightarrow> int" where
  "decimal ds = foldl (\<lambda>v c. 10 * v + digit_value c) 0 ds"

definition strtol10 :: "bytes \<Rightarrow> int \<times> bytes" where
  "strtol10 s =
     (let s1 = dropWhile isspace s;
          negative = (char_at s1 = ch_minus);
          s2 = (if char_at s1 = ch_minus \<or> char_at s1 = ch_plus then tl s1 else s1);
          ds = takeWhile isdigit s2;
          v = (if negative then - decimal ds else decimal ds)
      in if ds = [] then (0, s)
         else (max (- int32_max - 1) (min int32_max v), dropWhile isdigit s2))"

definition six_digits :: "bytes \<Rightarrow> bool" where
  "six_digits f \<longleftrightarrow> length (takeWhile isdigit f) \<ge> 6"

definition two_digits :: "bytes \<Rightarrow> nat \<Rightarrow> int" where
  "two_digits f i = decimal [f ! i, f ! (i + 1)]"

text \<open>The fraction of a second: at most six digits, made microseconds.\<close>

fun micro_loop :: "bytes \<Rightarrow> int \<Rightarrow> int \<Rightarrow> int" where
  "micro_loop [] val scale = val * scale"
| "micro_loop (c # cs) val scale =
     (if isdigit c \<and> scale > 1 then micro_loop cs (val * 10 + digit_value c) (scale div 10) else val * scale)"

fun scan_field :: "char \<Rightarrow> bytes option \<Rightarrow> scan_value list option" where
  "scan_field t field =
     (let at = (case field of None \<Rightarrow> 0 | Some f \<Rightarrow> char_at f);
          here = (case field of None \<Rightarrow> [] | Some f \<Rightarrow> f);
          there = (field \<noteq> None \<and> minmea_isfield at) in
      if t = CHR ''c'' then Some [ScanChar (if there then at else 0)]
      else if t = CHR ''d''
      then (if \<not> there then Some [ScanDirection 0]
            else if at = 0x4E \<or> at = 0x45 then Some [ScanDirection 1]
            else if at = 0x53 \<or> at = 0x57 then Some [ScanDirection (- 1)]
            else None)
      else if t = CHR ''f'' then map_option (\<lambda>f. [ScanFloat f]) (scan_float field)
      else if t = CHR ''i''
      then (if field = None then Some [ScanInt 0]
            else case strtol10 here of (v, end_at) \<Rightarrow> if minmea_isfield (char_at end_at) then None else Some [ScanInt v])
      else if t = CHR ''s'' then Some [ScanText (takeWhile minmea_isfield here)]
      else if t = CHR ''t''
      then (if at \<noteq> ch_dollar \<or> length (takeWhile minmea_isfield (take 5 (tl here))) < 5 then None
            else Some [ScanType (take 5 (tl here))])
      else if t = CHR ''D''
      then (if \<not> there then Some [ScanDate \<lparr>md_day = - 1, md_month = - 1, md_year = - 1\<rparr>]
            else if \<not> six_digits here then None
            else Some [ScanDate \<lparr>md_day = two_digits here 0, md_month = two_digits here 2, md_year = two_digits here 4\<rparr>])
      else if t = CHR ''T''
      then (if \<not> there then Some [ScanTime \<lparr>mt_hours = - 1, mt_minutes = - 1, mt_seconds = - 1, mt_microseconds = - 1\<rparr>]
            else if \<not> six_digits here then None
            else Some [ScanTime \<lparr>mt_hours = two_digits here 0, mt_minutes = two_digits here 2, mt_seconds = two_digits here 4,
                                 mt_microseconds = (if char_at (drop 6 here) = ch_dot then micro_loop (drop 7 here) 0 1000000 else 0)\<rparr>])
      else if t = CHR ''_'' then Some []
      else None)"

text \<open>The rest of the sentence behind the present field, and the field that starts there.\<close>

definition next_field :: "bytes \<Rightarrow> bytes \<times> bytes option" where
  "next_field s =
     (let r = dropWhile minmea_isfield s
      in if char_at r = ch_comma then (tl r, Some (tl r)) else (r, None))"

fun scan_loop :: "string \<Rightarrow> bytes \<Rightarrow> bytes option \<Rightarrow> bool \<Rightarrow> scan_value list option" where
  "scan_loop [] s field optional = Some []"
| "scan_loop (t # fmt) s field optional =
     (if t = CHR '';'' then scan_loop fmt s field True
      else if field = None \<and> \<not> optional then None
      else case scan_field t field of
        None \<Rightarrow> None
      | Some vs \<Rightarrow>
          case next_field s of (s', field') \<Rightarrow>
            map_option (\<lambda>rest. vs @ rest) (scan_loop fmt s' field' optional))"

definition minmea_scan :: "bytes \<Rightarrow> string \<Rightarrow> scan_value list option" where
  "minmea_scan s fmt = scan_loop fmt s (Some s) False"

section \<open>The sentences\<close>

record sentence_rmc =
  rmc_time :: minmea_time
  rmc_valid :: bool
  rmc_latitude :: minmea_float
  rmc_longitude :: minmea_float
  rmc_speed :: minmea_float
  rmc_course :: minmea_float
  rmc_date :: minmea_date
  rmc_variation :: minmea_float

record sentence_gga =
  gga_time :: minmea_time
  gga_latitude :: minmea_float
  gga_longitude :: minmea_float
  gga_fix_quality :: int
  gga_satellites_tracked :: int
  gga_hdop :: minmea_float
  gga_altitude :: minmea_float
  gga_altitude_units :: u8
  gga_height :: minmea_float
  gga_height_units :: u8
  gga_dgps_age :: minmea_float

record sentence_gsa =
  gsa_mode :: u8
  gsa_fix_type :: int
  gsa_sats :: "int list"
  gsa_pdop :: minmea_float
  gsa_hdop :: minmea_float
  gsa_vdop :: minmea_float

definition directed :: "minmea_float \<Rightarrow> int \<Rightarrow> minmea_float" where
  "directed f direction = f\<lparr>mf_value := mf_value f * direction\<rparr>"

definition minmea_parse_rmc :: "bytes \<Rightarrow> sentence_rmc option" where
  "minmea_parse_rmc s =
     (case minmea_scan s ''tTcfdfdffDfd'' of
        Some [ScanType ty, ScanTime tm, ScanChar validity, ScanFloat lat, ScanDirection latd, ScanFloat lon,
              ScanDirection lond, ScanFloat speed, ScanFloat course, ScanDate date, ScanFloat var, ScanDirection vard] \<Rightarrow>
          if drop 2 ty \<noteq> [0x52, 0x4D, 0x43] then None
          else Some \<lparr>rmc_time = tm, rmc_valid = (validity = 0x41), rmc_latitude = directed lat latd,
                     rmc_longitude = directed lon lond, rmc_speed = speed, rmc_course = course, rmc_date = date,
                     rmc_variation = directed var vard\<rparr>
      | _ \<Rightarrow> None)"

definition minmea_parse_gga :: "bytes \<Rightarrow> sentence_gga option" where
  "minmea_parse_gga s =
     (case minmea_scan s ''tTfdfdiiffcfcf_'' of
        Some [ScanType ty, ScanTime tm, ScanFloat lat, ScanDirection latd, ScanFloat lon, ScanDirection lond,
              ScanInt quality, ScanInt sats, ScanFloat hdop, ScanFloat alt, ScanChar altu, ScanFloat height,
              ScanChar heightu, ScanFloat age] \<Rightarrow>
          if drop 2 ty \<noteq> [0x47, 0x47, 0x41] then None
          else Some \<lparr>gga_time = tm, gga_latitude = directed lat latd, gga_longitude = directed lon lond,
                     gga_fix_quality = quality, gga_satellites_tracked = sats, gga_hdop = hdop, gga_altitude = alt,
                     gga_altitude_units = altu, gga_height = height, gga_height_units = heightu, gga_dgps_age = age\<rparr>
      | _ \<Rightarrow> None)"

text \<open>The integers a list of values starts with.\<close>

fun take_ints :: "scan_value list \<Rightarrow> int list \<times> scan_value list" where
  "take_ints (ScanInt i # vs) = (case take_ints vs of (is, rest) \<Rightarrow> (i # is, rest))"
| "take_ints vs = ([], vs)"

definition minmea_parse_gsa :: "bytes \<Rightarrow> sentence_gsa option" where
  "minmea_parse_gsa s =
     (case minmea_scan s ''tciiiiiiiiiiiiifff'' of
        Some (ScanType ty # ScanChar mode # ScanInt fix # vs) \<Rightarrow>
          (case take_ints vs of
             (sats, [ScanFloat pdop, ScanFloat hdop, ScanFloat vdop]) \<Rightarrow>
               if drop 2 ty \<noteq> [0x47, 0x53, 0x41] then None
               else Some \<lparr>gsa_mode = mode, gsa_fix_type = fix, gsa_sats = sats, gsa_pdop = pdop, gsa_hdop = hdop,
                          gsa_vdop = vdop\<rparr>
           | _ \<Rightarrow> None)
      | _ \<Rightarrow> None)"

section \<open>What the checksum is worth\<close>

text \<open>A sentence as a receiver sends it: \<open>$\<close>, the summed bytes, \<open>*\<close> and two digits of their sum.\<close>

definition hex_digit :: "u8 \<Rightarrow> u8" where
  "hex_digit v = (if v < 10 then v + 0x30 else v + 0x37)"

definition nmea_sentence :: "bytes \<Rightarrow> bytes" where
  "nmea_sentence body =
     ch_dollar # body @ [ch_star, hex_digit (drop_bit 4 (xor_sum body)), hex_digit (xor_sum body AND 0x0F)]"

lemma foldl_xor: "foldl (\<lambda>checksum c. checksum XOR c) (k XOR a) s = k XOR foldl (\<lambda>checksum c. checksum XOR c) a s"
  for k a :: u8
  by (induction s arbitrary: a) (simp_all add: xor.assoc)

lemma xor_sum_append: "xor_sum (xs @ ys) = xor_sum xs XOR xor_sum ys"
  using foldl_xor [of "xor_sum xs" 0 ys] by (simp add: xor_sum_def)

lemma xor_sum_one [simp]: "xor_sum [c] = c"
  by (simp add: xor_sum_def)

lemma xor_sum_update:
  assumes "j < length body"
  shows "xor_sum (body[j := d]) = xor_sum body \<longleftrightarrow> d = body ! j"
proof -
  have "body[j := d] = take j body @ [d] @ drop (Suc j) body" using assms by (simp add: upd_conv_take_nth_drop)
  then have new: "xor_sum (body[j := d]) = xor_sum (take j body) XOR (d XOR xor_sum (drop (Suc j) body))"
    by (simp only: xor_sum_append xor_sum_one)
  have "body = take j body @ [body ! j] @ drop (Suc j) body" using assms by (simp add: id_take_nth_drop)
  then have old: "xor_sum body = xor_sum (take j body) XOR (body ! j XOR xor_sum (drop (Suc j) body))"
    by (metis xor_sum_append xor_sum_one)
  show ?thesis unfolding new old by (simp add: xor_left_cancel xor_right_cancel)
qed

lemma uint_nibbles: "uint (drop_bit 4 (x :: u8)) = uint x div 16" "uint (x AND 0x0F) = uint x mod 16"
proof -
  show "uint (drop_bit 4 x) = uint x div 16" by (simp add: drop_bit_eq_div uint_div)
  have "uint (x AND 0x0F) = uint x AND 15" by (simp add: unsigned_and_eq)
  also have "\<dots> = take_bit 4 (uint x)" by (simp add: take_bit_eq_mask mask_eq_exp_minus_1)
  also have "\<dots> = uint x mod 16" by (simp add: take_bit_eq_mod)
  finally show "uint (x AND 0x0F) = uint x mod 16" .
qed

lemma hex2int_hex_digit:
  assumes "uint v < 16"
  shows "hex2int (hex_digit v) = uint v"
proof -
  have u: "uint (v + 0x30) = uint v + 48" "uint (v + 0x37) = uint v + 55"
    using assms unfolding uint_word_ariths by simp_all
  have "v < 10 \<longleftrightarrow> uint v < 10" by (simp add: word_less_def)
  with assms show ?thesis unfolding hex_digit_def hex2int_def by (simp add: word_le_def u)
qed

lemma takeWhile_summed: "\<forall>c\<in>set body. summed c \<Longrightarrow> takeWhile summed (body @ ch_star # rest) = body"
  "\<forall>c\<in>set body. summed c \<Longrightarrow> dropWhile summed (body @ ch_star # rest) = ch_star # rest"
  by (induction body) (auto simp: summed_def)

lemma check_sentence:
  assumes "\<forall>c\<in>set body. summed c" and "uint (u :: u8) < 16" "uint (l :: u8) < 16"
  shows "minmea_check (ch_dollar # body @ [ch_star, hex_digit u, hex_digit l]) strict \<longleftrightarrow>
    uint (xor_sum body) = uint u * 16 + uint l"
proof -
  have "uint u \<noteq> - 1" "uint l \<noteq> - 1" using uint_ge_0 [of u] uint_ge_0 [of l] by linarith+
  then show ?thesis using takeWhile_summed [OF assms(1), of "[hex_digit u, hex_digit l]"] assms(2,3)
    by (simp add: minmea_check_def Let_def hex2int_hex_digit only_line_ends_def)
qed

lemma check_accepts: "\<forall>c\<in>set body. summed c \<Longrightarrow> minmea_check (nmea_sentence body) strict"
proof -
  assume "\<forall>c\<in>set body. summed c"
  moreover have "uint (xor_sum body) div 16 < 16" using uint_bounded [of "xor_sum body"] by simp
  ultimately show ?thesis unfolding nmea_sentence_def by (subst check_sentence) (simp_all add: uint_nibbles)
qed

text \<open>
  A sentence with its own checksum passes, and a sentence in which one summed byte was replaced
  by another byte that is summed passes exactly if nothing changed: one damaged byte is always
  found.
\<close>

theorem checksum_finds_damage:
  assumes "\<forall>c\<in>set body. summed c" and "j < length body" and "summed d"
  shows "minmea_check (nmea_sentence body) strict \<and>
    (minmea_check ((nmea_sentence body)[Suc j := d]) strict \<longleftrightarrow> d = body ! j)"
proof -
  let ?u = "drop_bit 4 (xor_sum body)" and ?l = "xor_sum body AND 0x0F"
  have "(nmea_sentence body)[Suc j := d] = ch_dollar # body[j := d] @ [ch_star, hex_digit ?u, hex_digit ?l]"
    using assms(2) by (simp add: nmea_sentence_def list_update_append1)
  moreover have "\<forall>c\<in>set (body[j := d]). summed c" using assms(1,3) set_update_subset_insert [of body j d] by auto
  moreover have "uint ?u < 16" "uint ?l < 16" using uint_bounded [of "xor_sum body"] by (simp_all add: uint_nibbles)
  ultimately have "minmea_check ((nmea_sentence body)[Suc j := d]) strict \<longleftrightarrow>
      uint (xor_sum (body[j := d])) = uint ?u * 16 + uint ?l"
    by (simp only: check_sentence)
  also have "\<dots> \<longleftrightarrow> xor_sum (body[j := d]) = xor_sum body" by (simp add: uint_nibbles word_uint_eq_iff)
  finally show ?thesis using check_accepts [OF assms(1)] xor_sum_update [OF assms(2)] by simp
qed

lemma checksum_finds_damage_witness:
  "minmea_check (nmea_sentence [0x47, 0x50, 0x52]) True \<and>
   \<not> minmea_check ((nmea_sentence [0x47, 0x50, 0x52])[Suc 1 := 0x51]) True"
proof -
  have "\<forall>c\<in>set [0x47, 0x50, 0x52]. summed c" "summed 0x51" by (simp_all add: summed_def isprint_def)
  from checksum_finds_damage [OF this(1) _ this(2), of 1 True] show ?thesis by simp
qed

end
