(* ===== verification/Nmea_Fields.thy ===== *)
theory Nmea_Fields
  imports Minmea Position
begin

text \<open>
  How the receiver reads the fields of a sentence, the first half of
  \<open>gnss/src/nmea_receiver.cpp\<close>: coordinates, speed, dilutions, altitudes, the guard on fractions and
  the kind of a sentence. \<open>std::int64_t\<close> intermediates are integers, which the bounds proved here
  keep in their type.
\<close>

section \<open>Fields\<close>

definition present :: "minmea_float \<Rightarrow> bool" where
  "present f \<longleftrightarrow> mf_scale f > 0"

definition degrees_e7 :: "minmea_float \<Rightarrow> u8 \<Rightarrow> u8 \<Rightarrow> u8 \<Rightarrow> int \<Rightarrow> int option" where
  "degrees_e7 f letter positive negative limit =
     (if \<not> present f then None
      else if letter \<noteq> positive \<and> letter \<noteq> negative then None
      else if mf_value f < 0 then None
      else
        let degrees = mf_value f sdiv mf_scale f sdiv 100;
            minutes = mf_value f - degrees * 100 * mf_scale f
        in if minutes \<ge> 60 * mf_scale f then None
           else
             let magnitude = degrees * 10000000 + (minutes * 10000000) sdiv (60 * mf_scale f)
             in if magnitude > limit then None
                else Some (if letter = negative then - magnitude else magnitude))"

definition coordinates :: "bytes \<Rightarrow> bool \<Rightarrow> geo_position option" where
  "coordinates sentence rmc =
     (case minmea_scan sentence (if rmc then ''t__fcfc'' else ''t_fcfc'') of
        Some [ScanType type, ScanFloat latitude, ScanChar ns, ScanFloat longitude, ScanChar ew] \<Rightarrow>
          (case degrees_e7 latitude ns 0x4E 0x53 kLatitudeMaxE7 of
             None \<Rightarrow> None
           | Some lat \<Rightarrow>
               map_option (\<lambda>lon. \<lparr>latitude_e7 = lat, longitude_e7 = lon\<rparr>)
                 (degrees_e7 longitude ew 0x45 0x57 kLongitudeMaxE7))
      | _ \<Rightarrow> None)"

definition nmea_speed_mm_s :: "minmea_float \<Rightarrow> u32 option" where
  "nmea_speed_mm_s f =
     (if \<not> present f \<or> mf_value f < 0 then None
      else
        let mm_s = (mf_value f * 1852000) sdiv (mf_scale f * 3600)
        in if mm_s > 0xFFFFFFFF then None else Some (word_of_int mm_s))"

definition centi :: "minmea_float \<Rightarrow> int \<Rightarrow> u16 option" where
  "centi f maximum =
     (if \<not> present f \<or> mf_value f < 0 then None
      else
        let val = (mf_value f * 100) sdiv mf_scale f
        in if val > maximum then None else Some (word_of_int val))"

definition millimetres :: "minmea_float \<Rightarrow> int option" where
  "millimetres f =
     (if \<not> present f then None
      else
        let mm = (mf_value f * 1000) sdiv mf_scale f
        in if mm < - 2147483648 \<or> mm > 2147483647 then None else Some mm)"

text \<open>The digits seen since a point, or none: the state of the loop of \<open>fractions_fit\<close>.\<close>

fun fractions_loop :: "bytes \<Rightarrow> nat option \<Rightarrow> bool" where
  "fractions_loop [] digits = True"
| "fractions_loop (c # cs) digits =
     (if c = ch_dot then fractions_loop cs (Some 0)
      else if digits \<noteq> None \<and> isdigit c
      then (if Suc (the digits) > 9 then False else fractions_loop cs (Some (Suc (the digits))))
      else fractions_loop cs None)"

definition fractions_fit :: "bytes \<Rightarrow> bool" where
  "fractions_fit line = fractions_loop line None"

datatype sentence = OtherSentence | RmcSentence | GgaSentence | GsaSentence

definition sentence_kind :: "bytes \<Rightarrow> sentence" where
  "sentence_kind line =
     (if length line < 7 then OtherSentence
      else if line ! 0 \<noteq> ch_dollar then OtherSentence
      else if line ! 1 = 0x50 then OtherSentence
      else if \<not> (\<forall>i\<in>set [1..<6]. minmea_isfield (line ! i)) then OtherSentence
      else if line ! 6 \<noteq> ch_comma \<and> line ! 6 \<noteq> ch_star then OtherSentence
      else if take 3 (drop 3 line) = [0x52, 0x4D, 0x43] then RmcSentence
      else if take 3 (drop 3 line) = [0x47, 0x47, 0x41] then GgaSentence
      else if take 3 (drop 3 line) = [0x47, 0x53, 0x41] then GsaSentence
      else OtherSentence)"

section \<open>What the fields are worth\<close>

lemma ddmm:
  fixes val scale :: int
  assumes "0 < scale" and "0 \<le> val"
  shows "val sdiv scale sdiv 100 = val div (100 * scale)"
    and "val - val div (100 * scale) * 100 * scale = val mod (100 * scale)"
proof -
  have "0 \<le> val div scale" using assms by (simp add: pos_imp_zdiv_nonneg_iff)
  then have "val sdiv scale sdiv 100 = val div scale div 100" using assms by (simp add: sdiv_pos)
  also have "\<dots> = val div (100 * scale)" by (simp add: zdiv_zmult2_eq mult.commute)
  finally show "val sdiv scale sdiv 100 = val div (100 * scale)" .
  show "val - val div (100 * scale) * 100 * scale = val mod (100 * scale)"
    by (simp add: minus_div_mult_eq_mod [symmetric] algebra_simps)
qed

text \<open>
  The degrees of a \<open>ddmm.mmmm\<close> field in ten-millionths, cut toward zero: with \<open>D\<close> whole degrees and
  \<open>M\<close> the minutes times the scale, the answer is \<open>D + M / (60 scale)\<close> to less than one unit.
\<close>

lemma degrees_e7_value:
  assumes "degrees_e7 f letter positive negative limit = Some v"
  defines "D \<equiv> mf_value f div (100 * mf_scale f)" and "M \<equiv> mf_value f mod (100 * mf_scale f)"
  shows "0 < mf_scale f \<and> 0 \<le> mf_value f \<and> M < 60 * mf_scale f \<and>
    \<bar>v\<bar> = D * 10000000 + M * 10000000 div (60 * mf_scale f) \<and> \<bar>v\<bar> \<le> limit \<and>
    (if letter = negative then v \<le> 0 else 0 \<le> v \<and> letter = positive)"
proof -
  note a = assms(1)
  have c: "present f" "letter = positive \<or> letter = negative" "0 \<le> mf_value f"
    using a by (auto simp: degrees_e7_def Let_def split: if_splits)
  then have sc: "0 < mf_scale f" by (simp add: present_def)
  have M0: "0 \<le> M" using sc by (simp add: M_def)
  have D0: "0 \<le> D" using sc c(3) by (simp add: D_def pos_imp_zdiv_nonneg_iff)
  have q: "M * 10000000 sdiv (60 * mf_scale f) = M * 10000000 div (60 * mf_scale f)"
    using M0 sc by (simp add: sdiv_pos)
  have q0: "0 \<le> M * 10000000 div (60 * mf_scale f)" using M0 sc by (simp add: pos_imp_zdiv_nonneg_iff)
  have d: "mf_value f sdiv mf_scale f sdiv 100 = D" using ddmm(1) [OF sc c(3)] by (simp add: D_def)
  have m: "mf_value f - D * 100 * mf_scale f = M" using ddmm(2) [OF sc c(3)] by (simp add: D_def M_def)
  have b: "M < 60 * mf_scale f \<and> D * 10000000 + M * 10000000 div (60 * mf_scale f) \<le> limit \<and>
    v = (if letter = negative then - (D * 10000000 + M * 10000000 div (60 * mf_scale f))
         else D * 10000000 + M * 10000000 div (60 * mf_scale f))"
    using a c(1,2) sc c(3) by (auto simp: degrees_e7_def Let_def d m q split: if_splits)
  show ?thesis using b q0 D0 c sc by (auto split: if_splits)
qed

lemma coordinates_in_range: "coordinates line rmc = Some p \<Longrightarrow> in_range p"
  by (auto simp: coordinates_def in_range_def split: option.splits list.splits scan_value.splits
      dest!: degrees_e7_value)

lemma centi_le:
  assumes "centi f maximum = Some v" and "maximum \<le> 65535"
  shows "int (unat v) \<le> maximum"
proof -
  let ?x = "(mf_value f * 100) sdiv mf_scale f"
  have c: "0 < mf_scale f" "0 \<le> mf_value f" "?x \<le> maximum" "v = word_of_int ?x"
    using assms(1) by (auto simp: centi_def present_def Let_def split: if_splits)
  then have "0 \<le> ?x" by (simp add: sdiv_pos pos_imp_zdiv_nonneg_iff)
  with c(3,4) assms(2) have "uint v = ?x" by (simp add: uint_word_of_int)
  with c(3) show ?thesis by simp
qed

lemma millimetres_range: "millimetres f = Some v \<Longrightarrow> - 2147483648 \<le> v \<and> v \<le> 2147483647"
  by (auto simp: millimetres_def Let_def split: if_splits)

section \<open>How large a fraction may be\<close>

text \<open>A sign right behind a decimal point, which the guard on fractions does not expect.\<close>

fun signed_fraction :: "bytes \<Rightarrow> bool" where
  "signed_fraction [] = False"
| "signed_fraction (c # cs) = (c = ch_dot \<and> (char_at cs = ch_plus \<or> char_at cs = ch_minus) \<or> signed_fraction cs)"

definition fits :: "bytes \<Rightarrow> bool" where
  "fits s \<longleftrightarrow> (\<exists>d. fractions_loop s d) \<and> \<not> signed_fraction s"

lemma fits_tl: "fits s \<Longrightarrow> fits (tl s)"
proof (cases s)
  case (Cons c cs)
  assume "fits s"
  then obtain d where "fractions_loop (c # cs) d" "\<not> signed_fraction (c # cs)" by (auto simp: fits_def Cons)
  then show ?thesis by (auto simp: fits_def Cons split: if_splits)
qed simp

lemma fits_dropWhile: "fits s \<Longrightarrow> fits (dropWhile P s)"
proof (induction s)
  case (Cons c cs)
  then show ?case using fits_tl [of "c # cs"] by simp
qed simp

text \<open>Where the loop of the scanner may stand, with the guard's count of digits at the same place.\<close>

definition scan_state :: "bytes \<Rightarrow> int \<Rightarrow> int \<Rightarrow> nat option \<Rightarrow> bool" where
  "scan_state cs val scale digits \<longleftrightarrow> - 1 \<le> val \<and> val \<le> int32_max \<and>
     (scale = 0 \<or> (\<exists>k\<le>9. digits = Some k \<and> scale = 10 ^ k \<and>
        (val = - 1 \<longrightarrow> k = 0 \<and> char_at cs \<noteq> ch_plus \<and> char_at cs \<noteq> ch_minus)))"

lemma scan_state_scale: "scan_state cs val scale digits \<Longrightarrow> 0 \<le> scale \<and> scale \<le> 10 ^ 9"
proof -
  assume s: "scan_state cs val scale digits"
  show ?thesis
  proof (cases "scale = 0")
    case False
    with s obtain k :: nat where "k \<le> 9" "scale = 10 ^ k" by (auto simp: scan_state_def)
    then show ?thesis using power_increasing [of k 9 "10 :: int"] by simp
  qed simp
qed

lemma scan_state_val: "scan_state cs val scale digits \<Longrightarrow> - 1 \<le> val \<and> val \<le> int32_max"
  by (simp add: scan_state_def)

lemma digit_range: "isdigit c \<Longrightarrow> 0 \<le> digit_value c \<and> digit_value c \<le> 9"
  by (auto simp: isdigit_def digit_value_def word_le_def)

lemma float_loop_range:
  assumes "float_loop cs sign val scale = Some (sg, v, sc)" and "fractions_loop cs digits"
    and "\<not> signed_fraction cs" and "scan_state cs val scale digits" and "sign \<in> {- 1, 0, 1}"
  shows "sg \<in> {- 1, 0, 1} \<and> - 1 \<le> v \<and> v \<le> int32_max \<and> 0 \<le> sc \<and> sc \<le> 10 ^ 9"
  using assms
proof (induction cs sign val scale arbitrary: digits rule: float_loop.induct)
  case (1 sign val scale)
  then show ?case using scan_state_scale [OF "1.prems"(4)] scan_state_val [OF "1.prems"(4)] by auto
next
  case (2 c cs sign val scale)
  note st = "2.prems"(4)
  have sf: "\<not> signed_fraction cs" "c = ch_dot \<Longrightarrow> char_at cs \<noteq> ch_plus \<and> char_at cs \<noteq> ch_minus"
    using "2.prems"(3) by auto
  have s0: "scale = 0 \<Longrightarrow> scan_state cs val scale d" for d using st by (simp add: scan_state_def)
  note sc = scan_state_scale [OF st]
  show ?case
  proof (cases "minmea_isfield c")
    case False
    then show ?thesis using "2.prems"(1,5) sc scan_state_val [OF st] by auto
  next
    case field: True
    have signed: "scale = 0" if "c = ch_plus \<or> c = ch_minus" "val = - 1"
      using st that by (auto simp: scan_state_def)
    have other: "fractions_loop cs None" if "c = ch_plus \<or> c = ch_minus \<or> c = ch_space"
      using "2.prems"(2) that by (auto simp: isdigit_def split: if_splits)
    show ?thesis
    proof (cases "(c = ch_plus \<or> c = ch_minus) \<and> sign = 0 \<and> val = - 1")
      case True
      with signed have z: "scale = 0" by blast
      from True show ?thesis
      proof (elim conjE disjE)
        assume "c = ch_plus" "sign = 0" "val = - 1"
        then show ?thesis using "2.prems"(1) field other
          by (intro "2.IH"(1) [where digits = None, OF _ _ _ _ sf(1) s0 [OF z]]) simp_all
      next
        assume "c = ch_minus" "sign = 0" "val = - 1"
        then show ?thesis using "2.prems"(1) field other
          by (intro "2.IH"(2) [where digits = None, OF _ _ _ _ _ sf(1) s0 [OF z]]) simp_all
      qed
    next
      case nosign: False
      show ?thesis
      proof (cases "isdigit c")
        case True
        define v0 where "v0 = (if val = - 1 then 0 else val)"
        have v0: "0 \<le> v0" "v0 \<le> int32_max" using st by (auto simp: v0_def scan_state_def int32_max_def)
        note d = digit_range [OF True]
        have nd: "c \<noteq> ch_dot" "c \<noteq> ch_plus" "c \<noteq> ch_minus" using True by (auto simp: isdigit_def)
        show ?thesis
        proof (cases "v0 > (int32_max - digit_value c) div 10")
          case True
          then show ?thesis using "2.prems"(1,5) \<open>isdigit c\<close> field nd v0 sc
            by (auto simp: Let_def v0_def [symmetric] split: if_splits)
        next
          case False
          then have v1: "10 * v0 + digit_value c \<le> int32_max" by linarith
          obtain d' where d': "fractions_loop cs d'"
            "scan_state cs (10 * v0 + digit_value c) (if scale \<noteq> 0 then scale * 10 else scale) d'"
          proof (cases "scale = 0")
            case z: True
            have "\<exists>d'. fractions_loop cs d'" using "2.prems"(2) nd by (auto split: if_splits)
            then show ?thesis using that v0 v1 d z by (auto simp: scan_state_def)
          next
            case nz: False
            then obtain k where k: "k \<le> 9" "digits = Some k" "scale = 10 ^ k" using st by (auto simp: scan_state_def)
            then have "fractions_loop cs (Some (Suc k))" "Suc k \<le> 9"
              using "2.prems"(2) nd \<open>isdigit c\<close> by (auto split: if_splits)
            then show ?thesis using that [of "Some (Suc k)"] k v0 v1 d by (auto simp: scan_state_def)
          qed
          show ?thesis
            using "2.prems"(1,5) False \<open>isdigit c\<close> field nd
            by (intro "2.IH"(3) [OF _ _ _ _ refl v0_def _ _ d'(1) sf(1) d'(2)]) (simp_all add: Let_def v0_def)
        qed
      next
        case nodigit: False
        show ?thesis
        proof (cases "c = ch_dot \<and> scale = 0")
          case True
          then have "scan_state cs val 1 (Some 0)" "fractions_loop cs (Some 0)"
            using st sf(2) "2.prems"(2) by (auto simp: scan_state_def intro: exI [of _ 0])
          then show ?thesis using "2.prems"(1,5) True nodigit field
            by (intro "2.IH"(4) [where digits = "Some 0", OF _ _ _ _ _ _ _ sf(1)]) simp_all
        next
          case False
          have step: "c = ch_space \<and> scale = 0 \<and> sign = 0 \<and> val = - 1 \<and> float_loop cs sign val scale = Some (sg, v, sc)"
            using "2.prems"(1) nodigit nosign field False by (auto split: if_splits)
          then have "scan_state cs val scale None" using s0 by blast
          moreover from step have "c = ch_space" "scale = 0" "sign = 0" "val = - 1"
            "float_loop cs sign val scale = Some (sg, v, sc)" by blast+
          ultimately show ?thesis using nodigit nosign field False "2.prems"(5) other
            by (intro "2.IH"(5) [where digits = None, OF _ _ _ _ _ _ _ _ _ sf(1)]) simp_all
        qed
      qed
    qed
  qed
qed

definition float_bounded :: "minmea_float \<Rightarrow> bool" where
  "float_bounded f \<longleftrightarrow> \<bar>mf_value f\<bar> \<le> int32_max \<and> 0 \<le> mf_scale f \<and> mf_scale f \<le> 10 ^ 9"

lemma scan_float_bounded:
  assumes "scan_float field = Some f" and "\<And>s. field = Some s \<Longrightarrow> fits s"
  shows "float_bounded f"
proof (cases field)
  case None
  with assms(1) show ?thesis by (auto simp: scan_float_def float_bounded_def int32_max_def)
next
  case (Some s)
  with assms(2) obtain d where d: "fractions_loop s d" "\<not> signed_fraction s" by (auto simp: fits_def)
  from assms(1) Some obtain sg v sc where l: "float_loop s 0 (- 1) 0 = Some (sg, v, sc)"
    by (auto simp: scan_float_def split: option.splits)
  have "scan_state s (- 1) 0 d" by (simp add: scan_state_def int32_max_def)
  from float_loop_range [OF l d this] have r: "sg \<in> {- 1, 0, 1}" "- 1 \<le> v" "v \<le> int32_max" "0 \<le> sc" "sc \<le> 10 ^ 9"
    by auto
  have "\<bar>v * sg\<bar> = (if sg = 0 then 0 else \<bar>v\<bar>)" using r(1) by (auto simp: abs_mult)
  moreover have "(1 :: int) \<le> int32_max" by (simp add: int32_max_def)
  ultimately show ?thesis using assms(1) r Some by (auto simp: scan_float_def l float_bounded_def split: if_splits)
qed

lemma scan_field_bounded:
  assumes "scan_field t field = Some vs" and "\<And>s. field = Some s \<Longrightarrow> fits s" and "ScanFloat f \<in> set vs"
  shows "float_bounded f"
proof (cases "t = CHR ''f''")
  case True
  with assms show ?thesis by (auto simp: Let_def intro: scan_float_bounded)
next
  case False
  with assms(1,3) show ?thesis by (auto simp: Let_def split: if_splits prod.splits option.splits)
qed

lemma next_field_fits: "fits s \<Longrightarrow> next_field s = (s', field) \<Longrightarrow> fits s' \<and> (\<forall>f. field = Some f \<longrightarrow> fits f)"
  by (auto simp: next_field_def Let_def fits_dropWhile fits_tl split: if_splits)

lemma scan_loop_bounded:
  assumes "scan_loop fmt s field opt = Some vs" and "fits s" and "\<And>x. field = Some x \<Longrightarrow> fits x"
    and "ScanFloat f \<in> set vs"
  shows "float_bounded f"
  using assms
proof (induction fmt s field opt arbitrary: vs rule: scan_loop.induct)
  case (2 t fmt s field opt)
  show ?case
  proof (cases "t = CHR '';''")
    case True
    with 2 show ?thesis by simp
  next
    case False
    obtain s' field' where n: "next_field s = (s', field')" by fastforce
    from "2.prems"(1) False n obtain vs1 vs2 where vs: "scan_field t field = Some vs1"
      "scan_loop fmt s' field' opt = Some vs2" "vs = vs1 @ vs2" "\<not> (field = None \<and> \<not> opt)"
      by (auto simp del: scan_field.simps split: if_splits option.splits)
    from next_field_fits [OF "2.prems"(2) n] have "fits s'" "\<And>x. field' = Some x \<Longrightarrow> fits x" by auto
    with "2.IH"(2) [OF False vs(4,1) n [symmetric] vs(2)] scan_field_bounded [OF vs(1) "2.prems"(3)] "2.prems"(4) vs(3)
    show ?thesis by auto
  qed
qed simp

lemma minmea_scan_bounded:
  "minmea_scan line fmt = Some vs \<Longrightarrow> fractions_fit line \<Longrightarrow> \<not> signed_fraction line \<Longrightarrow> ScanFloat f \<in> set vs \<Longrightarrow>
    float_bounded f"
  unfolding minmea_scan_def fractions_fit_def by (rule scan_loop_bounded) (auto simp: fits_def)

text \<open>
  The guard does not see a sign behind the point, and the scanner takes one there: ten digits after
  it make the scale ten thousand million, which no \<open>int_least32_t\<close> holds.
\<close>

lemma guard_misses_sign:
  defines "field \<equiv> ch_dot # ch_plus # replicate 10 0x30"
  shows "fractions_fit field \<and> map_option mf_scale (scan_float (Some field)) = Some (10 ^ 10)"
  unfolding field_def by code_simp

text \<open>
  C39. A coordinate the receiver reads from a guarded sentence is the field's own degrees and minutes,
  cut to the ten-millionth of a degree below it and never off by a whole one, inside its limit and
  with the sign of its letter; and the largest product on the way fits 64 bits. (Guarded means the
  fractions fit and no sign stands behind a point; see \<open>guard_misses_sign\<close>.)
\<close>

theorem coordinate_is_exact:
  assumes "minmea_scan line fmt = Some vs" and "fractions_fit line" and "\<not> signed_fraction line"
    and "ScanFloat f \<in> set vs" and "degrees_e7 f letter positive negative limit = Some v"
  defines "D \<equiv> mf_value f div (100 * mf_scale f)" and "M \<equiv> mf_value f mod (100 * mf_scale f)"
  shows "\<bar>v\<bar> * (60 * mf_scale f) \<le> (60 * mf_scale f * D + M) * 10000000 \<and>
    (60 * mf_scale f * D + M) * 10000000 < (\<bar>v\<bar> + 1) * (60 * mf_scale f) \<and>
    \<bar>v\<bar> \<le> limit \<and> (if letter = negative then v \<le> 0 else 0 \<le> v \<and> letter = positive) \<and>
    M * 10000000 < 2 ^ 63 \<and> 60 * mf_scale f < 2 ^ 63 \<and> M < 60 * mf_scale f"
proof -
  have b: "float_bounded f" using assms(1-4) by (rule minmea_scan_bounded)
  have v: "0 < mf_scale f" "M < 60 * mf_scale f" "\<bar>v\<bar> = D * 10000000 + M * 10000000 div (60 * mf_scale f)"
    "\<bar>v\<bar> \<le> limit" "if letter = negative then v \<le> 0 else 0 \<le> v \<and> letter = positive"
    using degrees_e7_value [OF assms(5)] unfolding D_def M_def by blast+
  define N where "N = 60 * mf_scale f"
  have N: "0 < N" "N \<le> 60 * 10 ^ 9" using v(1) b by (simp_all add: N_def float_bounded_def)
  define q where "q = M * 10000000 div N"
  define r where "r = M * 10000000 mod N"
  have qr: "M * 10000000 = q * N + r" "0 \<le> r" "r < N" using N by (simp_all add: q_def r_def)
  have w: "\<bar>v\<bar> = D * 10000000 + q" using v(3) by (simp add: q_def N_def)
  have "(N * D + M) * 10000000 = \<bar>v\<bar> * N + r" unfolding w using qr(1) by (simp add: algebra_simps)
  then have "\<bar>v\<bar> * N \<le> (N * D + M) * 10000000 \<and> (N * D + M) * 10000000 < (\<bar>v\<bar> + 1) * N"
    using qr(2,3) by (simp add: algebra_simps)
  moreover have "M * 10000000 < 2 ^ 63 \<and> N < 2 ^ 63" using v(2) N by (simp add: N_def)
  ultimately show ?thesis using v(2,4,5) by (simp add: N_def)
qed

text \<open>5545.0600,N: fifty-five degrees and 45.06 minutes.\<close>

lemma coordinate_is_exact_witness:
  "let line = map (\<lambda>c. of_nat (of_char c)) ''$GPRMC,,A,5545.0600,N,03737.0200,E'' :: bytes;
       f = \<lparr>mf_value = 55450600, mf_scale = 10000\<rparr>; v = 557510000
   in degrees_e7 f 0x4E 0x4E 0x53 kLatitudeMaxE7 = Some v \<and>
     \<bar>v\<bar> * (60 * mf_scale f) \<le> (60 * mf_scale f * (mf_value f div (100 * mf_scale f)) + mf_value f mod (100 * mf_scale f)) * 10000000"
proof -
  let ?line = "map (\<lambda>c. of_nat (of_char c)) ''$GPRMC,,A,5545.0600,N,03737.0200,E'' :: bytes"
  let ?f = "\<lparr>mf_value = 55450600, mf_scale = 10000\<rparr>"
  have "minmea_scan ?line ''t__fcfc'' = Some [ScanType [0x47, 0x50, 0x52, 0x4D, 0x43], ScanFloat ?f, ScanChar 0x4E,
      ScanFloat \<lparr>mf_value = 37370200, mf_scale = 10000\<rparr>, ScanChar 0x45]" by code_simp
  moreover have "fractions_fit ?line" "\<not> signed_fraction ?line" by code_simp+
  moreover have d: "degrees_e7 ?f 0x4E 0x4E 0x53 kLatitudeMaxE7 = Some 557510000" by code_simp
  ultimately show ?thesis using coordinate_is_exact [of ?line "''t__fcfc''" _ ?f, OF _ _ _ _ d] by simp
qed

end
