(* ===== verification/Location_Service.thy ===== *)
theory Location_Service
  imports Time_Service Trust
begin

text \<open>
  The position the screens read: \<open>core/include/attadipa/core/location_service.h\<close>,
  \<open>core/src/location_service.cpp\<close> and the key of \<open>core/include/attadipa/core/mesh_service.h\<close>. A
  provider answers what it last heard; the service holds one observation and dates a coordinate
  that is merely repeated from its first hearing. The provider is the locale
  \<open>position_provider\<close>, interpreted on the NMEA receiver.
\<close>

section \<open>What a provider answers\<close>

record mesh_peer_id =
  public_key :: bytes

definition new_mesh_peer_id :: mesh_peer_id where
  "new_mesh_peer_id = \<lparr>public_key = replicate 32 0\<rparr>"

datatype receiver_presence = PresenceUnknown | NotDetected | PoweredOff | Running

record position_sample =
  ps_observation :: gnss_observation
  ps_origin :: mesh_peer_id
  ps_has_origin :: bool
  ps_receiver :: receiver_presence

definition new_position_sample :: position_sample where
  "new_position_sample = \<lparr>ps_observation = new_gnss_observation, ps_origin = new_mesh_peer_id,
     ps_has_origin = False, ps_receiver = PresenceUnknown\<rparr>"

fun receiver_presence_to_string :: "receiver_presence \<Rightarrow> string" where
  "receiver_presence_to_string PresenceUnknown = ''unknown''"
| "receiver_presence_to_string NotDetected = ''not detected''"
| "receiver_presence_to_string PoweredOff = ''off''"
| "receiver_presence_to_string Running = ''running''"

section \<open>The service\<close>

record location_state =
  lst_availability :: availability
  lst_position :: "geo_position timed"
  lst_has_position :: bool
  lst_validity :: position_validity
  lst_source :: position_source
  lst_fix_type :: fix_type
  lst_receiver :: receiver_presence
  lst_origin :: mesh_peer_id
  lst_has_origin :: bool
  lst_trust :: "trust_state option"

definition new_location_state :: location_state where
  "new_location_state = \<lparr>lst_availability = Unprovisioned,
     lst_position = new_timed \<lparr>latitude_e7 = 0, longitude_e7 = 0\<rparr>, lst_has_position = False,
     lst_validity = NoFix, lst_source = SourceUnknown, lst_fix_type = FixUnknown,
     lst_receiver = PresenceUnknown, lst_origin = new_mesh_peer_id, lst_has_origin = False,
     lst_trust = None\<rparr>"

record location_service =
  loc_policy :: validity_policy
  loc_observation :: "gnss_observation option"
  loc_origin :: mesh_peer_id
  loc_has_origin :: bool
  loc_receiver :: receiver_presence
  loc_availability :: availability

definition new_location_service :: "validity_policy \<Rightarrow> location_service" where
  "new_location_service policy = \<lparr>loc_policy = policy, loc_observation = None, loc_origin = new_mesh_peer_id,
     loc_has_origin = False, loc_receiver = PresenceUnknown, loc_availability = Unprovisioned\<rparr>"

definition same_position :: "geo_position \<Rightarrow> geo_position \<Rightarrow> bool" where
  "same_position left right \<longleftrightarrow>
     latitude_e7 left = latitude_e7 right \<and> longitude_e7 left = longitude_e7 right"

text \<open>One poll, with the two answers of the provider.\<close>

definition loc_poll :: "availability \<Rightarrow> position_sample option \<Rightarrow> location_service \<Rightarrow> location_service" where
  "loc_poll av answer s =
     (let s0 = s\<lparr>loc_availability := av\<rparr> in
      case answer of
        None \<Rightarrow> s0\<lparr>loc_receiver := PresenceUnknown\<rparr>
      | Some sample \<Rightarrow>
          let origin_changed = (loc_has_origin s0 \<noteq> ps_has_origin sample \<or>
                (ps_has_origin sample \<and> loc_origin s0 \<noteq> ps_origin sample));
              held = (if origin_changed then None else loc_observation s0);
              observed = (case held of
                  None \<Rightarrow> observed_at (ps_observation sample)
                | Some h \<Rightarrow>
                    (case (go_position h, go_position (ps_observation sample)) of
                       (Some p, Some q) \<Rightarrow>
                         if same_position p q then observed_at h else observed_at (ps_observation sample)
                     | _ \<Rightarrow> observed_at (ps_observation sample)))
          in s0\<lparr>loc_receiver := ps_receiver sample,
                loc_observation := Some ((ps_observation sample)\<lparr>observed_at := observed\<rparr>),
                loc_origin := ps_origin sample, loc_has_origin := ps_has_origin sample\<rparr>)"

definition loc_forget :: "location_service \<Rightarrow> location_service" where
  "loc_forget s = s\<lparr>loc_observation := None, loc_origin := new_mesh_peer_id, loc_has_origin := False,
     loc_receiver := PresenceUnknown\<rparr>"

definition loc_state :: "location_service \<Rightarrow> monotonic \<Rightarrow> location_state" where
  "loc_state s now =
     (let out = new_location_state\<lparr>lst_availability := loc_availability s, lst_receiver := loc_receiver s,
            lst_origin := loc_origin s, lst_has_origin := loc_has_origin s\<rparr>
      in case loc_observation s of
           None \<Rightarrow> out
         | Some ob \<Rightarrow>
             let out1 = out\<lparr>lst_source := go_source ob, lst_fix_type := fix_type ob,
                   lst_validity := classify ob now (loc_policy s)\<rparr>
             in case go_position ob of
                  None \<Rightarrow> out1
                | Some p \<Rightarrow> out1\<lparr>lst_has_position := True,
                    lst_position := \<lparr>tm_value = p, tm_age_at_source_ms = 0,
                      tm_age_at_us_ms = elapsed (observed_at ob) now, tm_validity = ValidityUnknown\<rparr>\<rparr>)"

definition loc_age_at_us :: "location_service \<Rightarrow> monotonic \<Rightarrow> millis option" where
  "loc_age_at_us s now =
     (case loc_observation s of
        None \<Rightarrow> None
      | Some ob \<Rightarrow> if go_position ob = None then None else Some (elapsed (observed_at ob) now))"

definition loc_age_at_source :: "location_service \<Rightarrow> monotonic \<Rightarrow> millis option" where
  "loc_age_at_source s now = None"

section \<open>The engineering line\<close>

text \<open>\<open>%u\<close> and \<open>%07u\<close> of printf.\<close>

definition digit_char :: "nat \<Rightarrow> char" where "digit_char d = char_of (48 + d)"

fun dec_text :: "nat \<Rightarrow> string" where
  "dec_text n = (if n < 10 then [digit_char n] else dec_text (n div 10) @ [digit_char (n mod 10)])"

declare dec_text.simps [simp del]

definition pad_text :: "nat \<Rightarrow> nat \<Rightarrow> string" where
  "pad_text w n = replicate (w - length (dec_text n)) CHR ''0'' @ dec_text n"

text \<open>What \<open>snprintf\<close> leaves in a buffer of \<open>room\<close> bytes, its terminator aside.\<close>

definition printed :: "nat \<Rightarrow> string \<Rightarrow> string" where
  "printed room t = take (room - 1) t"

definition format_e7 :: "int \<Rightarrow> nat \<Rightarrow> string" where
  "format_e7 val room =
     (let negative = val < 0; magnitude = nat \<bar>val\<bar>
      in printed room ((if negative then ''-'' else '''') @ dec_text (magnitude div 10000000) @ ''.'' @
           pad_text 7 (magnitude mod 10000000)))"

definition kOriginPrefixBytes :: nat where "kOriginPrefixBytes = 4"

definition hex_char :: "u8 \<Rightarrow> char" where
  "hex_char nibble = ''0123456789abcdef'' ! unat nibble"

fun origin_digits :: "bytes \<Rightarrow> nat \<Rightarrow> nat \<Rightarrow> nat \<Rightarrow> string" where
  "origin_digits [] i written room = []"
| "origin_digits (b # bs) i written room =
     (if i < kOriginPrefixBytes \<and> written + 2 < room
      then hex_char (drop_bit 4 b AND 0x0F) # hex_char (b AND 0x0F) # origin_digits bs (i + 1) (written + 2) room
      else [])"

definition format_origin :: "mesh_peer_id \<Rightarrow> nat \<Rightarrow> string" where
  "format_origin origin room = origin_digits (public_key origin) 0 0 room"

text \<open>The line as it fits the caller's buffer, and the answer: its full length.\<close>

definition location_line :: "location_state \<Rightarrow> string" where
  "location_line st =
     (let latitude = (if lst_has_position st then format_e7 (latitude_e7 (tm_value (lst_position st))) 16 else ''UNKNOWN'');
          longitude = (if lst_has_position st then format_e7 (longitude_e7 (tm_value (lst_position st))) 16 else ''UNKNOWN'');
          age = (if lst_has_position st
                 then printed 16 (dec_text (unat (tm_age_at_us_ms (lst_position st))) @ ''ms'') else ''UNKNOWN'');
          origin = (if lst_has_origin st then format_origin (lst_origin st) (2 * kOriginPrefixBytes + 1) else ''UNKNOWN'')
      in ''pos '' @ latitude @ '','' @ longitude @ '' src '' @ position_source_to_string (lst_source st) @
         '' fix '' @ fix_type_to_string (lst_fix_type st) @ '' validity '' @
         position_validity_to_string (lst_validity st) @ '' age_us '' @ age @ '' age_src UNKNOWN recv '' @
         receiver_presence_to_string (lst_receiver st) @ '' avail '' @
         availability_to_string (lst_availability st) @ '' trust '' @ stored_trust_to_string (lst_trust st) @
         '' node '' @ origin)"

definition format_location_line :: "location_state \<Rightarrow> string option \<Rightarrow> nat \<Rightarrow> nat \<times> string option" where
  "format_location_line st out room =
     (if out = None \<or> room = 0 then (0, out)
      else (length (location_line st), Some (printed room (location_line st))))"

section \<open>A coordinate is as old as its first hearing\<close>

datatype loc_op = LocPoll availability "position_sample option" | LocForget

fun loc_step :: "loc_op \<Rightarrow> location_service \<Rightarrow> location_service" where
  "loc_step (LocPoll av answer) s = loc_poll av answer s"
| "loc_step LocForget s = loc_forget s"

text \<open>
  The reference: what was heard since the last \<open>forget\<close>, newest first, and when the run of
  samples that repeat the newest one's coordinate under the same origin began.
\<close>

fun heard :: "loc_op list \<Rightarrow> position_sample list \<Rightarrow> position_sample list" where
  "heard [] hs = hs"
| "heard (LocPoll av (Some h) # ops) hs = heard ops (h # hs)"
| "heard (LocPoll av None # ops) hs = heard ops hs"
| "heard (LocForget # ops) hs = heard ops []"

definition peer_of :: "position_sample \<Rightarrow> mesh_peer_id option" where
  "peer_of h = (if ps_has_origin h then Some (ps_origin h) else None)"

definition repeats :: "position_sample \<Rightarrow> position_sample \<Rightarrow> bool" where
  "repeats a b \<longleftrightarrow> peer_of a = peer_of b \<and> go_position (ps_observation a) \<noteq> None \<and>
     go_position (ps_observation a) = go_position (ps_observation b)"

definition first_hearing :: "position_sample \<Rightarrow> position_sample list \<Rightarrow> monotonic" where
  "first_hearing h older = observed_at (ps_observation (last (h # takeWhile (\<lambda>a. repeats a h) older)))"

definition holds :: "location_service \<Rightarrow> position_sample list \<Rightarrow> bool" where
  "holds s hs =
     (case hs of
        [] \<Rightarrow> loc_observation s = None
      | h # older \<Rightarrow>
          loc_observation s = Some ((ps_observation h)\<lparr>observed_at := first_hearing h older\<rparr>) \<and>
          loc_origin s = ps_origin h \<and> loc_has_origin s = ps_has_origin h)"

lemma same_position_eq: "same_position p q \<longleftrightarrow> p = q"
  by (cases p; cases q) (simp add: same_position_def)

lemma repeats_trans: "repeats h k \<Longrightarrow> repeats a k \<longleftrightarrow> repeats a h"
  by (auto simp: repeats_def)

lemma first_hearing_again: "repeats h k \<Longrightarrow> first_hearing k (h # older) = first_hearing h older"
proof -
  assume r: "repeats h k"
  then have "takeWhile (\<lambda>a. repeats a k) older = takeWhile (\<lambda>a. repeats a h) older"
    by (intro takeWhile_cong refl) (rule repeats_trans)
  with r show ?thesis by (simp add: first_hearing_def)
qed

lemma first_hearing_new: "\<not> repeats h k \<Longrightarrow> first_hearing k (h # older) = observed_at (ps_observation k)"
  by (simp add: first_hearing_def)

lemma poll_simps [simp]:
  "loc_origin (loc_poll av (Some k) s) = ps_origin k"
  "loc_has_origin (loc_poll av (Some k) s) = ps_has_origin k"
  "loc_observation (loc_poll av None s) = loc_observation s"
  "loc_origin (loc_poll av None s) = loc_origin s"
  "loc_has_origin (loc_poll av None s) = loc_has_origin s"
  by (simp_all add: loc_poll_def Let_def)

lemma poll_policy [simp]: "loc_policy (loc_poll av answer s) = loc_policy s"
  by (cases answer) (simp_all add: loc_poll_def Let_def)

lemma poll_first:
  assumes "loc_observation s = None"
  shows "loc_observation (loc_poll av (Some k) s) = Some (ps_observation k)"
  using assms by (simp add: loc_poll_def Let_def)

lemma poll_again:
  assumes "loc_observation s = Some ob" and "loc_origin s = ps_origin h" and "loc_has_origin s = ps_has_origin h"
    and "go_position ob = go_position (ps_observation h)"
  shows "loc_observation (loc_poll av (Some k) s) = Some ((ps_observation k)\<lparr>observed_at :=
     (if repeats h k then observed_at ob else observed_at (ps_observation k))\<rparr>)"
proof (cases "peer_of h = peer_of k")
  case True
  then have "\<not> (loc_has_origin s \<noteq> ps_has_origin k \<or> ps_has_origin k \<and> loc_origin s \<noteq> ps_origin k)"
    using assms(2,3) by (auto simp: peer_of_def split: if_splits)
  then have *: "loc_has_origin s = ps_has_origin k" "ps_has_origin k \<and> loc_origin s \<noteq> ps_origin k \<longleftrightarrow> False" by blast+
  show ?thesis
  proof (cases "go_position (ps_observation h)")
    case None
    then show ?thesis using assms(1,4) by (simp add: loc_poll_def Let_def * repeats_def)
  next
    case (Some p)
    then show ?thesis using assms(1,4) True
      by (cases "go_position (ps_observation k)")
        (simp_all add: loc_poll_def Let_def * repeats_def same_position_eq)
  qed
next
  case False
  then have "loc_has_origin s = ps_has_origin k \<Longrightarrow> ps_has_origin k \<and> loc_origin s \<noteq> ps_origin k"
    using assms(2,3) by (auto simp: peer_of_def split: if_splits)
  then show ?thesis using False
    by (cases "loc_has_origin s = ps_has_origin k") (simp_all add: loc_poll_def Let_def repeats_def)
qed

lemma holds_poll: "holds s hs \<Longrightarrow> holds (loc_poll av (Some k) s) (k # hs)"
proof (cases hs)
  case Nil
  moreover assume "holds s hs"
  ultimately show ?thesis by (simp add: holds_def poll_first first_hearing_def)
next
  case (Cons h older)
  assume "holds s hs"
  with Cons have h: "loc_observation s = Some ((ps_observation h)\<lparr>observed_at := first_hearing h older\<rparr>)"
    "loc_origin s = ps_origin h" "loc_has_origin s = ps_has_origin h"
    by (auto simp: holds_def)
  from poll_again [OF h] show ?thesis
    by (simp add: Cons holds_def first_hearing_again first_hearing_new)
qed

lemma holds_step:
  assumes "holds s hs"
  shows "holds (loc_step op s) (heard [op] hs)"
proof (cases op)
  case (LocPoll av answer)
  show ?thesis
  proof (cases answer)
    case None
    with assms LocPoll show ?thesis by (cases hs) (simp_all add: holds_def)
  next
    case (Some k)
    with LocPoll show ?thesis using holds_poll [OF assms] by simp
  qed
qed (simp add: holds_def loc_forget_def)

lemma heard_Cons: "heard (op # ops) hs = heard ops (heard [op] hs)"
proof (cases op)
  case (LocPoll av answer)
  then show ?thesis by (cases answer) auto
qed auto

lemma holds_run: "holds s hs \<Longrightarrow> holds (run_ops loc_step ops s) (heard ops hs)"
proof (induction ops arbitrary: s hs)
  case (Cons op ops)
  then show ?case by (subst heard_Cons) (auto intro: holds_step)
qed simp

lemma run_policy: "loc_policy (run_ops loc_step ops s) = loc_policy s"
proof (induction ops arbitrary: s)
  case (Cons op ops)
  then show ?case
    by (cases op) (simp_all add: loc_forget_def)
qed simp

lemma holds_new: "holds (new_location_service policy) []"
  by (simp add: holds_def new_location_service_def)

lemma classify_old: "stale_after policy \<le> elapsed (observed_at ob) now \<Longrightarrow> classify ob now policy \<le> Stale"
  by (auto simp: classify_def less_eq_position_validity_def)

text \<open>
  C35. Over any polls and forgettings the service holds what it heard last, dated from the first
  hearing of the present run of that coordinate under that origin, and its age on the screen is
  counted from there: a receiver that repeats itself goes stale, never younger. Nothing is
  shown that was not heard since the last \<open>forget\<close>, and a fix is shown only with its coordinate,
  on the globe.
\<close>

theorem repeated_coordinate_keeps_its_age:
  fixes ops policy now
  defines "s \<equiv> run_ops loc_step ops (new_location_service policy)"
  shows "case heard ops [] of
      [] \<Rightarrow> loc_observation s = None \<and> loc_age_at_us s now = None \<and>
        lst_validity (loc_state s now) = NoFix \<and> \<not> lst_has_position (loc_state s now)
    | h # older \<Rightarrow>
        loc_observation s = Some ((ps_observation h)\<lparr>observed_at := first_hearing h older\<rparr>) \<and>
        loc_age_at_us s now =
          map_option (\<lambda>_. elapsed (first_hearing h older) now) (go_position (ps_observation h)) \<and>
        (stale_after policy \<le> elapsed (first_hearing h older) now \<longrightarrow> lst_validity (loc_state s now) \<le> Stale) \<and>
        (lst_validity (loc_state s now) \<noteq> NoFix \<longrightarrow>
          lst_has_position (loc_state s now) \<and> in_range (tm_value (lst_position (loc_state s now))))"
proof -
  have held: "holds s (heard ops [])" unfolding s_def by (rule holds_run [OF holds_new])
  have policy: "loc_policy s = policy" by (simp add: s_def run_policy new_location_service_def)
  show ?thesis
  proof (cases "heard ops []")
    case Nil
    with held have "loc_observation s = None" by (simp add: holds_def)
    with Nil show ?thesis by (simp add: loc_age_at_us_def loc_state_def new_location_state_def)
  next
    case (Cons h older)
    let ?ob = "(ps_observation h)\<lparr>observed_at := first_hearing h older\<rparr>"
    from held Cons have ob: "loc_observation s = Some ?ob" by (simp add: holds_def)
    have v: "lst_validity (loc_state s now) = classify ?ob now policy"
      by (cases "go_position ?ob") (simp_all add: loc_state_def Let_def ob policy)
    have "loc_age_at_us s now =
        map_option (\<lambda>_. elapsed (first_hearing h older) now) (go_position (ps_observation h))"
      by (cases "go_position ?ob") (simp_all add: loc_age_at_us_def ob)
    moreover have "stale_after policy \<le> elapsed (first_hearing h older) now \<longrightarrow> classify ?ob now policy \<le> Stale"
      by (simp add: classify_old)
    moreover have "lst_has_position (loc_state s now) \<and> in_range (tm_value (lst_position (loc_state s now)))"
      if usable: "classify ?ob now policy \<noteq> NoFix"
    proof -
      from classified_in_range [OF usable] obtain p where "go_position ?ob = Some p" "in_range p" by blast
      then show ?thesis by (simp add: loc_state_def Let_def ob)
    qed
    ultimately show ?thesis unfolding v by (simp add: Cons ob v)
  qed
qed

lemma repeated_coordinate_keeps_its_age_witness:
  "let ob = new_gnss_observation\<lparr>fix_type := ThreeD, satellites_used := Some 9,
         go_position := Some \<lparr>latitude_e7 = 557510000, longitude_e7 = 376170000\<rparr>\<rparr>;
       h = (\<lambda>t. new_position_sample\<lparr>ps_observation := ob\<lparr>observed_at := t\<rparr>\<rparr>);
       s = run_ops loc_step [LocPoll AvReady (Some (h 1000)), LocPoll AvReady (Some (h 20000)), LocPoll AvReady (Some (h 40000))]
             (new_location_service default_validity_policy)
   in loc_age_at_us s 41000 = Some 40000 \<and> lst_validity (loc_state s 41000) \<le> Stale"
proof -
  define ob where "ob = new_gnss_observation\<lparr>fix_type := ThreeD, satellites_used := Some 9,
         go_position := Some \<lparr>latitude_e7 = 557510000, longitude_e7 = 376170000\<rparr>\<rparr>"
  define h where "h = (\<lambda>t. new_position_sample\<lparr>ps_observation := ob\<lparr>observed_at := t\<rparr>\<rparr>)"
  let ?ops = "[LocPoll AvReady (Some (h 1000)), LocPoll AvReady (Some (h 20000)), LocPoll AvReady (Some (h 40000))]"
  have r: "repeats (h t) (h u)" for t u by (simp add: repeats_def peer_of_def h_def ob_def new_position_sample_def)
  have "first_hearing (h 40000) [h 20000, h 1000] = 1000"
    by (simp add: first_hearing_def r) (simp add: h_def ob_def)
  moreover have "elapsed 1000 41000 = 40000" by (simp add: elapsed_def clamp_u32_def)
  ultimately show ?thesis
    using repeated_coordinate_keeps_its_age [of ?ops default_validity_policy 41000]
    unfolding ob_def [symmetric] Let_def h_def [symmetric]
    by (simp add: default_validity_policy_def) (simp add: h_def ob_def)
qed

section \<open>Any provider\<close>

text \<open>
  What the service may expect of a provider: what it answers was heard by its own clock, and a fix
  that claims to be one carries a coordinate on the globe.
\<close>

definition claims_fix :: "gnss_observation \<Rightarrow> bool" where
  "claims_fix ob \<longleftrightarrow> fix_type ob = TwoD \<or> fix_type ob = ThreeD \<or> fix_type ob = DeadReckoning"

locale position_provider =
  fixes avail :: "'p \<Rightarrow> availability"
    and answer :: "'p \<Rightarrow> position_sample option"
    and clock :: "'p \<Rightarrow> monotonic"
    and good :: "'p \<Rightarrow> bool"
  assumes heard_before: "good p \<Longrightarrow> answer p = Some h \<Longrightarrow> observed_at (ps_observation h) \<le> clock p"
    and honest_fix: "good p \<Longrightarrow> answer p = Some h \<Longrightarrow> claims_fix (ps_observation h) \<Longrightarrow>
      \<exists>pos. go_position (ps_observation h) = Some pos \<and> in_range pos"
begin

text \<open>The polls of a provider that went through the states \<open>ps\<close>.\<close>

lemma heard_polls:
  "heard (map (\<lambda>p. LocPoll (avail p) (answer p)) ps) hs = rev (List.map_filter answer ps) @ hs"
proof (induction ps arbitrary: hs)
  case (Cons p ps)
  then show ?case by (cases "answer p") (simp_all add: List.map_filter_simps)
qed (simp add: List.map_filter_simps)

lemma first_hearing_of: "\<exists>k\<in>set (h # older). first_hearing h older = observed_at (ps_observation k)"
proof -
  let ?l = "h # takeWhile (\<lambda>a. repeats a h) older"
  have "last ?l \<in> set ?l" by (rule last_in_set) simp
  then have "last ?l \<in> set (h # older)" by (auto dest: set_takeWhileD)
  then show ?thesis unfolding first_hearing_def by blast
qed

text \<open>The age shown is never cut to zero by a coordinate from the future.\<close>

lemma age_is_exact:
  fixes policy and ps :: "'p list"
  defines "s \<equiv> run_ops loc_step (map (\<lambda>p. LocPoll (avail p) (answer p)) ps) (new_location_service policy)"
  assumes "\<forall>p\<in>set ps. good p \<and> clock p \<le> now"
    and "List.map_filter answer ps = hs @ [h]"
    and "loc_age_at_us s now = Some age"
  shows "first_hearing h (rev hs) \<le> now \<and>
    unat age = min (unat now - unat (first_hearing h (rev hs))) (2 ^ 32 - 1)"
proof -
  have "holds s (rev (List.map_filter answer ps))"
    using holds_run [OF holds_new] unfolding s_def by (metis heard_polls append_Nil2)
  then have s: "holds s (h # rev hs)" by (simp add: assms(3))
  obtain k where k: "k \<in> set (h # rev hs)" "first_hearing h (rev hs) = observed_at (ps_observation k)"
    using first_hearing_of by blast
  then have "k \<in> set (List.map_filter answer ps)" by (auto simp: assms(3))
  then obtain p where p: "p \<in> set ps" "answer p = Some k" by (auto simp: List.map_filter_def)
  then have "first_hearing h (rev hs) \<le> now" using heard_before assms(2) k(2) by (metis order_trans)
  moreover have "age = elapsed (first_hearing h (rev hs)) now"
    using assms(4) s by (auto simp: holds_def loc_age_at_us_def split: if_splits)
  ultimately show ?thesis by (simp add: unat_elapsed)
qed

end

end
