(* ===== verification/Nmea_Receiver.thy ===== *)
theory Nmea_Receiver
  imports Nmea_Fields Location_Service
begin

text \<open>
  The watch's own receiver, the second half of \<open>gnss/src/nmea_receiver.cpp\<close> and
  \<open>gnss/include/attadipa/gnss/nmea_receiver.h\<close>: bytes become sentences, sentences fill an epoch
  that an RMC opens, and the next RMC publishes it.
\<close>

section \<open>The receiver\<close>

definition kMaxSentence :: nat where "kMaxSentence = 82"
definition kDefaultSilence :: millis where "kDefaultSilence = 5000"

record nmea_receiver =
  nr_silence_after :: millis
  nr_line :: bytes
  nr_length :: nat
  nr_collecting :: bool
  nr_overflowed :: bool
  nr_started :: bool
  nr_now :: monotonic
  nr_last_sentence :: monotonic
  nr_heard :: bool
  nr_discarded :: u32
  nr_unframed :: u32
  nr_open :: gnss_observation
  nr_open_valid :: bool
  nr_rmc_active :: bool
  nr_saw_gga :: bool
  nr_gga_quality :: u8
  nr_gsa_fix :: u8
  nr_refused_in_epoch :: bool
  nr_published :: gnss_observation
  nr_has_published :: bool

definition new_nmea_receiver :: "millis \<Rightarrow> nmea_receiver" where
  "new_nmea_receiver silence_after =
     \<lparr>nr_silence_after = silence_after, nr_line = replicate (kMaxSentence + 1) 0, nr_length = 0,
      nr_collecting = False, nr_overflowed = False, nr_started = False, nr_now = 0,
      nr_last_sentence = 0, nr_heard = False, nr_discarded = 0, nr_unframed = 0,
      nr_open = new_gnss_observation, nr_open_valid = False, nr_rmc_active = False,
      nr_saw_gga = False, nr_gga_quality = 0, nr_gsa_fix = 0, nr_refused_in_epoch = False,
      nr_published = new_gnss_observation, nr_has_published = False\<rparr>"

text \<open>The sentence in the line buffer, as the C functions read it.\<close>

definition c_line :: "nmea_receiver \<Rightarrow> bytes" where
  "c_line r = takeWhile (\<lambda>c. c \<noteq> 0) (nr_line r)"

subsection \<open>Epochs\<close>

definition open_epoch :: "monotonic \<Rightarrow> nmea_receiver \<Rightarrow> nmea_receiver" where
  "open_epoch now r =
     r\<lparr>nr_open := new_gnss_observation\<lparr>observed_at := now, go_source := LocalGnss\<rparr>, nr_open_valid := True,
       nr_rmc_active := False, nr_saw_gga := False, nr_gga_quality := 0, nr_gsa_fix := 0,
       nr_refused_in_epoch := False\<rparr>"

definition epoch_fix :: "nmea_receiver \<Rightarrow> fix_type" where
  "epoch_fix r =
     (if \<not> nr_rmc_active r \<or> (nr_saw_gga r \<and> nr_gga_quality r = 0) \<or> nr_gsa_fix r = 1 \<or>
         nr_refused_in_epoch r \<or> go_position (nr_open r) = None
      then FixNoFix
      else if nr_gga_quality r = 6 then DeadReckoning
      else if nr_gsa_fix r = 3 then ThreeD
      else TwoD)"

definition close_epoch :: "nmea_receiver \<Rightarrow> nmea_receiver" where
  "close_epoch r =
     (if \<not> nr_open_valid r then r
      else
        let closed = (nr_open r)\<lparr>fix_type := epoch_fix r,
              go_native := (go_native (nr_open r))\<lparr>rn_vendor := 1,
                rn_status := ucast (nr_gga_quality r) OR push_bit 8 (ucast (nr_gsa_fix r))\<rparr>\<rparr>
        in r\<lparr>nr_open := closed, nr_published := closed, nr_has_published := True, nr_open_valid := False\<rparr>)"

definition refuse :: "monotonic \<Rightarrow> nmea_receiver \<Rightarrow> nmea_receiver" where
  "refuse now r0 =
     (let r = r0\<lparr>nr_discarded := nr_discarded r0 + 1\<rparr> in
      case sentence_kind (c_line r) of
        RmcSentence \<Rightarrow> (open_epoch now (close_epoch r))\<lparr>nr_refused_in_epoch := True\<rparr>
      | GgaSentence \<Rightarrow> (if nr_open_valid r then r\<lparr>nr_refused_in_epoch := True\<rparr> else r)
      | GsaSentence \<Rightarrow> (if nr_open_valid r then r\<lparr>nr_refused_in_epoch := True\<rparr> else r)
      | OtherSentence \<Rightarrow> r)"

text \<open>\<open>if (source) field = *source\<close>: an unreadable field leaves what was there.\<close>

definition or_keep :: "'a option \<Rightarrow> 'a option \<Rightarrow> 'a option" where
  "or_keep new old = (case new of None \<Rightarrow> old | Some v \<Rightarrow> Some v)"

definition rmc_utc :: "sentence_rmc \<Rightarrow> wall_time option" where
  "rmc_utc frame =
     (if md_year (rmc_date frame) \<ge> 0 \<and> mt_hours (rmc_time frame) \<ge> 0
      then wall_time_from_civil
        \<lparr>year = md_year (rmc_date frame) + 2000, month = nat (md_month (rmc_date frame)),
         day = nat (md_day (rmc_date frame)), weekday = 0, hour = nat (mt_hours (rmc_time frame)),
         minute = nat (mt_minutes (rmc_time frame)), second = nat (mt_seconds (rmc_time frame))\<rparr>
      else None)"

definition take_rmc :: "monotonic \<Rightarrow> nmea_receiver \<Rightarrow> nmea_receiver" where
  "take_rmc now r =
     (case minmea_parse_rmc (c_line r) of
        None \<Rightarrow> refuse now r
      | Some frame \<Rightarrow>
          let r1 = (open_epoch now (close_epoch r))\<lparr>nr_rmc_active := rmc_valid frame\<rparr>;
              ob = nr_open r1
          in r1\<lparr>nr_open := ob
               \<lparr>go_position := or_keep (if rmc_valid frame then coordinates (c_line r) True else None) (go_position ob),
                speed_mm_s := or_keep (nmea_speed_mm_s (rmc_speed frame)) (speed_mm_s ob),
                course_centideg := or_keep (centi (rmc_course frame) 35999) (course_centideg ob),
                receiver_time := or_keep (rmc_utc frame) (receiver_time ob),
                receiver_time_valid := (if rmc_utc frame \<noteq> None then rmc_valid frame else receiver_time_valid ob)\<rparr>\<rparr>)"

text \<open>The altitudes a GGA with a fix gives.\<close>

definition gga_altitudes :: "sentence_gga \<Rightarrow> gnss_observation \<Rightarrow> gnss_observation" where
  "gga_altitudes frame ob =
     (case (if gga_altitude_units frame = 0x4D then millimetres (gga_altitude frame) else None) of
        None \<Rightarrow> ob
      | Some altitude \<Rightarrow>
          (case (if gga_height_units frame = 0x4D then millimetres (gga_height frame) else None) of
             None \<Rightarrow> ob\<lparr>altitude_msl_mm := Some altitude\<rparr>
           | Some geoid \<Rightarrow>
               let s = altitude + geoid in
               if s \<ge> - 2147483648 \<and> s \<le> 2147483647
               then ob\<lparr>altitude_msl_mm := Some altitude, altitude_ellipsoid_mm := Some s\<rparr>
               else ob\<lparr>altitude_msl_mm := Some altitude\<rparr>))"

definition take_gga :: "monotonic \<Rightarrow> nmea_receiver \<Rightarrow> nmea_receiver" where
  "take_gga now r =
     (if \<not> nr_open_valid r then r
      else case minmea_parse_gga (c_line r) of
        None \<Rightarrow> refuse now r
      | Some frame \<Rightarrow>
          let quality = (if gga_fix_quality frame < 0 \<or> gga_fix_quality frame > 255 then 0
                else word_of_int (gga_fix_quality frame));
              ob = nr_open r;
              ob1 = ob\<lparr>satellites_used := (if gga_satellites_tracked frame \<ge> 0 \<and> gga_satellites_tracked frame \<le> 255
                          then Some (word_of_int (gga_satellites_tracked frame)) else satellites_used ob),
                       hdop_centi := or_keep (centi (gga_hdop frame) 65535) (hdop_centi ob)\<rparr>;
              ob2 = (if quality \<noteq> 0
                then gga_altitudes frame
                  (ob1\<lparr>go_position := or_keep (coordinates (c_line r) False) (go_position ob1)\<rparr>)
                else ob1)
          in r\<lparr>nr_saw_gga := True, nr_gga_quality := quality, nr_open := ob2\<rparr>)"

definition take_gsa :: "monotonic \<Rightarrow> nmea_receiver \<Rightarrow> nmea_receiver" where
  "take_gsa now r =
     (if \<not> nr_open_valid r then r
      else case minmea_parse_gsa (c_line r) of
        None \<Rightarrow> refuse now r
      | Some frame \<Rightarrow>
          let gsa_fix = (if gsa_fix_type frame \<ge> 1 \<and> gsa_fix_type frame \<le> 3 \<and>
                  (nr_gsa_fix r = 0 \<or> gsa_fix_type frame < uint (nr_gsa_fix r))
                then word_of_int (gsa_fix_type frame) else nr_gsa_fix r);
              ob = nr_open r;
              ob1 = ob\<lparr>pdop_centi := or_keep (centi (gsa_pdop frame) 65535) (pdop_centi ob)\<rparr>;
              ob2 = (if hdop_centi ob1 = None
                then ob1\<lparr>hdop_centi := centi (gsa_hdop frame) 65535\<rparr> else ob1)
          in r\<lparr>nr_gsa_fix := gsa_fix, nr_open := ob2\<rparr>)"

definition take_sentence :: "monotonic \<Rightarrow> nmea_receiver \<Rightarrow> nmea_receiver" where
  "take_sentence now r0 =
     (if \<not> minmea_check (c_line r0) True then r0\<lparr>nr_discarded := nr_discarded r0 + 1\<rparr>
      else
        let r = r0\<lparr>nr_heard := True, nr_last_sentence := now\<rparr> in
        if \<not> fractions_fit (c_line r) then refuse now r
        else case sentence_kind (c_line r) of
          RmcSentence \<Rightarrow> take_rmc now r
        | GgaSentence \<Rightarrow> take_gga now r
        | GsaSentence \<Rightarrow> take_gsa now r
        | OtherSentence \<Rightarrow> r)"

subsection \<open>Bytes\<close>

definition assemble :: "monotonic \<Rightarrow> u8 \<Rightarrow> nmea_receiver \<Rightarrow> nmea_receiver" where
  "assemble now c r =
     (if c = ch_dollar
      then r\<lparr>nr_collecting := True, nr_overflowed := False, nr_line := (nr_line r)[0 := c], nr_length := 1\<rparr>
      else if \<not> nr_collecting r
      then (if c \<noteq> ch_cr \<and> c \<noteq> ch_lf then r\<lparr>nr_unframed := nr_unframed r + 1\<rparr> else r)
      else if c = ch_cr \<or> c = ch_lf
      then
        let r1 = r\<lparr>nr_collecting := False\<rparr> in
        if nr_overflowed r1 then r1\<lparr>nr_discarded := nr_discarded r1 + 1\<rparr>
        else take_sentence now (r1\<lparr>nr_line := (nr_line r1)[nr_length r1 := 0]\<rparr>)
      else if nr_length r \<ge> kMaxSentence then r\<lparr>nr_overflowed := True\<rparr>
      else r\<lparr>nr_line := (nr_line r)[nr_length r := c], nr_length := nr_length r + 1\<rparr>)"

text \<open>\<open>feed\<close>: a null pointer is \<open>None\<close>.\<close>

definition nmea_feed :: "bytes option \<Rightarrow> monotonic \<Rightarrow> nmea_receiver \<Rightarrow> nmea_receiver" where
  "nmea_feed bs now r0 =
     (let r = r0\<lparr>nr_started := True, nr_now := now\<rparr>
      in case bs of None \<Rightarrow> r | Some xs \<Rightarrow> fold (assemble now) xs r)"

definition nmea_reset :: "nmea_receiver \<Rightarrow> nmea_receiver" where
  "nmea_reset r =
     r\<lparr>nr_length := 0, nr_collecting := False, nr_overflowed := False, nr_open := new_gnss_observation,
       nr_open_valid := False, nr_rmc_active := False, nr_saw_gga := False, nr_gga_quality := 0,
       nr_gsa_fix := 0, nr_refused_in_epoch := False\<rparr>"

definition nmea_availability :: "nmea_receiver \<Rightarrow> availability" where
  "nmea_availability r =
     (if \<not> nr_started r then Unprovisioned
      else if \<not> nr_heard r then Unreachable
      else if elapsed (nr_last_sentence r) (nr_now r) < nr_silence_after r then AvReady else Unreachable)"

definition nmea_sample :: "nmea_receiver \<Rightarrow> position_sample option" where
  "nmea_sample r =
     (if \<not> nr_has_published r then None
      else Some (new_position_sample\<lparr>ps_observation := nr_published r, ps_has_origin := False,
        ps_receiver :=
          (if \<not> nr_started r then PresenceUnknown
           else if \<not> nr_heard r then NotDetected
           else if elapsed (nr_last_sentence r) (nr_now r) < nr_silence_after r then Running
           else PresenceUnknown)\<rparr>))"

section \<open>What an epoch may hold\<close>

definition is_i32 :: "int \<Rightarrow> bool" where "is_i32 v \<longleftrightarrow> - 2147483648 \<le> v \<and> v \<le> 2147483647"

text \<open>An observation of the watch's own receiver, every field in its type and its meaning.\<close>

definition epoch_ok :: "gnss_observation \<Rightarrow> bool" where
  "epoch_ok ob \<longleftrightarrow>
     (\<forall>p. go_position ob = Some p \<longrightarrow> in_range p) \<and>
     (\<forall>a. altitude_msl_mm ob = Some a \<longrightarrow> is_i32 a) \<and>
     (\<forall>a. altitude_ellipsoid_mm ob = Some a \<longrightarrow> is_i32 a \<and> altitude_msl_mm ob \<noteq> None) \<and>
     (\<forall>c. course_centideg ob = Some c \<longrightarrow> unat c < 36000) \<and>
     (receiver_time_valid ob \<longrightarrow> receiver_time ob \<noteq> None) \<and>
     horizontal_accuracy_mm ob = None \<and> go_protection_level ob = None \<and>
     spoofing ob = IndicationUnknown \<and> jamming ob = IndicationUnknown"

definition published_ok :: "gnss_observation \<Rightarrow> bool" where
  "published_ok ob \<longleftrightarrow> epoch_ok ob \<and> go_source ob = LocalGnss \<and> rn_vendor (go_native ob) = 1 \<and>
     fix_type ob \<in> {FixNoFix, TwoD, ThreeD, DeadReckoning} \<and>
     (fix_type ob \<noteq> FixNoFix \<longrightarrow> go_position ob \<noteq> None)"

text \<open>
  The receiver's invariant: the line stays in its buffer, and an epoch was opened no later than
  the receiver's own time.
\<close>

definition nmea_inv :: "nmea_receiver \<Rightarrow> bool" where
  "nmea_inv r \<longleftrightarrow> length (nr_line r) = 83 \<and> nr_length r \<le> 82 \<and>
     (nr_open_valid r \<longrightarrow> epoch_ok (nr_open r) \<and> go_source (nr_open r) = LocalGnss \<and> observed_at (nr_open r) \<le> nr_now r) \<and>
     (nr_has_published r \<longrightarrow> published_ok (nr_published r) \<and> observed_at (nr_published r) \<le> nr_now r)"

lemma or_keep_Some: "or_keep new old = Some v \<longleftrightarrow> new = Some v \<or> new = None \<and> old = Some v"
  by (cases new) (auto simp: or_keep_def)

lemma or_keep_None: "or_keep new old = None \<longleftrightarrow> new = None \<and> old = None"
  by (cases new) (auto simp: or_keep_def)

lemma epoch_ok_new: "epoch_ok (new_gnss_observation\<lparr>observed_at := now, go_source := LocalGnss\<rparr>)"
  by (simp add: epoch_ok_def new_gnss_observation_def)

lemma epoch_ok_rmc:
  assumes "epoch_ok ob" and "\<And>p. pos = Some p \<Longrightarrow> in_range p" and "\<And>c. course = Some c \<Longrightarrow> unat c < 36000"
  shows "epoch_ok (ob\<lparr>go_position := or_keep pos (go_position ob), speed_mm_s := sp,
    course_centideg := or_keep course (course_centideg ob), receiver_time := or_keep t (receiver_time ob),
    receiver_time_valid := (if t \<noteq> None then v else receiver_time_valid ob)\<rparr>)"
  using assms by (auto simp: epoch_ok_def or_keep_Some or_keep_None)

lemma epoch_ok_counts: "epoch_ok (ob\<lparr>satellites_used := n, hdop_centi := h\<rparr>) = epoch_ok ob"
  "epoch_ok (ob\<lparr>satellites_used := n\<rparr>) = epoch_ok ob"
  "epoch_ok (ob\<lparr>pdop_centi := h\<rparr>) = epoch_ok ob" "epoch_ok (ob\<lparr>hdop_centi := h\<rparr>) = epoch_ok ob"
  "epoch_ok (ob\<lparr>pdop_centi := h, hdop_centi := k\<rparr>) = epoch_ok ob"
  by (simp_all add: epoch_ok_def)

lemma epoch_ok_position:
  "epoch_ok ob \<Longrightarrow> (\<And>p. pos = Some p \<Longrightarrow> in_range p) \<Longrightarrow> epoch_ok (ob\<lparr>go_position := or_keep pos (go_position ob)\<rparr>)"
  by (auto simp: epoch_ok_def or_keep_Some)

lemma gga_altitudes_frame [frame_rules]:
  "go_source (gga_altitudes frame ob) = go_source ob"
  "observed_at (gga_altitudes frame ob) = observed_at ob"
  "go_position (gga_altitudes frame ob) = go_position ob"
  by (simp_all add: gga_altitudes_def Let_def split: option.split)

lemma epoch_ok_altitudes: "epoch_ok ob \<Longrightarrow> epoch_ok (gga_altitudes frame ob)"
  by (auto simp: gga_altitudes_def epoch_ok_def is_i32_def Let_def split: option.split if_splits
      dest: millimetres_range)

lemma open_epoch_inv: "nmea_inv r \<Longrightarrow> now \<le> nr_now r \<Longrightarrow> nmea_inv (open_epoch now r)"
  by (simp add: nmea_inv_def open_epoch_def epoch_ok_new)

lemma published_ok_close:
  assumes "epoch_ok (nr_open r)" and "go_source (nr_open r) = LocalGnss"
  shows "published_ok ((nr_open r)\<lparr>fix_type := epoch_fix r, go_native := n\<lparr>rn_vendor := 1, rn_status := st\<rparr>\<rparr>)"
proof -
  have "epoch_fix r \<in> {FixNoFix, TwoD, ThreeD, DeadReckoning}" by (simp add: epoch_fix_def)
  moreover have "epoch_fix r \<noteq> FixNoFix \<longrightarrow> go_position (nr_open r) \<noteq> None" by (simp add: epoch_fix_def)
  ultimately show ?thesis using assms by (simp add: published_ok_def epoch_ok_def)
qed

lemma close_epoch_inv: "nmea_inv r \<Longrightarrow> nmea_inv (close_epoch r)"
  by (simp add: nmea_inv_def close_epoch_def Let_def published_ok_close)

lemma close_epoch_frame [simp]: "nr_now (close_epoch r) = nr_now r" "nr_line (close_epoch r) = nr_line r"
  "nr_length (close_epoch r) = nr_length r"
  by (simp_all add: close_epoch_def Let_def)

lemma refuse_inv: "nmea_inv r \<Longrightarrow> now \<le> nr_now r \<Longrightarrow> nmea_inv (refuse now r)"
proof -
  assume r: "nmea_inv r" and now: "now \<le> nr_now r"
  define q where "q = r\<lparr>nr_discarded := nr_discarded r + 1\<rparr>"
  from r have q: "nmea_inv q" "nr_now q = nr_now r" by (simp_all add: q_def nmea_inv_def)
  then have "nmea_inv (open_epoch now (close_epoch q))" using now by (simp add: open_epoch_inv close_epoch_inv)
  then show ?thesis using q unfolding refuse_def Let_def q_def [symmetric]
    by (auto simp: nmea_inv_def split: sentence.split)
qed

lemma open_epoch_open: "nr_open (open_epoch now r) = new_gnss_observation\<lparr>observed_at := now, go_source := LocalGnss\<rparr>"
  by (simp add: open_epoch_def)

text \<open>An operation that only fills the open epoch.\<close>

lemma fill_inv:
  assumes "nmea_inv r" and "epoch_ok ob" and "go_source ob = LocalGnss" and "observed_at ob \<le> nr_now r"
  shows "nmea_inv (r\<lparr>nr_open := ob\<rparr>)"
  using assms by (simp add: nmea_inv_def)

lemma bookkeeping_inv [simp]:
  "nmea_inv (r\<lparr>nr_rmc_active := b\<rparr>) = nmea_inv r" "nmea_inv (r\<lparr>nr_saw_gga := b\<rparr>) = nmea_inv r"
  "nmea_inv (r\<lparr>nr_gga_quality := q\<rparr>) = nmea_inv r" "nmea_inv (r\<lparr>nr_gsa_fix := q\<rparr>) = nmea_inv r"
  "nmea_inv (r\<lparr>nr_heard := b\<rparr>) = nmea_inv r" "nmea_inv (r\<lparr>nr_last_sentence := t\<rparr>) = nmea_inv r"
  "nmea_inv (r\<lparr>nr_discarded := n\<rparr>) = nmea_inv r" "nmea_inv (r\<lparr>nr_unframed := n\<rparr>) = nmea_inv r"
  "nmea_inv (r\<lparr>nr_collecting := b\<rparr>) = nmea_inv r" "nmea_inv (r\<lparr>nr_overflowed := b\<rparr>) = nmea_inv r"
  "nmea_inv (r\<lparr>nr_started := b\<rparr>) = nmea_inv r"
  by (simp_all add: nmea_inv_def)

lemma take_rmc_inv:
  assumes "nmea_inv r" and "now \<le> nr_now r"
  shows "nmea_inv (take_rmc now r)"
proof (cases "minmea_parse_rmc (c_line r)")
  case None
  with assms show ?thesis by (simp add: take_rmc_def refuse_inv)
next
  case (Some frame)
  define q where "q = open_epoch now (close_epoch r)"
  have q: "nmea_inv q" "nr_now q = nr_now r" using assms
    by (simp_all add: q_def open_epoch_inv close_epoch_inv) (simp add: open_epoch_def)
  have o: "nr_open q = new_gnss_observation\<lparr>observed_at := now, go_source := LocalGnss\<rparr>"
    by (simp add: q_def open_epoch_open)
  have "unat c < 36000" if "centi f 35999 = Some c" for f c
  proof -
    have "int (unat c) \<le> 35999" using that by (rule centi_le) simp
    then show ?thesis by linarith
  qed
  moreover have "in_range p" if "(if rmc_valid frame then coordinates (c_line r) True else None) = Some p" for p
    using that by (auto split: if_splits intro: coordinates_in_range)
  moreover define ob where "ob = (nr_open q)\<lparr>go_position := or_keep (if rmc_valid frame then coordinates (c_line r) True else None) (go_position (nr_open q)),
        speed_mm_s := or_keep (nmea_speed_mm_s (rmc_speed frame)) (speed_mm_s (nr_open q)),
        course_centideg := or_keep (centi (rmc_course frame) 35999) (course_centideg (nr_open q)),
        receiver_time := or_keep (rmc_utc frame) (receiver_time (nr_open q)),
        receiver_time_valid := (if rmc_utc frame \<noteq> None then rmc_valid frame else receiver_time_valid (nr_open q))\<rparr>"
  ultimately have "epoch_ok ob" unfolding ob_def
    using epoch_ok_new by (intro epoch_ok_rmc) (auto simp: o)
  moreover have "go_source ob = LocalGnss" "observed_at ob \<le> nr_now r" using assms(2) by (simp_all add: ob_def o)
  moreover have "take_rmc now r = (q\<lparr>nr_rmc_active := rmc_valid frame\<rparr>)\<lparr>nr_open := ob\<rparr>"
    unfolding take_rmc_def Some option.case Let_def q_def [symmetric] ob_def by simp
  ultimately show ?thesis using fill_inv [of "q\<lparr>nr_rmc_active := rmc_valid frame\<rparr>" ob] q by simp
qed

lemma take_gga_inv:
  assumes "nmea_inv r" and "now \<le> nr_now r"
  shows "nmea_inv (take_gga now r)"
proof (cases "nr_open_valid r")
  case True
  show ?thesis
  proof (cases "minmea_parse_gga (c_line r)")
    case None
    with assms True show ?thesis by (simp add: take_gga_def refuse_inv)
  next
    case (Some frame)
    have e: "epoch_ok (nr_open r)" "go_source (nr_open r) = LocalGnss" "observed_at (nr_open r) \<le> nr_now r"
      using assms(1) True by (auto simp: nmea_inv_def)
    define ob1 where "ob1 = (nr_open r)\<lparr>satellites_used := (if gga_satellites_tracked frame \<ge> 0 \<and> gga_satellites_tracked frame \<le> 255
           then Some (word_of_int (gga_satellites_tracked frame)) else satellites_used (nr_open r)),
        hdop_centi := or_keep (centi (gga_hdop frame) 65535) (hdop_centi (nr_open r))\<rparr>"
    define ob2 where "ob2 = gga_altitudes frame (ob1\<lparr>go_position := or_keep (coordinates (c_line r) False) (go_position ob1)\<rparr>)"
    have o1: "epoch_ok ob1" "go_source ob1 = LocalGnss" "observed_at ob1 \<le> nr_now r"
      using e by (simp_all add: ob1_def epoch_ok_counts)
    have "epoch_ok (ob1\<lparr>go_position := or_keep (coordinates (c_line r) False) (go_position ob1)\<rparr>)"
      using o1(1) by (rule epoch_ok_position) (rule coordinates_in_range)
    then have o2: "epoch_ok ob2" "go_source ob2 = LocalGnss" "observed_at ob2 \<le> nr_now r"
      using o1 by (simp_all add: ob2_def epoch_ok_altitudes frame_rules)
    define q where "q = r\<lparr>nr_saw_gga := True, nr_gga_quality :=
      (if gga_fix_quality frame < 0 \<or> gga_fix_quality frame > 255 then 0 else word_of_int (gga_fix_quality frame))\<rparr>"
    have q: "nmea_inv q" "nr_now q = nr_now r" using assms(1) by (simp_all add: q_def)
    have "take_gga now r = q\<lparr>nr_open := ob2\<rparr> \<or> take_gga now r = q\<lparr>nr_open := ob1\<rparr>"
      using True Some by (simp add: take_gga_def Let_def ob1_def [symmetric] ob2_def [symmetric] q_def)
    then show ?thesis
      using fill_inv [OF q(1) o2(1,2)] fill_inv [OF q(1) o1(1,2)] o1(3) o2(3) q(2) by auto
  qed
qed (use assms in \<open>simp add: take_gga_def\<close>)

lemma take_gsa_inv:
  assumes "nmea_inv r" and "now \<le> nr_now r"
  shows "nmea_inv (take_gsa now r)"
proof (cases "nr_open_valid r")
  case True
  have e: "epoch_ok (nr_open r)" "go_source (nr_open r) = LocalGnss" "observed_at (nr_open r) \<le> nr_now r"
    using assms(1) True by (auto simp: nmea_inv_def)
  show ?thesis
  proof (cases "minmea_parse_gsa (c_line r)")
    case None
    with assms True show ?thesis by (simp add: take_gsa_def refuse_inv)
  next
    case (Some frame)
    have "nmea_inv (r\<lparr>nr_open := (nr_open r)\<lparr>pdop_centi := p\<rparr>\<rparr>)" for p
      using assms(1) e by (intro fill_inv) (simp_all add: epoch_ok_counts)
    moreover have "nmea_inv (r\<lparr>nr_open := (nr_open r)\<lparr>pdop_centi := p, hdop_centi := h\<rparr>\<rparr>)" for p h
      using assms(1) e by (intro fill_inv) (simp_all add: epoch_ok_counts)
    ultimately show ?thesis using True Some by (simp add: take_gsa_def Let_def nmea_inv_def)
  qed
qed (use assms in \<open>simp add: take_gsa_def\<close>)

lemma take_sentence_inv: "nmea_inv r \<Longrightarrow> now \<le> nr_now r \<Longrightarrow> nmea_inv (take_sentence now r)"
  by (simp add: take_sentence_def Let_def refuse_inv take_rmc_inv take_gga_inv take_gsa_inv split: sentence.split)

lemma assemble_inv:
  assumes "nmea_inv r" and "now \<le> nr_now r"
  shows "nmea_inv (assemble now c r)"
proof -
  have l: "nmea_inv (r\<lparr>nr_line := (nr_line r)[i := x]\<rparr>)" for i x using assms(1) by (simp add: nmea_inv_def)
  have "nmea_inv (take_sentence now (r\<lparr>nr_collecting := b, nr_line := (nr_line r)[i := x]\<rparr>))" for b i x
    using assms by (intro take_sentence_inv) (simp_all add: nmea_inv_def)
  then show ?thesis using assms unfolding assemble_def Let_def
    by (simp add: nmea_inv_def kMaxSentence_def)
qed

lemma take_sentence_now [simp]: "nr_now (take_sentence now r) = nr_now r"
  by (simp add: take_sentence_def take_rmc_def take_gga_def take_gsa_def refuse_def open_epoch_def Let_def
      split: sentence.split option.split)

lemma assemble_now [simp]: "nr_now (assemble now c r) = nr_now r"
  by (simp add: assemble_def Let_def)

lemma assemble_fold_inv: "nmea_inv r \<Longrightarrow> now \<le> nr_now r \<Longrightarrow> nmea_inv (fold (assemble now) bs r) \<and> nr_now (fold (assemble now) bs r) = nr_now r"
  by (induction bs arbitrary: r) (auto simp: assemble_inv)

lemma feed_inv: "nmea_inv r \<Longrightarrow> nr_now r \<le> now \<Longrightarrow> nmea_inv (nmea_feed bs now r) \<and> nr_now (nmea_feed bs now r) = now"
proof -
  assume "nmea_inv r" "nr_now r \<le> now"
  then have "nmea_inv (r\<lparr>nr_started := True, nr_now := now\<rparr>)" by (auto simp: nmea_inv_def)
  then show ?thesis unfolding nmea_feed_def Let_def
    by (auto simp: assemble_fold_inv split: option.split)
qed

lemma reset_inv: "nmea_inv r \<Longrightarrow> nmea_inv (nmea_reset r)"
  by (simp add: nmea_inv_def nmea_reset_def)

lemma new_receiver_inv: "nmea_inv (new_nmea_receiver silence)"
  by (simp add: nmea_inv_def new_nmea_receiver_def kMaxSentence_def)

subsection \<open>Histories\<close>

text \<open>Time only goes forward: a feed names how much later it is.\<close>

datatype nmea_op = NmeaFeed "bytes option" monotonic | NmeaReset

fun nmea_step :: "nmea_op \<Rightarrow> nmea_receiver \<Rightarrow> nmea_receiver" where
  "nmea_step (NmeaFeed bs now) r = (if nr_now r \<le> now then nmea_feed bs now r else r)"
| "nmea_step NmeaReset r = nmea_reset r"

interpretation nmea: guarded_ops nmea_step nmea_inv
proof
  fix r x assume "nmea_inv r"
  then show "nmea_inv (nmea_step x r)" by (cases x) (auto simp: feed_inv reset_inv)
qed

interpretation nmea_provider: position_provider nmea_availability nmea_sample nr_now nmea_inv
proof
  fix r h
  assume r: "nmea_inv r" and h: "nmea_sample r = Some h"
  then have p: "nr_has_published r" "ps_observation h = nr_published r"
    by (auto simp: nmea_sample_def split: if_splits)
  then show "observed_at (ps_observation h) \<le> nr_now r" using r by (simp add: nmea_inv_def)
  assume "claims_fix (ps_observation h)"
  with p r show "\<exists>pos. go_position (ps_observation h) = Some pos \<and> in_range pos"
    by (auto simp: nmea_inv_def published_ok_def epoch_ok_def claims_fix_def)
qed

text \<open>
  C38. Whatever bytes arrive, in whatever pieces and with whatever resets, what the receiver offers is
  the watch's own observation in NMEA's vocabulary, every field in its range, with no accuracy the
  sentences cannot give, heard no later than now; it claims a fix only with a coordinate on the
  globe, and a valid time only with a time.
\<close>

theorem offered_observation_is_honest:
  fixes ops silence
  defines "r \<equiv> run_ops nmea_step ops (new_nmea_receiver silence)"
  shows "nmea_inv r \<and>
    (case nmea_sample r of
       None \<Rightarrow> True
     | Some h \<Rightarrow> published_ok (ps_observation h) \<and> observed_at (ps_observation h) \<le> nr_now r \<and> \<not> ps_has_origin h \<and>
         (claims_fix (ps_observation h) = (fix_type (ps_observation h) \<noteq> FixNoFix)))"
proof -
  have r: "nmea_inv r" unfolding r_def by (rule nmea.run_inv) (rule new_receiver_inv)
  then show ?thesis
    by (auto simp: nmea_sample_def nmea_inv_def new_position_sample_def published_ok_def claims_fix_def)
qed

text \<open>
  A location service that polls this receiver dates what it shows by the receiver's own clock: the
  age on the screen is the whole time since the coordinate was first heard in its present run,
  never cut short, up to what the field holds.
\<close>

theorem receiver_age_is_exact:
  fixes rs policy now
  defines "s \<equiv> run_ops loc_step (map (\<lambda>r. LocPoll (nmea_availability r) (nmea_sample r)) rs) (new_location_service policy)"
  assumes "\<forall>r\<in>set rs. nmea_inv r \<and> nr_now r \<le> now" and "List.map_filter nmea_sample rs = hs @ [h]"
    and "loc_age_at_us s now = Some age"
  shows "first_hearing h (rev hs) \<le> now \<and> unat age = min (unat now - unat (first_hearing h (rev hs))) (2 ^ 32 - 1)"
  using assms(2-4) unfolding s_def by (rule nmea_provider.age_is_exact)

end
