(* ===== verification/Nmea_Lines.thy ===== *)
theory Nmea_Lines
  imports Nmea_Receiver
begin

text \<open>
  The receiver seen from its input: how \<open>assemble\<close> of \<open>gnss/src/nmea_receiver.cpp\<close> cuts a stream of
  bytes into sentences, and what becomes of an epoch in which a sentence could not be read.
\<close>

section \<open>How the bytes are framed\<close>

text \<open>The sentence a line of bytes holds: from its last \<open>$\<close> on.\<close>

definition last_sentence :: "bytes \<Rightarrow> bytes" where
  "last_sentence cs = ch_dollar # rev (takeWhile (\<lambda>c. c \<noteq> ch_dollar) (rev cs))"

definition line_end :: "u8 \<Rightarrow> bool" where "line_end c \<longleftrightarrow> c = ch_cr \<or> c = ch_lf"

text \<open>The receiver in the middle of the sentence \<open>t\<close>.\<close>

definition collecting :: "bytes \<Rightarrow> bytes \<Rightarrow> nmea_receiver \<Rightarrow> nmea_receiver" where
  "collecting t line r = r\<lparr>nr_collecting := True, nr_overflowed := 82 < length t, nr_line := line, nr_length := min 82 (length t)\<rparr>"

definition holds_line :: "bytes \<Rightarrow> bytes \<Rightarrow> bool" where
  "holds_line line t \<longleftrightarrow> length line = 83 \<and> take (min 82 (length t)) line = take 82 t"

lemma start_sentence:
  assumes "length (nr_line r) = 83"
  shows "\<exists>line. assemble now ch_dollar r = collecting [ch_dollar] line r \<and> holds_line line [ch_dollar]"
proof (intro exI conjI)
  show "assemble now ch_dollar r = collecting [ch_dollar] ((nr_line r)[0 := ch_dollar]) r"
    by (simp add: assemble_def collecting_def)
  show "holds_line ((nr_line r)[0 := ch_dollar]) [ch_dollar]"
    using assms by (simp add: holds_line_def take_Suc_conv_app_nth)
qed

lemma collect_byte:
  assumes "holds_line line t" and "\<not> line_end c"
  shows "\<exists>line'. assemble now c (collecting t line r) =
      collecting (if c = ch_dollar then [ch_dollar] else t @ [c]) line' r \<and>
    holds_line line' (if c = ch_dollar then [ch_dollar] else t @ [c])"
proof (cases "c = ch_dollar")
  case True
  have "length (nr_line (collecting t line r)) = 83" using assms(1) by (simp add: holds_line_def collecting_def)
  from start_sentence [OF this, of now] show ?thesis by (simp add: True collecting_def)
next
  case False
  show ?thesis
  proof (cases "length t < 82")
    case True
    let ?l = "line[length t := c]"
    have "assemble now c (collecting t line r) = collecting (t @ [c]) ?l r"
      using False True assms(2) by (simp add: assemble_def collecting_def line_end_def kMaxSentence_def)
    moreover have "holds_line ?l (t @ [c])"
      using assms(1) True by (simp add: holds_line_def take_Suc_conv_app_nth)
    ultimately show ?thesis using False by auto
  next
    case full: False
    then have "assemble now c (collecting t line r) = collecting (t @ [c]) line r"
      using False assms(2) by (simp add: assemble_def collecting_def line_end_def kMaxSentence_def)
    moreover have "holds_line line (t @ [c])" using assms(1) full by (simp add: holds_line_def min_def)
    ultimately show ?thesis using False by auto
  qed
qed

lemma last_sentence_Cons: "ch_dollar \<in> set cs \<Longrightarrow> last_sentence (c # cs) = last_sentence cs"
  by (simp add: last_sentence_def takeWhile_append1)

lemma last_sentence_only: "ch_dollar \<notin> set cs \<Longrightarrow> last_sentence (ch_dollar # cs) = ch_dollar # cs"
proof -
  assume "ch_dollar \<notin> set cs"
  then have "takeWhile (\<lambda>c. c \<noteq> ch_dollar) (rev cs @ [ch_dollar]) = rev cs"
    by (subst takeWhile_append2) auto
  then show ?thesis by (simp add: last_sentence_def)
qed

lemma collect_bytes:
  assumes "holds_line line t" and "\<forall>c\<in>set cs. \<not> line_end c"
  shows "\<exists>line'. fold (assemble now) cs (collecting t line r) =
      collecting (if ch_dollar \<in> set cs then last_sentence cs else t @ cs) line' r \<and>
    holds_line line' (if ch_dollar \<in> set cs then last_sentence cs else t @ cs)"
  using assms
proof (induction cs arbitrary: t line)
  case (Cons c cs)
  define t' where "t' = (if c = ch_dollar then [ch_dollar] else t @ [c])"
  from collect_byte [OF Cons.prems(1), of c now r] Cons.prems(2) obtain l where
    l: "assemble now c (collecting t line r) = collecting t' l r" "holds_line l t'" by (auto simp: t'_def)
  have "(if ch_dollar \<in> set cs then last_sentence cs else t' @ cs) =
      (if ch_dollar \<in> set (c # cs) then last_sentence (c # cs) else t @ c # cs)"
    by (auto simp: t'_def last_sentence_Cons last_sentence_only)
  with Cons.IH [OF l(2)] Cons.prems(2) l(1) show ?case by simp
qed auto

lemma skip_bytes:
  assumes "\<forall>c\<in>set cs. \<not> line_end c \<and> c \<noteq> ch_dollar" and "\<not> nr_collecting r"
  shows "fold (assemble now) cs r = r\<lparr>nr_unframed := nr_unframed r + of_nat (length cs)\<rparr>"
  using assms
proof (induction cs arbitrary: r)
  case (Cons c cs)
  then have "assemble now c r = r\<lparr>nr_unframed := nr_unframed r + 1\<rparr>"
    by (simp add: assemble_def line_end_def)
  with Cons show ?case by (simp add: algebra_simps)
qed simp

text \<open>
  A line: bytes without an end of line, and the byte that ends it. Its sentence is what follows its
  last \<open>$\<close>; what comes before its first \<open>$\<close> is counted, a sentence of more than 82 bytes is
  discarded, and any other is judged once.
\<close>

definition judge_line :: "monotonic \<Rightarrow> bytes \<Rightarrow> nmea_receiver \<Rightarrow> nmea_receiver" where
  "judge_line now cs r =
     (let q = r\<lparr>nr_unframed := nr_unframed r + of_nat (length (takeWhile (\<lambda>c. c \<noteq> ch_dollar) cs))\<rparr>
      in if ch_dollar \<notin> set cs then q
         else if 82 < length (last_sentence cs) then q\<lparr>nr_discarded := nr_discarded q + 1\<rparr>
         else take_sentence now q)"

lemma takeWhile_stop: "\<not> P y \<Longrightarrow> takeWhile P (xs @ y # ys) = takeWhile P xs"
  by (induction xs) auto

lemma takeWhile_other: "y \<notin> set xs \<Longrightarrow> takeWhile (\<lambda>c. c \<noteq> y) xs = xs"
  by (induction xs) auto

lemma c_line_ended:
  assumes "holds_line line t" and "length t \<le> 82" and "0 < length t"
  shows "takeWhile (\<lambda>c. c \<noteq> 0) (line[length t := 0]) = takeWhile (\<lambda>c. c \<noteq> 0) t"
proof -
  have "take (length t) line = t" "length t < length line" using assms by (simp_all add: holds_line_def min_def)
  then have "line[length t := 0] = t @ 0 # drop (Suc (length t)) line"
    by (metis upd_conv_take_nth_drop)
  then show ?thesis by (simp add: takeWhile_stop)
qed

lemma last_sentence_append: "last_sentence (pre @ ch_dollar # cs) = last_sentence (ch_dollar # cs)"
  by (simp add: last_sentence_def takeWhile_stop)

lemma take_sentence_frame [simp]:
  "nr_line (take_sentence now r) = nr_line r" "nr_collecting (take_sentence now r) = nr_collecting r"
  by (simp_all add: take_sentence_def take_rmc_def take_gga_def take_gsa_def refuse_def open_epoch_def
      close_epoch_def Let_def split: sentence.split option.split)

lemma judge_line_frame [simp]:
  "nr_line (judge_line now cs r) = nr_line r" "nr_collecting (judge_line now cs r) = nr_collecting r"
  by (simp_all add: judge_line_def Let_def)

lemma line_framed:
  assumes "length (nr_line r) = 83" and "\<not> nr_collecting r" and "\<forall>c\<in>set cs. \<not> line_end c" and "line_end e"
  shows "\<exists>line n ov. fold (assemble now) (cs @ [e]) r =
      judge_line now cs (r\<lparr>nr_collecting := False, nr_line := line, nr_length := n, nr_overflowed := ov\<rparr>) \<and>
    (ch_dollar \<in> set cs \<and> length (last_sentence cs) \<le> 82 \<longrightarrow>
      takeWhile (\<lambda>c. c \<noteq> 0) line = takeWhile (\<lambda>c. c \<noteq> 0) (last_sentence cs)) \<and>
    length line = 83"
proof (cases "ch_dollar \<in> set cs")
  case False
  then have "takeWhile (\<lambda>c. c \<noteq> ch_dollar) cs = cs" by (rule takeWhile_other)
  then have "length (takeWhile (\<lambda>c. c \<noteq> ch_dollar) cs) = length cs" by (rule arg_cong)
  moreover have "fold (assemble now) (cs @ [e]) r = r\<lparr>nr_unframed := nr_unframed r + of_nat (length cs)\<rparr>"
  proof -
    have "\<forall>c\<in>set cs. \<not> line_end c \<and> c \<noteq> ch_dollar" using assms(3) False by auto
    from skip_bytes [OF this assms(2)] show ?thesis using assms(2,4) by (auto simp: assemble_def line_end_def)
  qed
  moreover have "r\<lparr>nr_collecting := False, nr_line := nr_line r, nr_length := nr_length r, nr_overflowed := nr_overflowed r\<rparr> = r"
    using assms(2) by (cases r) simp
  ultimately show ?thesis using False assms(1)
    by (intro exI [of _ "nr_line r"] exI [of _ "nr_length r"] exI [of _ "nr_overflowed r"]) (simp add: judge_line_def)
next
  case True
  then obtain pre post where cs: "cs = pre @ ch_dollar # post" "ch_dollar \<notin> set pre"
    by (meson split_list_first)
  define q where "q = r\<lparr>nr_unframed := nr_unframed r + of_nat (length pre)\<rparr>"
  define t where "t = last_sentence cs"
  have pre: "fold (assemble now) pre r = q" using assms cs unfolding q_def by (intro skip_bytes) auto
  have "length (nr_line q) = 83" using assms(1) by (simp add: q_def)
  from start_sentence [OF this, of now] obtain l where
    l: "assemble now ch_dollar q = collecting [ch_dollar] l q" "holds_line l [ch_dollar]" by blast
  have "\<forall>c\<in>set post. \<not> line_end c" using assms(3) cs by simp
  from collect_bytes [OF l(2) this, of now q] obtain line where
    post: "fold (assemble now) post (collecting [ch_dollar] l q) = collecting t line q" "holds_line line t"
    using cs by (auto simp: t_def last_sentence_append last_sentence_Cons last_sentence_only split: if_splits)
  have t: "0 < length t" by (simp add: t_def last_sentence_def)
  have tw: "length (takeWhile (\<lambda>c. c \<noteq> ch_dollar) cs) = length pre"
    by (simp add: cs(1) takeWhile_stop takeWhile_other [OF cs(2)])
  have e: "e \<noteq> ch_dollar" "e = ch_cr \<or> e = ch_lf" using assms(4) by (auto simp: line_end_def)
  have all: "fold (assemble now) (cs @ [e]) r = assemble now e (collecting t line q)"
    by (simp add: cs(1) pre l(1) post(1))
  show ?thesis
  proof (cases "length t \<le> 82")
    case True
    have "assemble now e (collecting t line q) = take_sentence now (q\<lparr>nr_collecting := False, nr_line := line[length t := 0],
        nr_length := length t, nr_overflowed := False\<rparr>)"
      using True e assms(2)
      by (auto simp: assemble_def collecting_def Let_def q_def intro!: arg_cong [of _ _ "take_sentence now"])
    then show ?thesis using post(2) [unfolded holds_line_def] c_line_ended [OF post(2) True t] all True \<open>ch_dollar \<in> set cs\<close> tw
      by (intro exI [of _ "line[length t := 0]"] exI [of _ "length t"] exI [of _ False])
        (auto simp: judge_line_def Let_def t_def [symmetric] q_def intro!: arg_cong [of _ _ "take_sentence now"])
  next
    case False
    then have "assemble now e (collecting t line q) = q\<lparr>nr_collecting := False, nr_discarded := nr_discarded q + 1, nr_line := line,
        nr_length := 82, nr_overflowed := True\<rparr>"
      using e assms(2) by (auto simp: assemble_def collecting_def Let_def q_def)
    then show ?thesis using post(2) [unfolded holds_line_def] all False \<open>ch_dollar \<in> set cs\<close> tw
      by (intro exI [of _ line] exI [of _ 82] exI [of _ True])
        (simp add: judge_line_def Let_def t_def [symmetric] q_def)
  qed
qed

section \<open>A refused sentence spoils its epoch\<close>

text \<open>A whole line, ended by a line feed, and the sentence the receiver reads in it.\<close>

definition hear_line :: "monotonic \<Rightarrow> bytes \<Rightarrow> nmea_receiver \<Rightarrow> nmea_receiver" where
  "hear_line now cs r = fold (assemble now) (cs @ [ch_lf]) r"

definition line_sentence :: "bytes \<Rightarrow> bytes option" where
  "line_sentence cs =
     (if ch_dollar \<in> set cs \<and> length (last_sentence cs) \<le> 82
      then Some (takeWhile (\<lambda>c. c \<noteq> 0) (last_sentence cs)) else None)"

definition ends_epoch :: "bytes \<Rightarrow> bool" where
  "ends_epoch cs \<longleftrightarrow> (case line_sentence cs of None \<Rightarrow> False
     | Some s \<Rightarrow> minmea_check s True \<and> sentence_kind s = RmcSentence)"

definition unreadable :: "bytes \<Rightarrow> bool" where
  "unreadable cs \<longleftrightarrow> (case line_sentence cs of None \<Rightarrow> False
     | Some s \<Rightarrow> minmea_check s True \<and>
         (sentence_kind s = GgaSentence \<and> (\<not> fractions_fit s \<or> minmea_parse_gga s = None) \<or>
          sentence_kind s = GsaSentence \<and> (\<not> fractions_fit s \<or> minmea_parse_gsa s = None)))"

definition one_line :: "bytes \<Rightarrow> bool" where "one_line cs \<longleftrightarrow> (\<forall>c\<in>set cs. \<not> line_end c)"

definition spoiled :: "nmea_receiver \<Rightarrow> bool" where
  "spoiled r \<longleftrightarrow> nr_open_valid r \<and> nr_refused_in_epoch r"

definition between_lines :: "nmea_receiver \<Rightarrow> bool" where
  "between_lines r \<longleftrightarrow> length (nr_line r) = 83 \<and> \<not> nr_collecting r"

lemma c_line_frame [simp]: "c_line (r\<lparr>nr_heard := b\<rparr>) = c_line r" "c_line (r\<lparr>nr_heard := b, nr_last_sentence := t\<rparr>) = c_line r"
  "c_line (r\<lparr>nr_discarded := n\<rparr>) = c_line r" "c_line (r\<lparr>nr_unframed := k\<rparr>) = c_line r"
  by (simp_all add: c_line_def)

lemma spoil: "nr_open_valid r \<Longrightarrow> minmea_check (c_line r) True \<Longrightarrow>
    sentence_kind (c_line r) = GgaSentence \<and> (\<not> fractions_fit (c_line r) \<or> minmea_parse_gga (c_line r) = None) \<or>
    sentence_kind (c_line r) = GsaSentence \<and> (\<not> fractions_fit (c_line r) \<or> minmea_parse_gsa (c_line r) = None) \<Longrightarrow>
    spoiled (take_sentence now r)"
  by (elim disjE conjE) (simp_all add: spoiled_def take_sentence_def take_gga_def take_gsa_def refuse_def Let_def)

lemma stays_spoiled: "spoiled r \<Longrightarrow> \<not> minmea_check (c_line r) True \<or> sentence_kind (c_line r) \<noteq> RmcSentence \<Longrightarrow>
    spoiled (take_sentence now r)"
  by (cases "sentence_kind (c_line r)")
    (auto simp: spoiled_def take_sentence_def take_gga_def take_gsa_def refuse_def Let_def split: option.split)

lemma close_spoiled:
  assumes "spoiled r"
  shows "nr_has_published (close_epoch r)" and "fix_type (nr_published (close_epoch r)) = FixNoFix"
  using assms by (simp_all add: spoiled_def close_epoch_def Let_def epoch_fix_def)

lemma open_epoch_published [simp]: "nr_published (open_epoch now r) = nr_published r"
  "nr_has_published (open_epoch now r) = nr_has_published r"
  by (simp_all add: open_epoch_def)

lemma publish_spoiled:
  assumes "spoiled r" and "minmea_check (c_line r) True" and "sentence_kind (c_line r) = RmcSentence"
  shows "nr_has_published (take_sentence now r) \<and> fix_type (nr_published (take_sentence now r)) = FixNoFix"
proof -
  define q where "q = r\<lparr>nr_heard := True, nr_last_sentence := now\<rparr>"
  have q: "spoiled q" "spoiled (q\<lparr>nr_discarded := n\<rparr>)" "c_line q = c_line r" for n
    using assms(1) by (simp_all add: q_def spoiled_def)
  show ?thesis unfolding take_sentence_def Let_def q_def [symmetric]
    using assms q by (simp add: take_rmc_def refuse_def Let_def close_spoiled split: option.split)
qed

text \<open>What a line does, in terms of its sentence.\<close>

lemma hear_line_cases:
  assumes "between_lines r" and "one_line cs"
  shows "\<exists>q. between_lines (hear_line now cs r) \<and> spoiled q = spoiled r \<and> nr_open_valid q = nr_open_valid r \<and>
    (case line_sentence cs of
       None \<Rightarrow> spoiled (hear_line now cs r) = spoiled r \<and> nr_open_valid (hear_line now cs r) = nr_open_valid r
     | Some s \<Rightarrow> c_line q = s \<and> hear_line now cs r = take_sentence now q)"
proof -
  have b: "length (nr_line r) = 83" "\<not> nr_collecting r" using assms(1) by (simp_all add: between_lines_def)
  from line_framed [OF b, of cs ch_lf now] assms(2) obtain line n ov where
    h: "hear_line now cs r = judge_line now cs (r\<lparr>nr_collecting := False, nr_line := line, nr_length := n, nr_overflowed := ov\<rparr>)"
    and l: "ch_dollar \<in> set cs \<and> length (last_sentence cs) \<le> 82 \<longrightarrow>
      takeWhile (\<lambda>c. c \<noteq> 0) line = takeWhile (\<lambda>c. c \<noteq> 0) (last_sentence cs)" and len: "length line = 83"
    by (auto simp: hear_line_def one_line_def line_end_def)
  define q where "q = r\<lparr>nr_collecting := False, nr_line := line, nr_length := n, nr_overflowed := ov,
    nr_unframed := nr_unframed r + of_nat (length (takeWhile (\<lambda>c. c \<noteq> ch_dollar) cs))\<rparr>"
  have q: "spoiled q = spoiled r" "nr_open_valid q = nr_open_valid r" "nr_line q = line" "\<not> nr_collecting q"
    by (simp_all add: q_def spoiled_def)
  have h: "hear_line now cs r = (if ch_dollar \<notin> set cs then q
      else if 82 < length (last_sentence cs) then q\<lparr>nr_discarded := nr_discarded q + 1\<rparr> else take_sentence now q)"
    unfolding h judge_line_def Let_def q_def by simp
  show ?thesis
    using q l len unfolding h
    by (intro exI [of _ q]) (auto simp: between_lines_def line_sentence_def c_line_def spoiled_def)
qed

text \<open>
  C37. A stream is cut into sentences as the reference \<open>judge_line\<close> says, from any state between two lines:
  what the buffer held before does not matter, a line's sentence is what follows its last \<open>$\<close>, it is
  judged once and whole or, longer than the buffer, counted as discarded, and the bytes before the
  first \<open>$\<close> are counted as unframed.
\<close>

theorem lines_are_judged_once:
  assumes "length (nr_line r) = 83" and "\<not> nr_collecting r" and "\<forall>c\<in>set cs. \<not> line_end c" and "line_end e"
  shows "\<exists>line n ov. fold (assemble now) (cs @ [e]) r =
      judge_line now cs (r\<lparr>nr_collecting := False, nr_line := line, nr_length := n, nr_overflowed := ov\<rparr>) \<and>
    (ch_dollar \<in> set cs \<and> length (last_sentence cs) \<le> 82 \<longrightarrow>
      takeWhile (\<lambda>c. c \<noteq> 0) line = takeWhile (\<lambda>c. c \<noteq> 0) (last_sentence cs)) \<and>
    \<not> nr_collecting (fold (assemble now) (cs @ [e]) r) \<and> length (nr_line (fold (assemble now) (cs @ [e]) r)) = 83"
proof -
  from line_framed [OF assms, of now] obtain line n ov where
    h: "fold (assemble now) (cs @ [e]) r =
      judge_line now cs (r\<lparr>nr_collecting := False, nr_line := line, nr_length := n, nr_overflowed := ov\<rparr>)"
    and l: "ch_dollar \<in> set cs \<and> length (last_sentence cs) \<le> 82 \<longrightarrow>
      takeWhile (\<lambda>c. c \<noteq> 0) line = takeWhile (\<lambda>c. c \<noteq> 0) (last_sentence cs)" "length line = 83"
    by blast
  show ?thesis unfolding h using l
    by (intro exI [of _ line] exI [of _ n] exI [of _ ov]) simp
qed

lemma lines_are_judged_once_witness:
  "\<not> nr_collecting (fold (assemble 5) ([0x41, ch_dollar, 0x47] @ [ch_lf]) (new_nmea_receiver 5000))"
  using lines_are_judged_once [of "new_nmea_receiver 5000" "[0x41, ch_dollar, 0x47]" ch_lf 5]
  by (auto simp: new_nmea_receiver_def kMaxSentence_def line_end_def)

text \<open>
  C36. A GGA or GSA that passes its checksum and cannot be read spoils the epoch it came in: whatever
  other lines follow, damaged or not, the observation that the next RMC publishes claims no fix,
  though its RMC may have been valid. Silence about a refused sentence is never taken for good news.
\<close>

theorem refused_sentence_spoils_epoch:
  assumes "between_lines r" and "nr_open_valid r" and "one_line bad" and "unreadable bad"
    and "\<forall>(now, cs)\<in>set others. one_line cs \<and> \<not> ends_epoch cs" and "one_line rmc" and "ends_epoch rmc"
  shows "let r' = hear_line later rmc (fold (\<lambda>(now, cs). hear_line now cs) others (hear_line soon bad r))
    in nr_has_published r' \<and> fix_type (nr_published r') = FixNoFix"
proof -
  have first: "between_lines (hear_line soon bad r) \<and> spoiled (hear_line soon bad r)"
  proof -
    obtain q where q: "between_lines (hear_line soon bad r)" "nr_open_valid q = nr_open_valid r"
      "case line_sentence bad of None \<Rightarrow> True | Some s \<Rightarrow> c_line q = s \<and> hear_line soon bad r = take_sentence soon q"
      using hear_line_cases [OF assms(1,3), of soon] by (auto split: option.splits)
    then show ?thesis using assms(2,4) spoil [of q soon] by (auto simp: unreadable_def split: option.splits)
  qed
  have middle: "between_lines r \<and> spoiled r \<Longrightarrow> \<forall>(now, cs)\<in>set ls. one_line cs \<and> \<not> ends_epoch cs \<Longrightarrow>
      between_lines (fold (\<lambda>(now, cs). hear_line now cs) ls r) \<and> spoiled (fold (\<lambda>(now, cs). hear_line now cs) ls r)" for ls r
  proof (induction ls arbitrary: r)
    case (Cons l ls)
    obtain now cs where l: "l = (now, cs)" by fastforce
    with Cons.prems have cs: "one_line cs" "\<not> ends_epoch cs" by auto
    from Cons.prems obtain q where q: "between_lines (hear_line now cs r)" "spoiled q"
      "case line_sentence cs of None \<Rightarrow> spoiled (hear_line now cs r) | Some s \<Rightarrow> c_line q = s \<and> hear_line now cs r = take_sentence now q"
      using hear_line_cases [of r cs now] cs(1) by (auto split: option.splits)
    then have "spoiled (hear_line now cs r)"
      using cs(2) stays_spoiled [of q now] by (auto simp: ends_epoch_def split: option.splits)
    with Cons q(1) l show ?case by simp
  qed simp
  let ?r = "fold (\<lambda>(now, cs). hear_line now cs) others (hear_line soon bad r)"
  have r: "between_lines ?r" "spoiled ?r" using middle [OF first assms(5)] by simp_all
  obtain q where "spoiled q"
    "case line_sentence rmc of None \<Rightarrow> True | Some s \<Rightarrow> c_line q = s \<and> hear_line later rmc ?r = take_sentence later q"
    using hear_line_cases [OF r(1) assms(6), of later] r(2) by (auto split: option.splits)
  then show ?thesis using assms(7) publish_spoiled [of q later] by (auto simp: ends_epoch_def Let_def split: option.splits)
qed

text \<open>An RMC, a GSA that does not parse, a GGA without a fix, and the next RMC.\<close>

lemma refused_sentence_spoils_epoch_witness:
  "let sentence = (\<lambda>s. nmea_sentence (map (\<lambda>c. of_nat (of_char c)) s));
       rmc = sentence ''GPRMC,,A,5545.06,N,03737.02,E,,,,,'';
       bad = sentence ''GPGSA,A,x'';
       r = hear_line 1 rmc (new_nmea_receiver 5000);
       r' = hear_line 3 rmc (fold (\<lambda>(now, cs). hear_line now cs) [(2, sentence ''GPGGA,x'')] (hear_line 2 bad r))
   in nr_rmc_active r \<and> nr_has_published r' \<and> fix_type (nr_published r') = FixNoFix"
proof -
  define sentence where "sentence = (\<lambda>s. nmea_sentence (map (\<lambda>c. of_nat (of_char c)) s))"
  define rmc where "rmc = sentence ''GPRMC,,A,5545.06,N,03737.02,E,,,,,''"
  define bad where "bad = sentence ''GPGSA,A,x''"
  define gga where "gga = sentence ''GPGGA,x''"
  let ?r = "hear_line 1 rmc (new_nmea_receiver 5000)"
  have "between_lines ?r" "nr_open_valid ?r" "nr_rmc_active ?r" "one_line bad" "unreadable bad" "one_line gga" "\<not> ends_epoch gga"
    "one_line rmc" "ends_epoch rmc"
    unfolding rmc_def bad_def gga_def sentence_def by code_simp+
  then show ?thesis using refused_sentence_spoils_epoch [of ?r bad "[(2, gga)]" rmc 3 2]
    unfolding sentence_def [symmetric] Let_def rmc_def [symmetric] bad_def [symmetric] gga_def [symmetric] by simp
qed

end
