(* ===== verification/Mesh_Service.thy ===== *)
theory Mesh_Service
  imports Location_Service Link_State
begin

text \<open>
  What the watch knows of a mesh and of its own sends:
  \<open>core/include/attadipa/core/mesh_service.h\<close> and \<open>core/src/mesh_service.cpp\<close>. Character arrays
  are lists of their full length, read as C strings.
\<close>

section \<open>Peers, sends and their verdicts\<close>

definition kMeshPublicKeyBytes :: nat where "kMeshPublicKeyBytes = 32"
definition kMeshPeerNameBytes :: nat where "kMeshPeerNameBytes = 32"
definition kMeshTextBytes :: nat where "kMeshTextBytes = 128"

record mesh_peer =
  mp_id :: mesh_peer_id
  mp_name :: bytes

definition new_mesh_peer :: mesh_peer where
  "new_mesh_peer = \<lparr>mp_id = new_mesh_peer_id, mp_name = replicate (kMeshPeerNameBytes + 1) 0\<rparr>"

datatype mesh_delivery =
    NoDelivery | Queued | DeliveryAccepted | Confirmed | Unconfirmed | DeliveryRefused | DeliveryUnknown

datatype mesh_send_refusal =
    NoRefusal | LinkNotReady | SendBusy | EmptyBody | BodyTooLong | BodyNotUtf8 | TimestampOutOfRange
  | RoomPasswordInvalid | RingFull | ContactsBusy

record mesh_send_result =
  sr_request_id :: u32
  sr_refusal :: mesh_send_refusal

definition accepted :: "mesh_send_result \<Rightarrow> bool" where
  "accepted r \<longleftrightarrow> sr_request_id r \<noteq> 0"

datatype mesh_snapshot = NoSnapshot | Consistent | Dirty | RetryPending | SnapshotDegraded

record attached_node_battery =
  nb_separate_supply :: bool
  nb_millivolts :: u16
  nb_validity :: validity
  nb_received_at :: monotonic

definition new_node_battery :: attached_node_battery where
  "new_node_battery = \<lparr>nb_separate_supply = False, nb_millivolts = 0, nb_validity = ValidityUnknown, nb_received_at = 0\<rparr>"

record mesh_status =
  ms_availability :: availability
  ms_transport :: transport_phase
  ms_node_name :: bytes
  ms_node_id :: mesh_peer_id
  ms_has_node_id :: bool
  ms_node_battery :: attached_node_battery
  ms_pinned_id :: mesh_peer_id
  ms_has_pinned :: bool
  ms_refused_id :: mesh_peer_id
  ms_has_refused :: bool
  ms_last_sender :: bytes
  ms_last_message :: bytes
  ms_delivery :: mesh_delivery
  ms_request_id :: u32
  ms_mtu :: u16
  ms_peers_reported :: u16
  ms_peers_retained :: u16
  ms_snr_quarter_db :: u8
  ms_has_snr :: bool
  ms_peers_complete :: bool
  ms_snapshot :: mesh_snapshot
  ms_message_truncated :: bool

definition new_mesh_status :: mesh_status where
  "new_mesh_status =
     \<lparr>ms_availability = Unreachable, ms_transport = Absent, ms_node_name = replicate 33 0,
      ms_node_id = new_mesh_peer_id, ms_has_node_id = False, ms_node_battery = new_node_battery,
      ms_pinned_id = new_mesh_peer_id, ms_has_pinned = False, ms_refused_id = new_mesh_peer_id,
      ms_has_refused = False, ms_last_sender = replicate 33 0, ms_last_message = replicate 129 0,
      ms_delivery = NoDelivery, ms_request_id = 0, ms_mtu = 0, ms_peers_reported = 0,
      ms_peers_retained = 0, ms_snr_quarter_db = 0, ms_has_snr = False, ms_peers_complete = False,
      ms_snapshot = NoSnapshot, ms_message_truncated = False\<rparr>"

fun delivery_to_string :: "mesh_delivery \<Rightarrow> string" where
  "delivery_to_string NoDelivery = ''none''"
| "delivery_to_string Queued = ''queued''"
| "delivery_to_string DeliveryAccepted = ''accepted''"
| "delivery_to_string Confirmed = ''confirmed''"
| "delivery_to_string Unconfirmed = ''unconfirmed''"
| "delivery_to_string DeliveryRefused = ''refused''"
| "delivery_to_string DeliveryUnknown = ''unknown''"

fun refusal_to_string :: "mesh_send_refusal \<Rightarrow> string" where
  "refusal_to_string NoRefusal = ''none''"
| "refusal_to_string LinkNotReady = ''link not ready''"
| "refusal_to_string SendBusy = ''busy''"
| "refusal_to_string EmptyBody = ''empty body''"
| "refusal_to_string BodyTooLong = ''body too long''"
| "refusal_to_string BodyNotUtf8 = ''body not utf-8''"
| "refusal_to_string TimestampOutOfRange = ''timestamp out of range''"
| "refusal_to_string RoomPasswordInvalid = ''room password invalid''"
| "refusal_to_string RingFull = ''ring full''"
| "refusal_to_string ContactsBusy = ''contacts busy''"

section \<open>Whole characters\<close>

text \<open>How many bytes a character has by its first one, and the bits of its code in that byte.\<close>

definition utf8_lead :: "u8 \<Rightarrow> (nat \<times> u32) option" where
  "utf8_lead lead =
     (if lead < 0x80 then Some (1, ucast lead)
      else if lead AND 0xE0 = 0xC0 then Some (2, ucast (lead AND 0x1F))
      else if lead AND 0xF0 = 0xE0 then Some (3, ucast (lead AND 0x0F))
      else if lead AND 0xF8 = 0xF0 then Some (4, ucast (lead AND 0x07))
      else None)"

fun utf8_code :: "bytes \<Rightarrow> u32 \<Rightarrow> u32 option" where
  "utf8_code [] code = Some code"
| "utf8_code (c # cs) code =
     (if c AND 0xC0 \<noteq> 0x80 then None else utf8_code cs (push_bit 6 code OR ucast (c AND 0x3F)))"

definition kSmallest :: "u32 list" where "kSmallest = [0, 0, 0x80, 0x800, 0x10000]"

text \<open>The width of the character at the front of the bytes inside the bound, if a whole one is there.\<close>

definition utf8_step :: "bytes \<Rightarrow> nat option" where
  "utf8_step rest =
     (case rest of
        [] \<Rightarrow> None
      | lead # cs \<Rightarrow>
          (case utf8_lead lead of
             None \<Rightarrow> None
           | Some (width, code0) \<Rightarrow>
               if width > length rest then None
               else case utf8_code (take (width - 1) cs) code0 of
                 None \<Rightarrow> None
               | Some code \<Rightarrow>
                   if code < kSmallest ! width then None
                   else if code > 0x10FFFF then None
                   else if code \<ge> 0xD800 \<and> code \<le> 0xDFFF then None
                   else Some width))"

lemma utf8_step_bounds: "utf8_step rest = Some w \<Longrightarrow> 0 < w \<and> w \<le> length rest"
  by (auto simp: utf8_step_def utf8_lead_def Suc_le_eq split: list.splits option.splits if_splits)

function utf8_run :: "bytes \<Rightarrow> nat" where
  "utf8_run rest = (case utf8_step rest of None \<Rightarrow> 0 | Some w \<Rightarrow> w + utf8_run (drop w rest))"
  by auto
termination
  by (relation "measure length") (auto dest: utf8_step_bounds)

declare utf8_run.simps [simp del]

definition utf8_prefix_length :: "bytes \<Rightarrow> nat \<Rightarrow> nat" where
  "utf8_prefix_length text limit = utf8_run (take limit text)"

lemma utf8_run_le: "utf8_run rest \<le> length rest"
proof (induction rest rule: utf8_run.induct)
  case (1 rest)
  show ?case
  proof (cases "utf8_step rest")
    case (Some w)
    have "w \<le> length rest" using utf8_step_bounds [OF Some] by simp
    moreover have "utf8_run (drop w rest) \<le> length rest - w" using 1 [OF Some] by simp
    moreover have "utf8_run rest = w + utf8_run (drop w rest)" using Some by (simp add: utf8_run.simps [of rest])
    ultimately show ?thesis by linarith
  qed (simp add: utf8_run.simps [of rest])
qed

subsection \<open>The reference encoding\<close>

definition scalar :: "nat \<Rightarrow> bool" where
  "scalar c \<longleftrightarrow> c \<le> 0x10FFFF \<and> \<not> (0xD800 \<le> c \<and> c \<le> 0xDFFF)"

definition utf8_encode :: "nat \<Rightarrow> bytes" where
  "utf8_encode c =
     (if c < 0x80 then [of_nat c]
      else if c < 0x800 then [of_nat (0xC0 + c div 64), of_nat (0x80 + c mod 64)]
      else if c < 0x10000
      then [of_nat (0xE0 + c div 4096), of_nat (0x80 + c div 64 mod 64), of_nat (0x80 + c mod 64)]
      else [of_nat (0xF0 + c div 262144), of_nat (0x80 + c div 4096 mod 64), of_nat (0x80 + c div 64 mod 64),
            of_nat (0x80 + c mod 64)])"

text \<open>The masks of the code, as ranges of the byte.\<close>

lemma unat_low: "unat (x AND mask n) = unat x mod 2 ^ n" for x :: u8
proof -
  have "x AND mask n = take_bit n x" by (rule take_bit_eq_mask [symmetric])
  moreover have "unat (take_bit n x) = take_bit n (unat x)" by (rule unsigned_take_bit_eq)
  moreover have "take_bit n (unat x) = unat x mod 2 ^ n" by (rule take_bit_eq_mod)
  ultimately show ?thesis by (simp only:)
qed

lemma unat_high: "unat (x AND NOT (mask n)) = unat x - unat x mod 2 ^ n" for x :: u8
proof -
  have "(x AND NOT (mask n)) + (x AND mask n) = (x AND NOT (mask n)) OR (x AND mask n)"
    by (rule disjunctive_add) (auto simp: bit_simps)
  also have "\<dots> = x" by (rule bit_word_eqI) (auto simp: bit_simps)
  finally have "x AND NOT (mask n) = x - (x AND mask n)" by (simp only: eq_diff_eq)
  moreover have "x AND mask n \<le> x" by (simp only: word_le_unat unat_low mod_less_eq_dividend)
  ultimately show ?thesis by (simp only: unat_sub unat_low)
qed

lemma high_range: "0 < k \<Longrightarrow> m - m mod k = k * j \<longleftrightarrow> k * j \<le> m \<and> m < k * j + k" for m k j :: nat
proof -
  assume k: "0 < k"
  have "m - m mod k = k * (m div k)" by (rule minus_mod_eq_mult_div)
  moreover have "k * (m div k) = k * j \<longleftrightarrow> m div k = j" using k by simp
  moreover have "m div k = j \<longleftrightarrow> k * j \<le> m \<and> m < k * j + k"
  proof
    assume "m div k = j"
    then have "m = k * j + m mod k" using mult_div_mod_eq [of k m] by simp
    then show "k * j \<le> m \<and> m < k * j + k" using mod_less_divisor [OF k, of m] by linarith
  next
    assume "k * j \<le> m \<and> m < k * j + k"
    then show "m div k = j" by (intro div_nat_eqI) simp_all
  qed
  ultimately show ?thesis by simp
qed

lemma masks: "(0xE0 :: u8) = NOT (mask 5)" "(0xF0 :: u8) = NOT (mask 4)" "(0xF8 :: u8) = NOT (mask 3)"
  "(0xC0 :: u8) = NOT (mask 6)" "(0x1F :: u8) = mask 5" "(0x0F :: u8) = mask 4" "(0x07 :: u8) = mask 3" "(0x3F :: u8) = mask 6"
  by (simp_all add: mask_eq_exp_minus_1)

lemma lead_masks:
  fixes x :: u8
  shows "x < 0x80 \<longleftrightarrow> unat x < 128" "x AND 0xE0 = 0xC0 \<longleftrightarrow> 192 \<le> unat x \<and> unat x < 224"
    "x AND 0xF0 = 0xE0 \<longleftrightarrow> 224 \<le> unat x \<and> unat x < 240" "x AND 0xF8 = 0xF0 \<longleftrightarrow> 240 \<le> unat x \<and> unat x < 248"
    "x AND 0xC0 = 0x80 \<longleftrightarrow> 128 \<le> unat x \<and> unat x < 192"
proof -
  have range: "unat x < 256" using unsigned_less [of x] by simp
  have k: "unat (0xC0 :: u8) = 192" "unat (0xE0 :: u8) = 224" "unat (0xF0 :: u8) = 240" "unat (0x80 :: u8) = 128"
    by simp_all
  note eq = word_eq_unat [of "x AND NOT (mask n)" for n, unfolded unat_high]
  show "x < 0x80 \<longleftrightarrow> unat x < 128" by (simp only: word_less_unat k)
  show "x AND 0xE0 = 0xC0 \<longleftrightarrow> 192 \<le> unat x \<and> unat x < 224" unfolding masks(1) eq k using high_range [of 32 "unat x" 6] by simp
  show "x AND 0xF0 = 0xE0 \<longleftrightarrow> 224 \<le> unat x \<and> unat x < 240" unfolding masks(2) eq k using high_range [of 16 "unat x" 14] by simp
  show "x AND 0xF8 = 0xF0 \<longleftrightarrow> 240 \<le> unat x \<and> unat x < 248" unfolding masks(3) eq k using high_range [of 8 "unat x" 30] by simp
  show "x AND 0xC0 = 0x80 \<longleftrightarrow> 128 \<le> unat x \<and> unat x < 192" unfolding masks(4) eq k using high_range [of 64 "unat x" 2] by simp
qed

lemma low_bits:
  fixes x :: u8
  shows "unat (x AND 0x1F) = unat x mod 32" "unat (x AND 0x0F) = unat x mod 16"
    "unat (x AND 0x07) = unat x mod 8" "unat (x AND 0x3F) = unat x mod 64"
  unfolding masks unat_low by simp_all

text \<open>A continuation byte adds its six bits behind the code so far.\<close>

lemma code_join:
  fixes code b :: u32
  assumes "unat code < 2 ^ 26" and "unat b < 64"
  shows "unat (push_bit 6 code OR b) = unat code * 64 + unat b"
proof -
  have "unat (take_bit 6 b) = take_bit 6 (unat b)" by (rule unsigned_take_bit_eq)
  also have "\<dots> = unat b" using assms(2) by (simp add: take_bit_nat_eq_self)
  finally have "take_bit 6 b = b" by (simp only: word_eq_unat)
  then have small: "\<not> bit b n" if "6 \<le> n" for n
    using that by (metis bit_take_bit_iff not_le)
  have "unat code * 64 < 2 ^ 32" using assms(1) by simp
  moreover have "unat (push_bit 6 code) = take_bit 32 (push_bit 6 (unat code))"
    using unsigned_push_bit_eq [of 6 code] by (simp only: len_num1 len_bit0 len_bit1) simp
  ultimately have p: "unat (push_bit 6 code) = unat code * 64"
    by (simp only: push_bit_eq_mult take_bit_eq_mod) simp
  have "push_bit 6 code OR b = push_bit 6 code + b"
    by (rule disjunctive_add [symmetric]) (metis small bit_push_bit_iff)
  moreover have "unat (push_bit 6 code + b) = unat (push_bit 6 code) + unat b"
    using assms by (intro unat_plus_simple [THEN iffD1]) (simp only: no_olen_add_nat p, simp)
  ultimately show ?thesis by (simp only: p)
qed

lemma eq_of_nat: "unat x = n \<Longrightarrow> x = of_nat n" for x :: "'a::len word"
  by auto

lemma continuation:
  fixes c :: u8
  assumes "128 \<le> unat c" and "unat c < 192"
  shows "unat (ucast (c AND 0x3F) :: u32) = unat c - 128"
proof -
  have "unat c = (unat c - 128) + 64 * 2" using assms(1) by simp
  then have "unat c mod 64 = (unat c - 128) mod 64" using mod_mult_self2 [of "unat c - 128" 64 2] by simp
  moreover have "unat c - 128 < 64" using assms by linarith
  ultimately have "unat (c AND 0x3F) = unat c - 128" by (simp only: low_bits(4) mod_less)
  then show ?thesis by (simp add: unat_upcast)
qed

text \<open>The code of the continuation bytes over the naturals.\<close>

fun code_nat :: "bytes \<Rightarrow> nat \<Rightarrow> nat option" where
  "code_nat [] n = Some n"
| "code_nat (c # cs) n =
     (if 128 \<le> unat c \<and> unat c < 192 then code_nat cs (n * 64 + (unat c - 128)) else None)"

lemma utf8_code_nat:
  "(n + 1) * 64 ^ length cs \<le> 2 ^ 32 \<Longrightarrow> unat code = n \<Longrightarrow> utf8_code cs code = map_option of_nat (code_nat cs n)"
proof (induction cs arbitrary: n code)
  case Nil
  then show ?case by (simp add: eq_of_nat)
next
  case (Cons c cs)
  show ?case
  proof (cases "128 \<le> unat c \<and> unat c < 192")
    case True
    let ?x = "unat c - 128"
    have x: "?x < 64" using True by (elim conjE) linarith
    have one: "1 \<le> (64 :: nat) ^ length cs" by simp
    have "(n * 64 + ?x + 1) * 64 ^ length cs \<le> (n * 64 + 64) * 64 ^ length cs"
      using x by (intro mult_le_mono1) linarith
    also have "\<dots> = (n + 1) * 64 ^ length (c # cs)" by (simp add: algebra_simps)
    also have "\<dots> \<le> 2 ^ 32" by (rule Cons.prems(1))
    finally have bound: "(n * 64 + ?x + 1) * 64 ^ length cs \<le> 2 ^ 32" .
    have "n * 64 + ?x + 1 \<le> (n * 64 + ?x + 1) * 64 ^ length cs"
      using mult_le_mono2 [OF one, of "n * 64 + ?x + 1"] by simp
    then have "n < 2 ^ 26" using bound by simp
    then have "unat (push_bit 6 code OR ucast (c AND 0x3F)) = n * 64 + ?x"
      using code_join [of code "ucast (c AND 0x3F)"] continuation [of c] True x Cons.prems(2) by simp
    from Cons.IH [OF bound this] True show ?thesis by (simp add: lead_masks)
  qed (auto simp: lead_masks)
qed

text \<open>What the first byte says.\<close>

lemma ucast_nat: "ucast x = (of_nat (unat x) :: u32)" for x :: u8
  by (rule eq_of_nat) (simp add: unat_upcast)

lemma lead_cases:
  "utf8_lead l =
     (if unat l < 128 then Some (1, of_nat (unat l))
      else if 192 \<le> unat l \<and> unat l < 224 then Some (2, of_nat (unat l - 192))
      else if 224 \<le> unat l \<and> unat l < 240 then Some (3, of_nat (unat l - 224))
      else if 240 \<le> unat l \<and> unat l < 248 then Some (4, of_nat (unat l - 240))
      else None)"
proof -
  have m: "unat l mod 32 = unat l - 192" if "192 \<le> unat l" "unat l < 224"
    using that mod_mult_self2 [of "unat l - 192" 32 6] by simp
  have m3: "unat l mod 16 = unat l - 224" if "224 \<le> unat l" "unat l < 240"
    using that mod_mult_self2 [of "unat l - 224" 16 14] by simp
  have m4: "unat l mod 8 = unat l - 240" if "240 \<le> unat l" "unat l < 248"
    using that mod_mult_self2 [of "unat l - 240" 8 30] by simp
  show ?thesis unfolding utf8_lead_def lead_masks ucast_nat low_bits using m m3 m4 by auto
qed

definition nat_lead :: "u8 \<Rightarrow> (nat \<times> nat) option" where
  "nat_lead l =
     (if unat l < 128 then Some (1, unat l)
      else if 192 \<le> unat l \<and> unat l < 224 then Some (2, unat l - 192)
      else if 224 \<le> unat l \<and> unat l < 240 then Some (3, unat l - 224)
      else if 240 \<le> unat l \<and> unat l < 248 then Some (4, unat l - 240)
      else None)"

definition smallest :: "nat \<Rightarrow> nat" where
  "smallest w = (if w = 1 then 0 else if w = 2 then 0x80 else if w = 3 then 0x800 else 0x10000)"

lemma code_nat_bound: "code_nat cs n = Some m \<Longrightarrow> m < (n + 1) * 64 ^ length cs"
proof (induction cs arbitrary: n)
  case (Cons c cs)
  then have c: "128 \<le> unat c" "unat c < 192" "code_nat cs (n * 64 + (unat c - 128)) = Some m"
    by (auto split: if_splits)
  have "m < (n * 64 + (unat c - 128) + 1) * 64 ^ length cs" by (rule Cons.IH [OF c(3)])
  also have "\<dots> \<le> (n * 64 + 64) * 64 ^ length cs" using c(1,2) by (intro mult_le_mono1) linarith
  also have "\<dots> = (n + 1) * 64 ^ length (c # cs)" by (simp add: algebra_simps)
  finally show ?case .
qed simp

lemma nat_lead_bounds:
  "nat_lead l = Some (w, n0) \<Longrightarrow> w \<in> {1, 2, 3, 4} \<and> (n0 + 1) * 64 ^ (w - 1) \<le> 2 ^ 21 \<and> utf8_lead l = Some (w, of_nat n0)"
  unfolding nat_lead_def lead_cases by (auto split: if_splits)

lemma nat_lead_None: "nat_lead l = None \<longleftrightarrow> utf8_lead l = None"
  by (simp add: nat_lead_def lead_cases)

lemma step_nat:
  "utf8_step (l # cs) = Some w \<longleftrightarrow>
     (\<exists>n0 n. nat_lead l = Some (w, n0) \<and> w \<le> Suc (length cs) \<and> code_nat (take (w - 1) cs) n0 = Some n \<and>
       smallest w \<le> n \<and> scalar n)"
proof (cases "nat_lead l")
  case None
  then have "utf8_lead l = None" by (simp add: nat_lead_None)
  with None show ?thesis by (simp add: utf8_step_def)
next
  case (Some p)
  obtain v n0 where p: "p = (v, n0)" by fastforce
  from nat_lead_bounds [of l v n0] Some p have v: "v \<in> {1, 2, 3, 4}" "(n0 + 1) * 64 ^ (v - 1) \<le> 2 ^ 21"
    "utf8_lead l = Some (v, of_nat n0)" by auto
  show ?thesis
  proof (cases "v \<le> Suc (length cs)")
    case True
    then have len: "length (take (v - 1) cs) = v - 1" by simp
    have "1 * 1 \<le> (64 :: nat) ^ (v - 1)" by simp
    then have "n0 + 1 \<le> (n0 + 1) * 64 ^ (v - 1)" by (metis mult.right_neutral mult_le_mono2 mult_1)
    then have "n0 < 2 ^ 21" using v(2) by linarith
    then have n0: "unat (of_nat n0 :: u32) = n0" by (simp add: unat_of_nat)
    have code: "utf8_code (take (v - 1) cs) (of_nat n0) = map_option of_nat (code_nat (take (v - 1) cs) n0)"
    proof (rule utf8_code_nat [OF _ n0])
      have "(n0 + 1) * 64 ^ length (take (v - 1) cs) = (n0 + 1) * 64 ^ (v - 1)" by (simp only: len)
      also have "\<dots> \<le> 2 ^ 21" by (rule v(2))
      also have "(2 :: nat) ^ 21 \<le> 2 ^ 32" by simp
      finally show "(n0 + 1) * 64 ^ length (take (v - 1) cs) \<le> 2 ^ 32" .
    qed
    show ?thesis
    proof (cases "code_nat (take (v - 1) cs) n0")
      case None
      then show ?thesis using Some p v(3) True code by (auto simp: utf8_step_def)
    next
      case some: (Some n)
      then have "n < 2 ^ 21" using code_nat_bound [OF some] v(2) len by simp
      then have n: "unat (of_nat n :: u32) = n" by (simp add: unat_of_nat)
      have "(of_nat n :: u32) < kSmallest ! v \<longleftrightarrow> n < smallest v"
        using v(1) n by (auto simp: kSmallest_def smallest_def word_less_unat)
      moreover have "(of_nat n :: u32) > 0x10FFFF \<longleftrightarrow> n > 0x10FFFF" "(of_nat n :: u32) \<ge> 0xD800 \<longleftrightarrow> n \<ge> 0xD800"
        "(of_nat n :: u32) \<le> 0xDFFF \<longleftrightarrow> n \<le> 0xDFFF" by (simp_all add: word_less_unat word_le_unat n del: of_nat_le_iff)
      ultimately show ?thesis using Some p v(3) True code some
        by (auto simp: utf8_step_def scalar_def not_le not_less)
    qed
  next
    case False
    then show ?thesis using Some p v(3) by (auto simp: utf8_step_def)
  qed
qed

text \<open>Every whole character is taken, and only such.\<close>

lemma unat_u8: "n < 256 \<Longrightarrow> unat (of_nat n :: u8) = n"
  by (simp add: unat_of_nat)

lemma step_bytes:
  "unat a < 128 \<Longrightarrow> scalar (unat a) \<Longrightarrow> utf8_step (a # xs) = Some 1"
  "unat a = 192 + p \<Longrightarrow> unat b = 128 + q \<Longrightarrow> p < 32 \<Longrightarrow> q < 64 \<Longrightarrow> scalar (p * 64 + q) \<Longrightarrow> 0x80 \<le> p * 64 + q \<Longrightarrow>
    utf8_step (a # b # xs) = Some 2"
  "unat a = 224 + p \<Longrightarrow> unat b = 128 + q \<Longrightarrow> unat d = 128 + r \<Longrightarrow> p < 16 \<Longrightarrow> q < 64 \<Longrightarrow> r < 64 \<Longrightarrow>
    scalar ((p * 64 + q) * 64 + r) \<Longrightarrow> 0x800 \<le> (p * 64 + q) * 64 + r \<Longrightarrow> utf8_step (a # b # d # xs) = Some 3"
  "unat a = 240 + p \<Longrightarrow> unat b = 128 + q \<Longrightarrow> unat d = 128 + r \<Longrightarrow> unat e = 128 + t \<Longrightarrow> p < 8 \<Longrightarrow> q < 64 \<Longrightarrow> r < 64 \<Longrightarrow> t < 64 \<Longrightarrow>
    scalar (((p * 64 + q) * 64 + r) * 64 + t) \<Longrightarrow> 0x10000 \<le> ((p * 64 + q) * 64 + r) * 64 + t \<Longrightarrow>
    utf8_step (a # b # d # e # xs) = Some 4"
  by (simp_all add: step_nat nat_lead_def smallest_def)

lemma step_encode:
  assumes "scalar c"
  shows "utf8_step (utf8_encode c @ xs) = Some (length (utf8_encode c))"
proof -
  have c: "c \<le> 0x10FFFF" using assms by (simp add: scalar_def)
  define t where "t = c mod 64"
  define r where "r = c div 64 mod 64"
  define q where "q = c div 4096 mod 64"
  have b: "t < 64" "r < 64" "q < 64" by (simp_all add: t_def r_def q_def)
  have k: "unat (of_nat (128 + n) :: u8) = 128 + n" if "n < 64" for n using that by (intro unat_u8) simp
  note tail = k [OF b(1)] k [OF b(2)] k [OF b(3)]
  consider "c < 0x80" | "0x80 \<le> c" "c < 0x800" | "0x800 \<le> c" "c < 0x10000" | "0x10000 \<le> c" by linarith
  then show ?thesis
  proof cases
    case 1
    then have "unat (of_nat c :: u8) = c" by (intro unat_u8) simp
    then show ?thesis using 1 assms step_bytes(1) [of "of_nat c" xs] by (simp add: utf8_encode_def)
  next
    case 2
    have p: "c div 64 < 32" "c div 64 * 64 + t = c" using 2 by (simp_all add: t_def)
    then have "unat (of_nat (192 + c div 64) :: u8) = 192 + c div 64" by (intro unat_u8) linarith
    from step_bytes(2) [OF this tail(1) p(1) b(1)] p(2) assms 2
    show ?thesis by (simp add: utf8_encode_def t_def)
  next
    case 3
    have "c div 64 = c div 4096 * 64 + r" using div_mult2_eq [of c 64 64] by (simp add: r_def)
    moreover have "c = c div 64 * 64 + t" by (simp add: t_def)
    ultimately have p: "c div 4096 < 16" "(c div 4096 * 64 + r) * 64 + t = c" using 3 by simp_all
    then have "unat (of_nat (224 + c div 4096) :: u8) = 224 + c div 4096" by (intro unat_u8) linarith
    from step_bytes(3) [OF this tail(2,1) p(1) b(2,1)] p(2) assms 3
    show ?thesis by (simp add: utf8_encode_def t_def r_def)
  next
    case 4
    have "c div 64 = c div 4096 * 64 + r" using div_mult2_eq [of c 64 64] by (simp add: r_def)
    moreover have "c div 4096 = c div 262144 * 64 + q" using div_mult2_eq [of c 4096 64] by (simp add: q_def)
    moreover have "c = c div 64 * 64 + t" by (simp add: t_def)
    ultimately have p: "c div 262144 < 8" "((c div 262144 * 64 + q) * 64 + r) * 64 + t = c" using c by simp_all
    then have "unat (of_nat (240 + c div 262144) :: u8) = 240 + c div 262144" by (intro unat_u8) linarith
    from step_bytes(4) [OF this tail(3,2,1) p(1) b(3,2,1)] p(2) assms 4
    show ?thesis by (simp add: utf8_encode_def t_def r_def q_def)
  qed
qed

lemma digits64:
  fixes p q :: nat
  assumes "q < 64"
  shows "(p * 64 + q) div 64 = p" and "(p * 64 + q) mod 64 = q"
  using assms by simp_all

lemma encode_bytes:
  "n < 128 \<Longrightarrow> utf8_encode n = [of_nat n]"
  "p < 32 \<Longrightarrow> q < 64 \<Longrightarrow> 0x80 \<le> p * 64 + q \<Longrightarrow> utf8_encode (p * 64 + q) = [of_nat (192 + p), of_nat (128 + q)]"
  "p < 16 \<Longrightarrow> q < 64 \<Longrightarrow> r < 64 \<Longrightarrow> 0x800 \<le> (p * 64 + q) * 64 + r \<Longrightarrow>
    utf8_encode ((p * 64 + q) * 64 + r) = [of_nat (224 + p), of_nat (128 + q), of_nat (128 + r)]"
  "p < 8 \<Longrightarrow> q < 64 \<Longrightarrow> r < 64 \<Longrightarrow> t < 64 \<Longrightarrow> 0x10000 \<le> ((p * 64 + q) * 64 + r) * 64 + t \<Longrightarrow>
    utf8_encode (((p * 64 + q) * 64 + r) * 64 + t) = [of_nat (240 + p), of_nat (128 + q), of_nat (128 + r), of_nat (128 + t)]"
proof -
  have d2: "m div 4096 = m div 64 div 64" and d3: "m div 262144 = m div 64 div 64 div 64" for m :: nat
    by (simp_all add: div_mult2_eq [symmetric])
  show "n < 128 \<Longrightarrow> utf8_encode n = [of_nat n]" by (simp add: utf8_encode_def)
  show "p < 32 \<Longrightarrow> q < 64 \<Longrightarrow> 0x80 \<le> p * 64 + q \<Longrightarrow> utf8_encode (p * 64 + q) = [of_nat (192 + p), of_nat (128 + q)]"
    unfolding utf8_encode_def using digits64 [of q p] by simp
  show "p < 16 \<Longrightarrow> q < 64 \<Longrightarrow> r < 64 \<Longrightarrow> 0x800 \<le> (p * 64 + q) * 64 + r \<Longrightarrow>
      utf8_encode ((p * 64 + q) * 64 + r) = [of_nat (224 + p), of_nat (128 + q), of_nat (128 + r)]"
    unfolding utf8_encode_def d2 using digits64 [of r "p * 64 + q"] digits64 [of q p] by simp
  show "p < 8 \<Longrightarrow> q < 64 \<Longrightarrow> r < 64 \<Longrightarrow> t < 64 \<Longrightarrow> 0x10000 \<le> ((p * 64 + q) * 64 + r) * 64 + t \<Longrightarrow>
      utf8_encode (((p * 64 + q) * 64 + r) * 64 + t) = [of_nat (240 + p), of_nat (128 + q), of_nat (128 + r), of_nat (128 + t)]"
    unfolding utf8_encode_def d2 d3
    using digits64 [of t "(p * 64 + q) * 64 + r"] digits64 [of r "p * 64 + q"] digits64 [of q p] by simp
qed

lemma byte_eq: "unat b = n \<Longrightarrow> of_nat n = b" for b :: u8
  by auto

lemma step_decode:
  assumes "utf8_step rest = Some w"
  shows "\<exists>c. scalar c \<and> w = length (utf8_encode c) \<and> take w rest = utf8_encode c"
proof -
  obtain l cs where rest: "rest = l # cs" using assms by (cases rest) (auto simp: utf8_step_def)
  obtain n0 n where n: "nat_lead l = Some (w, n0)" "w \<le> Suc (length cs)" "code_nat (take (w - 1) cs) n0 = Some n"
    "smallest w \<le> n" "scalar n" using assms unfolding rest step_nat by blast
  have rest_of: "\<exists>x. unat c = 128 + x \<and> x < 64" if "128 \<le> unat c" "unat c < 192" for c :: u8
    using that by (intro exI [of _ "unat c - 128"]) linarith
  consider "unat l < 128" "w = 1" "n0 = unat l" | p where "unat l = 192 + p" "p < 32" "w = 2" "n0 = p"
    | p where "unat l = 224 + p" "p < 16" "w = 3" "n0 = p" | p where "unat l = 240 + p" "p < 8" "w = 4" "n0 = p"
    using n(1) unfolding nat_lead_def
    by (auto split: if_splits) (metis le_add_diff_inverse less_diff_conv2 add.commute numeral_plus_numeral)+
  then show ?thesis
  proof cases
    case 1
    then have "utf8_encode n = [l]" using n(3) encode_bytes(1) [of n] by auto
    with 1 n(5) show ?thesis by (intro exI [of _ n]) (simp add: rest)
  next
    case (2 p)
    obtain b xs where cs: "cs = b # xs" using n(2) 2 by (cases cs) auto
    obtain q where q: "unat b = 128 + q" "q < 64" using n(3) 2 cs rest_of [of b] by (auto split: if_splits)
    then have nn: "n = p * 64 + q" using n(3) 2 cs by (auto split: if_splits)
    have "utf8_encode n = [l, b]"
      using encode_bytes(2) [OF 2(2) q(2)] n(4) 2(3) byte_eq [OF 2(1)] byte_eq [OF q(1)]
      by (simp add: nn smallest_def)
    with 2 n(5) cs show ?thesis by (intro exI [of _ n]) (simp add: rest)
  next
    case (3 p)
    then obtain b d xs where cs: "cs = b # d # xs" using n(2) by (cases cs; cases "tl cs") auto
    have code: "code_nat [b, d] p = Some n" using n(3) 3 cs by simp
    obtain q r where q: "unat b = 128 + q" "q < 64" "unat d = 128 + r" "r < 64"
      using code rest_of [of b] rest_of [of d] by (auto split: if_splits)
    then have nn: "n = (p * 64 + q) * 64 + r" using code by (auto split: if_splits)
    have "utf8_encode n = [l, b, d]"
      using encode_bytes(3) [OF 3(2) q(2,4)] n(4) 3(3) byte_eq [OF 3(1)] byte_eq [OF q(1)] byte_eq [OF q(3)]
      by (simp add: nn smallest_def)
    with 3 n(5) cs show ?thesis by (intro exI [of _ n]) (simp add: rest)
  next
    case (4 p)
    then obtain b d e xs where cs: "cs = b # d # e # xs"
      using n(2) by (cases cs; cases "tl cs"; cases "tl (tl cs)") auto
    have code: "code_nat [b, d, e] p = Some n" using n(3) 4 cs by simp
    obtain q r t where q: "unat b = 128 + q" "q < 64" "unat d = 128 + r" "r < 64" "unat e = 128 + t" "t < 64"
      using code rest_of [of b] rest_of [of d] rest_of [of e] by (auto split: if_splits)
    then have nn: "n = ((p * 64 + q) * 64 + r) * 64 + t" using code by (auto split: if_splits)
    have "utf8_encode n = [l, b, d, e]"
      using encode_bytes(4) [OF 4(2) q(2,4,6)] n(4) 4(3) byte_eq [OF 4(1)] byte_eq [OF q(1)] byte_eq [OF q(3)] byte_eq [OF q(5)]
      by (simp add: nn smallest_def)
    with 4 n(5) cs show ?thesis by (intro exI [of _ n]) (simp add: rest)
  qed
qed

lemma encode_nonempty: "utf8_encode c \<noteq> []"
  by (simp add: utf8_encode_def)

lemma utf8_run_whole:
  "\<exists>cs. list_all scalar cs \<and> take (utf8_run rest) rest = concat (map utf8_encode cs)"
proof (induction rest rule: utf8_run.induct)
  case (1 rest)
  show ?case
  proof (cases "utf8_step rest")
    case None
    then show ?thesis by (intro exI [of _ "[]"]) (simp add: utf8_run.simps [of rest])
  next
    case (Some w)
    from 1 [OF Some] obtain cs where cs: "list_all scalar cs"
      "take (utf8_run (drop w rest)) (drop w rest) = concat (map utf8_encode cs)" by blast
    from step_decode [OF Some] obtain c where c: "scalar c" "take w rest = utf8_encode c" by blast
    have "utf8_run rest = w + utf8_run (drop w rest)" using Some by (simp add: utf8_run.simps [of rest])
    then have "take (utf8_run rest) rest = utf8_encode c @ concat (map utf8_encode cs)"
      by (simp add: take_add c(2) cs(2))
    with cs(1) c(1) show ?thesis by (intro exI [of _ "c # cs"]) simp
  qed
qed

lemma utf8_run_stops: "utf8_step (drop (utf8_run rest) rest) = None"
proof (induction rest rule: utf8_run.induct)
  case (1 rest)
  show ?case
  proof (cases "utf8_step rest")
    case None
    then show ?thesis by (simp add: utf8_run.simps [of rest])
  next
    case (Some w)
    then have "utf8_run rest = w + utf8_run (drop w rest)" by (simp add: utf8_run.simps [of rest])
    then show ?thesis using 1 [OF Some] by (simp add: drop_drop add.commute)
  qed
qed

lemma utf8_run_encoded: "list_all scalar cs \<Longrightarrow> utf8_run (concat (map utf8_encode cs)) = length (concat (map utf8_encode cs))"
proof (induction cs)
  case Nil
  then show ?case by (subst utf8_run.simps) (simp add: utf8_step_def)
next
  case (Cons c cs)
  then have "utf8_step (concat (map utf8_encode (c # cs))) = Some (length (utf8_encode c))"
    by (simp add: step_encode)
  with Cons show ?case by (subst utf8_run.simps) simp
qed

text \<open>
  C40. The prefix the text checks take is the longest one made of whole characters: it is the
  concatenation of encodings of Unicode scalar values, in the shortest form and without
  surrogates, it lies inside the bound, no further character of the bound follows it, and it is all
  of the text exactly if the text is such a concatenation.
\<close>

theorem utf8_prefix_is_whole_characters:
  fixes body limit
  defines "n \<equiv> utf8_prefix_length body limit"
  shows "n \<le> min limit (length body) \<and>
    (\<exists>cs. list_all scalar cs \<and> take n body = concat (map utf8_encode cs)) \<and>
    \<not> (\<exists>c xs. scalar c \<and> drop n (take limit body) = utf8_encode c @ xs) \<and>
    (utf8_prefix_length body (length body) = length body \<longleftrightarrow>
      (\<exists>cs. list_all scalar cs \<and> body = concat (map utf8_encode cs)))"
proof -
  have n: "n \<le> length (take limit body)" unfolding n_def utf8_prefix_length_def by (rule utf8_run_le)
  then have t: "take n (take limit body) = take n body" by (simp add: min_absorb1)
  have "\<exists>cs. list_all scalar cs \<and> take n body = concat (map utf8_encode cs)"
    using utf8_run_whole [of "take limit body"] unfolding utf8_prefix_length_def [symmetric] n_def [symmetric] t .
  moreover have "utf8_step (drop n (take limit body)) = None"
    unfolding n_def utf8_prefix_length_def by (rule utf8_run_stops)
  then have "\<not> (\<exists>c xs. scalar c \<and> drop n (take limit body) = utf8_encode c @ xs)"
    using step_encode by force
  moreover have "utf8_prefix_length body (length body) = length body \<longleftrightarrow>
      (\<exists>cs. list_all scalar cs \<and> body = concat (map utf8_encode cs))"
    using utf8_run_whole [of body] utf8_run_encoded by (auto simp: utf8_prefix_length_def)
  ultimately show ?thesis using n by simp
qed

end
