(* ===== verification/Mesh_Text.thy ===== *)
theory Mesh_Text
  imports Mesh_Service Minmea
begin

text \<open>
  The text of a message: how it is copied into its buffer, and the coordinate a message may carry
  behind an \<open>@\<close>, from \<open>link/src/meshcore_companion.cpp\<close>. The text is the C string in the buffer.
\<close>

abbreviation ch_at :: u8 where "ch_at \<equiv> 0x40"
abbreviation ch_tab :: u8 where "ch_tab \<equiv> 0x09"

text \<open>\<open>copy_text\<close>: the buffer afterwards, and whether the text was cut.\<close>

definition copy_text :: "bytes \<Rightarrow> bytes \<Rightarrow> bytes \<times> bool" where
  "copy_text out data =
     (let n = min (length data) (length out - 1)
      in (write_at out 0 (take n data @ [0]), n \<noteq> length data))"

definition c_string :: "bytes \<Rightarrow> bytes" where
  "c_string buf = takeWhile (\<lambda>c. c \<noteq> 0) buf"

text \<open>A number with its fraction, at most three and at most seven digits, and what follows it.\<close>

definition scan_number :: "bytes \<Rightarrow> (int \<times> bytes) option" where
  "scan_number s =
     (let sign = (if char_at s = ch_minus then - 1 else 1);
          s1 = (if char_at s = ch_minus then tl s else s);
          ds = takeWhile isdigit s1;
          s2 = dropWhile isdigit s1
      in if length ds > 3 then None
         else if ds = [] \<or> char_at s2 \<noteq> ch_dot then None
         else
           let fs = takeWhile isdigit (tl s2); s3 = dropWhile isdigit (tl s2)
           in if length fs > 7 then None
              else if fs = [] then None
              else if char_at s3 = ch_dot \<and> isdigit (char_at (tl s3)) then None
              else Some (sign * (decimal ds * 10000000 + decimal fs * 10 ^ (7 - length fs)), s3))"

definition text_space :: "u8 \<Rightarrow> bool" where
  "text_space c \<longleftrightarrow> c = ch_space \<or> c = ch_lf \<or> c = ch_tab \<or> c = ch_cr"

definition anchored :: "u8 option \<Rightarrow> bool" where
  "anchored prev = (case prev of None \<Rightarrow> True | Some p \<Rightarrow> text_space p)"

definition remote_in_bounds :: "int \<Rightarrow> int \<Rightarrow> bool" where
  "remote_in_bounds latitude longitude \<longleftrightarrow>
     latitude \<ge> - kLatitudeMaxE7 \<and> latitude \<le> kLatitudeMaxE7 \<and>
     longitude \<ge> - kLongitudeMaxE7 \<and> longitude \<le> kLongitudeMaxE7 \<and> \<not> (latitude = 0 \<and> longitude = 0)"

lemma dropWhile_le: "length (dropWhile P s) \<le> length s"
  by (rule length_dropWhile_le)

lemma scan_number_shorter: "scan_number s = Some (v, r) \<Longrightarrow> length r < length s"
proof -
  assume a: "scan_number s = Some (v, r)"
  define s1 where "s1 = (if char_at s = ch_minus then tl s else s)"
  define s2 where "s2 = dropWhile isdigit s1"
  from a have r: "r = dropWhile isdigit (tl s2)" and d: "char_at s2 = ch_dot"
    by (auto simp: scan_number_def Let_def s1_def [symmetric] s2_def [symmetric] split: if_splits)
  from d have "s2 \<noteq> []" by (cases s2) auto
  then have "length (tl s2) < length s2" by (cases s2) auto
  moreover have "length r \<le> length (tl s2)" unfolding r by (rule length_dropWhile_le)
  moreover have "length s2 \<le> length s1" unfolding s2_def by (rule length_dropWhile_le)
  moreover have "length s1 \<le> length s" by (simp add: s1_def)
  ultimately show ?thesis by linarith
qed

text \<open>
  The scan: the byte before, the rest of the text, whether a coordinate stands at the last \<open>@\<close> that
  counts, and the last one inside the bounds.
\<close>

function trailing :: "u8 option \<Rightarrow> bytes \<Rightarrow> bool \<Rightarrow> geo_position \<Rightarrow> bool \<times> geo_position" where
  "trailing prev [] found out = (found, out)"
| "trailing prev (c # cs) found out =
     (if c \<noteq> ch_at then trailing (Some c) cs found out
      else if \<not> anchored prev then trailing (Some c) cs found out
      else
        let s = (if char_at cs = ch_space then tl cs else cs);
            numeric = (char_at s = ch_minus \<or> isdigit (char_at s))
        in case scan_number s of
             None \<Rightarrow> trailing (Some c) cs (if numeric then False else found) out
           | Some (latitude, s1) \<Rightarrow>
               if char_at s1 \<noteq> ch_comma then trailing (Some c) cs False out
               else case scan_number (tl s1) of
                 None \<Rightarrow> trailing (Some c) cs False out
               | Some (longitude, s2) \<Rightarrow>
                   trailing (Some (last (take (length cs - length s2) cs))) s2
                     (remote_in_bounds latitude longitude)
                     (if remote_in_bounds latitude longitude
                      then \<lparr>latitude_e7 = latitude, longitude_e7 = longitude\<rparr> else out))"
  by pat_completeness auto
termination
proof (relation "measure (\<lambda>(prev, s, found, out). length s)")
  fix prev :: "u8 option" and c :: u8 and cs s :: bytes and found out numeric p latitude s1 q longitude s2
  assume s: "s = (if char_at cs = ch_space then tl cs else cs)" and "scan_number s = Some p" "(latitude, s1) = p"
    "scan_number (tl s1) = Some q" "(longitude, s2) = q"
  then have "length s1 < length s" "length s2 < length (tl s1)" by (auto dest: scan_number_shorter)
  moreover have "length s \<le> length cs" by (simp add: s)
  moreover have "length (tl s1) \<le> length s1" by simp
  ultimately have "length s2 < length (c # cs)" by simp
  then show "((Some (last (take (length cs - length s2) cs)), s2, remote_in_bounds latitude longitude,
      if remote_in_bounds latitude longitude then \<lparr>latitude_e7 = latitude, longitude_e7 = longitude\<rparr> else out),
      prev, c # cs, found, out) \<in> measure (\<lambda>(prev, s, found, out). length s)" by simp
qed auto

definition parse_trailing_coordinate :: "bytes \<Rightarrow> geo_position option" where
  "parse_trailing_coordinate line =
     (case trailing None line False \<lparr>latitude_e7 = 0, longitude_e7 = 0\<rparr> of (found, out) \<Rightarrow> if found then Some out else None)"

lemma trailing_in_bounds:
  "trailing prev s found out = (True, p) \<Longrightarrow> (found \<Longrightarrow> remote_in_bounds (latitude_e7 out) (longitude_e7 out)) \<Longrightarrow>
    remote_in_bounds (latitude_e7 p) (longitude_e7 p)"
proof (induction prev s found out rule: trailing.induct)
  case (2 prev c cs found out)
  define s where "s = (if char_at cs = ch_space then tl cs else cs)"
  show ?case
  proof (cases "c = ch_at \<and> anchored prev")
    case False
    then have "trailing (Some c) cs found out = (True, p)" using "2.prems"(1) by (cases "c = ch_at") auto
    then show ?thesis using "2.IH"(1,2) "2.prems"(2) False by (cases "c = ch_at") auto
  next
    case True
    then have at: "c = ch_at" "\<not> \<not> anchored prev" by simp_all
    note here = "2.prems"(1) [unfolded trailing.simps Let_def s_def [symmetric]]
    show ?thesis
    proof (cases "scan_number s")
      case None
      then show ?thesis using here at "2.IH"(3) [OF _ at(2) s_def refl None] "2.prems"(2) by (auto split: if_splits)
    next
      case (Some q)
      obtain lat s1 where q: "q = (lat, s1)" by fastforce
      show ?thesis
      proof (cases "char_at s1 = ch_comma")
        case False
        then show ?thesis using here at Some q "2.IH"(4) [OF _ at(2) s_def refl Some q [symmetric]] by auto
      next
        case comma: True
        show ?thesis
        proof (cases "scan_number (tl s1)")
          case None
          then show ?thesis using here at Some q comma "2.IH"(5) [OF _ at(2) s_def refl Some q [symmetric] _ None] by auto
        next
          case lon: (Some r)
          obtain lon s2 where r: "r = (lon, s2)" by fastforce
          then show ?thesis
            using here at Some q comma lon "2.IH"(6) [OF _ at(2) s_def refl Some q [symmetric] _ lon r [symmetric]] by auto
        qed
      qed
    qed
  qed
qed simp

lemma parsed_in_bounds: "parse_trailing_coordinate line = Some p \<Longrightarrow> remote_in_bounds (latitude_e7 p) (longitude_e7 p)"
  by (auto simp: parse_trailing_coordinate_def split: prod.splits if_splits dest!: trailing_in_bounds)

end
