(* ===== verification/Mesh_Companion.thy ===== *)
theory Mesh_Companion
  imports Mesh_Text Ring_Buffer
begin

text \<open>
  The companion protocol of a MeshCore node as the watch speaks it:
  \<open>link/include/attadipa/link/meshcore_companion.h\<close> and \<open>link/src/meshcore_companion.cpp\<close>. The
  fields of the class are grouped into the records of its parts: the transmit ring, the
  operation in flight, the contact walk, the battery poll, the message drain and what the node
  said of places. The peer tables are the lists of their used slots. A null pointer is \<open>None\<close>.
\<close>

section \<open>Commands and answers\<close>

abbreviation kAppStart :: u8 where "kAppStart \<equiv> 1"
abbreviation kSendText :: u8 where "kSendText \<equiv> 2"
abbreviation kGetContacts :: u8 where "kGetContacts \<equiv> 4"
abbreviation kSyncNextMessage :: u8 where "kSyncNextMessage \<equiv> 10"
abbreviation kGetBatteryAndStorage :: u8 where "kGetBatteryAndStorage \<equiv> 20"
abbreviation kDeviceQuery :: u8 where "kDeviceQuery \<equiv> 22"
abbreviation kGetCustomVars :: u8 where "kGetCustomVars \<equiv> 40"
abbreviation kSendLogin :: u8 where "kSendLogin \<equiv> 26"
abbreviation kGetContactByKey :: u8 where "kGetContactByKey \<equiv> 30"
abbreviation kAppProtocolVersion :: u8 where "kAppProtocolVersion \<equiv> 3"

abbreviation kResponseError :: u8 where "kResponseError \<equiv> 1"
abbreviation kResponseContactsStart :: u8 where "kResponseContactsStart \<equiv> 2"
abbreviation kResponseContact :: u8 where "kResponseContact \<equiv> 3"
abbreviation kResponseContactsEnd :: u8 where "kResponseContactsEnd \<equiv> 4"
abbreviation kResponseSelfInfo :: u8 where "kResponseSelfInfo \<equiv> 5"
abbreviation kResponseSent :: u8 where "kResponseSent \<equiv> 6"
abbreviation kResponseContactMessage :: u8 where "kResponseContactMessage \<equiv> 7"
abbreviation kResponseNoMoreMessages :: u8 where "kResponseNoMoreMessages \<equiv> 10"
abbreviation kResponseBatteryAndStorage :: u8 where "kResponseBatteryAndStorage \<equiv> 12"
abbreviation kResponseDeviceInfo :: u8 where "kResponseDeviceInfo \<equiv> 13"
abbreviation kResponseContactMessageV3 :: u8 where "kResponseContactMessageV3 \<equiv> 16"
abbreviation kResponseChannelMessageV3 :: u8 where "kResponseChannelMessageV3 \<equiv> 17"
abbreviation kResponseCustomVars :: u8 where "kResponseCustomVars \<equiv> 21"

abbreviation kTextCliData :: u8 where "kTextCliData \<equiv> 1"
abbreviation kTextSignedPlain :: u8 where "kTextSignedPlain \<equiv> 2"

abbreviation kPushAdvert :: u8 where "kPushAdvert \<equiv> 0x80"
abbreviation kPushPathUpdated :: u8 where "kPushPathUpdated \<equiv> 0x81"
abbreviation kPushSendConfirmed :: u8 where "kPushSendConfirmed \<equiv> 0x82"
abbreviation kPushMessageWaiting :: u8 where "kPushMessageWaiting \<equiv> 0x83"
abbreviation kPushLoginSuccess :: u8 where "kPushLoginSuccess \<equiv> 0x85"
abbreviation kPushLoginFail :: u8 where "kPushLoginFail \<equiv> 0x86"
abbreviation kPushNewAdvert :: u8 where "kPushNewAdvert \<equiv> 0x8A"
abbreviation kPushPathDiscovery :: u8 where "kPushPathDiscovery \<equiv> 0x8D"
abbreviation kPushContactDeleted :: u8 where "kPushContactDeleted \<equiv> 0x8F"
abbreviation kPushContactsFull :: u8 where "kPushContactsFull \<equiv> 0x90"
abbreviation kAdvertTypeChat :: u8 where "kAdvertTypeChat \<equiv> 1"

definition kMeshCoreFrameBytes :: nat where "kMeshCoreFrameBytes = 176"
definition kRetainedPeers :: nat where "kRetainedPeers = 16"
definition kTxDepth :: nat where "kTxDepth = 4"
definition kMinAckWait :: millis where "kMinAckWait = 1000"
definition kMaxAckWait :: millis where "kMaxAckWait = 15000"
definition kContactsQuiet :: millis where "kContactsQuiet = 3000"
definition kSnapshotRetryDelay :: millis where "kSnapshotRetryDelay = 10000"
definition kSnapshotRetries :: u8 where "kSnapshotRetries = 2"
definition kBatteryPollPeriod :: millis where "kBatteryPollPeriod = 60000"
definition kBatteryReplyBudget :: millis where "kBatteryReplyBudget = 5000"
definition kBatteryFreshness :: millis where "kBatteryFreshness = 180000"

definition little_u32 :: "bytes \<Rightarrow> u32" where
  "little_u32 d = ucast (d ! 0) OR push_bit 8 (ucast (d ! 1)) OR push_bit 16 (ucast (d ! 2)) OR push_bit 24 (ucast (d ! 3))"

definition write_u32 :: "u32 \<Rightarrow> bytes" where
  "write_u32 v = [ucast v, ucast (drop_bit 8 v), ucast (drop_bit 16 v), ucast (drop_bit 24 v)]"

section \<open>State\<close>

record mesh_frame =
  fr_bytes :: bytes
  fr_size :: nat

definition new_mesh_frame :: mesh_frame where
  "new_mesh_frame = \<lparr>fr_bytes = replicate kMeshCoreFrameBytes 0, fr_size = 0\<rparr>"

record mesh_ring =
  rg_tx :: "mesh_frame list"
  rg_head :: nat
  rg_size :: nat
  rg_seq :: u32

record mesh_operation =
  op_expected_ack :: bytes
  op_request_seq :: u32
  op_seq :: u32
  op_awaiting_send :: bool
  op_awaiting_confirm :: bool
  op_awaiting_login :: bool
  op_awaiting_contact :: bool
  op_since :: monotonic
  op_budget :: millis
  op_answered :: bool
  op_contact_peer :: mesh_peer_id
  op_contact_text :: bytes
  op_contact_timestamp :: wall_time
  op_room_peer :: mesh_peer_id
  op_room_text :: bytes
  op_room_timestamp :: wall_time

record mesh_contacts =
  ct_peers :: "mesh_peer list"
  ct_incoming_peers :: "mesh_peer list"
  ct_incoming_reported :: u16
  ct_complete :: bool
  ct_open :: bool
  ct_end_unsent :: bool
  ct_last_contact_at :: monotonic
  ct_dirty :: bool
  ct_dirty_end_at :: monotonic
  ct_retries_left :: u8
  ct_retry_armed :: bool
  ct_retry_unanswered :: bool
  ct_retry_start_ruled_out :: bool
  ct_retry_open :: bool
  ct_retry_swept :: bool
  ct_retry_since :: monotonic
  ct_seq :: u32

datatype battery_request = BatteryIdle | BatteryQueued | BatteryWaiting

record mesh_battery =
  bt_request :: battery_request
  bt_started :: monotonic
  bt_poll_now :: monotonic
  bt_polled :: bool
  bt_due :: bool
  bt_identity_blocked :: bool
  bt_errors_ambiguous :: bool
  bt_reply_unaccounted :: bool
  bt_seq :: u32

record mesh_drain =
  dr_draining :: bool
  dr_since :: monotonic
  dr_pending_push :: bool

record mesh_places =
  pl_node_position :: geo_position
  pl_node_at :: monotonic
  pl_has_node :: bool
  pl_remote_id :: mesh_peer_id
  pl_remote_position :: geo_position
  pl_remote_at :: monotonic
  pl_has_remote :: bool
  pl_receiver :: receiver_presence
  pl_vars_requested :: bool
  pl_awaiting_vars :: bool
  pl_vars_since :: monotonic
  pl_vars_seq :: u32

record mesh_companion =
  mc_link :: link_state
  mc_status :: mesh_status
  mc_pinned :: mesh_peer_id
  mc_pinned_set :: bool
  mc_wrong_node :: bool
  mc_ring :: mesh_ring
  mc_op :: mesh_operation
  mc_contacts :: mesh_contacts
  mc_battery :: mesh_battery
  mc_drain :: mesh_drain
  mc_places :: mesh_places
  mc_malformed :: u32
  mc_cli :: u32
  mc_firmware :: u8
  mc_device_info_seen :: bool
  mc_self_info_seen :: bool

abbreviation no_position :: geo_position where "no_position \<equiv> \<lparr>latitude_e7 = 0, longitude_e7 = 0\<rparr>"

definition new_mesh_ring :: mesh_ring where
  "new_mesh_ring = \<lparr>rg_tx = replicate kTxDepth new_mesh_frame, rg_head = 0, rg_size = 0, rg_seq = 0\<rparr>"

definition new_mesh_operation :: mesh_operation where
  "new_mesh_operation = \<lparr>op_expected_ack = replicate 4 0, op_request_seq = 0, op_seq = 0, op_awaiting_send = False,
     op_awaiting_confirm = False, op_awaiting_login = False, op_awaiting_contact = False, op_since = 0, op_budget = 0,
     op_answered = False, op_contact_peer = new_mesh_peer_id, op_contact_text = replicate 129 0, op_contact_timestamp = 0,
     op_room_peer = new_mesh_peer_id, op_room_text = replicate 129 0, op_room_timestamp = 0\<rparr>"

definition new_mesh_contacts :: mesh_contacts where
  "new_mesh_contacts = \<lparr>ct_peers = [], ct_incoming_peers = [], ct_incoming_reported = 0, ct_complete = False, ct_open = False,
     ct_end_unsent = False, ct_last_contact_at = 0, ct_dirty = False, ct_dirty_end_at = 0, ct_retries_left = kSnapshotRetries,
     ct_retry_armed = False, ct_retry_unanswered = False, ct_retry_start_ruled_out = False, ct_retry_open = False,
     ct_retry_swept = False, ct_retry_since = 0, ct_seq = 0\<rparr>"

definition new_mesh_battery :: mesh_battery where
  "new_mesh_battery = \<lparr>bt_request = BatteryIdle, bt_started = 0, bt_poll_now = 0, bt_polled = False, bt_due = False,
     bt_identity_blocked = False, bt_errors_ambiguous = False, bt_reply_unaccounted = False, bt_seq = 0\<rparr>"

definition new_mesh_drain :: mesh_drain where
  "new_mesh_drain = \<lparr>dr_draining = False, dr_since = 0, dr_pending_push = False\<rparr>"

definition new_mesh_places :: mesh_places where
  "new_mesh_places = \<lparr>pl_node_position = no_position, pl_node_at = 0, pl_has_node = False, pl_remote_id = new_mesh_peer_id,
     pl_remote_position = no_position, pl_remote_at = 0, pl_has_remote = False, pl_receiver = PresenceUnknown,
     pl_vars_requested = False, pl_awaiting_vars = False, pl_vars_since = 0, pl_vars_seq = 0\<rparr>"

definition new_mesh_companion :: mesh_companion where
  "new_mesh_companion =
     \<lparr>mc_link = new_link_state \<lparr>lc_kind = Bluetooth, lc_liveness = 0, lc_requires_establishment = True\<rparr>,
      mc_status = new_mesh_status\<lparr>ms_availability := Unreachable, ms_transport := Absent,
        ms_node_battery := new_node_battery\<lparr>nb_separate_supply := True\<rparr>\<rparr>,
      mc_pinned = new_mesh_peer_id, mc_pinned_set = False, mc_wrong_node = False, mc_ring = new_mesh_ring,
      mc_op = new_mesh_operation, mc_contacts = new_mesh_contacts, mc_battery = new_mesh_battery,
      mc_drain = new_mesh_drain, mc_places = new_mesh_places, mc_malformed = 0, mc_cli = 0, mc_firmware = 0,
      mc_device_info_seen = False, mc_self_info_seen = False\<rparr>"

section \<open>Small steps\<close>

definition count_malformed :: "mesh_companion \<Rightarrow> mesh_companion" where
  "count_malformed c = c\<lparr>mc_malformed := mc_malformed c + 1\<rparr>"

definition set_delivery :: "mesh_delivery \<Rightarrow> mesh_companion \<Rightarrow> mesh_companion" where
  "set_delivery d c = c\<lparr>mc_status := (mc_status c)\<lparr>ms_delivery := d\<rparr>\<rparr>"

definition link_ready :: "mesh_companion \<Rightarrow> bool" where
  "link_ready c \<longleftrightarrow> ls_phase (mc_link c) = Ready"

definition send_busy :: "mesh_companion \<Rightarrow> bool" where
  "send_busy c \<longleftrightarrow> op_awaiting_send (mc_op c) \<or> op_awaiting_confirm (mc_op c) \<or> op_awaiting_login (mc_op c) \<or>
     op_awaiting_contact (mc_op c)"

definition op_owed_an_answer :: "mesh_companion \<Rightarrow> bool" where
  "op_owed_an_answer c \<longleftrightarrow> op_awaiting_contact (mc_op c) \<or>
     ((op_awaiting_send (mc_op c) \<or> op_awaiting_login (mc_op c)) \<and> \<not> op_answered (mc_op c))"

definition update_availability :: "mesh_companion \<Rightarrow> mesh_companion" where
  "update_availability c =
     c\<lparr>mc_status := (mc_status c)\<lparr>ms_transport := ls_phase (mc_link c),
       ms_availability :=
         (if ls_phase (mc_link c) = Faulted then AvFailed
          else if link_ready c \<and> mc_device_info_seen c \<and> mc_self_info_seen c \<and> ct_complete (mc_contacts c) then AvReady
          else Unreachable)\<rparr>\<rparr>"

subsection \<open>The transmit ring\<close>

definition ring_enqueue :: "bytes \<Rightarrow> mesh_ring \<Rightarrow> bool \<times> mesh_ring" where
  "ring_enqueue data r =
     (if data = [] \<or> length data > kMeshCoreFrameBytes \<or> rg_size r = length (rg_tx r) then (False, r)
      else
        let k = (rg_head r + rg_size r) mod length (rg_tx r);
            frame = \<lparr>fr_bytes = write_at (fr_bytes (rg_tx r ! k)) 0 data, fr_size = length data\<rparr>
        in (True, r\<lparr>rg_tx := (rg_tx r)[k := frame], rg_size := rg_size r + 1, rg_seq := rg_seq r + 1\<rparr>))"

definition enqueue :: "bytes \<Rightarrow> mesh_companion \<Rightarrow> bool \<times> mesh_companion" where
  "enqueue data c = (case ring_enqueue data (mc_ring c) of (ok, r) \<Rightarrow> (ok, c\<lparr>mc_ring := r\<rparr>))"

text \<open>The frame at the head, its slot wiped.\<close>

definition ring_take :: "mesh_ring \<Rightarrow> mesh_frame \<times> mesh_ring" where
  "ring_take r =
     (rg_tx r ! rg_head r,
      r\<lparr>rg_tx := (rg_tx r)[rg_head r := new_mesh_frame], rg_head := (rg_head r + 1) mod length (rg_tx r),
        rg_size := rg_size r - 1\<rparr>)"

definition operation_frame :: "mesh_frame \<Rightarrow> bool" where
  "operation_frame f \<longleftrightarrow> fr_bytes f ! 0 = kSendText \<or> fr_bytes f ! 0 = kSendLogin \<or> fr_bytes f ! 0 = kGetContactByKey"

text \<open>The loop that takes an operation's frames out of the ring and closes the gaps.\<close>

fun compact :: "nat list \<Rightarrow> nat \<Rightarrow> nat \<Rightarrow> mesh_frame list \<Rightarrow> nat \<times> mesh_frame list" where
  "compact [] head kept tx = (kept, tx)"
| "compact (i # is) head kept tx =
     (let from = (head + i) mod length tx in
      if operation_frame (tx ! from) then compact is head kept (tx[from := new_mesh_frame])
      else if kept \<noteq> i
      then compact is head (kept + 1) ((tx[(head + kept) mod length tx := tx ! from])[from := new_mesh_frame])
      else compact is head (kept + 1) tx)"

definition drop_operation_frames :: "mesh_ring \<Rightarrow> mesh_ring" where
  "drop_operation_frames r =
     (case compact [0..<rg_size r] (rg_head r) 0 (rg_tx r) of (kept, tx) \<Rightarrow> r\<lparr>rg_tx := tx, rg_size := kept\<rparr>)"

definition clear_operation :: "mesh_operation \<Rightarrow> mesh_operation" where
  "clear_operation p =
     p\<lparr>op_awaiting_send := False, op_awaiting_confirm := False, op_awaiting_login := False, op_awaiting_contact := False,
       op_contact_peer := new_mesh_peer_id, op_contact_text := replicate 129 0, op_contact_timestamp := 0,
       op_room_peer := new_mesh_peer_id, op_room_text := replicate 129 0, op_room_timestamp := 0,
       op_budget := 0, op_answered := False\<rparr>"

definition end_operation :: "mesh_companion \<Rightarrow> mesh_companion" where
  "end_operation c = c\<lparr>mc_ring := drop_operation_frames (mc_ring c), mc_op := clear_operation (mc_op c)\<rparr>"

subsection \<open>The battery poll\<close>

definition fail_battery_request :: "bool \<Rightarrow> mesh_companion \<Rightarrow> mesh_companion" where
  "fail_battery_request ambiguous c =
     (let b = ms_node_battery (mc_status c) in
      c\<lparr>mc_status := (mc_status c)\<lparr>ms_node_battery :=
          b\<lparr>nb_validity := (if nb_millivolts b \<noteq> 0 then IsStale else ValidityUnknown)\<rparr>\<rparr>,
        mc_battery := (mc_battery c)\<lparr>bt_request := BatteryIdle,
          bt_errors_ambiguous := bt_errors_ambiguous (mc_battery c) \<or> ambiguous\<rparr>\<rparr>)"

definition invalidate_node_battery :: "mesh_companion \<Rightarrow> mesh_companion" where
  "invalidate_node_battery c =
     c\<lparr>mc_status := (mc_status c)\<lparr>ms_node_battery := new_node_battery\<lparr>nb_separate_supply := True\<rparr>\<rparr>,
       mc_battery := (mc_battery c)\<lparr>bt_request := BatteryIdle, bt_identity_blocked := True,
         bt_errors_ambiguous := bt_errors_ambiguous (mc_battery c) \<or> bt_request (mc_battery c) = BatteryWaiting\<rparr>\<rparr>"

section \<open>Sessions\<close>

definition session_status :: "bool \<Rightarrow> bool \<Rightarrow> mesh_status \<Rightarrow> mesh_status" where
  "session_status busy awaiting_contact st =
     st\<lparr>ms_node_name := replicate 33 0, ms_node_id := new_mesh_peer_id, ms_has_node_id := False,
       ms_node_battery := new_node_battery\<lparr>nb_separate_supply := True\<rparr>,
       ms_last_sender := replicate 33 0, ms_last_message := replicate 129 0,
       ms_delivery := (if busy then if awaiting_contact then DeliveryRefused else DeliveryUnknown else ms_delivery st),
       ms_peers_reported := 0, ms_peers_retained := 0, ms_has_snr := False, ms_peers_complete := False,
       ms_message_truncated := False, ms_snapshot := NoSnapshot\<rparr>"

definition reset_session :: "mesh_companion \<Rightarrow> mesh_companion" where
  "reset_session c =
     c\<lparr>mc_status := session_status (send_busy c) (op_awaiting_contact (mc_op c)) (mc_status c),
       mc_battery := new_mesh_battery\<lparr>bt_seq := bt_seq (mc_battery c)\<rparr>,
       mc_wrong_node := False,
       mc_ring := new_mesh_ring\<lparr>rg_seq := rg_seq (mc_ring c)\<rparr>,
       mc_op := clear_operation ((mc_op c)\<lparr>op_expected_ack := replicate 4 0, op_since := 0\<rparr>),
       mc_contacts := new_mesh_contacts,
       mc_drain := new_mesh_drain,
       mc_places := new_mesh_places\<lparr>pl_vars_seq := pl_vars_seq (mc_places c)\<rparr>,
       mc_firmware := 0, mc_device_info_seen := False, mc_self_info_seen := False\<rparr>"

definition mesh_apply :: "link_event \<Rightarrow> monotonic \<Rightarrow> disconnect_reason \<Rightarrow> mesh_companion \<Rightarrow> event_outcome \<times> mesh_companion" where
  "mesh_apply e now reason c = (case apply_link e now reason (mc_link c) of (out, l) \<Rightarrow> (out, c\<lparr>mc_link := l\<rparr>))"

definition mesh_begin :: "monotonic \<Rightarrow> mesh_companion \<Rightarrow> mesh_companion" where
  "mesh_begin now c =
     update_availability (snd (mesh_apply Attach now NoReason (reset_session (c\<lparr>mc_link := link_reset (mc_link c)\<rparr>))))"

definition mesh_peer_arriving :: "monotonic \<Rightarrow> mesh_companion \<Rightarrow> mesh_companion" where
  "mesh_peer_arriving now c = update_availability (snd (mesh_apply PeerArriving now NoReason c))"

definition app_start_frame :: bytes where
  "app_start_frame = [kAppStart, 0, 0, 0, 0, 0, 0, 0, 0x41, 0x74, 0x74, 0x61, 0x64, 0x69, 0x70, 0x61]"

definition mesh_connected :: "monotonic \<Rightarrow> mesh_companion \<Rightarrow> mesh_companion" where
  "mesh_connected now c0 =
     (let c = (if ls_phase (mc_link c0) = Attached then snd (mesh_apply PeerArriving now NoReason c0) else c0)
      in case mesh_apply PeerEstablished now NoReason c of
           (outcome, c1) \<Rightarrow>
             if outcome \<noteq> Applied then update_availability c1
             else update_availability (snd (enqueue app_start_frame (reset_session c1))))"

definition mesh_disconnected :: "monotonic \<Rightarrow> mesh_companion \<Rightarrow> mesh_companion" where
  "mesh_disconnected now c = update_availability (reset_session (snd (mesh_apply PeerGone now PeerClosed c)))"

definition mesh_fault :: "monotonic \<Rightarrow> mesh_companion \<Rightarrow> mesh_companion" where
  "mesh_fault now c = update_availability (reset_session (snd (mesh_apply Fault now FaultReason c)))"

definition drop_oversize_frame :: "mesh_companion \<Rightarrow> mesh_companion" where
  "drop_oversize_frame c = c\<lparr>mc_malformed := mc_malformed c + 1, mc_drain := (mc_drain c)\<lparr>dr_draining := False\<rparr>\<rparr>"

section \<open>Which node\<close>

definition mesh_pin :: "mesh_peer_id \<Rightarrow> mesh_companion \<Rightarrow> mesh_companion" where
  "mesh_pin node c0 =
     (let c = (if ms_has_node_id (mc_status c0) \<and> ms_node_id (mc_status c0) \<noteq> node then invalidate_node_battery c0 else c0)
      in c\<lparr>mc_pinned := node, mc_pinned_set := True,
           mc_status := (mc_status c)\<lparr>ms_pinned_id := node, ms_has_pinned := True\<rparr>\<rparr>)"

definition mesh_unpin :: "mesh_companion \<Rightarrow> bool \<times> mesh_companion" where
  "mesh_unpin c0 =
     (let c = invalidate_node_battery c0
      in (mc_pinned_set c,
          c\<lparr>mc_pinned_set := False, mc_pinned := new_mesh_peer_id, mc_wrong_node := False,
            mc_places := (mc_places c)\<lparr>pl_has_node := False, pl_has_remote := False\<rparr>,
            mc_status := (mc_status c)\<lparr>ms_pinned_id := new_mesh_peer_id, ms_has_pinned := False,
              ms_refused_id := new_mesh_peer_id, ms_has_refused := False\<rparr>\<rparr>))"

definition mesh_pinned :: "mesh_companion \<Rightarrow> mesh_peer_id option" where
  "mesh_pinned c = (if mc_pinned_set c then Some (mc_pinned c) else None)"

definition mesh_node_id :: "mesh_companion \<Rightarrow> mesh_peer_id option" where
  "mesh_node_id c = (if ms_has_node_id (mc_status c) then Some (ms_node_id (mc_status c)) else None)"

definition node_position :: "mesh_companion \<Rightarrow> (geo_position \<times> monotonic) option" where
  "node_position c =
     (if mc_wrong_node c \<or> \<not> pl_has_node (mc_places c) then None
      else Some (pl_node_position (mc_places c), pl_node_at (mc_places c)))"

definition remote_position :: "mesh_companion \<Rightarrow> (mesh_peer_id \<times> geo_position \<times> monotonic) option" where
  "remote_position c =
     (if mc_wrong_node c \<or> \<not> pl_has_remote (mc_places c) then None
      else Some (pl_remote_id (mc_places c), pl_remote_position (mc_places c), pl_remote_at (mc_places c)))"

definition mesh_peer_at :: "nat \<Rightarrow> mesh_companion \<Rightarrow> mesh_peer option" where
  "mesh_peer_at index c = (if index \<ge> length (ct_peers (mc_contacts c)) then None else Some (ct_peers (mc_contacts c) ! index))"

definition loggable_prefix :: "bytes option \<Rightarrow> nat" where
  "loggable_prefix data =
     (case data of
        None \<Rightarrow> 0
      | Some d \<Rightarrow>
          if d = [] then 0
          else if d ! 0 = kSendLogin then (if length d < 33 then length d else 33)
          else length d)"

section \<open>Sending\<close>

definition refuse_text :: "bytes \<Rightarrow> wall_time \<Rightarrow> mesh_companion \<Rightarrow> mesh_send_refusal" where
  "refuse_text body timestamp c =
     (if \<not> link_ready c \<or> \<not> mc_device_info_seen c \<or> \<not> mc_self_info_seen c then LinkNotReady
      else if send_busy c then SendBusy
      else if body = [] then EmptyBody
      else if length body > kMeshTextBytes then BodyTooLong
      else if utf8_prefix_length body (length body) \<noteq> length body then BodyNotUtf8
      else if timestamp < 0 \<or> timestamp > 2 ^ 32 - 1 then TimestampOutOfRange
      else NoRefusal)"

definition next_request_id :: "mesh_companion \<Rightarrow> u32 \<times> mesh_companion" where
  "next_request_id c =
     (let n = op_request_seq (mc_op c) + 1; k = (if n = 0 then 1 else n)
      in (k, c\<lparr>mc_op := (mc_op c)\<lparr>op_request_seq := k\<rparr>\<rparr>))"

text \<open>Publishing an operation under its identifier.\<close>

definition publish :: "u32 \<Rightarrow> mesh_companion \<Rightarrow> mesh_companion" where
  "publish rid c = c\<lparr>mc_status := (mc_status c)\<lparr>ms_delivery := Queued, ms_request_id := rid\<rparr>\<rparr>"

definition text_frame :: "mesh_peer_id \<Rightarrow> bytes \<Rightarrow> wall_time \<Rightarrow> bytes" where
  "text_frame peer body timestamp =
     [kSendText, 0, 0] @ write_u32 (word_of_int timestamp) @ take 6 (public_key peer) @ body"

definition enqueue_private ::
  "mesh_peer_id \<Rightarrow> bytes \<Rightarrow> wall_time \<Rightarrow> u32 \<Rightarrow> mesh_companion \<Rightarrow> mesh_send_result \<times> mesh_companion" where
  "enqueue_private peer body timestamp request_id c =
     (let refusal = refuse_text body timestamp c in
      if refusal \<noteq> NoRefusal then (\<lparr>sr_request_id = 0, sr_refusal = refusal\<rparr>, c)
      else case enqueue (text_frame peer body timestamp) c of
        (False, c1) \<Rightarrow> (\<lparr>sr_request_id = 0, sr_refusal = RingFull\<rparr>, c1)
      | (True, c1) \<Rightarrow>
          let c2 = c1\<lparr>mc_op := (mc_op c1)\<lparr>op_awaiting_send := True, op_answered := False,
                op_seq := rg_seq (mc_ring c1), op_budget := 0\<rparr>\<rparr>
          in case (if request_id \<noteq> 0 then (request_id, c2) else next_request_id c2) of
               (rid, c3) \<Rightarrow> (\<lparr>sr_request_id = rid, sr_refusal = NoRefusal\<rparr>, publish rid c3))"

definition fetch_frame :: "mesh_peer_id \<Rightarrow> bytes" where
  "fetch_frame peer = kGetContactByKey # public_key peer"

definition send_private :: "mesh_peer_id \<Rightarrow> bytes \<Rightarrow> wall_time \<Rightarrow> mesh_companion \<Rightarrow> mesh_send_result \<times> mesh_companion" where
  "send_private peer body timestamp c =
     (if \<exists>p\<in>set (ct_peers (mc_contacts c)). mp_id p = peer then enqueue_private peer body timestamp 0 c
      else
        let refusal = refuse_text body timestamp c; ct = mc_contacts c in
        if refusal \<noteq> NoRefusal then (\<lparr>sr_request_id = 0, sr_refusal = refusal\<rparr>, c)
        else if ct_open ct \<or> ct_retry_open ct \<or> ct_retry_armed ct \<or> (ct_retry_unanswered ct \<and> \<not> ct_retry_start_ruled_out ct)
        then (\<lparr>sr_request_id = 0, sr_refusal = ContactsBusy\<rparr>, c)
        else case enqueue (fetch_frame peer) c of
          (False, c1) \<Rightarrow> (\<lparr>sr_request_id = 0, sr_refusal = RingFull\<rparr>, c1)
        | (True, c1) \<Rightarrow>
            let c2 = c1\<lparr>mc_op := (mc_op c1)\<lparr>op_contact_peer := peer,
                  op_contact_text := write_at (op_contact_text (mc_op c1)) 0 (body @ [0]),
                  op_contact_timestamp := timestamp, op_awaiting_contact := True, op_answered := False,
                  op_seq := rg_seq (mc_ring c1), op_budget := 0\<rparr>\<rparr>
            in case next_request_id c2 of
                 (rid, c3) \<Rightarrow> (\<lparr>sr_request_id = rid, sr_refusal = NoRefusal\<rparr>, publish rid c3))"

definition login_frame :: "bytes \<Rightarrow> bytes \<Rightarrow> bytes" where
  "login_frame room password = kSendLogin # room @ password"

definition send_room :: "bytes \<Rightarrow> bytes \<Rightarrow> bytes \<Rightarrow> wall_time \<Rightarrow> mesh_companion \<Rightarrow> mesh_send_result \<times> mesh_companion" where
  "send_room room password body timestamp c =
     (let refusal = refuse_text body timestamp c in
      if refusal \<noteq> NoRefusal then (\<lparr>sr_request_id = 0, sr_refusal = refusal\<rparr>, c)
      else if password = [] \<or> length password > 15 then (\<lparr>sr_request_id = 0, sr_refusal = RoomPasswordInvalid\<rparr>, c)
      else case enqueue (login_frame room password) c of
        (False, c1) \<Rightarrow> (\<lparr>sr_request_id = 0, sr_refusal = RingFull\<rparr>, c1)
      | (True, c1) \<Rightarrow>
          let c2 = c1\<lparr>mc_op := (mc_op c1)\<lparr>op_room_peer := \<lparr>public_key = room\<rparr>,
                op_room_text := write_at (op_room_text (mc_op c1)) 0 (body @ [0]),
                op_room_timestamp := timestamp, op_awaiting_login := True, op_answered := False,
                op_seq := rg_seq (mc_ring c1), op_budget := 0\<rparr>\<rparr>
          in case next_request_id c2 of
               (rid, c3) \<Rightarrow> (\<lparr>sr_request_id = rid, sr_refusal = NoRefusal\<rparr>, publish rid c3))"

section \<open>Messages and contacts\<close>

definition request_next_message :: "monotonic \<Rightarrow> mesh_companion \<Rightarrow> bool \<times> mesh_companion" where
  "request_next_message now c =
     (case enqueue [kSyncNextMessage] c of
        (False, c1) \<Rightarrow> (False, c1\<lparr>mc_drain := (mc_drain c1)\<lparr>dr_draining := False\<rparr>\<rparr>)
      | (True, c1) \<Rightarrow> (True, c1\<lparr>mc_drain := (mc_drain c1)\<lparr>dr_draining := True, dr_since := now\<rparr>\<rparr>))"

definition spend_pending_push :: "monotonic \<Rightarrow> mesh_companion \<Rightarrow> bool \<times> mesh_companion" where
  "spend_pending_push now c =
     (if \<not> dr_pending_push (mc_drain c) then (True, c)
      else case request_next_message now c of
        (False, c1) \<Rightarrow> (False, c1)
      | (True, c1) \<Rightarrow> (True, c1\<lparr>mc_drain := (mc_drain c1)\<lparr>dr_pending_push := False\<rparr>\<rparr>))"

definition drain_after :: "bool \<Rightarrow> monotonic \<Rightarrow> mesh_companion \<Rightarrow> mesh_companion" where
  "drain_after took now c =
     (if took then snd (request_next_message now c) else c\<lparr>mc_drain := (mc_drain c)\<lparr>dr_draining := False\<rparr>\<rparr>)"

fun replace_peer :: "mesh_peer \<Rightarrow> mesh_peer list \<Rightarrow> mesh_peer list" where
  "replace_peer p [] = []"
| "replace_peer p (q # qs) = (if mp_id q = mp_id p then p # qs else q # replace_peer p qs)"

definition known_peer :: "mesh_peer \<Rightarrow> mesh_peer list \<Rightarrow> bool" where
  "known_peer p ps \<longleftrightarrow> (\<exists>q\<in>set ps. mp_id q = mp_id p)"

definition place_peer :: "mesh_peer \<Rightarrow> mesh_peer list \<Rightarrow> mesh_peer list" where
  "place_peer p ps =
     (if known_peer p ps then replace_peer p ps
      else if length ps < kRetainedPeers then ps @ [p] else ps)"

definition contact_of :: "bytes \<Rightarrow> mesh_peer" where
  "contact_of data =
     \<lparr>mp_id = \<lparr>public_key = take 32 (drop 1 data)\<rparr>,
      mp_name = fst (copy_text (replicate (kMeshPeerNameBytes + 1) 0) (takeWhile (\<lambda>c. c \<noteq> 0) (take 32 (drop 100 data))))\<rparr>"

definition accept_contact :: "bytes \<Rightarrow> mesh_companion \<Rightarrow> mesh_companion" where
  "accept_contact data c =
     (let ct = mc_contacts c; candidate = contact_of data in
      if length data < 148 \<or> data ! 33 \<noteq> kAdvertTypeChat then c
      else if ct_retry_swept ct \<and> \<not> ct_retry_open ct then c
      else if ct_retry_open ct
      then c\<lparr>mc_contacts := ct\<lparr>ct_incoming_peers := place_peer candidate (ct_incoming_peers ct)\<rparr>\<rparr>
      else
        let peers = place_peer candidate (ct_peers ct)
        in c\<lparr>mc_contacts := ct\<lparr>ct_peers := peers\<rparr>,
             mc_status := (if \<not> known_peer candidate (ct_peers ct) \<and> length (ct_peers ct) < kRetainedPeers
               then (mc_status c)\<lparr>ms_peers_retained := of_nat (length peers)\<rparr> else mc_status c)\<rparr>)"

definition find_peer_prefix :: "bytes \<Rightarrow> mesh_companion \<Rightarrow> mesh_peer option" where
  "find_peer_prefix prefix c = List.find (\<lambda>p. take 6 (public_key (mp_id p)) = prefix) (ct_peers (mc_contacts c))"

definition end_contacts :: "monotonic \<Rightarrow> mesh_companion \<Rightarrow> bool \<times> mesh_companion" where
  "end_contacts now c =
     (if ct_complete (mc_contacts c) then (True, c)
      else if \<not> pl_vars_requested (mc_places c) \<and> rg_size (mc_ring c) + 2 > length (rg_tx (mc_ring c)) then (False, c)
      else case request_next_message now c of
        (False, c1) \<Rightarrow> (False, c1)
      | (True, c1) \<Rightarrow>
          let c2 = c1\<lparr>mc_contacts := (mc_contacts c1)\<lparr>ct_complete := True, ct_open := False, ct_end_unsent := False\<rparr>\<rparr>
          in if pl_vars_requested (mc_places c2) then (True, c2)
             else case enqueue [kGetCustomVars] c2 of
               (False, c3) \<Rightarrow> (True, c3)
             | (True, c3) \<Rightarrow> (True, c3\<lparr>mc_places := (mc_places c3)\<lparr>pl_vars_requested := True, pl_awaiting_vars := True,
                   pl_vars_since := now, pl_vars_seq := rg_seq (mc_ring c3)\<rparr>\<rparr>))"

definition settle_snapshot :: "monotonic \<Rightarrow> mesh_companion \<Rightarrow> mesh_companion" where
  "settle_snapshot now c =
     (if \<not> ct_dirty (mc_contacts c) then c\<lparr>mc_status := (mc_status c)\<lparr>ms_snapshot := Consistent\<rparr>\<rparr>
      else if ct_retries_left (mc_contacts c) = 0
      then c\<lparr>mc_status := (mc_status c)\<lparr>ms_snapshot := SnapshotDegraded\<rparr>\<rparr>
      else c\<lparr>mc_status := (mc_status c)\<lparr>ms_snapshot := Dirty\<rparr>,
             mc_contacts := (mc_contacts c)\<lparr>ct_dirty_end_at := now\<rparr>\<rparr>)"

definition finish_retry :: "monotonic \<Rightarrow> bool \<Rightarrow> mesh_companion \<Rightarrow> mesh_companion" where
  "finish_retry now ended_by_node c0 =
     (let c = c0\<lparr>mc_contacts := (mc_contacts c0)\<lparr>ct_retry_open := False\<rparr>\<rparr>; ct = mc_contacts c in
      if \<not> ended_by_node
      then settle_snapshot now (c\<lparr>mc_contacts := ct\<lparr>ct_retry_swept := True, ct_dirty := True\<rparr>\<rparr>)
      else settle_snapshot now
        (if \<not> ct_dirty ct \<or> ct_retries_left ct = 0
         then c\<lparr>mc_contacts := ct\<lparr>ct_peers := ct_incoming_peers ct\<rparr>,
                mc_status := (mc_status c)\<lparr>ms_peers_retained := of_nat (length (ct_incoming_peers ct)),
                  ms_peers_reported := ct_incoming_reported ct\<rparr>\<rparr>
         else c))"

definition adopt_remote_position :: "mesh_peer option \<Rightarrow> monotonic \<Rightarrow> mesh_companion \<Rightarrow> mesh_companion" where
  "adopt_remote_position sender now c =
     (case sender of
        None \<Rightarrow> c
      | Some peer \<Rightarrow>
          if ms_message_truncated (mc_status c) then c
          else case parse_trailing_coordinate (c_string (ms_last_message (mc_status c))) of
            None \<Rightarrow> c
          | Some p \<Rightarrow>
              let pl = mc_places c in
              if pl_has_remote pl \<and> pl_remote_id pl = mp_id peer \<and>
                 latitude_e7 (pl_remote_position pl) = latitude_e7 p \<and> longitude_e7 (pl_remote_position pl) = longitude_e7 p
              then c
              else c\<lparr>mc_places := pl\<lparr>pl_remote_id := mp_id peer, pl_remote_position := p, pl_remote_at := now,
                     pl_has_remote := True\<rparr>\<rparr>)"

text \<open>A message in the message buffer.\<close>

definition show_message :: "bytes \<Rightarrow> bytes \<Rightarrow> mesh_status \<Rightarrow> mesh_status" where
  "show_message sender body st =
     (case copy_text (ms_last_message st) body of (buf, clipped) \<Rightarrow>
        st\<lparr>ms_last_sender := sender, ms_last_message := buf, ms_message_truncated := clipped\<rparr>)"

definition accept_message :: "bytes \<Rightarrow> bool \<Rightarrow> monotonic \<Rightarrow> mesh_companion \<Rightarrow> bool \<times> mesh_companion" where
  "accept_message data v3 now c =
     (let prefix = (if v3 then 4 else 1); text_type = (if v3 then 11 else 8); start = (if v3 then 16 else 13) in
      if length data < start then (False, count_malformed c)
      else if data ! text_type = kTextCliData then (True, c\<lparr>mc_cli := mc_cli c + 1\<rparr>)
      else if data ! text_type = kTextSignedPlain \<and> length data < start + 4 then (False, count_malformed c)
      else
        let from = (if data ! text_type = kTextSignedPlain then start + 4 else start);
            st = (mc_status c)\<lparr>ms_has_snr := v3, ms_snr_quarter_db := (if v3 then data ! 1 else ms_snr_quarter_db (mc_status c))\<rparr>;
            sender = find_peer_prefix (take 6 (drop prefix data)) c;
            name = (case sender of None \<Rightarrow> replicate 33 0 | Some p \<Rightarrow> mp_name p)
        in (True, adopt_remote_position sender now (c\<lparr>mc_status := show_message name (drop from data) st\<rparr>)))"

definition accept_channel_message_v3 :: "bytes \<Rightarrow> mesh_companion \<Rightarrow> bool \<times> mesh_companion" where
  "accept_channel_message_v3 data c =
     (if length data < 11 \<or> data ! 6 \<noteq> 0 then (False, count_malformed c)
      else (True, c\<lparr>mc_status := show_message (replicate 33 0) (drop 11 data)
              ((mc_status c)\<lparr>ms_has_snr := True, ms_snr_quarter_db := data ! 1\<rparr>)\<rparr>))"

definition accept_self_position :: "bytes \<Rightarrow> monotonic \<Rightarrow> mesh_companion \<Rightarrow> mesh_companion" where
  "accept_self_position data now c =
     (let latitude = sint (little_u32 data) * 10; longitude = sint (little_u32 (drop 4 data)) * 10; narrows = 2147483647;
          p = \<lparr>latitude_e7 = latitude, longitude_e7 = longitude\<rparr> in
      if latitude < - narrows \<or> latitude > narrows \<or> longitude < - narrows \<or> longitude > narrows
      then c\<lparr>mc_places := (mc_places c)\<lparr>pl_has_node := False\<rparr>\<rparr>
      else if \<not> in_range p then c\<lparr>mc_places := (mc_places c)\<lparr>pl_has_node := False\<rparr>\<rparr>
      else c\<lparr>mc_places := (mc_places c)\<lparr>pl_node_position := p, pl_node_at := now, pl_has_node := True\<rparr>\<rparr>)"

text \<open>The variables, separated by commas; the last \<open>gps:\<close> among them decides.\<close>

fun split_commas :: "bytes \<Rightarrow> bytes \<Rightarrow> bytes list" where
  "split_commas [] word = [word]"
| "split_commas (c # cs) word = (if c = ch_comma then word # split_commas cs [] else split_commas cs (word @ [c]))"

definition gps_variable :: "bytes \<Rightarrow> receiver_presence \<Rightarrow> receiver_presence" where
  "gps_variable w receiver =
     (if length w \<ge> 4 \<and> take 4 w = [0x67, 0x70, 0x73, 0x3A]
      then
        let val = (if length w \<ge> 5 then w ! 4 else 0)
        in (if val = 0x31 then Running else if val = 0x30 then PoweredOff else PresenceUnknown)
      else receiver)"

definition accept_custom_vars :: "bytes \<Rightarrow> mesh_companion \<Rightarrow> mesh_companion" where
  "accept_custom_vars data c =
     c\<lparr>mc_places := (mc_places c)\<lparr>pl_receiver := fold gps_variable (split_commas data []) NotDetected\<rparr>\<rparr>"

definition take_fetched_contact :: "bytes \<Rightarrow> mesh_companion \<Rightarrow> mesh_companion" where
  "take_fetched_contact data c0 =
     (let op0 = mc_op c0; rid = ms_request_id (mc_status c0);
          c = c0\<lparr>mc_op := op0\<lparr>op_awaiting_contact := False, op_contact_peer := new_mesh_peer_id,
                op_contact_text := replicate 129 0, op_contact_timestamp := 0\<rparr>\<rparr> in
      if data ! 33 \<noteq> kAdvertTypeChat then end_operation (set_delivery DeliveryRefused c)
      else case enqueue_private (op_contact_peer op0) (c_string (op_contact_text op0)) (op_contact_timestamp op0) rid c of
        (result, c1) \<Rightarrow> if accepted result then c1 else set_delivery DeliveryRefused c1)"

section \<open>What arrives\<close>

text \<open>
  One definition per answer: whether the frame was understood, and the state after. \<open>break\<close> in the
  source is \<open>True\<close> here; \<open>receive\<close> then updates the availability.
\<close>

definition malformed :: "mesh_companion \<Rightarrow> bool \<times> mesh_companion" where
  "malformed c = (False, count_malformed c)"

text \<open>\<open>if (!enqueue(...)) { ++malformed_frames_; return false; } break;\<close>\<close>

definition ask :: "bytes \<Rightarrow> mesh_companion \<Rightarrow> bool \<times> mesh_companion" where
  "ask data c = (case enqueue data c of (ok, c1) \<Rightarrow> if ok then (True, c1) else malformed c1)"

definition on_device_info :: "bytes \<Rightarrow> mesh_companion \<Rightarrow> bool \<times> mesh_companion" where
  "on_device_info data c0 =
     (if length data < 82 then malformed c0
      else
        let c = c0\<lparr>mc_firmware := data ! 1\<rparr> in
        if mc_device_info_seen c then (True, c)
        else ask [kGetContacts] (c\<lparr>mc_device_info_seen := True\<rparr>))"

definition on_self_info :: "bytes \<Rightarrow> monotonic \<Rightarrow> mesh_companion \<Rightarrow> bool \<times> mesh_companion" where
  "on_self_info data now c0 =
     (if length data < 58 then malformed c0
      else
        let node = \<lparr>public_key = take 32 (drop 4 data)\<rparr>;
            c1 = (if ms_has_node_id (mc_status c0) \<and> ms_node_id (mc_status c0) \<noteq> node then invalidate_node_battery c0 else c0);
            c = c1\<lparr>mc_status := (mc_status c1)\<lparr>ms_node_id := node, ms_has_node_id := True,
                  ms_node_name := fst (copy_text (ms_node_name (mc_status c1)) (drop 58 data))\<rparr>\<rparr> in
        if mc_pinned_set c \<and> node \<noteq> mc_pinned c
        then (True, c\<lparr>mc_wrong_node := True, mc_status := (mc_status c)\<lparr>ms_refused_id := node, ms_has_refused := True\<rparr>\<rparr>)
        else
          let c2 = (if mc_pinned_set c
                then c\<lparr>mc_status := (mc_status c)\<lparr>ms_refused_id := new_mesh_peer_id, ms_has_refused := False\<rparr>\<rparr> else c);
              c3 = accept_self_position (drop 36 data) now c2 in
          if mc_self_info_seen c3 then (True, c3)
          else ask [kDeviceQuery, kAppProtocolVersion] (c3\<lparr>mc_self_info_seen := True\<rparr>))"

definition on_contacts_start :: "bytes \<Rightarrow> monotonic \<Rightarrow> mesh_companion \<Rightarrow> bool \<times> mesh_companion" where
  "on_contacts_start data now c0 =
     (if length data < 5 then malformed c0
      else
        let n = little_u32 (drop 1 data);
            reported = (if n < 0xFFFF then ucast n else 0xFFFF :: u16);
            ct = (mc_contacts c0)\<lparr>ct_dirty := False, ct_last_contact_at := now, ct_retry_swept := False, ct_end_unsent := False\<rparr> in
        if ct_retry_unanswered ct
        then (True, c0\<lparr>mc_contacts := ct\<lparr>ct_retry_armed := False, ct_retry_unanswered := False, ct_retry_open := True,
              ct_incoming_peers := [], ct_incoming_reported := reported\<rparr>\<rparr>)
        else (True, c0\<lparr>mc_contacts := ct\<lparr>ct_peers := [], ct_complete := False, ct_open := True\<rparr>,
              mc_status := (mc_status c0)\<lparr>ms_peers_reported := reported, ms_peers_retained := 0, ms_peers_complete := False\<rparr>\<rparr>))"

definition on_contact :: "bytes \<Rightarrow> monotonic \<Rightarrow> mesh_companion \<Rightarrow> bool \<times> mesh_companion" where
  "on_contact data now c =
     (if length data < 148 then malformed c
      else if op_awaiting_contact (mc_op c) \<and> (\<not> ct_open (mc_contacts c) \<or> ct_end_unsent (mc_contacts c)) \<and>
              \<not> ct_retry_open (mc_contacts c) \<and> take 32 (drop 1 data) = public_key (op_contact_peer (mc_op c))
      then (True, take_fetched_contact data c)
      else
        let c1 = accept_contact data c
        in (True, c1\<lparr>mc_contacts := (mc_contacts c1)\<lparr>ct_last_contact_at := now\<rparr>\<rparr>))"

definition on_contacts_end :: "bytes \<Rightarrow> monotonic \<Rightarrow> mesh_companion \<Rightarrow> bool \<times> mesh_companion" where
  "on_contacts_end data now c =
     (if length data < 5 then malformed c
      else if ct_retry_open (mc_contacts c) then (True, finish_retry now True c)
      else if (\<not> ct_open (mc_contacts c) \<and> ct_complete (mc_contacts c)) \<or> \<not> mc_device_info_seen c then (True, c)
      else
        let ct = (if \<not> ct_open (mc_contacts c)
                then (mc_contacts c)\<lparr>ct_dirty := True, ct_open := True, ct_last_contact_at := now\<rparr> else mc_contacts c);
            c1 = c\<lparr>mc_contacts := ct\<lparr>ct_end_unsent := True\<rparr>\<rparr>
        in case end_contacts now c1 of
             (False, c2) \<Rightarrow> (True, c2)
           | (True, c2) \<Rightarrow> (True, settle_snapshot now (c2\<lparr>mc_status := (mc_status c2)\<lparr>ms_peers_complete := True\<rparr>\<rparr>)))"

definition mark_dirty :: "mesh_companion \<Rightarrow> mesh_companion" where
  "mark_dirty c =
     (if ct_open (mc_contacts c) \<or> ct_retry_open (mc_contacts c)
      then c\<lparr>mc_contacts := (mc_contacts c)\<lparr>ct_dirty := True\<rparr>\<rparr> else c)"

definition on_contact_deleted :: "bytes \<Rightarrow> mesh_companion \<Rightarrow> bool \<times> mesh_companion" where
  "on_contact_deleted data c0 =
     (let c = mark_dirty c0; pl = mc_places c in
      if length data < 33 then malformed c
      else if pl_has_remote pl \<and> take 32 (drop 1 data) = public_key (pl_remote_id pl)
      then (True, c\<lparr>mc_places := pl\<lparr>pl_has_remote := False, pl_remote_id := new_mesh_peer_id\<rparr>\<rparr>)
      else (True, c))"

definition on_custom_vars :: "bytes \<Rightarrow> mesh_companion \<Rightarrow> bool \<times> mesh_companion" where
  "on_custom_vars data c0 =
     (let c = accept_custom_vars (drop 1 data) c0
      in (True, c\<lparr>mc_places := (mc_places c)\<lparr>pl_awaiting_vars := False\<rparr>\<rparr>))"

definition on_battery :: "bytes \<Rightarrow> monotonic \<Rightarrow> mesh_companion \<Rightarrow> bool \<times> mesh_companion" where
  "on_battery data now c =
     (let b = mc_battery c; ct = mc_contacts c in
      if bt_request b \<noteq> BatteryWaiting \<or> bt_identity_blocked b \<or> \<not> ms_has_node_id (mc_status c) then (False, c)
      else if elapsed (bt_started b) now \<ge> kBatteryReplyBudget then (False, fail_battery_request False c)
      else if length data < 11 then (False, fail_battery_request False (count_malformed c))
      else
        let c1 = (if ct_retry_unanswered ct \<and> \<not> bt_errors_ambiguous b \<and> \<not> bt_reply_unaccounted b \<and> bt_seq b > ct_seq ct
                then c\<lparr>mc_contacts := ct\<lparr>ct_retry_start_ruled_out := True\<rparr>\<rparr> else c);
            millivolts = (ucast (data ! 1) OR push_bit 8 (ucast (data ! 2)) :: u16) in
        if millivolts = 0 then (True, fail_battery_request False c1)
        else (True, c1\<lparr>mc_battery := (mc_battery c1)\<lparr>bt_request := BatteryIdle\<rparr>,
               mc_status := (mc_status c1)\<lparr>ms_node_battery := (ms_node_battery (mc_status c1))
                 \<lparr>nb_millivolts := millivolts, nb_received_at := now, nb_validity := IsValid\<rparr>\<rparr>\<rparr>))"

definition ack_wait :: "u32 \<Rightarrow> millis" where
  "ack_wait estimate = (if estimate < kMinAckWait then kMinAckWait else if estimate > kMaxAckWait then kMaxAckWait else estimate)"

definition on_sent :: "bytes \<Rightarrow> monotonic \<Rightarrow> mesh_companion \<Rightarrow> bool \<times> mesh_companion" where
  "on_sent data now c =
     (if length data < 10 \<or> (\<not> op_awaiting_send (mc_op c) \<and> \<not> op_awaiting_login (mc_op c)) then malformed c
      else
        let c1 = (if op_awaiting_send (mc_op c)
                then set_delivery DeliveryAccepted (c\<lparr>mc_op := (mc_op c)\<lparr>op_expected_ack := take 4 (drop 2 data),
                    op_awaiting_send := False, op_awaiting_confirm := True\<rparr>\<rparr>)
                else c)
        in (True, c1\<lparr>mc_op := (mc_op c1)\<lparr>op_answered := True, op_since := now, op_budget := ack_wait (little_u32 (drop 6 data))\<rparr>\<rparr>))"

definition on_send_confirmed :: "bytes \<Rightarrow> mesh_companion \<Rightarrow> bool \<times> mesh_companion" where
  "on_send_confirmed data c =
     (if length data < 5 then malformed c
      else if op_expected_ack (mc_op c) = replicate 4 0 then (True, c)
      else if take 4 (drop 1 data) \<noteq> op_expected_ack (mc_op c) then (True, c)
      else if op_awaiting_confirm (mc_op c)
      then (True, set_delivery Confirmed (c\<lparr>mc_op := (mc_op c)\<lparr>op_awaiting_confirm := False\<rparr>\<rparr>))
      else if ms_delivery (mc_status c) = Unconfirmed then (True, set_delivery Confirmed c)
      else (True, c))"

definition on_message_waiting :: "monotonic \<Rightarrow> mesh_companion \<Rightarrow> bool \<times> mesh_companion" where
  "on_message_waiting now c0 =
     (let c = c0\<lparr>mc_drain := (mc_drain c0)\<lparr>dr_pending_push := True\<rparr>\<rparr> in
      if dr_draining (mc_drain c) then (True, c)
      else case spend_pending_push now c of (ok, c1) \<Rightarrow> if ok then (True, c1) else malformed c1)"

definition clear_room :: "mesh_companion \<Rightarrow> mesh_companion" where
  "clear_room c = c\<lparr>mc_op := (mc_op c)\<lparr>op_room_peer := new_mesh_peer_id, op_room_text := replicate 129 0, op_room_timestamp := 0\<rparr>\<rparr>"

definition on_login_success :: "bytes \<Rightarrow> mesh_companion \<Rightarrow> bool \<times> mesh_companion" where
  "on_login_success data c0 =
     (if length data < 8 \<or> \<not> op_awaiting_login (mc_op c0) \<or> take 6 (drop 2 data) \<noteq> take 6 (public_key (op_room_peer (mc_op c0)))
      then malformed c0
      else
        let c = c0\<lparr>mc_op := (mc_op c0)\<lparr>op_awaiting_login := False\<rparr>\<rparr>
        in case enqueue_private (op_room_peer (mc_op c)) (c_string (op_room_text (mc_op c))) (op_room_timestamp (mc_op c))
                  (ms_request_id (mc_status c)) c of
             (result, c1) \<Rightarrow> (True, clear_room (if accepted result then c1 else set_delivery DeliveryRefused c1)))"

definition on_login_fail :: "bytes \<Rightarrow> mesh_companion \<Rightarrow> bool \<times> mesh_companion" where
  "on_login_fail data c =
     (if length data < 7 \<or> \<not> op_awaiting_login (mc_op c) \<or> take 6 (drop 1 data) \<noteq> take 6 (public_key (op_room_peer (mc_op c)))
      then malformed c
      else (True, set_delivery DeliveryRefused (end_operation c)))"

definition on_no_more_messages :: "bytes \<Rightarrow> mesh_companion \<Rightarrow> bool \<times> mesh_companion" where
  "on_no_more_messages data c =
     (if length data \<noteq> 1 then malformed c
      else (True, c\<lparr>mc_drain := (mc_drain c)\<lparr>dr_draining := False, dr_pending_push := False\<rparr>\<rparr>))"

definition on_error :: "bytes \<Rightarrow> monotonic \<Rightarrow> mesh_companion \<Rightarrow> bool \<times> mesh_companion" where
  "on_error data now c0 =
     (if length data < 2 then malformed c0
      else
        let drain_was_active = dr_draining (mc_drain c0);
            c = c0\<lparr>mc_drain := (mc_drain c0)\<lparr>dr_draining := False\<rparr>\<rparr>;
            op_owed = op_owed_an_answer c; pl = mc_places c; ct = mc_contacts c in
        if bt_request (mc_battery c) = BatteryWaiting
        then (True, if drain_was_active then c
                    else let c1 = fail_battery_request False c
                         in c1\<lparr>mc_battery := (mc_battery c1)\<lparr>bt_reply_unaccounted := True\<rparr>\<rparr>)
        else if pl_awaiting_vars pl \<and> (\<not> op_owed \<or> pl_vars_seq pl < op_seq (mc_op c)) \<and>
                (\<not> ct_retry_armed ct \<or> pl_vars_seq pl < ct_seq ct)
        then (True, c\<lparr>mc_places := pl\<lparr>pl_awaiting_vars := False\<rparr>\<rparr>)
        else if ct_retry_armed ct \<and> (\<not> op_owed \<or> ct_seq ct < op_seq (mc_op c))
        then (True, settle_snapshot now (c\<lparr>mc_contacts := ct\<lparr>ct_retry_armed := False, ct_retry_unanswered := False\<rparr>\<rparr>))
        else if bt_errors_ambiguous (mc_battery c) then (True, c)
        else if send_busy c
        then (True, end_operation (set_delivery (if op_awaiting_confirm (mc_op c) then Unconfirmed else DeliveryRefused) c))
        else (True, c))"

definition mesh_dispatch :: "bytes \<Rightarrow> monotonic \<Rightarrow> mesh_companion \<Rightarrow> bool \<times> mesh_companion" where
  "mesh_dispatch data now c =
     (let code = data ! 0 in
      if code = kResponseDeviceInfo then on_device_info data c
      else if code = kResponseSelfInfo then on_self_info data now c
      else if code = kResponseContactsStart then on_contacts_start data now c
      else if code = kResponseContact then on_contact data now c
      else if code = kResponseContactsEnd then on_contacts_end data now c
      else if code = kPushContactDeleted then on_contact_deleted data c
      else if code = kPushAdvert \<or> code = kPushPathUpdated \<or> code = kPushPathDiscovery then (True, mark_dirty c)
      else if code = kPushNewAdvert \<or> code = kPushContactsFull then (True, c)
      else if code = kResponseCustomVars then on_custom_vars data c
      else if code = kResponseBatteryAndStorage then on_battery data now c
      else if code = kResponseSent then on_sent data now c
      else if code = kPushSendConfirmed then on_send_confirmed data c
      else if code = kPushMessageWaiting then on_message_waiting now c
      else if code = kPushLoginSuccess then on_login_success data c
      else if code = kPushLoginFail then on_login_fail data c
      else if code = kResponseContactMessage
      then (case accept_message data False now c of (took, c1) \<Rightarrow> (True, drain_after took now c1))
      else if code = kResponseContactMessageV3
      then (case accept_message data True now c of (took, c1) \<Rightarrow> (True, drain_after took now c1))
      else if code = kResponseChannelMessageV3
      then (case accept_channel_message_v3 data c of (took, c1) \<Rightarrow> (True, drain_after took now c1))
      else if code = kResponseNoMoreMessages then on_no_more_messages data c
      else if code = kResponseError then on_error data now c
      else malformed c)"

definition mesh_receive :: "bytes option \<Rightarrow> monotonic \<Rightarrow> mesh_companion \<Rightarrow> bool \<times> mesh_companion" where
  "mesh_receive data now c =
     (case data of
        None \<Rightarrow> malformed c
      | Some d \<Rightarrow>
          if d = [] \<or> length d > kMeshCoreFrameBytes \<or> \<not> link_ready c then malformed c
          else if mc_wrong_node c then (False, c)
          else case mesh_dispatch d now (snd (mesh_apply PeerData now NoReason c)) of
            (True, c1) \<Rightarrow> (True, update_availability c1)
          | (False, c1) \<Rightarrow> (False, c1))"

section \<open>The clock and the transport\<close>

definition tick_battery :: "monotonic \<Rightarrow> mesh_companion \<Rightarrow> mesh_companion" where
  "tick_battery now c0 =
     (let c1 = c0\<lparr>mc_link := link_tick now (mc_link c0), mc_battery := (mc_battery c0)\<lparr>bt_poll_now := now\<rparr>\<rparr>;
          c2 = (if bt_request (mc_battery c1) = BatteryWaiting \<and> elapsed (bt_started (mc_battery c1)) now \<ge> kBatteryReplyBudget
                then fail_battery_request True c1 else c1);
          b = ms_node_battery (mc_status c2);
          c3 = (if nb_validity b = IsValid \<and> elapsed (nb_received_at b) now \<ge> kBatteryFreshness
                then c2\<lparr>mc_status := (mc_status c2)\<lparr>ms_node_battery := b\<lparr>nb_validity := IsStale\<rparr>\<rparr>\<rparr> else c2)
      in c3\<lparr>mc_battery := (mc_battery c3)\<lparr>bt_due :=
           (\<not> bt_polled (mc_battery c3) \<or> elapsed (bt_started (mc_battery c3)) now \<ge> kBatteryPollPeriod)\<rparr>\<rparr>)"

definition tick_operation :: "monotonic \<Rightarrow> mesh_companion \<Rightarrow> mesh_companion" where
  "tick_operation now c =
     (if \<not> send_busy c then c\<lparr>mc_op := (mc_op c)\<lparr>op_budget := 0\<rparr>\<rparr>
      else if op_budget (mc_op c) = 0 \<and> bt_request (mc_battery c) \<noteq> BatteryWaiting
      then c\<lparr>mc_op := (mc_op c)\<lparr>op_since := now, op_budget := kMaxAckWait\<rparr>\<rparr>
      else if op_budget (mc_op c) \<noteq> 0 \<and> elapsed (op_since (mc_op c)) now \<ge> op_budget (mc_op c)
      then end_operation (set_delivery
             (if op_awaiting_confirm (mc_op c) then Unconfirmed
              else if op_awaiting_contact (mc_op c) then DeliveryRefused else DeliveryUnknown) c)
      else c)"

definition tick_vars :: "monotonic \<Rightarrow> mesh_companion \<Rightarrow> mesh_companion" where
  "tick_vars now c =
     (if pl_awaiting_vars (mc_places c) \<and> elapsed (pl_vars_since (mc_places c)) now \<ge> kMaxAckWait
      then c\<lparr>mc_places := (mc_places c)\<lparr>pl_awaiting_vars := False\<rparr>\<rparr> else c)"

definition tick_retry_deadline :: "monotonic \<Rightarrow> mesh_companion \<Rightarrow> mesh_companion" where
  "tick_retry_deadline now c =
     (if ct_retry_armed (mc_contacts c) \<and> elapsed (ct_retry_since (mc_contacts c)) now \<ge> kMaxAckWait
      then settle_snapshot now (c\<lparr>mc_contacts := (mc_contacts c)\<lparr>ct_retry_armed := False\<rparr>\<rparr>) else c)"

definition tick_retry_ask :: "monotonic \<Rightarrow> mesh_companion \<Rightarrow> mesh_companion" where
  "tick_retry_ask now c =
     (let ct = mc_contacts c in
      if ct_dirty ct \<and> \<not> ct_open ct \<and> \<not> ct_retry_open ct \<and> \<not> ct_retry_unanswered ct \<and> \<not> mc_wrong_node c \<and>
         \<not> op_awaiting_contact (mc_op c) \<and> ct_retries_left ct > 0 \<and> elapsed (ct_dirty_end_at ct) now \<ge> kSnapshotRetryDelay
      then case enqueue [kGetContacts] c of
             (False, c1) \<Rightarrow> c1
           | (True, c1) \<Rightarrow> c1\<lparr>mc_contacts := ct\<lparr>ct_retries_left := ct_retries_left ct - 1, ct_retry_armed := True,
                 ct_retry_unanswered := True, ct_retry_start_ruled_out := False, ct_retry_since := now,
                 ct_seq := rg_seq (mc_ring c1)\<rparr>,
                 mc_status := (mc_status c1)\<lparr>ms_snapshot := RetryPending\<rparr>\<rparr>
      else c)"

definition tick_quiet :: "monotonic \<Rightarrow> mesh_companion \<Rightarrow> mesh_companion" where
  "tick_quiet now c =
     (if ct_open (mc_contacts c) \<and> \<not> mc_wrong_node c \<and> elapsed (ct_last_contact_at (mc_contacts c)) now \<ge> kContactsQuiet
      then case end_contacts now c of
             (False, c1) \<Rightarrow> c1
           | (True, c1) \<Rightarrow> settle_snapshot now (c1\<lparr>mc_status := (mc_status c1)\<lparr>ms_peers_complete := True\<rparr>\<rparr>)
      else c)"

definition tick_retry_quiet :: "monotonic \<Rightarrow> mesh_companion \<Rightarrow> mesh_companion" where
  "tick_retry_quiet now c =
     (if ct_retry_open (mc_contacts c) \<and> elapsed (ct_last_contact_at (mc_contacts c)) now \<ge> kContactsQuiet
      then finish_retry now False c else c)"

definition tick_drain :: "monotonic \<Rightarrow> mesh_companion \<Rightarrow> mesh_companion" where
  "tick_drain now c0 =
     (let c = (if dr_draining (mc_drain c0) \<and> elapsed (dr_since (mc_drain c0)) now \<ge> kMaxAckWait
               then c0\<lparr>mc_drain := (mc_drain c0)\<lparr>dr_draining := False\<rparr>\<rparr> else c0)
      in if \<not> mc_wrong_node c \<and> \<not> dr_draining (mc_drain c) then snd (spend_pending_push now c) else c)"

definition mesh_tick :: "monotonic \<Rightarrow> mesh_companion \<Rightarrow> mesh_companion" where
  "mesh_tick now c =
     update_availability (tick_drain now (tick_retry_quiet now (tick_quiet now (tick_retry_ask now
       (tick_retry_deadline now (tick_vars now (tick_operation now (tick_battery now c))))))))"

text \<open>A battery request may be put behind an empty ring, or a ring that holds only a drain.\<close>

definition poll_battery :: "mesh_companion \<Rightarrow> mesh_companion" where
  "poll_battery c =
     (let r = mc_ring c; b = mc_battery c;
          drain_queued = (rg_size r = 1 \<and> fr_bytes (rg_tx r ! rg_head r) ! 0 = kSyncNextMessage) in
      if bt_request b = BatteryIdle \<and> bt_due b \<and> \<not> bt_identity_blocked b \<and> \<not> mc_wrong_node c \<and> link_ready c \<and>
         mc_self_info_seen c \<and> mc_device_info_seen c \<and> ct_complete (mc_contacts c) \<and> \<not> send_busy c \<and>
         \<not> pl_awaiting_vars (mc_places c) \<and> \<not> ct_retry_armed (mc_contacts c) \<and>
         (rg_size r = 0 \<or> drain_queued) \<and> (\<not> dr_draining (mc_drain c) \<or> drain_queued)
      then case enqueue [kGetBatteryAndStorage] c of
             (False, c1) \<Rightarrow> c1
           | (True, c1) \<Rightarrow> c1\<lparr>mc_battery := (mc_battery c1)\<lparr>bt_request := BatteryQueued, bt_seq := rg_seq (mc_ring c1)\<rparr>\<rparr>
      else c)"

lemma poll_blocked: "bt_identity_blocked (mc_battery c) \<Longrightarrow> poll_battery c = c"
  by (simp add: poll_battery_def)

function next_tx :: "mesh_companion \<Rightarrow> mesh_frame option \<times> mesh_companion" where
  "next_tx c0 =
     (if bt_request (mc_battery c0) = BatteryWaiting then (None, c0)
      else
        let c = poll_battery c0 in
        if rg_size (mc_ring c) = 0 then (None, c)
        else case ring_take (mc_ring c) of
          (frame, r) \<Rightarrow>
            let c1 = c\<lparr>mc_ring := r\<rparr> in
            if fr_bytes frame ! 0 = kGetBatteryAndStorage
            then (if bt_identity_blocked (mc_battery c) then next_tx c1
                  else (Some frame, c1\<lparr>mc_battery := (mc_battery c1)\<lparr>bt_request := BatteryWaiting,
                     bt_started := bt_poll_now (mc_battery c1), bt_polled := True, bt_due := False\<rparr>\<rparr>))
            else (Some frame, c1))"
  by pat_completeness auto
termination
proof (relation "measure (\<lambda>c. rg_size (mc_ring c))")
  fix c0 c frame r c1
  assume c: "c = poll_battery c0" "rg_size (mc_ring c) \<noteq> 0" "(frame, r) = ring_take (mc_ring c)" "c1 = c\<lparr>mc_ring := r\<rparr>"
    "bt_identity_blocked (mc_battery c)"
  have "bt_identity_blocked (mc_battery (poll_battery c0)) = bt_identity_blocked (mc_battery c0)"
    by (simp add: poll_battery_def enqueue_def Let_def split: prod.split bool.split)
  with c have "c = c0" by (simp add: poll_blocked)
  with c show "(c1, c0) \<in> measure (\<lambda>c. rg_size (mc_ring c))" by (simp add: ring_take_def)
qed auto

declare next_tx.simps [simp del]

end
