(* ===== verification/Mesh_Queue.thy ===== *)
theory Mesh_Queue
  imports Mesh_Companion
begin

text \<open>
  The transmit ring of the companion as a queue of frames. Read from its head once around, the
  ring is the queued frames and then blank slots, so a frame that has left it is nowhere in
  memory; the loop of \<open>end_operation\<close> that compacts the ring in place is a filter of the queue.
\<close>

section \<open>A ring read once around\<close>

lemma ring_read_update:
  assumes "h < length xs" "i < length xs"
  shows "ring_read (xs[(h + i) mod length xs := x]) h (length xs) = (ring_read xs h (length xs))[i := x]"
proof (rule nth_equalityI)
  fix j assume "j < length (ring_read (xs[(h + i) mod length xs := x]) h (length xs))"
  then have j: "j < length xs" by simp
  have "(h + i) mod length xs = (h + j) mod length xs \<longleftrightarrow> i = j"
    using ring_slot_inj [of h i "length xs" j] assms j by auto
  moreover have "(h + i) mod length xs < length xs" using j by (intro mod_less_divisor) auto
  moreover have "(h + j) mod length xs < length xs" using j by (intro mod_less_divisor) auto
  ultimately show "ring_read (xs[(h + i) mod length xs := x]) h (length xs) ! j = (ring_read xs h (length xs))[i := x] ! j"
    using j by (simp add: ring_read_def nth_list_update)
qed simp

lemma ring_read_nth: "i < n \<Longrightarrow> ring_read xs h n ! i = xs ! ((h + i) mod length xs)"
  by (simp add: ring_read_def)

lemma ring_read_take: "m \<le> n \<Longrightarrow> take m (ring_read xs h n) = ring_read xs h m"
  by (simp add: ring_read_def take_map)

lemma ring_read_all_set:
  assumes "h < length xs"
  shows "set (ring_read xs h (length xs)) = set xs"
proof -
  let ?f = "\<lambda>i. (h + i) mod length xs"
  have "inj_on ?f {0..<length xs}" by (rule inj_onI) (auto intro: ring_slot_inj)
  moreover have "?f ` {0..<length xs} \<subseteq> {0..<length xs}" using assms by (intro image_subsetI) (auto intro!: mod_less_divisor)
  ultimately have "?f ` {0..<length xs} = {0..<length xs}" by (intro card_subset_eq) (simp_all add: card_image)
  moreover have "set (ring_read xs h (length xs)) = (!) xs ` (?f ` {0..<length xs})"
    by (simp add: ring_read_def image_image)
  ultimately have "set (ring_read xs h (length xs)) = (!) xs ` {0..<length xs}" by (simp only:)
  also have "\<dots> = set xs" by (auto simp: set_conv_nth)
  finally show ?thesis .
qed

lemma ring_read_step:
  assumes "h < length xs"
  shows "ring_read xs ((h + 1) mod length xs) (length xs) = tl (ring_read xs h (length xs)) @ [xs ! h]"
proof -
  obtain m where m: "length xs = Suc m" using assms by (cases "length xs") auto
  have "ring_read xs ((h + 1) mod length xs) (length xs)
      = map (\<lambda>i. xs ! ((h + Suc i) mod length xs)) [0..<m] @ [xs ! ((h + Suc m) mod length xs)]"
    by (simp add: ring_read_def m mod_simps)
  moreover have "(h + Suc m) mod length xs = h" using assms by (simp flip: m)
  moreover have "tl (ring_read xs h (length xs)) = map (\<lambda>i. xs ! ((h + Suc i) mod length xs)) [0..<m]"
    by (simp add: ring_read_def m upt_rec [of 0] map_Suc_upt [symmetric] del: upt_Suc)
  ultimately show ?thesis by (simp only:)
qed

section \<open>The queue of the transmit ring\<close>

abbreviation blank :: "nat \<Rightarrow> mesh_frame list" where "blank n \<equiv> replicate n new_mesh_frame"

definition ring_frames :: "mesh_ring \<Rightarrow> mesh_frame list" where
  "ring_frames r = ring_read (rg_tx r) (rg_head r) (rg_size r)"

definition frame_of :: "bytes \<Rightarrow> mesh_frame" where
  "frame_of data = \<lparr>fr_bytes = data @ replicate (kMeshCoreFrameBytes - length data) 0, fr_size = length data\<rparr>"

definition sound_frame :: "mesh_frame \<Rightarrow> bool" where
  "sound_frame f \<longleftrightarrow> length (fr_bytes f) = kMeshCoreFrameBytes \<and> 0 < fr_size f \<and> fr_size f \<le> kMeshCoreFrameBytes \<and>
     list_all (\<lambda>b. b = 0) (drop (fr_size f) (fr_bytes f))"

lemma sound_frame_of [simp]: "data \<noteq> [] \<Longrightarrow> length data \<le> kMeshCoreFrameBytes \<Longrightarrow> sound_frame (frame_of data)"
  by (simp add: sound_frame_def frame_of_def list_all_iff)

text \<open>The ring as the queue of its frames: every other slot is blank.\<close>

definition ring_holds :: "mesh_frame list \<Rightarrow> mesh_ring \<Rightarrow> bool" where
  "ring_holds fs r \<longleftrightarrow> length (rg_tx r) = kTxDepth \<and> rg_head r < kTxDepth \<and> rg_size r = length fs \<and> length fs \<le> kTxDepth \<and>
     list_all sound_frame fs \<and> ring_read (rg_tx r) (rg_head r) kTxDepth = fs @ blank (kTxDepth - length fs)"

lemma holds_frames: "ring_holds fs r \<Longrightarrow> ring_frames r = fs"
  using ring_read_take [of "length fs" kTxDepth "rg_tx r" "rg_head r"] by (simp add: ring_holds_def ring_frames_def)

lemma holds_slots:
  "ring_holds fs r \<Longrightarrow> set (rg_tx r) = set fs \<union> (if length fs < kTxDepth then {new_mesh_frame} else {})"
proof -
  assume r: "ring_holds fs r"
  then have "set (rg_tx r) = set (fs @ blank (kTxDepth - length fs))"
    using ring_read_all_set [of "rg_head r" "rg_tx r"] by (simp only: ring_holds_def)
  then show ?thesis by (simp add: set_replicate_conv_if)
qed

lemma new_ring_holds: "ring_holds [] (new_mesh_ring\<lparr>rg_seq := n\<rparr>)"
proof -
  have "ring_read (replicate k x) 0 k = replicate k x" for k and x :: mesh_frame
    by (rule nth_equalityI) (simp_all add: ring_read_def)
  then show ?thesis by (simp add: ring_holds_def new_mesh_ring_def) (simp add: kTxDepth_def)
qed

lemma write_blank: "length data \<le> kMeshCoreFrameBytes \<Longrightarrow>
    \<lparr>fr_bytes = write_at (fr_bytes new_mesh_frame) 0 data, fr_size = length data\<rparr> = frame_of data"
  by (simp add: write_at_def new_mesh_frame_def frame_of_def)

lemma enqueue_holds:
  assumes "ring_holds fs r" "data \<noteq> []" "length data \<le> kMeshCoreFrameBytes" "length fs < kTxDepth"
  shows "fst (ring_enqueue data r) \<and> ring_holds (fs @ [frame_of data]) (snd (ring_enqueue data r))
    \<and> rg_seq (snd (ring_enqueue data r)) = rg_seq r + 1"
proof -
  let ?k = "(rg_head r + length fs) mod length (rg_tx r)"
  have len: "length (rg_tx r) = kTxDepth" and h: "rg_head r < kTxDepth" and sz: "rg_size r = length fs"
    and all: "ring_read (rg_tx r) (rg_head r) kTxDepth = fs @ blank (kTxDepth - length fs)"
    using assms(1) by (auto simp: ring_holds_def)
  have "rg_tx r ! ?k = new_mesh_frame"
    using ring_read_nth [of "length fs" kTxDepth "rg_tx r" "rg_head r"] assms(4) all len by (simp add: nth_append)
  then have e: "ring_enqueue data r = (True, r\<lparr>rg_tx := (rg_tx r)[?k := frame_of data], rg_size := length fs + 1, rg_seq := rg_seq r + 1\<rparr>)"
    using assms(2-4) by (simp add: ring_enqueue_def Let_def sz len write_blank)
  have "ring_read ((rg_tx r)[?k := frame_of data]) (rg_head r) kTxDepth = (fs @ blank (kTxDepth - length fs))[length fs := frame_of data]"
    using ring_read_update [of "rg_head r" "rg_tx r" "length fs" "frame_of data"] h len assms(4) all by simp
  also have "\<dots> = (fs @ [frame_of data]) @ blank (kTxDepth - length (fs @ [frame_of data]))"
  proof -
    have "kTxDepth - length fs = Suc (kTxDepth - length (fs @ [frame_of data]))" using assms(4) by simp
    then show ?thesis by (simp only: replicate_Suc) simp
  qed
  finally show ?thesis
    using assms h len by (auto simp: e ring_holds_def)
qed

lemma enqueue_full:
  "ring_holds fs r \<Longrightarrow> \<not> (data \<noteq> [] \<and> length data \<le> kMeshCoreFrameBytes \<and> length fs < kTxDepth) \<Longrightarrow>
    ring_enqueue data r = (False, r)"
  by (auto simp: ring_enqueue_def ring_holds_def)

lemma pop_holds:
  assumes "ring_holds (f # fs) r"
  shows "fst (ring_take r) = f \<and> ring_holds fs (snd (ring_take r))"
proof -
  have len: "length (rg_tx r) = kTxDepth" and h: "rg_head r < kTxDepth" and sz: "rg_size r = Suc (length fs)"
    and le: "Suc (length fs) \<le> kTxDepth" and snd: "list_all sound_frame fs"
    and all: "ring_read (rg_tx r) (rg_head r) kTxDepth = f # fs @ blank (kTxDepth - Suc (length fs))"
    using assms by (auto simp: ring_holds_def)
  have f: "rg_tx r ! rg_head r = f"
    using ring_read_nth [of 0 kTxDepth "rg_tx r" "rg_head r"] all h len by (simp add: kTxDepth_def)
  have up: "ring_read ((rg_tx r)[rg_head r := new_mesh_frame]) (rg_head r) kTxDepth
      = new_mesh_frame # fs @ blank (kTxDepth - Suc (length fs))"
    using ring_read_update [of "rg_head r" "rg_tx r" 0 new_mesh_frame] h len all by (simp add: kTxDepth_def)
  have "ring_read ((rg_tx r)[rg_head r := new_mesh_frame]) ((rg_head r + 1) mod kTxDepth) kTxDepth
      = fs @ blank (kTxDepth - Suc (length fs)) @ [new_mesh_frame]"
    using ring_read_step [of "rg_head r" "(rg_tx r)[rg_head r := new_mesh_frame]"] h len up by simp
  also have "\<dots> = fs @ blank (kTxDepth - length fs)"
  proof -
    have "kTxDepth - length fs = Suc (kTxDepth - Suc (length fs))" using le by simp
    then show ?thesis by (simp only: replicate_Suc replicate_append_same)
  qed
  finally show ?thesis
    using h len sz le snd f by (auto simp: ring_take_def ring_holds_def intro!: mod_less_divisor)
qed

subsection \<open>Taking an operation's frames out\<close>

lemma shift_blank: "blank j @ new_mesh_frame # xs = new_mesh_frame # blank j @ xs"
  by (induction j) auto

lemma compact_filters:
  "length A = kept \<Longrightarrow> h < length tx \<Longrightarrow> ring_read tx h (length tx) = A @ blank j @ B @ C \<Longrightarrow>
   \<exists>tx'. compact [kept + j..<kept + j + length B] h kept tx
        = (kept + length (filter (\<lambda>f. \<not> operation_frame f) B), tx') \<and> length tx' = length tx \<and>
      ring_read tx' h (length tx) = A @ filter (\<lambda>f. \<not> operation_frame f) B
        @ blank (j + (length B - length (filter (\<lambda>f. \<not> operation_frame f) B))) @ C"
proof (induction B arbitrary: A kept j tx)
  case Nil
  then show ?case by simp
next
  case (Cons x B)
  let ?i = "kept + j" and ?n = "length tx"
  have n: "?n = length A + j + Suc (length B) + length C" using arg_cong [OF Cons.prems(3), of length] by simp
  then have i: "?i < ?n" using Cons.prems(1) by simp
  have x: "tx ! ((h + ?i) mod ?n) = x"
    using ring_read_nth [OF i, of tx h] Cons.prems(1,3) by (simp add: nth_append)
  have wipe: "ring_read (tx[(h + ?i) mod ?n := new_mesh_frame]) h ?n = A @ blank (Suc j) @ B @ C"
    using ring_read_update [OF Cons.prems(2) i, of new_mesh_frame] Cons.prems(1,3)
    by (simp add: list_update_append shift_blank)
  have le: "length (filter (\<lambda>f. \<not> operation_frame f) B) \<le> length B" by simp
  have upt: "[?i..<?i + length (x # B)] = ?i # [Suc ?i..<Suc ?i + length B]" by (simp add: upt_rec [of ?i] Suc_le_eq)
  show ?case
  proof (cases "operation_frame x")
    case True
    have "compact [?i..<?i + length (x # B)] h kept tx = compact [kept + Suc j..<kept + Suc j + length B] h kept (tx[(h + ?i) mod ?n := new_mesh_frame])"
      unfolding upt using x by (simp add: Let_def True del: upt_Suc)
    then show ?thesis
      using Cons.IH [OF Cons.prems(1), of "tx[(h + ?i) mod ?n := new_mesh_frame]" "Suc j"] Cons.prems(2) wipe True le
      by (auto simp: Suc_diff_le)
  next
    case keep: False
    show ?thesis
    proof (cases j)
      case 0
      have "compact [?i..<?i + length (x # B)] h kept tx = compact [Suc kept + 0..<Suc kept + 0 + length B] h (Suc kept) tx"
        unfolding upt using x by (simp add: Let_def keep 0 del: upt_Suc)
      then show ?thesis
        using Cons.IH [of "A @ [x]" "Suc kept" tx 0] Cons.prems keep 0 by simp
    next
      case (Suc m)
      let ?t = "(tx[(h + kept) mod ?n := x])[(h + ?i) mod ?n := new_mesh_frame]"
      have "compact [?i..<?i + length (x # B)] h kept tx = compact [Suc kept + j..<Suc kept + j + length B] h (Suc kept) ?t"
        unfolding upt using x by (simp add: Let_def keep Suc del: upt_Suc)
      moreover have "ring_read ?t h ?n = (A @ [x]) @ blank j @ B @ C"
      proof -
        have "ring_read (tx[(h + kept) mod ?n := x]) h ?n = A @ [x] @ blank m @ x # B @ C"
          using ring_read_update [OF Cons.prems(2), of kept x] i Cons.prems(1,3) Suc by (simp add: list_update_append)
        then show ?thesis
          using ring_read_update [of h "tx[(h + kept) mod ?n := x]" ?i new_mesh_frame] Cons.prems(1,2) i Suc
          by (simp add: list_update_append shift_blank)
      qed
      ultimately show ?thesis
        using Cons.IH [of "A @ [x]" "Suc kept" ?t j] Cons.prems(1,2) keep by simp
    qed
  qed
qed

lemma drop_holds:
  assumes "ring_holds fs r"
  shows "ring_holds (filter (\<lambda>f. \<not> operation_frame f) fs) (drop_operation_frames r)"
proof -
  let ?g = "filter (\<lambda>f. \<not> operation_frame f) fs"
  have len: "length (rg_tx r) = kTxDepth" and h: "rg_head r < kTxDepth" and sz: "rg_size r = length fs"
    and le: "length fs \<le> kTxDepth" and snd: "list_all sound_frame fs"
    and all: "ring_read (rg_tx r) (rg_head r) kTxDepth = fs @ blank (kTxDepth - length fs)"
    using assms by (auto simp: ring_holds_def)
  obtain tx' where t: "compact [0..<length fs] (rg_head r) 0 (rg_tx r) = (length ?g, tx')" "length tx' = kTxDepth"
    and t': "ring_read tx' (rg_head r) kTxDepth = ?g @ blank (length fs - length ?g) @ blank (kTxDepth - length fs)"
    using compact_filters [of "[]" 0 "rg_head r" "rg_tx r" 0 fs "blank (kTxDepth - length fs)"] h len all by auto
  have gl: "length ?g \<le> length fs" by simp
  have "blank (length fs - length ?g) @ blank (kTxDepth - length fs) = blank (kTxDepth - length ?g)"
    using le gl by (simp flip: replicate_add)
  then show ?thesis
    using t t' h order_trans [OF gl le] snd by (auto simp: drop_operation_frames_def sz ring_holds_def list_all_iff)
qed

lemma drop_frames: "ring_holds fs r \<Longrightarrow> ring_frames (drop_operation_frames r) = filter (\<lambda>f. \<not> operation_frame f) (ring_frames r)"
  using drop_holds holds_frames by metis

text \<open>C16. The transmit ring is a queue: a frame is taken unless it is empty, too long or the fifth, and then
  goes to the end; the transport takes the oldest; and ending an operation takes that operation's frames
  out and keeps the others in their order. Every slot outside the queue is blank throughout, so a frame that left, a
  password among them, is nowhere in the ring.\<close>

theorem transmit_ring_is_a_queue:
  assumes "ring_holds fs r"
  shows "(if data \<noteq> [] \<and> length data \<le> kMeshCoreFrameBytes \<and> length fs < kTxDepth
      then fst (ring_enqueue data r) \<and> ring_holds (fs @ [frame_of data]) (snd (ring_enqueue data r))
      else ring_enqueue data r = (False, r)) \<and>
    (case fs of [] \<Rightarrow> rg_size r = 0 | f # gs \<Rightarrow> fst (ring_take r) = f \<and> ring_holds gs (snd (ring_take r))) \<and>
    ring_holds (filter (\<lambda>f. \<not> operation_frame f) fs) (drop_operation_frames r) \<and>
    set (rg_tx r) \<subseteq> set fs \<union> {new_mesh_frame}"
proof (intro conjI)
  show "if data \<noteq> [] \<and> length data \<le> kMeshCoreFrameBytes \<and> length fs < kTxDepth
      then fst (ring_enqueue data r) \<and> ring_holds (fs @ [frame_of data]) (snd (ring_enqueue data r))
      else ring_enqueue data r = (False, r)"
    using enqueue_holds [OF assms] enqueue_full [OF assms] by simp
  show "case fs of [] \<Rightarrow> rg_size r = 0 | f # gs \<Rightarrow> fst (ring_take r) = f \<and> ring_holds gs (snd (ring_take r))"
    using assms pop_holds by (auto simp: ring_holds_def split: list.split)
  show "set (rg_tx r) \<subseteq> set fs \<union> {new_mesh_frame}" using holds_slots [OF assms] by auto
qed (rule drop_holds [OF assms])

definition some_frames :: "mesh_frame list" where
  "some_frames = map frame_of [[kSyncNextMessage], [kSendLogin, 1, 2], [kGetCustomVars]]"

definition wrapped_ring :: mesh_ring where
  "wrapped_ring = \<lparr>rg_tx = [frame_of [kSendLogin, 1, 2], frame_of [kGetCustomVars], new_mesh_frame, frame_of [kSyncNextMessage]],
     rg_head = 3, rg_size = 3, rg_seq = 9\<rparr>"

lemma wrapped_ring_holds: "ring_holds some_frames wrapped_ring"
  unfolding ring_holds_def
proof (intro conjI)
  show "list_all sound_frame some_frames"
    by (simp add: some_frames_def kMeshCoreFrameBytes_def)
qed code_simp+

lemma transmit_ring_is_a_queue_witness:
  "ring_holds (map frame_of [[kSyncNextMessage], [kGetCustomVars]]) (drop_operation_frames wrapped_ring)"
proof -
  have "filter (\<lambda>f. \<not> operation_frame f) some_frames = map frame_of [[kSyncNextMessage], [kGetCustomVars]]" by code_simp
  with transmit_ring_is_a_queue [OF wrapped_ring_holds] show ?thesis by simp
qed

end
