(* ===== verification/Mesh_Invariant.thy ===== *)
theory Mesh_Invariant
  imports Mesh_Queue
begin

text \<open>
  What holds of the companion after any history of calls: the ring is a queue of at most four
  sound frames, one operation is in flight at most and its private data is held no longer than it
  needs, the delivery shown is the one of the operation in flight, the peer tables are bounded and
  free of duplicates, and readiness is never claimed without what it stands for.
\<close>

section \<open>The invariant\<close>

definition ok_ring :: "mesh_ring \<Rightarrow> bool" where
  "ok_ring r \<longleftrightarrow> (\<exists>fs. ring_holds fs r)"

definition in_flight :: "mesh_operation \<Rightarrow> nat" where
  "in_flight p = of_bool (op_awaiting_send p) + of_bool (op_awaiting_confirm p) + of_bool (op_awaiting_login p)
     + of_bool (op_awaiting_contact p)"

definition ok_op :: "mesh_operation \<Rightarrow> mesh_delivery \<Rightarrow> bool" where
  "ok_op p d \<longleftrightarrow> in_flight p \<le> 1 \<and>
     (\<not> op_awaiting_contact p \<longrightarrow> op_contact_text p = replicate 129 0 \<and> op_contact_peer p = new_mesh_peer_id) \<and>
     (\<not> op_awaiting_login p \<longrightarrow> op_room_text p = replicate 129 0 \<and> op_room_peer p = new_mesh_peer_id) \<and>
     length (op_contact_text p) = 129 \<and> length (op_room_text p) = 129 \<and>
     (if op_awaiting_confirm p then d = DeliveryAccepted
      else if in_flight p = 1 then d = Queued
      else d \<noteq> Queued \<and> d \<noteq> DeliveryAccepted)"

definition ok_peers :: "mesh_peer list \<Rightarrow> bool" where
  "ok_peers ps \<longleftrightarrow> length ps \<le> kRetainedPeers \<and> distinct (map mp_id ps)"

definition ok_contacts :: "mesh_contacts \<Rightarrow> u16 \<Rightarrow> bool" where
  "ok_contacts ct retained \<longleftrightarrow> ok_peers (ct_peers ct) \<and> ok_peers (ct_incoming_peers ct) \<and> retained = of_nat (length (ct_peers ct))"

definition ok_ready :: "mesh_companion \<Rightarrow> bool" where
  "ok_ready c \<longleftrightarrow> (ms_availability (mc_status c) = AvReady \<longrightarrow>
     link_ready c \<and> mc_device_info_seen c \<and> mc_self_info_seen c \<and> ct_complete (mc_contacts c))"

definition mesh_ok :: "mesh_companion \<Rightarrow> bool" where
  "mesh_ok c \<longleftrightarrow> ok_ring (mc_ring c) \<and> ok_op (mc_op c) (ms_delivery (mc_status c)) \<and>
     ok_contacts (mc_contacts c) (ms_peers_retained (mc_status c)) \<and> ok_ready c"

definition mesh_core_ok :: "mesh_companion \<Rightarrow> bool" where
  "mesh_core_ok c \<longleftrightarrow> ok_ring (mc_ring c) \<and> ok_op (mc_op c) (ms_delivery (mc_status c)) \<and>
     ok_contacts (mc_contacts c) (ms_peers_retained (mc_status c))"

lemma mesh_ok_core: "mesh_ok c \<longleftrightarrow> mesh_core_ok c \<and> ok_ready c"
  by (auto simp: mesh_ok_def mesh_core_ok_def)

subsection \<open>The ring\<close>

lemma ok_new_ring [simp]: "ok_ring (new_mesh_ring\<lparr>rg_seq := n\<rparr>)"
  using new_ring_holds by (auto simp: ok_ring_def)

lemma ok_new_ring' [simp]: "ok_ring new_mesh_ring"
  using ok_new_ring [of 0] by (simp add: new_mesh_ring_def)

lemma ok_enqueue [simp]: "ok_ring r \<Longrightarrow> ok_ring (snd (ring_enqueue data r))"
  unfolding ok_ring_def
proof (elim exE)
  fix fs assume r: "ring_holds fs r"
  show "\<exists>fs. ring_holds fs (snd (ring_enqueue data r))"
  proof (cases "data \<noteq> [] \<and> length data \<le> kMeshCoreFrameBytes \<and> length fs < kTxDepth")
    case True
    with r enqueue_holds [of fs r data] show ?thesis by blast
  next
    case False
    with r enqueue_full [of fs r data] show ?thesis by auto
  qed
qed

lemma ok_pop: "ok_ring r \<Longrightarrow> rg_size r \<noteq> 0 \<Longrightarrow> ok_ring (snd (ring_take r))"
  unfolding ok_ring_def
proof (elim exE)
  fix fs assume r: "ring_holds fs r" "rg_size r \<noteq> 0"
  then obtain f gs where "fs = f # gs" by (cases fs) (auto simp: ring_holds_def)
  with r show "\<exists>fs. ring_holds fs (snd (ring_take r))" using pop_holds by auto
qed

lemma ok_drop [simp]: "ok_ring r \<Longrightarrow> ok_ring (drop_operation_frames r)"
  using drop_holds by (auto simp: ok_ring_def)

lemma enqueue_eq: "enqueue data c = (fst (ring_enqueue data (mc_ring c)), c\<lparr>mc_ring := snd (ring_enqueue data (mc_ring c))\<rparr>)"
  by (simp add: enqueue_def case_prod_beta)

subsection \<open>The operation\<close>

lemma ok_op_cleared [simp]: "ok_op (clear_operation p) d \<longleftrightarrow> d \<noteq> Queued \<and> d \<noteq> DeliveryAccepted"
  by (simp add: ok_op_def clear_operation_def in_flight_def)

lemma ok_op_fields [simp]:
  "ok_op (p\<lparr>op_expected_ack := a\<rparr>) d = ok_op p d" "ok_op (p\<lparr>op_request_seq := q\<rparr>) d = ok_op p d"
  "ok_op (p\<lparr>op_seq := q\<rparr>) d = ok_op p d" "ok_op (p\<lparr>op_since := t\<rparr>) d = ok_op p d"
  "ok_op (p\<lparr>op_budget := m\<rparr>) d = ok_op p d" "ok_op (p\<lparr>op_answered := b\<rparr>) d = ok_op p d"
  "ok_op (p\<lparr>op_contact_timestamp := w\<rparr>) d = ok_op p d" "ok_op (p\<lparr>op_room_timestamp := w\<rparr>) d = ok_op p d"
  by (simp_all add: ok_op_def in_flight_def)

lemma core_fields [simp]:
  "mesh_core_ok (c\<lparr>mc_link := l\<rparr>) = mesh_core_ok c" "mesh_core_ok (c\<lparr>mc_pinned := i\<rparr>) = mesh_core_ok c"
  "mesh_core_ok (c\<lparr>mc_pinned_set := b\<rparr>) = mesh_core_ok c" "mesh_core_ok (c\<lparr>mc_wrong_node := b\<rparr>) = mesh_core_ok c"
  "mesh_core_ok (c\<lparr>mc_battery := y\<rparr>) = mesh_core_ok c" "mesh_core_ok (c\<lparr>mc_drain := dr\<rparr>) = mesh_core_ok c"
  "mesh_core_ok (c\<lparr>mc_places := pl\<rparr>) = mesh_core_ok c" "mesh_core_ok (c\<lparr>mc_malformed := n\<rparr>) = mesh_core_ok c"
  "mesh_core_ok (c\<lparr>mc_cli := n\<rparr>) = mesh_core_ok c" "mesh_core_ok (c\<lparr>mc_firmware := v\<rparr>) = mesh_core_ok c"
  "mesh_core_ok (c\<lparr>mc_device_info_seen := b\<rparr>) = mesh_core_ok c" "mesh_core_ok (c\<lparr>mc_self_info_seen := b\<rparr>) = mesh_core_ok c"
  by (simp_all add: mesh_core_ok_def)

lemma core_status: "mesh_core_ok c \<Longrightarrow> ms_delivery st = ms_delivery (mc_status c) \<Longrightarrow>
    ms_peers_retained st = ms_peers_retained (mc_status c) \<Longrightarrow> mesh_core_ok (c\<lparr>mc_status := st\<rparr>)"
  by (simp add: mesh_core_ok_def)

lemma core_contacts: "mesh_core_ok c \<Longrightarrow> ct_peers ct = ct_peers (mc_contacts c) \<Longrightarrow>
    ct_incoming_peers ct = ct_incoming_peers (mc_contacts c) \<Longrightarrow> mesh_core_ok (c\<lparr>mc_contacts := ct\<rparr>)"
  by (simp add: mesh_core_ok_def ok_contacts_def)

lemma core_enqueue [simp]: "mesh_core_ok c \<Longrightarrow> mesh_core_ok (c\<lparr>mc_ring := snd (ring_enqueue data (mc_ring c))\<rparr>)"
  by (simp add: mesh_core_ok_def)

lemma core_snd_enqueue [simp]: "mesh_core_ok c \<Longrightarrow> mesh_core_ok (snd (enqueue data c))"
  by (simp add: enqueue_eq)

lemma core_end: "mesh_core_ok c \<Longrightarrow> d \<noteq> Queued \<Longrightarrow> d \<noteq> DeliveryAccepted \<Longrightarrow> mesh_core_ok (end_operation (set_delivery d c))"
  by (simp add: mesh_core_ok_def end_operation_def set_delivery_def)

lemma core_end': "mesh_core_ok c \<Longrightarrow> d \<noteq> Queued \<Longrightarrow> d \<noteq> DeliveryAccepted \<Longrightarrow> mesh_core_ok (set_delivery d (end_operation c))"
  by (simp add: mesh_core_ok_def end_operation_def set_delivery_def)

lemma core_malformed [simp]: "mesh_core_ok c \<Longrightarrow> mesh_core_ok (count_malformed c)"
  by (simp add: count_malformed_def)

lemma core_snd_malformed [simp]: "mesh_core_ok c \<Longrightarrow> mesh_core_ok (snd (malformed c))"
  by (simp add: malformed_def)

lemma core_availability [simp]: "mesh_core_ok (update_availability c) = mesh_core_ok c"
  by (simp add: update_availability_def mesh_core_ok_def)

lemma core_ask [simp]: "mesh_core_ok c \<Longrightarrow> mesh_core_ok (snd (ask data c))"
  by (simp add: ask_def enqueue_eq)

lemma core_fail_battery [simp]: "mesh_core_ok c \<Longrightarrow> mesh_core_ok (fail_battery_request b c)"
  by (auto simp: fail_battery_request_def Let_def intro!: core_status)

lemma core_invalidate [simp]: "mesh_core_ok c \<Longrightarrow> mesh_core_ok (invalidate_node_battery c)"
  by (auto simp: invalidate_node_battery_def intro!: core_status)

lemma core_apply [simp]: "mesh_core_ok (snd (mesh_apply e now r c)) = mesh_core_ok c"
  by (simp add: mesh_apply_def case_prod_beta)

lemma flags_idle: "ok_op p d \<Longrightarrow> in_flight p = 0 \<Longrightarrow> d \<noteq> Queued \<and> d \<noteq> DeliveryAccepted"
  by (simp add: ok_op_def in_flight_def)

lemma in_flight_busy: "send_busy c \<longleftrightarrow> in_flight (mc_op c) \<noteq> 0"
  by (auto simp: send_busy_def in_flight_def)

lemma core_reset [simp]: "mesh_core_ok c \<Longrightarrow> mesh_core_ok (reset_session c)"
  by (auto simp: mesh_core_ok_def reset_session_def session_status_def ok_contacts_def new_mesh_contacts_def ok_peers_def
      in_flight_busy dest: flags_idle)

subsection \<open>Peers\<close>

lemma replace_ids [simp]: "map mp_id (replace_peer p ps) = map mp_id ps"
  by (induction ps) auto

lemma length_replace [simp]: "length (replace_peer p ps) = length ps"
  by (induction ps) auto

lemma length_place: "length (place_peer p ps) = (if \<not> known_peer p ps \<and> length ps < kRetainedPeers then Suc (length ps) else length ps)"
  by (simp add: place_peer_def)

lemma ok_place [simp]: "ok_peers ps \<Longrightarrow> ok_peers (place_peer p ps)"
  by (auto simp: ok_peers_def place_peer_def known_peer_def)

lemma ok_no_peers [simp]: "ok_peers []"
  by (simp add: ok_peers_def)

lemma core_accept_contact [simp]: "mesh_core_ok c \<Longrightarrow> mesh_core_ok (accept_contact data c)"
  by (simp add: mesh_core_ok_def accept_contact_def Let_def ok_contacts_def length_place)

lemma core_settle [simp]: "mesh_core_ok c \<Longrightarrow> mesh_core_ok (settle_snapshot now c)"
  by (auto simp: settle_snapshot_def mesh_core_ok_def ok_contacts_def)

lemma core_finish [simp]: "mesh_core_ok c \<Longrightarrow> mesh_core_ok (finish_retry now b c)"
  by (auto simp: finish_retry_def Let_def intro!: core_settle) (auto simp: mesh_core_ok_def ok_contacts_def)

section \<open>Sending\<close>

lemma idle_before_send: "refuse_text body timestamp c = NoRefusal \<Longrightarrow> in_flight (mc_op c) = 0"
  by (auto simp: refuse_text_def in_flight_busy split: if_splits)

lemma body_fits: "refuse_text body timestamp c = NoRefusal \<Longrightarrow> length body \<le> 128"
  by (auto simp: refuse_text_def kMeshTextBytes_def split: if_splits)

lemma core_next_id [simp]: "mesh_core_ok c \<Longrightarrow> mesh_core_ok (snd (next_request_id c))"
  by (simp add: next_request_id_def Let_def mesh_core_ok_def)

lemma next_id_fields [simp]:
  "mc_op (snd (next_request_id c)) = (mc_op c)\<lparr>op_request_seq := fst (next_request_id c)\<rparr>"
  "mc_ring (snd (next_request_id c)) = mc_ring c" "mc_contacts (snd (next_request_id c)) = mc_contacts c"
  "mc_status (snd (next_request_id c)) = mc_status c" "mc_link (snd (next_request_id c)) = mc_link c"
  "mc_device_info_seen (snd (next_request_id c)) = mc_device_info_seen c"
  "mc_self_info_seen (snd (next_request_id c)) = mc_self_info_seen c"
  by (simp_all add: next_request_id_def Let_def)

lemma core_publish:
  assumes "mesh_core_ok c" "ok_op p Queued"
  shows "mesh_core_ok (publish rid (c\<lparr>mc_op := p\<rparr>))"
  using assms by (simp add: mesh_core_ok_def publish_def)

lemma next_publish: "publish n (snd (next_request_id c)) = publish n (c\<lparr>mc_op := (mc_op c)\<lparr>op_request_seq := fst (next_request_id c)\<rparr>\<rparr>)"
  by (simp add: next_request_id_def Let_def)

lemma ok_fetch:
  assumes "ok_op p d" "in_flight p = 0" "length body \<le> 128"
  shows "ok_op (p\<lparr>op_contact_peer := peer, op_contact_text := write_at (op_contact_text p) 0 (body @ [0]),
      op_contact_timestamp := t, op_awaiting_contact := True\<rparr>) Queued"
  using assms by (simp add: ok_op_def in_flight_def)

lemma ok_login:
  assumes "ok_op p d" "in_flight p = 0" "length body \<le> 128"
  shows "ok_op (p\<lparr>op_room_peer := peer, op_room_text := write_at (op_room_text p) 0 (body @ [0]),
      op_room_timestamp := t, op_awaiting_login := True\<rparr>) Queued"
  using assms by (simp add: ok_op_def in_flight_def)

lemma ok_text:
  assumes "ok_op p d" "in_flight p = 0"
  shows "ok_op (p\<lparr>op_awaiting_send := True\<rparr>) Queued"
  using assms by (simp add: ok_op_def in_flight_def)

lemma core_op: "mesh_core_ok c \<Longrightarrow> ok_op (mc_op c) (ms_delivery (mc_status c))"
  by (simp add: mesh_core_ok_def)

lemma core_enqueue_private [simp]:
  assumes "mesh_core_ok c"
  shows "mesh_core_ok (snd (enqueue_private peer body timestamp rid c))"
proof (cases "refuse_text body timestamp c = NoRefusal \<and> fst (enqueue (text_frame peer body timestamp) c)")
  case True
  then have "in_flight (mc_op c) = 0" using idle_before_send by blast
  with True assms show ?thesis
    by (auto simp: enqueue_private_def enqueue_eq Let_def next_publish case_prod_beta intro!: core_publish ok_text core_op)
next
  case False
  with assms show ?thesis
    by (auto simp: enqueue_private_def enqueue_eq Let_def split: bool.split)
qed

lemma core_send_private [simp]:
  assumes "mesh_core_ok c"
  shows "mesh_core_ok (snd (send_private peer body timestamp c))"
proof (cases "refuse_text body timestamp c = NoRefusal")
  case True
  then have "in_flight (mc_op c) = 0" "length body \<le> 128" using idle_before_send body_fits by blast+
  with True assms show ?thesis
    by (simp add: send_private_def enqueue_eq Let_def next_publish case_prod_beta core_publish ok_fetch [OF core_op]
        split: bool.split)
next
  case False
  with assms show ?thesis by (simp add: send_private_def Let_def)
qed

lemma core_send_room [simp]:
  assumes "mesh_core_ok c"
  shows "mesh_core_ok (snd (send_room room password body timestamp c))"
proof (cases "refuse_text body timestamp c = NoRefusal")
  case True
  then have "in_flight (mc_op c) = 0" "length body \<le> 128" using idle_before_send body_fits by blast+
  with True assms show ?thesis
    by (simp add: send_room_def enqueue_eq Let_def next_publish case_prod_beta core_publish ok_login [OF core_op]
        split: bool.split)
next
  case False
  with assms show ?thesis by (simp add: send_room_def Let_def)
qed

end
