(* ===== verification/Mesh_Histories.thy ===== *)
theory Mesh_Histories
  imports Mesh_Invariant
begin

text \<open>
  Every call into the companion keeps its invariant, one lemma per handler, and so does every
  history of calls.
\<close>

section \<open>Answers\<close>

lemma core_request [simp]: "mesh_core_ok c \<Longrightarrow> mesh_core_ok (snd (request_next_message now c))"
  by (auto simp: request_next_message_def enqueue_eq split: bool.split)

lemma core_spend [simp]: "mesh_core_ok c \<Longrightarrow> mesh_core_ok (snd (spend_pending_push now c))"
  using core_request [of c now]
  by (cases "request_next_message now c") (simp add: spend_pending_push_def split: bool.split)

lemma core_drain_after [simp]: "mesh_core_ok c \<Longrightarrow> mesh_core_ok (drain_after took now c)"
  by (simp add: drain_after_def)

lemma core_end_contacts [simp]:
  assumes "mesh_core_ok c"
  shows "mesh_core_ok (snd (end_contacts now c))"
proof -
  obtain ok c1 where r: "request_next_message now c = (ok, c1)" by fastforce
  with core_request [OF assms, of now] have "mesh_core_ok c1" by simp
  then show ?thesis
    using assms by (auto simp: end_contacts_def r Let_def enqueue_eq mesh_core_ok_def ok_contacts_def split: bool.split)
qed

lemma core_adopt [simp]: "mesh_core_ok c \<Longrightarrow> mesh_core_ok (adopt_remote_position sender now c)"
  by (simp add: adopt_remote_position_def Let_def split: option.split)

lemma show_message_fields [simp]:
  "ms_delivery (show_message s b st) = ms_delivery st" "ms_peers_retained (show_message s b st) = ms_peers_retained st"
  "ms_availability (show_message s b st) = ms_availability st"
  by (simp_all add: show_message_def case_prod_beta)

lemma core_accept_message [simp]: "mesh_core_ok c \<Longrightarrow> mesh_core_ok (snd (accept_message data v3 now c))"
  by (simp add: accept_message_def Let_def core_status)

lemma core_accept_channel [simp]: "mesh_core_ok c \<Longrightarrow> mesh_core_ok (snd (accept_channel_message_v3 data c))"
  by (simp add: accept_channel_message_v3_def core_status)

lemma core_self_position [simp]: "mesh_core_ok (accept_self_position data now c) = mesh_core_ok c"
  by (simp add: accept_self_position_def Let_def)

lemma core_custom_vars [simp]: "mesh_core_ok (snd (on_custom_vars data c)) = mesh_core_ok c"
  by (simp add: on_custom_vars_def accept_custom_vars_def Let_def)

lemma core_device_info [simp]: "mesh_core_ok c \<Longrightarrow> mesh_core_ok (snd (on_device_info data c))"
  by (simp add: on_device_info_def Let_def)

lemma core_self_info [simp]:
  assumes "mesh_core_ok c"
  shows "mesh_core_ok (snd (on_self_info data now c))"
proof -
  define node where "node = \<lparr>public_key = take 32 (drop 4 data)\<rparr>"
  define c1 where "c1 = (if ms_has_node_id (mc_status c) \<and> ms_node_id (mc_status c) \<noteq> node then invalidate_node_battery c else c)"
  define c2 where "c2 = c1\<lparr>mc_status := (mc_status c1)\<lparr>ms_node_id := node, ms_has_node_id := True,
      ms_node_name := fst (copy_text (ms_node_name (mc_status c1)) (drop 58 data))\<rparr>\<rparr>"
  have "mesh_core_ok c1" using assms by (simp add: c1_def)
  then have 2: "mesh_core_ok c2" by (simp add: c2_def core_status)
  then have "mesh_core_ok (c2\<lparr>mc_status := (mc_status c2)\<lparr>ms_refused_id := i, ms_has_refused := b\<rparr>\<rparr>)"
    and "mesh_core_ok (c2\<lparr>mc_wrong_node := w, mc_status := (mc_status c2)\<lparr>ms_refused_id := i, ms_has_refused := b\<rparr>\<rparr>)" for i b w
    by (simp_all add: core_status)
  with 2 assms show ?thesis
    unfolding on_self_info_def Let_def node_def [symmetric] c1_def [symmetric] c2_def [symmetric] by simp
qed

lemma core_contacts_start [simp]: "mesh_core_ok c \<Longrightarrow> mesh_core_ok (snd (on_contacts_start data now c))"
  unfolding on_contacts_start_def Let_def
  by (cases "length data < 5") (simp_all, simp add: mesh_core_ok_def ok_contacts_def)

lemma core_contact_dated: "mesh_core_ok c \<Longrightarrow> mesh_core_ok (c\<lparr>mc_contacts := (mc_contacts c)\<lparr>ct_last_contact_at := now\<rparr>\<rparr>)"
  by (simp add: core_contacts)

text \<open>What sending a text leaves: the same state, or the text queued and awaited.\<close>

lemma enqueue_private_cases:
  obtains (refused) res where "enqueue_private peer body t rid c = (res, c)" "\<not> accepted res"
  | (queued) n r q k where "n \<noteq> 0" "rid \<noteq> 0 \<longrightarrow> n = rid" "ok_ring (mc_ring c) \<longrightarrow> ok_ring r" "in_flight (mc_op c) = 0"
      "refuse_text body t c = NoRefusal"
      "enqueue_private peer body t rid c = (\<lparr>sr_request_id = n, sr_refusal = NoRefusal\<rparr>,
         publish n (c\<lparr>mc_ring := r, mc_op := (mc_op c)\<lparr>op_awaiting_send := True, op_answered := False, op_seq := q,
           op_budget := 0, op_request_seq := k\<rparr>\<rparr>))"
proof (cases "refuse_text body t c = NoRefusal")
  case True
  then have idle: "in_flight (mc_op c) = 0" by (rule idle_before_send)
  let ?e = "ring_enqueue (text_frame peer body t) (mc_ring c)"
  show thesis
  proof (cases "fst ?e")
    case sent: True
    let ?c = "c\<lparr>mc_ring := snd ?e, mc_op := (mc_op c)\<lparr>op_awaiting_send := True, op_answered := False, op_seq := rg_seq (snd ?e), op_budget := 0\<rparr>\<rparr>"
    have eq: "enqueue_private peer body t rid c = (if rid \<noteq> 0 then (\<lparr>sr_request_id = rid, sr_refusal = NoRefusal\<rparr>, publish rid ?c)
        else (\<lparr>sr_request_id = fst (next_request_id ?c), sr_refusal = NoRefusal\<rparr>, publish (fst (next_request_id ?c)) (snd (next_request_id ?c))))"
      by (simp add: enqueue_private_def True Let_def enqueue_eq sent case_prod_beta)
    have nz: "fst (next_request_id ?c) \<noteq> 0" by (simp add: next_request_id_def Let_def)
    show thesis
    proof (cases "rid = 0")
      case zero: True
      show thesis
        by (rule queued [where r = "snd ?e" and q = "rg_seq (snd ?e)" and k = "fst (next_request_id ?c)", OF nz _ _ idle True])
          (use eq zero next_publish in simp_all)
    next
      case False
      show thesis
        by (rule queued [where r = "snd ?e" and q = "rg_seq (snd ?e)" and k = "op_request_seq (mc_op c)", OF False _ _ idle True]) (simp_all add: eq False)
    qed
  next
    case False
    then have "ring_enqueue (text_frame peer body t) (mc_ring c) = (False, mc_ring c)"
      by (auto simp: ring_enqueue_def Let_def split: if_splits)
    with True show thesis
      by (intro refused [of "\<lparr>sr_request_id = 0, sr_refusal = RingFull\<rparr>"]) (simp_all add: enqueue_private_def Let_def enqueue_eq accepted_def)
  qed
next
  case False
  then show thesis
    by (intro refused [of "\<lparr>sr_request_id = 0, sr_refusal = refuse_text body t c\<rparr>"])
      (simp_all add: enqueue_private_def Let_def accepted_def)
qed

text \<open>A login's or a fetch's text is sent in its place, or refused.\<close>

lemma core_send_after:
  assumes "ok_ring (mc_ring c)" "ok_contacts (mc_contacts c) (ms_peers_retained (mc_status c))"
    and "\<And>q k. in_flight (mc_op c) = 0 \<Longrightarrow> ok_op (g ((mc_op c)\<lparr>op_awaiting_send := True, op_answered := False, op_seq := q,
           op_budget := 0, op_request_seq := k\<rparr>)) Queued"
    and "ok_op (g (mc_op c)) DeliveryRefused"
    and "c' = (case enqueue_private peer body t rid c of (result, c1) \<Rightarrow> if accepted result then c1 else set_delivery DeliveryRefused c1)"
  shows "mesh_core_ok (c'\<lparr>mc_op := g (mc_op c')\<rparr>)"
proof (cases rule: enqueue_private_cases [of peer body t rid c])
  case (refused res)
  with assms show ?thesis by (simp add: mesh_core_ok_def set_delivery_def)
next
  case (queued n r q k)
  with assms show ?thesis by (simp add: mesh_core_ok_def publish_def accepted_def)
qed

lemma core_fetched [simp]:
  assumes "mesh_core_ok c" "op_awaiting_contact (mc_op c)"
  shows "mesh_core_ok (take_fetched_contact data c)"
proof -
  define d where "d = c\<lparr>mc_op := (mc_op c)\<lparr>op_awaiting_contact := False, op_contact_peer := new_mesh_peer_id,
      op_contact_text := replicate 129 0, op_contact_timestamp := 0\<rparr>\<rparr>"
  have op: "ok_op (mc_op d) DeliveryRefused" and idle: "in_flight (mc_op d) = 0"
    using assms by (auto simp: d_def mesh_core_ok_def ok_op_def in_flight_def)
  have ring: "ok_ring (mc_ring d)" and ct: "ok_contacts (mc_contacts d) (ms_peers_retained (mc_status d))"
    using assms by (simp_all add: d_def mesh_core_ok_def)
  have "mesh_core_ok (case enqueue_private peer body t rid d of (result, c1) \<Rightarrow> if accepted result then c1 else set_delivery DeliveryRefused c1)"
    for peer body t rid
    using core_send_after [OF ring ct _ _ refl, of "\<lambda>p. p" peer body t rid] ok_text [OF op idle] op by simp
  moreover have "mesh_core_ok (end_operation (set_delivery DeliveryRefused d))"
    using ring ct op by (simp add: mesh_core_ok_def end_operation_def set_delivery_def)
  ultimately show ?thesis
    unfolding take_fetched_contact_def Let_def d_def [symmetric] by simp
qed

lemma core_login_success [simp]:
  assumes "mesh_core_ok c"
  shows "mesh_core_ok (snd (on_login_success data c))"
proof (cases "length data < 8 \<or> \<not> op_awaiting_login (mc_op c) \<or> take 6 (drop 2 data) \<noteq> take 6 (public_key (op_room_peer (mc_op c)))")
  case True
  with assms show ?thesis by (auto simp: on_login_success_def)
next
  case False
  define d where "d = c\<lparr>mc_op := (mc_op c)\<lparr>op_awaiting_login := False\<rparr>\<rparr>"
  let ?g = "\<lambda>p. p\<lparr>op_room_peer := new_mesh_peer_id, op_room_text := replicate 129 0, op_room_timestamp := 0\<rparr>"
  have op: "ok_op (?g (mc_op d)) DeliveryRefused" and idle: "in_flight (?g (mc_op d)) = 0"
    using assms False by (auto simp: d_def mesh_core_ok_def ok_op_def in_flight_def)
  have ring: "ok_ring (mc_ring d)" and ct: "ok_contacts (mc_contacts d) (ms_peers_retained (mc_status d))"
    using assms by (simp_all add: d_def mesh_core_ok_def)
  have "ok_op (?g ((mc_op d)\<lparr>op_awaiting_send := True, op_answered := False, op_seq := q, op_budget := 0, op_request_seq := k\<rparr>)) Queued" for q k
    using op idle by (simp add: ok_op_def in_flight_def)
  then have "mesh_core_ok (clear_room (case enqueue_private peer body t rid d of (result, c1) \<Rightarrow> if accepted result then c1 else set_delivery DeliveryRefused c1))"
    for peer body t rid
    unfolding clear_room_def by (intro core_send_after [where g = ?g, OF ring ct _ op refl])
  then show ?thesis
    unfolding on_login_success_def Let_def d_def [symmetric] using False by (simp add: case_prod_beta)
qed

lemma core_contact [simp]: "mesh_core_ok c \<Longrightarrow> mesh_core_ok (snd (on_contact data now c))"
  by (simp add: on_contact_def Let_def core_contact_dated)

lemma core_contacts_end [simp]:
  assumes "mesh_core_ok c"
  shows "mesh_core_ok (snd (on_contacts_end data now c))"
proof -
  define c1 where "c1 = c\<lparr>mc_contacts := (if \<not> ct_open (mc_contacts c)
      then (mc_contacts c)\<lparr>ct_dirty := True, ct_open := True, ct_last_contact_at := now\<rparr> else mc_contacts c)\<lparr>ct_end_unsent := True\<rparr>\<rparr>"
  obtain ok c2 where e: "end_contacts now c1 = (ok, c2)" by fastforce
  have "mesh_core_ok c1" using assms by (simp add: c1_def core_contacts)
  with e core_end_contacts [of c1 now] have "mesh_core_ok c2" by simp
  then have "mesh_core_ok (settle_snapshot now (c2\<lparr>mc_status := (mc_status c2)\<lparr>ms_peers_complete := True\<rparr>\<rparr>))"
    by (simp add: core_status)
  with assms e \<open>mesh_core_ok c2\<close> show ?thesis
    unfolding on_contacts_end_def Let_def c1_def [symmetric] by (simp split: bool.split)
qed

lemma core_mark_dirty [simp]: "mesh_core_ok c \<Longrightarrow> mesh_core_ok (mark_dirty c)"
  by (simp add: mark_dirty_def core_contacts)

lemma core_deleted [simp]: "mesh_core_ok c \<Longrightarrow> mesh_core_ok (snd (on_contact_deleted data c))"
  by (simp add: on_contact_deleted_def Let_def)

lemma core_battery [simp]: "mesh_core_ok c \<Longrightarrow> mesh_core_ok (snd (on_battery data now c))"
  unfolding on_battery_def Let_def by (simp add: core_contacts core_status)

lemma core_sent [simp]:
  assumes "mesh_core_ok c"
  shows "mesh_core_ok (snd (on_sent data now c))"
proof (cases "op_awaiting_send (mc_op c)")
  case True
  have "ok_op ((mc_op c)\<lparr>op_expected_ack := a, op_awaiting_send := False, op_awaiting_confirm := True\<rparr>) DeliveryAccepted" for a
    using assms True by (simp add: mesh_core_ok_def ok_op_def in_flight_def)
  with assms True show ?thesis by (simp add: on_sent_def Let_def mesh_core_ok_def set_delivery_def malformed_def count_malformed_def)
next
  case False
  with assms show ?thesis by (simp add: on_sent_def Let_def mesh_core_ok_def malformed_def count_malformed_def)
qed

lemma core_confirmed [simp]:
  assumes "mesh_core_ok c"
  shows "mesh_core_ok (snd (on_send_confirmed data c))"
proof -
  have "op_awaiting_confirm (mc_op c) \<Longrightarrow> ok_op ((mc_op c)\<lparr>op_awaiting_confirm := False\<rparr>) Confirmed"
    using assms by (auto simp: mesh_core_ok_def ok_op_def in_flight_def)
  moreover have "ms_delivery (mc_status c) = Unconfirmed \<Longrightarrow> ok_op (mc_op c) Confirmed"
    using assms by (auto simp: mesh_core_ok_def ok_op_def split: if_splits)
  ultimately show ?thesis
    using assms by (simp add: on_send_confirmed_def) (simp add: mesh_core_ok_def set_delivery_def)
qed

lemma core_waiting [simp]:
  assumes "mesh_core_ok c"
  shows "mesh_core_ok (snd (on_message_waiting now c))"
proof -
  define d where "d = c\<lparr>mc_drain := (mc_drain c)\<lparr>dr_pending_push := True\<rparr>\<rparr>"
  obtain ok c1 where e: "spend_pending_push now d = (ok, c1)" by fastforce
  have "mesh_core_ok d" using assms by (simp add: d_def)
  with e core_spend [of d now] have "mesh_core_ok c1" by simp
  with assms e show ?thesis
    unfolding on_message_waiting_def Let_def d_def [symmetric] by (simp add: d_def)
qed

lemma core_login_fail [simp]: "mesh_core_ok c \<Longrightarrow> mesh_core_ok (snd (on_login_fail data c))"
  by (simp add: on_login_fail_def core_end')

lemma core_no_more [simp]: "mesh_core_ok c \<Longrightarrow> mesh_core_ok (snd (on_no_more_messages data c))"
  by (simp add: on_no_more_messages_def)

lemma core_error [simp]:
  assumes "mesh_core_ok c"
  shows "mesh_core_ok (snd (on_error data now c))"
proof -
  define d where "d = c\<lparr>mc_drain := (mc_drain c)\<lparr>dr_draining := False\<rparr>\<rparr>"
  have d: "mesh_core_ok d" using assms by (simp add: d_def)
  then have "mesh_core_ok (d\<lparr>mc_contacts := (mc_contacts d)\<lparr>ct_retry_armed := False, ct_retry_unanswered := False\<rparr>\<rparr>)"
    by (simp add: core_contacts)
  with assms d show ?thesis
    unfolding on_error_def Let_def d_def [symmetric] by (simp add: core_end)
qed

lemma core_dispatch [simp]: "mesh_core_ok c \<Longrightarrow> mesh_core_ok (snd (mesh_dispatch data now c))"
  by (simp add: mesh_dispatch_def Let_def case_prod_beta)

section \<open>The clock and the transport\<close>

lemma core_tick_battery [simp]:
  assumes "mesh_core_ok c"
  shows "mesh_core_ok (tick_battery now c)"
proof -
  define c1 where "c1 = c\<lparr>mc_link := link_tick now (mc_link c), mc_battery := (mc_battery c)\<lparr>bt_poll_now := now\<rparr>\<rparr>"
  define c2 where "c2 = (if bt_request (mc_battery c1) = BatteryWaiting \<and> elapsed (bt_started (mc_battery c1)) now \<ge> kBatteryReplyBudget
      then fail_battery_request True c1 else c1)"
  have "mesh_core_ok c2" using assms by (simp add: c2_def c1_def)
  then show ?thesis
    unfolding tick_battery_def Let_def c1_def [symmetric] c2_def [symmetric] by (simp add: core_status)
qed

lemma core_tick_operation [simp]:
  assumes "mesh_core_ok c"
  shows "mesh_core_ok (tick_operation now c)"
proof -
  have "mesh_core_ok (c\<lparr>mc_op := (mc_op c)\<lparr>op_budget := 0\<rparr>\<rparr>)" "mesh_core_ok (c\<lparr>mc_op := (mc_op c)\<lparr>op_since := s, op_budget := b\<rparr>\<rparr>)" for s b
    using assms by (simp_all add: mesh_core_ok_def)
  with assms show ?thesis by (simp add: tick_operation_def core_end)
qed

lemma core_tick_vars [simp]: "mesh_core_ok c \<Longrightarrow> mesh_core_ok (tick_vars now c)"
  by (simp add: tick_vars_def)

lemma core_tick_retry_deadline [simp]: "mesh_core_ok c \<Longrightarrow> mesh_core_ok (tick_retry_deadline now c)"
  by (simp add: tick_retry_deadline_def core_contacts)

lemma core_tick_retry_ask [simp]: "mesh_core_ok c \<Longrightarrow> mesh_core_ok (tick_retry_ask now c)"
  by (simp add: tick_retry_ask_def Let_def enqueue_eq split: bool.split)
    (auto simp: mesh_core_ok_def ok_contacts_def)

lemma core_tick_quiet [simp]:
  assumes "mesh_core_ok c"
  shows "mesh_core_ok (tick_quiet now c)"
proof -
  obtain ok c1 where e: "end_contacts now c = (ok, c1)" by fastforce
  with assms core_end_contacts [of c now] have "mesh_core_ok c1" by simp
  with assms e show ?thesis by (simp add: tick_quiet_def core_status split: bool.split)
qed

lemma core_tick_retry_quiet [simp]: "mesh_core_ok c \<Longrightarrow> mesh_core_ok (tick_retry_quiet now c)"
  by (simp add: tick_retry_quiet_def)

lemma core_tick_drain [simp]: "mesh_core_ok c \<Longrightarrow> mesh_core_ok (tick_drain now c)"
  by (simp add: tick_drain_def Let_def)

lemma core_tick [simp]: "mesh_core_ok c \<Longrightarrow> mesh_core_ok (mesh_tick now c)"
  by (simp add: mesh_tick_def)

lemma core_poll [simp]: "mesh_core_ok c \<Longrightarrow> mesh_core_ok (poll_battery c)"
  by (simp add: poll_battery_def Let_def enqueue_eq split: bool.split)

lemma next_tx_idle: "bt_request (mc_battery c) = BatteryWaiting \<Longrightarrow> next_tx c = (None, c)"
  by (simp add: next_tx.simps [of c])

lemma next_tx_empty: "bt_request (mc_battery c) \<noteq> BatteryWaiting \<Longrightarrow> rg_size (mc_ring (poll_battery c)) = 0 \<Longrightarrow>
    next_tx c = (None, poll_battery c)"
  by (simp add: next_tx.simps [of c] Let_def)

text \<open>What handing out a frame keeps: it polls, takes the head of the ring, and may start the wait for a battery.\<close>

lemma next_tx_keeps:
  assumes "P c" and "\<And>c. P c \<Longrightarrow> P (poll_battery c)"
    and "\<And>c. P c \<Longrightarrow> rg_size (mc_ring c) \<noteq> 0 \<Longrightarrow> P (c\<lparr>mc_ring := snd (ring_take (mc_ring c))\<rparr>)"
    and "\<And>c. P c \<Longrightarrow> P (c\<lparr>mc_battery := (mc_battery c)\<lparr>bt_request := BatteryWaiting,
                     bt_started := bt_poll_now (mc_battery c), bt_polled := True, bt_due := False\<rparr>\<rparr>)"
  shows "P (snd (next_tx c))"
  using assms(1)
proof (induction c rule: next_tx.induct)
  case (1 c0)
  define c where "c = poll_battery c0"
  define frame where "frame = fst (ring_take (mc_ring c))"
  define c1 where "c1 = c\<lparr>mc_ring := snd (ring_take (mc_ring c))\<rparr>"
  show ?case
  proof (cases "bt_request (mc_battery c0) = BatteryWaiting \<or> rg_size (mc_ring c) = 0")
    case True
    then show ?thesis
      using "1.prems" assms(2) next_tx_idle [of c0] next_tx_empty [of c0]
      by (cases "bt_request (mc_battery c0) = BatteryWaiting") (auto simp: c_def)
  next
    case False
    have eq: "next_tx c0 = (if fr_bytes frame ! 0 = kGetBatteryAndStorage
        then (if bt_identity_blocked (mc_battery c) then next_tx c1
              else (Some frame, c1\<lparr>mc_battery := (mc_battery c1)\<lparr>bt_request := BatteryWaiting,
                     bt_started := bt_poll_now (mc_battery c1), bt_polled := True, bt_due := False\<rparr>\<rparr>))
        else (Some frame, c1))"
      using False by (subst next_tx.simps) (simp add: Let_def case_prod_beta c_def frame_def c1_def)
    have "P c" using "1.prems" assms(2) by (simp add: c_def)
    with False assms(3) have c1: "P c1" by (simp add: c1_def)
    moreover have "P (snd (next_tx c1))"
      if "fr_bytes frame ! 0 = kGetBatteryAndStorage" "bt_identity_blocked (mc_battery c)"
      by (rule "1.IH" [OF _ c_def _ _ c1_def]) (use False that c1 in \<open>simp_all add: frame_def\<close>)
    ultimately show ?thesis using assms(4) [of c1] by (simp add: eq)
  qed
qed

lemma core_next_tx [simp]: "mesh_core_ok c \<Longrightarrow> mesh_core_ok (snd (next_tx c))"
  by (rule next_tx_keeps) (simp_all, simp add: mesh_core_ok_def ok_pop)

section \<open>Readiness\<close>

text \<open>Two states that claim and stand for the same.\<close>

definition same_ready :: "mesh_companion \<Rightarrow> mesh_companion \<Rightarrow> bool" where
  "same_ready c c' \<longleftrightarrow> ms_availability (mc_status c') = ms_availability (mc_status c) \<and> link_ready c' = link_ready c \<and>
     mc_device_info_seen c' = mc_device_info_seen c \<and> mc_self_info_seen c' = mc_self_info_seen c \<and>
     ct_complete (mc_contacts c') = ct_complete (mc_contacts c)"

lemma same_ready_ok: "same_ready c c' \<Longrightarrow> ok_ready c' = ok_ready c"
  by (simp add: same_ready_def ok_ready_def)

lemma ready_availability [simp]: "ok_ready (update_availability c)"
  by (simp add: ok_ready_def update_availability_def link_ready_def)

lemma data_keeps_ready: "link_ready c \<Longrightarrow> same_ready c (snd (mesh_apply PeerData now r c))"
  by (simp add: same_ready_def mesh_apply_def case_prod_beta link_ready_def apply_link_def)

lemma ready_next_tx: "same_ready c (snd (next_tx c))"
  by (rule next_tx_keeps [of "same_ready c"])
    (auto simp: same_ready_def link_ready_def poll_battery_def Let_def enqueue_eq split: bool.split)

lemma ready_enqueue_private: "same_ready c (snd (enqueue_private peer body t rid c))"
  by (cases rule: enqueue_private_cases [of peer body t rid c]) (simp_all add: same_ready_def link_ready_def publish_def)

lemma ready_send_private: "same_ready c (snd (send_private peer body t c))"
  using ready_enqueue_private [of c peer body t 0]
  by (simp add: send_private_def enqueue_eq Let_def next_publish case_prod_beta split: bool.split)
    (simp add: same_ready_def link_ready_def publish_def)

lemma ready_send_room: "same_ready c (snd (send_room room pw body t c))"
  by (simp add: send_room_def enqueue_eq Let_def next_publish case_prod_beta split: bool.split)
    (simp add: same_ready_def link_ready_def publish_def)

lemma ready_malformed: "same_ready c (snd (malformed c))"
  by (simp add: same_ready_def malformed_def count_malformed_def link_ready_def)

lemma ready_refused_ask: "fst (ask data c) = False \<Longrightarrow> same_ready c (snd (ask data c))"
  by (simp add: ask_def enqueue_eq malformed_def count_malformed_def same_ready_def link_ready_def split: if_splits)

lemma ready_spend: "same_ready c (snd (spend_pending_push now c))"
  by (simp add: spend_pending_push_def request_next_message_def enqueue_eq same_ready_def link_ready_def split: bool.split)

text \<open>
  A frame that was not understood leaves readiness as it was, whatever its handler did before it
  gave up; one that was understood recomputes it.
\<close>

lemma ready_device_info: "fst (on_device_info data c) = False \<Longrightarrow> ok_ready c \<Longrightarrow> ok_ready (snd (on_device_info data c))"
  using same_ready_ok [OF ready_malformed, of c]
  by (auto simp: on_device_info_def Let_def ask_def enqueue_eq malformed_def count_malformed_def ok_ready_def link_ready_def
      split: if_splits)

lemma ready_self_info:
  assumes "fst (on_self_info data now c) = False" "ok_ready c"
  shows "ok_ready (snd (on_self_info data now c))"
proof (cases "length data < 58")
  case True
  then show ?thesis using assms same_ready_ok [OF ready_malformed, of c] by (simp add: on_self_info_def)
next
  case False
  define node where "node = \<lparr>public_key = take 32 (drop 4 data)\<rparr>"
  define c1 where "c1 = (if ms_has_node_id (mc_status c) \<and> ms_node_id (mc_status c) \<noteq> node then invalidate_node_battery c else c)"
  define c2 where "c2 = c1\<lparr>mc_status := (mc_status c1)\<lparr>ms_node_id := node, ms_has_node_id := True,
      ms_node_name := fst (copy_text (ms_node_name (mc_status c1)) (drop 58 data))\<rparr>\<rparr>"
  define c3 where "c3 = accept_self_position (drop 36 data) now (if mc_pinned_set c2
      then c2\<lparr>mc_status := (mc_status c2)\<lparr>ms_refused_id := new_mesh_peer_id, ms_has_refused := False\<rparr>\<rparr> else c2)"
  have 1: "same_ready c c1" by (simp add: c1_def same_ready_def invalidate_node_battery_def link_ready_def)
  have 3: "same_ready c1 c3"
    by (simp add: c3_def c2_def same_ready_def accept_self_position_def Let_def link_ready_def)
  have on: "on_self_info data now c = (if mc_pinned_set c2 \<and> node \<noteq> mc_pinned c2
      then (True, c2\<lparr>mc_wrong_node := True, mc_status := (mc_status c2)\<lparr>ms_refused_id := node, ms_has_refused := True\<rparr>\<rparr>)
      else if mc_self_info_seen c3 then (True, c3) else ask [kDeviceQuery, kAppProtocolVersion] (c3\<lparr>mc_self_info_seen := True\<rparr>))"
    using False unfolding on_self_info_def Let_def node_def [symmetric] c1_def [symmetric] c2_def [symmetric] c3_def [symmetric]
    by simp
  have "ok_ready c3" using 1 3 assms(2) same_ready_ok by blast
  then have "ok_ready (c3\<lparr>mc_self_info_seen := True\<rparr>)" by (simp add: ok_ready_def link_ready_def)
  moreover have "\<not> (mc_pinned_set c2 \<and> node \<noteq> mc_pinned c2)" "\<not> mc_self_info_seen c3"
    using assms(1) by (auto simp only: on if_True if_False fst_conv split: if_splits)
  ultimately show ?thesis
    using assms(1) same_ready_ok [OF ready_refused_ask, of "[kDeviceQuery, kAppProtocolVersion]" "c3\<lparr>mc_self_info_seen := True\<rparr>"]
    by (simp only: on if_False if_True simp_thms)
qed

lemma ready_deleted: "fst (on_contact_deleted data c) = False \<Longrightarrow> same_ready c (snd (on_contact_deleted data c))"
  by (auto simp: on_contact_deleted_def Let_def mark_dirty_def malformed_def count_malformed_def same_ready_def link_ready_def
      split: if_splits)

lemma ready_battery: "fst (on_battery data now c) = False \<Longrightarrow> same_ready c (snd (on_battery data now c))"
  by (auto simp: on_battery_def Let_def fail_battery_request_def count_malformed_def same_ready_def link_ready_def
      split: if_splits)

lemma ready_waiting: "fst (on_message_waiting now c) = False \<Longrightarrow> same_ready c (snd (on_message_waiting now c))"
  using ready_spend [of "c\<lparr>mc_drain := (mc_drain c)\<lparr>dr_pending_push := True\<rparr>\<rparr>" now]
  by (auto simp: on_message_waiting_def Let_def case_prod_beta malformed_def count_malformed_def same_ready_def link_ready_def
      split: if_splits)

lemma fst_malformed [simp]: "fst (malformed c) = False"
  by (simp add: malformed_def)

lemma refused_is_malformed:
  "fst (on_contacts_start data now c) = False \<Longrightarrow> snd (on_contacts_start data now c) = snd (malformed c)"
  "fst (on_contact data now c) = False \<Longrightarrow> snd (on_contact data now c) = snd (malformed c)"
  "fst (on_contacts_end data now c) = False \<Longrightarrow> snd (on_contacts_end data now c) = snd (malformed c)"
  "fst (on_sent data now c) = False \<Longrightarrow> snd (on_sent data now c) = snd (malformed c)"
  "fst (on_send_confirmed data c) = False \<Longrightarrow> snd (on_send_confirmed data c) = snd (malformed c)"
  "fst (on_login_success data c) = False \<Longrightarrow> snd (on_login_success data c) = snd (malformed c)"
  "fst (on_login_fail data c) = False \<Longrightarrow> snd (on_login_fail data c) = snd (malformed c)"
  "fst (on_no_more_messages data c) = False \<Longrightarrow> snd (on_no_more_messages data c) = snd (malformed c)"
  "fst (on_error data now c) = False \<Longrightarrow> snd (on_error data now c) = snd (malformed c)"
  "fst (on_custom_vars data c) = True"
proof -
  show "fst (on_contacts_start data now c) = False \<Longrightarrow> snd (on_contacts_start data now c) = snd (malformed c)"
    by (auto simp: on_contacts_start_def Let_def case_prod_beta split: if_splits bool.splits)
  show "fst (on_contact data now c) = False \<Longrightarrow> snd (on_contact data now c) = snd (malformed c)"
    by (auto simp: on_contact_def Let_def case_prod_beta split: if_splits bool.splits)
  show "fst (on_contacts_end data now c) = False \<Longrightarrow> snd (on_contacts_end data now c) = snd (malformed c)"
    by (auto simp: on_contacts_end_def Let_def case_prod_beta split: if_splits bool.splits)
  show "fst (on_sent data now c) = False \<Longrightarrow> snd (on_sent data now c) = snd (malformed c)"
    by (auto simp: on_sent_def Let_def case_prod_beta split: if_splits bool.splits)
  show "fst (on_send_confirmed data c) = False \<Longrightarrow> snd (on_send_confirmed data c) = snd (malformed c)"
    by (auto simp: on_send_confirmed_def Let_def case_prod_beta split: if_splits bool.splits)
  show "fst (on_login_success data c) = False \<Longrightarrow> snd (on_login_success data c) = snd (malformed c)"
    by (auto simp: on_login_success_def Let_def case_prod_beta split: if_splits bool.splits)
  show "fst (on_login_fail data c) = False \<Longrightarrow> snd (on_login_fail data c) = snd (malformed c)"
    by (auto simp: on_login_fail_def Let_def case_prod_beta split: if_splits bool.splits)
  show "fst (on_no_more_messages data c) = False \<Longrightarrow> snd (on_no_more_messages data c) = snd (malformed c)"
    by (auto simp: on_no_more_messages_def Let_def case_prod_beta split: if_splits bool.splits)
  show "fst (on_error data now c) = False \<Longrightarrow> snd (on_error data now c) = snd (malformed c)"
    by (auto simp: on_error_def Let_def case_prod_beta split: if_splits bool.splits)
qed (simp add: on_custom_vars_def Let_def)

lemma ready_dispatch:
  assumes "fst (mesh_dispatch data now c) = False" "ok_ready c"
  shows "ok_ready (snd (mesh_dispatch data now c))"
proof -
  note ready = same_ready_ok [of c, THEN iffD2, OF _ assms(2)]
  have m: "ok_ready (snd (malformed c))" by (rule ready [OF ready_malformed])
  show ?thesis
    using assms m ready_device_info [of data c] ready_self_info [of data now c] ready [OF ready_deleted, of data]
      ready [OF ready_battery, of data now] ready [OF ready_waiting, of now]
    unfolding mesh_dispatch_def Let_def case_prod_beta by (simp add: refused_is_malformed split: if_split_asm)
qed

section \<open>Every call\<close>

datatype mesh_call =
  MBegin monotonic | MArriving monotonic | MConnected monotonic | MDisconnected monotonic | MFault monotonic
  | MTick monotonic | MReceive "bytes option" monotonic | MNextTx | MOversize | MPin mesh_peer_id | MUnpin
  | MSendPrivate mesh_peer_id bytes wall_time | MSendRoom bytes bytes bytes wall_time

fun mesh_step :: "mesh_call \<Rightarrow> mesh_companion \<Rightarrow> mesh_companion" where
  "mesh_step (MBegin t) c = mesh_begin t c"
| "mesh_step (MArriving t) c = mesh_peer_arriving t c"
| "mesh_step (MConnected t) c = mesh_connected t c"
| "mesh_step (MDisconnected t) c = mesh_disconnected t c"
| "mesh_step (MFault t) c = mesh_fault t c"
| "mesh_step (MTick t) c = mesh_tick t c"
| "mesh_step (MReceive d t) c = snd (mesh_receive d t c)"
| "mesh_step MNextTx c = snd (next_tx c)"
| "mesh_step MOversize c = drop_oversize_frame c"
| "mesh_step (MPin i) c = mesh_pin i c"
| "mesh_step MUnpin c = snd (mesh_unpin c)"
| "mesh_step (MSendPrivate i b t) c = snd (send_private i b t c)"
| "mesh_step (MSendRoom r p b t) c = snd (send_room r p b t c)"

lemma core_receive [simp]: "mesh_core_ok c \<Longrightarrow> mesh_core_ok (snd (mesh_receive d t c))"
  using core_dispatch [of "snd (mesh_apply PeerData t NoReason c)" "the d" t]
  by (simp add: mesh_receive_def case_prod_beta split: option.split bool.split)

lemma ready_receive [simp]:
  assumes "ok_ready c"
  shows "ok_ready (snd (mesh_receive d t c))"
proof -
  have "ok_ready (snd (mesh_apply PeerData t NoReason c))" if "link_ready c"
    using that assms same_ready_ok data_keeps_ready by blast
  then show ?thesis
    using assms same_ready_ok [OF ready_malformed, of c] ready_dispatch [of "the d" t "snd (mesh_apply PeerData t NoReason c)"]
    by (cases d) (simp_all add: mesh_receive_def case_prod_beta split: bool.split)
qed

lemma core_step: "mesh_core_ok c \<Longrightarrow> mesh_core_ok (mesh_step x c)"
proof (cases x)
  case (MPin i)
  assume "mesh_core_ok c"
  with MPin show ?thesis
    by (simp add: mesh_pin_def Let_def) (auto intro!: core_status)
next
  case MUnpin
  assume "mesh_core_ok c"
  then have "mesh_core_ok (invalidate_node_battery c)" by simp
  with MUnpin show ?thesis
    by (simp add: mesh_unpin_def Let_def) (simp add: core_status)
qed (simp_all add: mesh_begin_def mesh_peer_arriving_def mesh_connected_def mesh_disconnected_def mesh_fault_def
    drop_oversize_frame_def case_prod_beta Let_def)

lemma ready_step:
  assumes "ok_ready c"
  shows "ok_ready (mesh_step x c)"
proof (cases x)
  case MNextTx
  then show ?thesis using assms same_ready_ok [OF ready_next_tx, of c] by simp
next
  case (MPin i)
  have "same_ready c (mesh_pin i c)"
    by (simp add: mesh_pin_def Let_def same_ready_def invalidate_node_battery_def link_ready_def)
  with MPin assms show ?thesis by (simp add: same_ready_ok)
next
  case MUnpin
  have "same_ready c (snd (mesh_unpin c))"
    by (simp add: mesh_unpin_def Let_def same_ready_def invalidate_node_battery_def link_ready_def)
  with MUnpin assms show ?thesis by (simp add: same_ready_ok)
next
  case (MSendPrivate i b t)
  then show ?thesis using assms same_ready_ok [OF ready_send_private, of i b t c] by simp
next
  case (MSendRoom r p b t)
  then show ?thesis using assms same_ready_ok [OF ready_send_room, of r p b t c] by simp
next
  case MOversize
  then show ?thesis using assms by (simp add: drop_oversize_frame_def ok_ready_def link_ready_def)
qed (use assms in \<open>simp_all add: mesh_begin_def mesh_peer_arriving_def mesh_connected_def mesh_disconnected_def mesh_fault_def
    mesh_tick_def case_prod_beta Let_def\<close>)

lemma new_mesh_ok: "mesh_ok new_mesh_companion"
  by (simp add: mesh_ok_def new_mesh_companion_def new_mesh_operation_def new_mesh_contacts_def new_mesh_status_def ok_op_def
      in_flight_def ok_contacts_def ok_ready_def)

interpretation mesh: guarded_ops mesh_step mesh_ok
  by unfold_locales (auto simp: mesh_ok_core intro: core_step ready_step)

lemma mesh_ok_history: "mesh_ok (run_ops mesh_step calls new_mesh_companion)"
  by (rule mesh.run_inv [OF new_mesh_ok])

text \<open>C13. Over any calls whatever - frames of any bytes, any clock, sends, pins and sessions in any order -
  the transmit ring stays a queue of at most four sound frames with every other slot blank, at most one operation is
  in flight, the texts and peers held for it are gone when it is over, the owner is shown \<open>Queued\<close> or
  \<open>Accepted\<close> exactly while it stands there, both peer tables stay within sixteen entries without
  duplicates, and the mesh is shown ready only when the link is up and the node has been read.\<close>

theorem every_history_is_sound: "mesh_ok (run_ops mesh_step calls new_mesh_companion)"
  by (rule mesh.run_inv [OF new_mesh_ok])

text \<open>A watch bound to a node, its handshake complete.\<close>

definition the_pin :: mesh_peer_id where "the_pin = \<lparr>public_key = replicate 32 7\<rparr>"

definition self_info :: "u8 \<Rightarrow> bytes" where
  "self_info k = [kResponseSelfInfo, 0, 0, 0] @ replicate 32 k @ replicate 22 0"

definition ready_watch :: mesh_companion where
  "ready_watch = new_mesh_companion
     \<lparr>mc_link := (mc_link new_mesh_companion)\<lparr>ls_phase := Ready\<rparr>, mc_pinned := the_pin, mc_pinned_set := True,
      mc_device_info_seen := True, mc_self_info_seen := True,
      mc_contacts := new_mesh_contacts\<lparr>ct_complete := True\<rparr>,
      mc_status := (mc_status new_mesh_companion)
        \<lparr>ms_node_id := the_pin, ms_has_node_id := True, ms_availability := AvReady, ms_transport := Ready, ms_peers_complete := True\<rparr>\<rparr>"

lemma ready_watch_ok: "mesh_ok ready_watch"
  using new_mesh_ok by (simp add: ready_watch_def mesh_ok_def ok_contacts_def ok_ready_def link_ready_def new_mesh_contacts_def)
    (simp add: new_mesh_companion_def new_mesh_status_def)

end
