(* ===== verification/Mesh_Neutral.thy ===== *)
theory Mesh_Neutral
  imports Mesh_Histories
begin

text \<open>
  What most calls into the companion leave alone: the operation in flight, the verdict its sender
  is shown with its identifier, and the battery poll that may hold its clock back.
\<close>

abbreviation told :: "mesh_companion \<Rightarrow> mesh_delivery" where "told c \<equiv> ms_delivery (mc_status c)"
abbreviation text_id :: "mesh_companion \<Rightarrow> u32" where "text_id c \<equiv> ms_request_id (mc_status c)"

text \<open>The operation, what was told of it and under which identifier.\<close>

definition text_state :: "mesh_companion \<Rightarrow> mesh_operation \<times> mesh_delivery \<times> u32" where
  "text_state c = (mc_op c, told c, text_id c)"

lemma text_state_of [simp]:
  "text_state (c\<lparr>mc_ring := r\<rparr>) = text_state c" "text_state (c\<lparr>mc_battery := b\<rparr>) = text_state c"
  "text_state (c\<lparr>mc_contacts := ct\<rparr>) = text_state c" "text_state (c\<lparr>mc_drain := dr\<rparr>) = text_state c"
  "text_state (c\<lparr>mc_places := pl\<rparr>) = text_state c" "text_state (c\<lparr>mc_malformed := m\<rparr>) = text_state c"
  "text_state (c\<lparr>mc_cli := n\<rparr>) = text_state c" "text_state (c\<lparr>mc_firmware := f\<rparr>) = text_state c"
  "text_state (c\<lparr>mc_device_info_seen := x\<rparr>) = text_state c" "text_state (c\<lparr>mc_self_info_seen := x\<rparr>) = text_state c"
  "text_state (c\<lparr>mc_link := l\<rparr>) = text_state c" "text_state (c\<lparr>mc_wrong_node := x\<rparr>) = text_state c"
  "text_state (c\<lparr>mc_pinned := i\<rparr>) = text_state c" "text_state (c\<lparr>mc_pinned_set := x\<rparr>) = text_state c"
  by (simp_all add: text_state_def)

lemma text_state_status:
  "ms_delivery st = told c \<Longrightarrow> ms_request_id st = text_id c \<Longrightarrow> text_state (c\<lparr>mc_status := st\<rparr>) = text_state c"
  by (simp add: text_state_def)

lemma same_text:
  assumes "text_state c' = text_state c"
  shows "mc_op c' = mc_op c" and "told c' = told c" and "text_id c' = text_id c"
  using assms by (simp_all add: text_state_def)

section \<open>Small steps\<close>

lemma neutral_small [simp]:
  "text_state (snd (enqueue data c)) = text_state c" "text_state (count_malformed c) = text_state c"
  "text_state (mark_dirty c) = text_state c" "text_state (snd (mesh_apply e t r c)) = text_state c"
  by (simp_all add: enqueue_eq count_malformed_def mark_dirty_def mesh_apply_def case_prod_beta)

lemma neutral_status [simp]:
  "text_state (fail_battery_request b c) = text_state c" "text_state (invalidate_node_battery c) = text_state c"
  "text_state (update_availability c) = text_state c"
  by (simp_all add: text_state_def fail_battery_request_def invalidate_node_battery_def update_availability_def Let_def)

lemma neutral_asks [simp]: "text_state (snd (malformed c)) = text_state c" "text_state (snd (ask data c)) = text_state c"
  by (simp_all add: malformed_def ask_def case_prod_beta)

lemma battery_small [simp]:
  "mc_battery (snd (enqueue data c)) = mc_battery c" "mc_battery (count_malformed c) = mc_battery c"
  "mc_battery (mark_dirty c) = mc_battery c" "mc_battery (snd (mesh_apply e t r c)) = mc_battery c"
  "mc_battery (update_availability c) = mc_battery c" "mc_battery (snd (malformed c)) = mc_battery c"
  "mc_battery (snd (ask data c)) = mc_battery c" "mc_battery (end_operation c) = mc_battery c"
  "mc_battery (set_delivery d c) = mc_battery c" "mc_battery (clear_room c) = mc_battery c"
  by (simp_all add: enqueue_eq count_malformed_def mark_dirty_def mesh_apply_def update_availability_def malformed_def ask_def
      end_operation_def set_delivery_def clear_room_def case_prod_beta)

text \<open>Calls that leave both.\<close>

definition neutral :: "mesh_companion \<Rightarrow> mesh_companion \<Rightarrow> bool" where
  "neutral c c' \<longleftrightarrow> text_state c' = text_state c \<and> mc_battery c' = mc_battery c"

lemma neutral_refl [simp]: "neutral c c"
  by (simp add: neutral_def)

lemma neutral_trans: "neutral c d \<Longrightarrow> neutral d e \<Longrightarrow> neutral c e"
  by (simp add: neutral_def)

lemma neutral_from:
  "neutral (c\<lparr>mc_contacts := ct\<rparr>) e = neutral c e" "neutral (c\<lparr>mc_drain := dr\<rparr>) e = neutral c e"
  by (simp_all add: neutral_def)

lemma neutral_malformed [simp]: "neutral c (snd (malformed c))"
  by (simp add: neutral_def)

lemma neutral_drain [simp]:
  "neutral c (snd (request_next_message now c))" "neutral c (snd (spend_pending_push now c))" "neutral c (drain_after b now c)"
  by (simp_all add: neutral_def request_next_message_def spend_pending_push_def drain_after_def enqueue_eq split: bool.split)

lemma neutral_settle [simp]: "neutral c (settle_snapshot now c)"
  by (simp add: neutral_def settle_snapshot_def) (simp add: text_state_def)

lemma neutral_end_contacts [simp]: "neutral c (snd (end_contacts now c))"
  by (simp add: neutral_def end_contacts_def request_next_message_def enqueue_eq Let_def split: bool.split)

lemma neutral_finish [simp]: "neutral c (finish_retry now b c)"
  by (simp add: neutral_def finish_retry_def settle_snapshot_def Let_def) (simp add: text_state_def)

lemma neutral_accept_contact [simp]: "neutral c (accept_contact data c)"
  by (simp add: neutral_def accept_contact_def Let_def) (simp add: text_state_def)

lemma neutral_adopt [simp]: "neutral c (adopt_remote_position s now c)"
  by (simp add: neutral_def adopt_remote_position_def Let_def split: option.split)

lemma show_message_id [simp]: "ms_request_id (show_message s b st) = ms_request_id st"
  by (simp add: show_message_def case_prod_beta)

lemma neutral_messages [simp]:
  "neutral c (snd (accept_message data v3 now c))" "neutral c (snd (accept_channel_message_v3 data c))"
proof -
  have "neutral (c\<lparr>mc_status := st\<rparr>) (adopt_remote_position s now (c\<lparr>mc_status := st\<rparr>))" for s st by simp
  then show "neutral c (snd (accept_message data v3 now c))"
    by (simp add: neutral_def accept_message_def Let_def text_state_status)
qed (simp add: neutral_def accept_channel_message_v3_def text_state_status)

lemma neutral_self_position [simp]: "neutral c (accept_self_position data now c)"
  by (simp add: neutral_def accept_self_position_def Let_def)

section \<open>Answers that are not about a text\<close>

lemma neutral_answers [simp]:
  "neutral c (snd (on_device_info data c))" "neutral c (snd (on_contact_deleted data c))"
  "neutral c (snd (on_custom_vars data c))" "neutral c (snd (on_no_more_messages data c))"
  by (simp_all add: neutral_def on_device_info_def on_contact_deleted_def on_custom_vars_def on_no_more_messages_def
      accept_custom_vars_def Let_def)

lemma neutral_waiting [simp]: "neutral c (snd (on_message_waiting now c))"
proof -
  define d where "d = c\<lparr>mc_drain := (mc_drain c)\<lparr>dr_pending_push := True\<rparr>\<rparr>"
  have "neutral c d" by (simp add: d_def neutral_def)
  with neutral_trans [OF this neutral_drain(2) [of d now]] show ?thesis
    unfolding on_message_waiting_def Let_def d_def [symmetric] by (simp add: case_prod_beta) (simp add: neutral_def)
qed

lemma neutral_contacts_start [simp]: "neutral c (snd (on_contacts_start data now c))"
  by (simp add: neutral_def on_contacts_start_def Let_def) (simp add: text_state_def)

lemma neutral_contacts_end [simp]: "neutral c (snd (on_contacts_end data now c))"
proof -
  define c1 where "c1 = c\<lparr>mc_contacts := (if \<not> ct_open (mc_contacts c)
      then (mc_contacts c)\<lparr>ct_dirty := True, ct_open := True, ct_last_contact_at := now\<rparr> else mc_contacts c)\<lparr>ct_end_unsent := True\<rparr>\<rparr>"
  obtain ok c2 where e: "end_contacts now c1 = (ok, c2)" by fastforce
  have "neutral c c1" by (simp add: c1_def neutral_def)
  from neutral_trans [OF this neutral_end_contacts] have 2: "neutral c c2" by (metis e snd_conv)
  then have "neutral c (c2\<lparr>mc_status := (mc_status c2)\<lparr>ms_peers_complete := True\<rparr>\<rparr>)"
    by (simp add: neutral_def text_state_def)
  then have "neutral c (settle_snapshot now (c2\<lparr>mc_status := (mc_status c2)\<lparr>ms_peers_complete := True\<rparr>\<rparr>))"
    by (rule neutral_trans) (rule neutral_settle)
  with 2 e show ?thesis
    unfolding on_contacts_end_def Let_def c1_def [symmetric] by (simp split: bool.split)
qed

text \<open>A node that names itself may end the battery poll; it leaves the text.\<close>

lemma text_self_info [simp]: "text_state (snd (on_self_info data now c)) = text_state c"
proof -
  define node where "node = \<lparr>public_key = take 32 (drop 4 data)\<rparr>"
  define c1 where "c1 = (if ms_has_node_id (mc_status c) \<and> ms_node_id (mc_status c) \<noteq> node then invalidate_node_battery c else c)"
  define c2 where "c2 = c1\<lparr>mc_status := (mc_status c1)\<lparr>ms_node_id := node, ms_has_node_id := True,
      ms_node_name := fst (copy_text (ms_node_name (mc_status c1)) (drop 58 data))\<rparr>\<rparr>"
  define c3 where "c3 = (if mc_pinned_set c2
      then c2\<lparr>mc_status := (mc_status c2)\<lparr>ms_refused_id := new_mesh_peer_id, ms_has_refused := False\<rparr>\<rparr> else c2)"
  have 2: "text_state c2 = text_state c" "text_state c3 = text_state c2" by (simp_all add: c1_def c2_def c3_def text_state_status)
  moreover have "text_state (accept_self_position (drop 36 data) now c3) = text_state c3"
    using neutral_self_position [of c3] by (simp add: neutral_def)
  ultimately show ?thesis
    unfolding on_self_info_def Let_def node_def [symmetric] c1_def [symmetric] c2_def [symmetric] c3_def [symmetric]
    by (simp add: text_state_status)
qed

text \<open>The poll was left as it was, or given up because the node is another one.\<close>

definition poll_dropped :: "mesh_battery \<Rightarrow> mesh_battery \<Rightarrow> bool" where
  "poll_dropped b b' \<longleftrightarrow> b' = b \<or> (bt_request b' = BatteryIdle \<and> bt_identity_blocked b' \<and> bt_started b' = bt_started b \<and>
     bt_poll_now b' = bt_poll_now b)"

lemma invalidate_drops: "poll_dropped (mc_battery c) (mc_battery (invalidate_node_battery c))"
  by (simp add: poll_dropped_def invalidate_node_battery_def)

lemma battery_self_info: "poll_dropped (mc_battery c) (mc_battery (snd (on_self_info data now c)))"
proof -
  define node where "node = \<lparr>public_key = take 32 (drop 4 data)\<rparr>"
  define c1 where "c1 = (if ms_has_node_id (mc_status c) \<and> ms_node_id (mc_status c) \<noteq> node then invalidate_node_battery c else c)"
  define c2 where "c2 = c1\<lparr>mc_status := (mc_status c1)\<lparr>ms_node_id := node, ms_has_node_id := True,
      ms_node_name := fst (copy_text (ms_node_name (mc_status c1)) (drop 58 data))\<rparr>\<rparr>"
  define c3 where "c3 = (if mc_pinned_set c2
      then c2\<lparr>mc_status := (mc_status c2)\<lparr>ms_refused_id := new_mesh_peer_id, ms_has_refused := False\<rparr>\<rparr> else c2)"
  have 1: "poll_dropped (mc_battery c) (mc_battery c1)" using invalidate_drops by (simp add: c1_def poll_dropped_def)
  have 2: "mc_battery c2 = mc_battery c1" "mc_battery c3 = mc_battery c1"
    "mc_battery (accept_self_position (drop 36 data) now c3) = mc_battery c1"
    using neutral_self_position [of c3] by (simp_all add: c2_def c3_def neutral_def)
  show ?thesis
    using 1 2 unfolding on_self_info_def Let_def node_def [symmetric] c1_def [symmetric] c2_def [symmetric] c3_def [symmetric]
    by (simp add: poll_dropped_def)
qed

lemma text_battery_answer [simp]: "text_state (snd (on_battery data now c)) = text_state c"
  by (simp add: on_battery_def Let_def) (simp add: text_state_def)

lemma text_contact_aside: "text_state (snd (on_contact data now c)) = text_state c" if "\<not> op_awaiting_contact (mc_op c)"
  using that neutral_accept_contact [of c data] by (simp add: on_contact_def Let_def neutral_def)

section \<open>The clock, the transport and the owner\<close>

lemma text_ticks [simp]:
  "text_state (tick_battery now c) = text_state c" "text_state (tick_vars now c) = text_state c"
  by (simp_all add: tick_battery_def tick_vars_def Let_def text_state_status)

lemma neutral_ticks [simp]:
  "neutral c (tick_retry_deadline now c)" "neutral c (tick_retry_ask now c)" "neutral c (tick_retry_quiet now c)"
  "neutral c (tick_vars now c)"
proof -
  have "neutral c (settle_snapshot now (c\<lparr>mc_contacts := ct\<rparr>))" for ct
    using neutral_settle [of "c\<lparr>mc_contacts := ct\<rparr>" now] by (simp only: neutral_from)
  then show "neutral c (tick_retry_deadline now c)" by (simp add: tick_retry_deadline_def)
  show "neutral c (tick_retry_ask now c)"
    by (simp add: tick_retry_ask_def Let_def enqueue_eq split: bool.split) (simp add: neutral_def text_state_def)
qed (simp_all add: tick_retry_quiet_def tick_vars_def, simp add: neutral_def)

lemma neutral_tick_quiet [simp]: "neutral c (tick_quiet now c)"
proof -
  obtain ok c1 where e: "end_contacts now c = (ok, c1)" by fastforce
  have 1: "neutral c c1" using neutral_end_contacts [of c now] by (simp add: e)
  then have "neutral c (c1\<lparr>mc_status := (mc_status c1)\<lparr>ms_peers_complete := True\<rparr>\<rparr>)" by (simp add: neutral_def text_state_def)
  from neutral_trans [OF this neutral_settle] 1 e show ?thesis by (simp add: tick_quiet_def split: bool.split)
qed

lemma neutral_tick_drain [simp]: "neutral c (tick_drain now c)"
proof -
  have "neutral c (snd (spend_pending_push now (c\<lparr>mc_drain := dr\<rparr>)))" for dr
    using neutral_drain(2) [of "c\<lparr>mc_drain := dr\<rparr>" now] by (simp only: neutral_from)
  then show ?thesis by (simp add: tick_drain_def Let_def) (simp add: neutral_def)
qed

lemma neutral_availability [simp]: "neutral c (update_availability c)"
  by (simp add: neutral_def)

lemma neutral_after_operation:
  "neutral (tick_operation now (tick_battery now c)) (mesh_tick now c)"
  unfolding mesh_tick_def by (rule neutral_trans, rule neutral_trans, rule neutral_trans, rule neutral_trans, rule neutral_trans,
      rule neutral_trans) (rule neutral_ticks neutral_tick_quiet neutral_tick_drain neutral_availability)+

lemma text_next_tx [simp]: "text_state (snd (next_tx c)) = text_state c"
  by (rule next_tx_keeps [where P = "\<lambda>d. text_state d = text_state c"])
    (simp_all add: poll_battery_def Let_def enqueue_eq split: bool.split)

lemma text_pins [simp]: "text_state (mesh_pin i c) = text_state c" "text_state (snd (mesh_unpin c)) = text_state c"
proof -
  show "text_state (mesh_pin i c) = text_state c" by (simp add: mesh_pin_def Let_def text_state_status)
  have "text_state (snd (mesh_unpin c)) = text_state (invalidate_node_battery c)"
    unfolding mesh_unpin_def Let_def snd_conv by (simp add: text_state_def)
  then show "text_state (snd (mesh_unpin c)) = text_state c" by simp
qed

lemma battery_pins: "poll_dropped (mc_battery c) (mc_battery (mesh_pin i c))" "poll_dropped (mc_battery c) (mc_battery (snd (mesh_unpin c)))"
  by (simp_all add: mesh_pin_def mesh_unpin_def Let_def poll_dropped_def invalidate_node_battery_def)

end
