(* ===== verification/Mesh_Delivery.thy ===== *)
theory Mesh_Delivery
  imports Mesh_Neutral
begin

text \<open>
  What a sender is told. The verdict \<open>Confirmed\<close> comes from one frame only, and the bytes that frame
  must carry are followed from the answer in which the node announced them.
\<close>

section \<open>Calls that neither announce nor confirm\<close>

text \<open>A text whose confirmation would still be taken, and the bytes it would have to carry.\<close>

definition confirmable :: "mesh_companion \<Rightarrow> bool" where
  "confirmable c \<longleftrightarrow> op_awaiting_confirm (mc_op c) \<or> told c = Unconfirmed"

abbreviation tag :: "mesh_companion \<Rightarrow> bytes" where "tag c \<equiv> op_expected_ack (mc_op c)"
abbreviation no_tag :: bytes where "no_tag \<equiv> replicate 4 0"

definition no_news :: "mesh_companion \<Rightarrow> mesh_companion \<Rightarrow> bool" where
  "no_news c c' \<longleftrightarrow> (told c' = Confirmed \<longrightarrow> told c = Confirmed) \<and>
     (confirmable c' \<longrightarrow> tag c' = no_tag \<or> (confirmable c \<and> tag c' = tag c \<and> text_id c' = text_id c))"

lemma no_news_trans: "no_news c d \<Longrightarrow> no_news d e \<Longrightarrow> no_news c e"
  by (auto simp: no_news_def)

lemma no_news_text: "text_state c' = text_state c \<Longrightarrow> no_news c c'"
  by (simp add: no_news_def confirmable_def text_state_def)

lemma no_news_neutral: "neutral c c' \<Longrightarrow> no_news c c'"
  by (simp add: neutral_def no_news_text)

lemma no_news_refl [simp]: "no_news c c"
  by (simp add: no_news_text)

text \<open>What counts of a state for a text: states that agree on it have the same news.\<close>

lemma no_news_cong: "text_state c' = text_state c \<Longrightarrow> text_state e' = text_state e \<Longrightarrow> no_news c' e' = no_news c e"
  by (simp add: no_news_def confirmable_def text_state_def)

lemma no_news_end: "d \<noteq> Confirmed \<Longrightarrow> d = Unconfirmed \<longrightarrow> op_awaiting_confirm (mc_op c) \<Longrightarrow>
    no_news c (end_operation (set_delivery d c))"
  by (auto simp: no_news_def confirmable_def end_operation_def clear_operation_def set_delivery_def)

lemma no_news_refused: "no_news c (set_delivery DeliveryRefused c)"
  by (simp add: no_news_def confirmable_def set_delivery_def)

lemma no_news_private: "no_news c (snd (enqueue_private peer body t rid c))"
proof (cases rule: enqueue_private_cases [of peer body t rid c])
  case (queued n r q k)
  then show ?thesis by (simp add: no_news_def confirmable_def publish_def in_flight_def split: if_splits)
qed simp

lemma no_news_after_send:
  "no_news c (case enqueue_private peer body t rid c of (result, c1) \<Rightarrow> if accepted result then c1 else set_delivery DeliveryRefused c1)"
  using no_news_private [of c peer body t rid] no_news_trans [OF no_news_private no_news_refused, of c peer body t rid]
  by (simp add: case_prod_beta)

lemma no_news_reset: "no_news c (reset_session c)"
  by (simp add: no_news_def confirmable_def reset_session_def session_status_def clear_operation_def)

lemma no_news_op:
  "op_awaiting_confirm p = op_awaiting_confirm (mc_op c) \<Longrightarrow> op_expected_ack p = tag c \<Longrightarrow> no_news c (c\<lparr>mc_op := p\<rparr>)"
  by (simp add: no_news_def confirmable_def)

lemma no_news_fetched: "no_news c (take_fetched_contact data c)"
proof -
  define d where "d = c\<lparr>mc_op := (mc_op c)\<lparr>op_awaiting_contact := False, op_contact_peer := new_mesh_peer_id,
      op_contact_text := replicate 129 0, op_contact_timestamp := 0\<rparr>\<rparr>"
  have d: "no_news c d" unfolding d_def by (rule no_news_op) simp_all
  have "no_news c (end_operation (set_delivery DeliveryRefused d))"
    by (rule no_news_trans [OF d no_news_end]) simp_all
  with no_news_trans [OF d no_news_after_send] show ?thesis
    unfolding take_fetched_contact_def Let_def d_def [symmetric] by simp
qed

lemma no_news_contact: "no_news c (snd (on_contact data now c))"
proof -
  have "no_news c ((accept_contact data c)\<lparr>mc_contacts := ct\<rparr>)" for ct
    by (rule no_news_text) (use neutral_accept_contact [of c data] in \<open>simp add: neutral_def\<close>)
  with no_news_fetched [of c data] show ?thesis by (simp add: on_contact_def Let_def no_news_text)
qed

lemma no_news_login_success: "no_news c (snd (on_login_success data c))"
proof -
  define d where "d = c\<lparr>mc_op := (mc_op c)\<lparr>op_awaiting_login := False\<rparr>\<rparr>"
  have "no_news c d" unfolding d_def by (rule no_news_op) simp_all
  note sent = no_news_trans [OF this no_news_after_send]
  have room: "no_news e (clear_room e)" for e unfolding clear_room_def by (rule no_news_op) simp_all
  have "no_news c (clear_room (case enqueue_private peer body t rid d of (result, c1) \<Rightarrow> if accepted result then c1 else set_delivery DeliveryRefused c1))"
    for peer body t rid by (rule no_news_trans [OF sent room])
  then show ?thesis
    unfolding on_login_success_def Let_def d_def [symmetric] by (simp add: case_prod_beta no_news_text)
qed

lemma no_news_login_fail: "no_news c (snd (on_login_fail data c))"
proof -
  have "set_delivery DeliveryRefused (end_operation c) = end_operation (set_delivery DeliveryRefused c)"
    by (simp add: end_operation_def set_delivery_def)
  then show ?thesis using no_news_end [of DeliveryRefused c] by (simp add: on_login_fail_def no_news_text)
qed

lemma no_news_error: "no_news c (snd (on_error data now c))"
proof -
  define d where "d = c\<lparr>mc_drain := (mc_drain c)\<lparr>dr_draining := False\<rparr>\<rparr>"
  have d: "text_state d = text_state c" by (simp add: d_def)
  have settle: "no_news c (settle_snapshot now (d\<lparr>mc_contacts := ct\<rparr>))" for ct
    using no_news_neutral [OF neutral_settle, of "d\<lparr>mc_contacts := ct\<rparr>" now] no_news_cong [of "d\<lparr>mc_contacts := ct\<rparr>" c, OF _ refl] d by simp
  have ended: "no_news c (end_operation (set_delivery (if op_awaiting_confirm (mc_op d) then Unconfirmed else DeliveryRefused) d))"
    by (rule no_news_trans [OF no_news_text [OF d] no_news_end]) simp_all
  show ?thesis
    unfolding on_error_def Let_def d_def [symmetric] using settle ended d by (simp add: no_news_text)
qed

lemma no_news_tick_operation: "no_news c (tick_operation now c)"
proof -
  have "no_news c (c\<lparr>mc_op := (mc_op c)\<lparr>op_budget := b\<rparr>\<rparr>)" "no_news c (c\<lparr>mc_op := (mc_op c)\<lparr>op_since := t, op_budget := b\<rparr>\<rparr>)" for b t
    by (rule no_news_op; simp)+
  then show ?thesis by (auto simp: tick_operation_def intro!: no_news_end)
qed

lemma no_news_tick: "no_news c (mesh_tick now c)"
  by (rule no_news_trans [OF no_news_trans [OF no_news_text no_news_tick_operation] no_news_neutral [OF neutral_after_operation]]) simp

lemma no_news_publish:
  "\<not> op_awaiting_confirm p \<Longrightarrow> no_news c (publish rid (c\<lparr>mc_ring := r, mc_op := p\<rparr>))"
  by (simp add: no_news_def confirmable_def publish_def)

lemma idle_unconfirmed: "refuse_text body t c = NoRefusal \<Longrightarrow> \<not> op_awaiting_confirm (mc_op c)"
  using idle_before_send [of body t c] by (auto simp: in_flight_def split: if_splits)

lemma no_news_sends: "no_news c (snd (send_private peer body t c))" "no_news c (snd (send_room room pw body t c))"
  by (auto simp: send_private_def send_room_def Let_def enqueue_eq next_publish case_prod_beta no_news_private idle_unconfirmed
      no_news_text intro!: no_news_publish split: bool.split)

section \<open>The two frames that matter\<close>

text \<open>The node takes the text in flight and announces the bytes by which it will confirm it.\<close>

definition announces :: "bytes \<Rightarrow> mesh_companion \<Rightarrow> bool" where
  "announces d c \<longleftrightarrow> link_ready c \<and> \<not> mc_wrong_node c \<and> d ! 0 = kResponseSent \<and> 10 \<le> length d \<and> op_awaiting_send (mc_op c)"

definition announced_tag :: "bytes \<Rightarrow> bytes" where "announced_tag d = take 4 (drop 2 d)"

text \<open>The node confirms a text by its bytes.\<close>

definition confirms :: "bytes \<Rightarrow> mesh_companion \<Rightarrow> bool" where
  "confirms d c \<longleftrightarrow> link_ready c \<and> \<not> mc_wrong_node c \<and> d ! 0 = kPushSendConfirmed \<and> 5 \<le> length d \<and>
     take 4 (drop 1 d) = tag c \<and> tag c \<noteq> no_tag \<and> confirmable c"

lemma sent_cases: "no_news c (snd (on_sent data now c)) \<or>
    (op_awaiting_send (mc_op c) \<and> 10 \<le> length data \<and> told (snd (on_sent data now c)) \<noteq> Confirmed \<and>
      tag (snd (on_sent data now c)) = announced_tag data \<and> text_id (snd (on_sent data now c)) = text_id c)"
proof (cases "op_awaiting_send (mc_op c) \<and> 10 \<le> length data")
  case True
  then show ?thesis by (simp add: on_sent_def Let_def announced_tag_def set_delivery_def)
next
  case False
  have "no_news c (c\<lparr>mc_op := (mc_op c)\<lparr>op_answered := True, op_since := t, op_budget := b\<rparr>\<rparr>)" for t b
    by (rule no_news_op) simp_all
  with False show ?thesis by (auto simp: on_sent_def Let_def no_news_text)
qed

lemma confirmed_cases: "no_news c (snd (on_send_confirmed data c)) \<or>
    (5 \<le> length data \<and> take 4 (drop 1 data) = tag c \<and> tag c \<noteq> no_tag \<and> confirmable c \<and>
      \<not> confirmable (snd (on_send_confirmed data c)))"
  by (auto simp: on_send_confirmed_def no_news_text confirmable_def set_delivery_def)

lemmas no_news_handlers =
  neutral_answers [THEN no_news_neutral] neutral_waiting [THEN no_news_neutral] neutral_contacts_start [THEN no_news_neutral]
  neutral_contacts_end [THEN no_news_neutral] neutral_malformed [THEN no_news_neutral]
  text_self_info [THEN no_news_text] text_battery_answer [THEN no_news_text] neutral_small(3) [THEN no_news_text]
  no_news_contact no_news_login_success no_news_login_fail no_news_error

lemma no_news_drained:
  "no_news c (drain_after b now (snd (accept_message data v3 now c)))"
  "no_news c (drain_after b now (snd (accept_channel_message_v3 data c)))"
  by (rule no_news_neutral, rule neutral_trans, rule neutral_messages, rule neutral_drain)+

lemma dispatch_cases:
  "no_news c (snd (mesh_dispatch data now c)) \<or>
   (data ! 0 = kResponseSent \<and> snd (mesh_dispatch data now c) = snd (on_sent data now c)) \<or>
   (data ! 0 = kPushSendConfirmed \<and> snd (mesh_dispatch data now c) = snd (on_send_confirmed data c))"
proof (cases "data ! 0 = kResponseSent \<or> data ! 0 = kPushSendConfirmed")
  case True
  moreover have "snd (mesh_dispatch data now c) = snd (on_sent data now c)" if "data ! 0 = kResponseSent"
    using that by (simp add: mesh_dispatch_def)
  moreover have "snd (mesh_dispatch data now c) = snd (on_send_confirmed data c)" if "data ! 0 = kPushSendConfirmed"
    using that by (simp add: mesh_dispatch_def)
  ultimately show ?thesis by blast
next
  case False
  then have "no_news c (snd (mesh_dispatch data now c))"
    by (simp add: mesh_dispatch_def Let_def case_prod_beta no_news_handlers no_news_drained)
  then show ?thesis by blast
qed

lemma receive_cases:
  "no_news c (snd (mesh_receive d t c)) \<or>
   (\<exists>data. d = Some data \<and> announces data c \<and> told (snd (mesh_receive d t c)) \<noteq> Confirmed \<and>
      tag (snd (mesh_receive d t c)) = announced_tag data \<and> text_id (snd (mesh_receive d t c)) = text_id c) \<or>
   (\<exists>data. d = Some data \<and> confirms data c \<and> \<not> confirmable (snd (mesh_receive d t c)))"
proof (cases "\<exists>data. d = Some data \<and> data \<noteq> [] \<and> length data \<le> kMeshCoreFrameBytes \<and> link_ready c \<and> \<not> mc_wrong_node c")
  case False
  then show ?thesis by (auto simp: mesh_receive_def no_news_text split: option.split)
next
  case True
  then obtain data where d: "d = Some data" "data \<noteq> []" "length data \<le> kMeshCoreFrameBytes" "link_ready c" "\<not> mc_wrong_node c" by blast
  define c1 where "c1 = snd (mesh_apply PeerData t NoReason c)"
  define c2 where "c2 = snd (mesh_dispatch data t c1)"
  have 1: "text_state c1 = text_state c" by (simp add: c1_def)
  have 2: "text_state (snd (mesh_receive d t c)) = text_state c2"
    using d by (simp add: mesh_receive_def case_prod_beta c2_def c1_def split: bool.split)
  note one = same_text [OF 1] and two = same_text [OF 2]
  have conf: "confirmable (snd (mesh_receive d t c)) = confirmable c2" "confirmable c1 = confirmable c"
    using one two by (simp_all add: confirmable_def)
  have news: "no_news c (snd (mesh_receive d t c)) = no_news c1 c2" using no_news_cong [OF 1 2] no_news_cong [OF refl 2, of c]
      no_news_cong [OF 1 refl, of c2] by simp
  from dispatch_cases [of c1 data t, folded c2_def] show ?thesis
  proof (elim disjE conjE)
    assume "no_news c1 c2"
    with news show ?thesis by simp
  next
    assume "data ! 0 = kResponseSent" "c2 = snd (on_sent data t c1)"
    with sent_cases [of c1 data t] d one two news show ?thesis by (auto simp: announces_def)
  next
    assume "data ! 0 = kPushSendConfirmed" "c2 = snd (on_send_confirmed data c1)"
    with confirmed_cases [of c1 data] d one conf news show ?thesis by (auto simp: confirms_def)
  qed
qed

lemma confirmed_keeps_id:
  assumes "confirms data c"
  shows "text_id (snd (mesh_receive (Some data) t c)) = text_id c"
proof -
  have "text_id (snd (on_send_confirmed data e)) = text_id e" for e
    by (simp add: on_send_confirmed_def malformed_def count_malformed_def set_delivery_def)
  moreover have "data ! 0 = kPushSendConfirmed \<Longrightarrow> snd (mesh_dispatch data t e) = snd (on_send_confirmed data e)" for e
    by (simp add: mesh_dispatch_def)
  moreover have "text_id (snd (malformed c)) = text_id c" by (simp add: malformed_def count_malformed_def)
  moreover have "text_id (update_availability e) = text_id e" "text_id (snd (mesh_apply PeerData t NoReason c)) = text_id c" for e
    by (simp_all add: update_availability_def mesh_apply_def case_prod_beta)
  ultimately show ?thesis
    using assms by (simp add: confirms_def mesh_receive_def case_prod_beta split: bool.split)
qed

lemma no_news_steps:
  assumes "\<And>d t. x \<noteq> MReceive d t"
  shows "no_news c (mesh_step x c)"
proof (cases x)
  case (MBegin t)
  have "no_news c (reset_session (c\<lparr>mc_link := link_reset (mc_link c)\<rparr>))"
    using no_news_reset [of "c\<lparr>mc_link := link_reset (mc_link c)\<rparr>"] no_news_cong [of "c\<lparr>mc_link := link_reset (mc_link c)\<rparr>" c, OF _ refl] by simp
  then show ?thesis unfolding MBegin mesh_step.simps mesh_begin_def by (rule no_news_trans) (simp add: no_news_text)
next
  case (MConnected t)
  define d where "d = (if ls_phase (mc_link c) = Attached then snd (mesh_apply PeerArriving t NoReason c) else c)"
  define e where "e = snd (mesh_apply PeerEstablished t NoReason d)"
  have 1: "text_state e = text_state c" by (simp add: e_def d_def)
  have "no_news c (reset_session e)" by (rule no_news_trans [OF no_news_text [OF 1] no_news_reset])
  from no_news_trans [OF this, of "update_availability (snd (enqueue app_start_frame (reset_session e)))"] 1 show ?thesis
    unfolding MConnected mesh_step.simps mesh_connected_def Let_def d_def [symmetric] case_prod_beta e_def [symmetric]
    by (simp add: no_news_text)
next
  case (MDisconnected t)
  have "no_news c (reset_session (snd (mesh_apply PeerGone t PeerClosed c)))"
    by (rule no_news_trans [OF no_news_text no_news_reset]) simp
  then show ?thesis unfolding MDisconnected mesh_step.simps mesh_disconnected_def by (rule no_news_trans) (simp add: no_news_text)
next
  case (MFault t)
  have "no_news c (reset_session (snd (mesh_apply Fault t FaultReason c)))"
    by (rule no_news_trans [OF no_news_text no_news_reset]) simp
  then show ?thesis unfolding MFault mesh_step.simps mesh_fault_def by (rule no_news_trans) (simp add: no_news_text)
qed (use assms no_news_tick no_news_sends in \<open>simp_all add: mesh_peer_arriving_def drop_oversize_frame_def no_news_text\<close>)

section \<open>Where a confirmation comes from\<close>

text \<open>
  Among these calls the node announced these bytes for the text shown under this identifier, and
  from then on, up to the last of them, no other text took its place.
\<close>

definition announced_in :: "mesh_companion \<Rightarrow> mesh_call list \<Rightarrow> u32 \<Rightarrow> bytes \<Rightarrow> bool" where
  "announced_in c0 calls rid ack \<longleftrightarrow>
     (\<exists>pre d t post. calls = pre @ MReceive (Some d) t # post \<and>
        announces d (run_ops mesh_step pre c0) \<and> announced_tag d = ack \<and> text_id (run_ops mesh_step pre c0) = rid \<and>
        (\<forall>now later. post = now @ later \<longrightarrow> text_id (run_ops mesh_step (pre @ MReceive (Some d) t # now) c0) = rid))"

lemma announced_now:
  assumes "announces d (run_ops mesh_step calls c0)" "text_id (run_ops mesh_step calls c0) = rid"
    "text_id (mesh_step (MReceive (Some d) t) (run_ops mesh_step calls c0)) = rid"
  shows "announced_in c0 (calls @ [MReceive (Some d) t]) rid (announced_tag d)"
  unfolding announced_in_def
  by (rule exI [of _ calls], rule exI [of _ d], rule exI [of _ t], rule exI [of _ "[]"])
    (use assms in \<open>simp add: run_ops_append\<close>)

lemma announced_longer:
  assumes "announced_in c0 calls rid ack" "text_id (run_ops mesh_step (calls @ [x]) c0) = rid"
  shows "announced_in c0 (calls @ [x]) rid ack"
proof -
  from assms(1) obtain pre d t post where p: "calls = pre @ MReceive (Some d) t # post" "announces d (run_ops mesh_step pre c0)"
    "announced_tag d = ack" "text_id (run_ops mesh_step pre c0) = rid"
    and same: "\<And>now later. post = now @ later \<Longrightarrow> text_id (run_ops mesh_step (pre @ MReceive (Some d) t # now) c0) = rid"
    by (auto simp: announced_in_def)
  have "text_id (run_ops mesh_step (pre @ MReceive (Some d) t # now) c0) = rid" if "post @ [x] = now @ later" for now later
    using that assms(2) p(1) same by (cases later rule: rev_cases) auto
  with p show ?thesis unfolding announced_in_def by (intro exI [of _ pre] exI [of _ d] exI [of _ t] exI [of _ "post @ [x]"]) simp
qed

lemma tag_was_announced:
  assumes "tag c0 = no_tag" "confirmable (run_ops mesh_step calls c0)" "tag (run_ops mesh_step calls c0) \<noteq> no_tag"
  shows "announced_in c0 calls (text_id (run_ops mesh_step calls c0)) (tag (run_ops mesh_step calls c0))"
  using assms(2,3)
proof (induction calls rule: rev_induct)
  case Nil
  with assms(1) show ?case by simp
next
  case (snoc x calls)
  define c where "c = run_ops mesh_step calls c0"
  define c' where "c' = mesh_step x c"
  have step: "run_ops mesh_step (calls @ [x]) c0 = c'" by (simp add: c'_def c_def run_ops_append)
  have cases: "no_news c c' \<or>
      (\<exists>data t. x = MReceive (Some data) t \<and> announces data c \<and> tag c' = announced_tag data \<and> text_id c' = text_id c) \<or>
      \<not> confirmable c'"
  proof (cases "\<exists>d t. x = MReceive d t")
    case True
    then obtain d t where "x = MReceive d t" by blast
    with receive_cases [of c d t] show ?thesis by (auto simp: c'_def)
  next
    case False
    with no_news_steps [of x c] show ?thesis by (auto simp: c'_def)
  qed
  from snoc.prems have live: "confirmable c'" "tag c' \<noteq> no_tag" by (simp_all add: step)
  with cases show ?case
  proof (elim disjE exE conjE)
    assume "no_news c c'"
    with live have old: "confirmable c" "tag c = tag c'" "text_id c = text_id c'" by (auto simp: no_news_def)
    with live snoc.IH have "announced_in c0 calls (text_id c') (tag c')" by (simp add: c_def)
    from announced_longer [OF this, of x] show ?thesis by (simp add: step)
  next
    fix data t
    assume a: "x = MReceive (Some data) t" "announces data c" "tag c' = announced_tag data" "text_id c' = text_id c"
    have "announced_in c0 (calls @ [MReceive (Some data) t]) (text_id c') (announced_tag data)"
      by (rule announced_now) (use a in \<open>simp_all add: c_def [symmetric] c'_def\<close>)
    then show ?thesis using a step by simp
  qed simp
qed

text \<open>C14. Take any history of calls from a companion that has heard of no confirmation bytes yet, as it is
  when it is built and whenever a session starts: frames of any bytes, any clock, sends, pins and sessions in any order.
  The verdict turns to \<open>Confirmed\<close> only when the connected, accepted node pushes a confirmation, and
  then that confirmation carries, byte for byte, what the node itself announced earlier in this history in its answer to
  this very text: the answer came while that text was the one waiting to be taken, its identifier is the one
  the verdict is shown under, and no other text took its place in between. Four bytes of zero, which stand for no
  announcement, confirm nothing.\<close>

theorem confirmed_only_by_its_ack:
  assumes "tag c0 = no_tag"
    and "told (run_ops mesh_step calls c0) \<noteq> Confirmed"
    and "told (run_ops mesh_step (calls @ [call]) c0) = Confirmed"
  shows "\<exists>data t. call = MReceive (Some data) t \<and> confirms data (run_ops mesh_step calls c0) \<and>
    take 4 (drop 1 data) \<noteq> no_tag \<and>
    announced_in c0 calls (text_id (run_ops mesh_step (calls @ [call]) c0)) (take 4 (drop 1 data))"
proof -
  define c where "c = run_ops mesh_step calls c0"
  have news: "\<not> no_news c (mesh_step call c)" using assms(2,3) by (simp add: no_news_def c_def run_ops_append)
  then obtain d t where call: "call = MReceive d t" using no_news_steps by blast
  with news receive_cases [of c d t] assms(3) obtain data where d: "d = Some data" "confirms data c"
    by (auto simp: c_def run_ops_append)
  from d(2) have tag: "take 4 (drop 1 data) = tag c" "tag c \<noteq> no_tag" "confirmable c" by (simp_all add: confirms_def)
  then have a: "announced_in c0 calls (text_id c) (tag c)" using tag_was_announced [OF assms(1)] by (simp add: c_def)
  have "text_id (mesh_step call c) = text_id c" using confirmed_keeps_id d call by simp
  with a tag d call show ?thesis by (auto simp: c_def run_ops_append)
qed

text \<open>A text to a peer the watch knows, taken by the node and confirmed.\<close>

definition friend_watch :: mesh_companion where
  "friend_watch = ready_watch\<lparr>mc_contacts := (mc_contacts ready_watch)\<lparr>ct_peers := [new_mesh_peer\<lparr>mp_id := the_pin\<rparr>]\<rparr>\<rparr>"

definition sent_frame :: bytes where "sent_frame = [kResponseSent, 0, 9, 8, 7, 6, 0, 0, 0, 0]"

definition greeting :: "mesh_call list" where
  "greeting = [MSendPrivate the_pin [0x68, 0x69] 1000, MReceive (Some sent_frame) 5]"

definition receipt :: mesh_call where "receipt = MReceive (Some [kPushSendConfirmed, 9, 8, 7, 6]) 9"

definition open_link :: "mesh_companion \<Rightarrow> bool" where "open_link c \<longleftrightarrow> link_ready c \<and> \<not> mc_wrong_node c"

lemma data_keeps_open: "open_link c \<Longrightarrow> open_link (snd (mesh_apply PeerData t NoReason c))"
  using data_keeps_ready [of c t NoReason] by (auto simp: open_link_def same_ready_def) (simp_all add: mesh_apply_def case_prod_beta)

lemma friend_fields:
  "open_link friend_watch" "tag friend_watch = no_tag" "told friend_watch \<noteq> Confirmed" "op_request_seq (mc_op friend_watch) = 0"
  "refuse_text [0x68, 0x69] 1000 friend_watch = NoRefusal" "\<exists>p\<in>set (ct_peers (mc_contacts friend_watch)). mp_id p = the_pin"
  "fst (ring_enqueue (text_frame the_pin [0x68, 0x69] 1000) (mc_ring friend_watch))"
proof -
  note w = friend_watch_def ready_watch_def new_mesh_companion_def new_mesh_operation_def new_mesh_contacts_def new_mesh_status_def
  have "utf8_prefix_length [0x68, 0x69] (Suc (Suc 0)) = Suc (Suc 0)" by code_simp
  then show "refuse_text [0x68, 0x69] 1000 friend_watch = NoRefusal"
    by (simp add: w refuse_text_def link_ready_def send_busy_def kMeshTextBytes_def)
  show "open_link friend_watch" "tag friend_watch = no_tag" "told friend_watch \<noteq> Confirmed" "op_request_seq (mc_op friend_watch) = 0"
    by (simp_all add: w open_link_def link_ready_def)
  show "\<exists>p\<in>set (ct_peers (mc_contacts friend_watch)). mp_id p = the_pin" by (simp add: w new_mesh_peer_def)
  show "fst (ring_enqueue (text_frame the_pin [0x68, 0x69] 1000) (mc_ring friend_watch))"
    by (simp add: w ring_enqueue_def new_mesh_ring_def text_frame_def write_u32_def the_pin_def kMeshCoreFrameBytes_def kTxDepth_def)
qed

lemma greeting_sent:
  assumes "c = snd (send_private the_pin [0x68, 0x69] 1000 friend_watch)"
  shows "open_link c \<and> op_awaiting_send (mc_op c) \<and> told c = Queued \<and> text_id c = 1"
  using friend_fields unfolding assms
  by (simp add: send_private_def enqueue_private_def Let_def enqueue_eq case_prod_beta next_request_id_def publish_def open_link_def link_ready_def)

lemma greeting_taken:
  assumes "open_link c" "op_awaiting_send (mc_op c)" "c' = snd (mesh_receive (Some sent_frame) t c)"
  shows "open_link c' \<and> op_awaiting_confirm (mc_op c') \<and> told c' = DeliveryAccepted \<and> tag c' = [9, 8, 7, 6] \<and> text_id c' = text_id c"
  using assms data_keeps_open [OF assms(1), of t] unfolding assms(3) open_link_def
  by (simp add: mesh_receive_def sent_frame_def mesh_dispatch_def on_sent_def Let_def kMeshCoreFrameBytes_def set_delivery_def
      update_availability_def mesh_apply_def case_prod_beta link_ready_def)

lemma greeting_confirmed:
  assumes "open_link c" "op_awaiting_confirm (mc_op c)" "tag c = [9, 8, 7, 6]" "c' = mesh_step receipt c"
  shows "told c' = Confirmed \<and> text_id c' = text_id c"
proof -
  have "no_tag = [0, 0, 0, 0]" by (simp add: numeral_eq_Suc)
  then show ?thesis
    using assms unfolding assms(4) open_link_def
    by (simp add: receipt_def mesh_receive_def mesh_dispatch_def on_send_confirmed_def kMeshCoreFrameBytes_def set_delivery_def
        update_availability_def mesh_apply_def case_prod_beta link_ready_def)
qed

lemma confirmed_only_by_its_ack_witness:
  "told (run_ops mesh_step (greeting @ [receipt]) friend_watch) = Confirmed \<and> announced_in friend_watch greeting 1 [9, 8, 7, 6]"
proof -
  define c1 where "c1 = snd (send_private the_pin [0x68, 0x69] 1000 friend_watch)"
  define c2 where "c2 = snd (mesh_receive (Some sent_frame) 5 c1)"
  have run: "run_ops mesh_step greeting friend_watch = c2" "run_ops mesh_step (greeting @ [receipt]) friend_watch = mesh_step receipt c2"
    by (simp_all add: greeting_def c1_def c2_def run_ops_append)
  note 1 = greeting_sent [OF c1_def]
  then have 2: "open_link c2 \<and> op_awaiting_confirm (mc_op c2) \<and> told c2 = DeliveryAccepted \<and> tag c2 = [9, 8, 7, 6] \<and> text_id c2 = 1"
    using greeting_taken [OF _ _ c2_def] by simp
  then have 3: "told (mesh_step receipt c2) = Confirmed \<and> text_id (mesh_step receipt c2) = 1"
    using greeting_confirmed [OF _ _ _ refl, of c2] by simp
  have h: "told (run_ops mesh_step greeting friend_watch) \<noteq> Confirmed"
    "told (run_ops mesh_step (greeting @ [receipt]) friend_watch) = Confirmed" using 2 3 by (simp_all add: run)
  obtain data t where d: "receipt = MReceive (Some data) t"
    and a: "announced_in friend_watch greeting (text_id (mesh_step receipt c2)) (take 4 (drop 1 data))"
    using confirmed_only_by_its_ack [OF friend_fields(2) h] unfolding run(2) by blast
  from d have "take 4 (drop 1 data) = [9, 8, 7, 6]" by (auto simp: receipt_def)
  with a 3 h(2) show ?thesis by simp
qed

end
