(* ===== verification/Mesh_Clock.thy ===== *)
theory Mesh_Clock
  imports Mesh_Neutral
begin

text \<open>
  Histories of the companion on one clock, and what holds of the dates it keeps for a text and for
  the battery poll: none of them lies in the future.
\<close>

fun call_time :: "mesh_call \<Rightarrow> monotonic option" where
  "call_time (MBegin t) = Some t" | "call_time (MArriving t) = Some t" | "call_time (MConnected t) = Some t"
| "call_time (MDisconnected t) = Some t" | "call_time (MFault t) = Some t" | "call_time (MTick t) = Some t"
| "call_time (MReceive d t) = Some t" | "call_time _ = None"

text \<open>A call made at a time that is already past does not happen: the clock is monotonic.\<close>

definition timed_step :: "mesh_call \<Rightarrow> mesh_companion \<times> monotonic \<Rightarrow> mesh_companion \<times> monotonic" where
  "timed_step call s =
     (case call_time call of
        None \<Rightarrow> (mesh_step call (fst s), snd s)
      | Some t \<Rightarrow> if snd s \<le> t then (mesh_step call (fst s), t) else s)"

text \<open>The time after a call, and calls that come in the order of the clock.\<close>

definition later :: "mesh_call \<Rightarrow> monotonic \<Rightarrow> monotonic" where
  "later x now = (case call_time x of None \<Rightarrow> now | Some t \<Rightarrow> t)"

fun timely :: "monotonic \<Rightarrow> mesh_call list \<Rightarrow> bool" where
  "timely now [] \<longleftrightarrow> True"
| "timely now (x # xs) \<longleftrightarrow> now \<le> later x now \<and> timely (later x now) xs"

lemma timely_append: "timely now (xs @ ys) \<longleftrightarrow> timely now xs \<and> timely (fold later xs now) ys"
  by (induction xs arbitrary: now) auto

lemma timely_steps: "timely now calls \<Longrightarrow> run_ops timed_step calls (c, now) = (run_ops mesh_step calls c, fold later calls now)"
  by (induction calls arbitrary: c now) (auto simp: timed_step_def later_def split: option.splits)

section \<open>Nothing is dated in the future\<close>

definition dated :: "monotonic \<Rightarrow> mesh_companion \<Rightarrow> bool" where
  "dated now c \<longleftrightarrow> op_since (mc_op c) \<le> now \<and> op_budget (mc_op c) \<le> kMaxAckWait \<and>
     bt_started (mc_battery c) \<le> now \<and> bt_poll_now (mc_battery c) \<le> now"

lemma dated_later: "dated t c \<Longrightarrow> t \<le> now \<Longrightarrow> dated now c"
  by (auto simp: dated_def)

lemma dated_neutral: "neutral c c' \<Longrightarrow> dated now c' = dated now c"
  by (simp add: dated_def neutral_def text_state_def)

lemma dated_text:
  assumes "dated now c" "text_state c' = text_state c" "bt_started (mc_battery c') \<le> now" "bt_poll_now (mc_battery c') \<le> now"
  shows "dated now c'"
  using assms by (simp add: dated_def text_state_def)

lemma dated_small [simp]:
  "dated now (c\<lparr>mc_ring := r\<rparr>) = dated now c" "dated now (set_delivery d c) = dated now c" "dated now (mark_dirty c) = dated now c"
  "dated now (update_availability c) = dated now c" "dated now (snd (mesh_apply e t why c)) = dated now c"
  "dated now (snd (enqueue data c)) = dated now c" "dated now (snd (malformed c)) = dated now c" "dated now (clear_room c) = dated now c"
  "dated now (c\<lparr>mc_drain := dr\<rparr>) = dated now c" "dated now (c\<lparr>mc_contacts := ct\<rparr>) = dated now c"
  "dated now (c\<lparr>mc_places := pl\<rparr>) = dated now c" "dated now (c\<lparr>mc_malformed := n\<rparr>) = dated now c"
  "dated now (c\<lparr>mc_link := l\<rparr>) = dated now c"
  by (simp_all add: dated_def set_delivery_def mark_dirty_def update_availability_def mesh_apply_def case_prod_beta enqueue_eq
      malformed_def count_malformed_def clear_room_def)

lemma dated_op: "dated now c \<Longrightarrow> op_since p = op_since (mc_op c) \<Longrightarrow> op_budget p = op_budget (mc_op c) \<or> op_budget p = 0 \<Longrightarrow>
    dated now (c\<lparr>mc_op := p\<rparr>)"
  by (auto simp: dated_def)

lemma dated_end [simp]: "dated now c \<Longrightarrow> dated now (end_operation c)"
  by (simp add: dated_def end_operation_def clear_operation_def)

lemma dated_private: "dated now c \<Longrightarrow> dated now (snd (enqueue_private peer body t rid c))"
  by (cases rule: enqueue_private_cases [of peer body t rid c]) (simp_all add: dated_def publish_def)

lemma dated_after_send: "dated now c \<Longrightarrow> dated now
    (case enqueue_private peer body t rid c of (result, c1) \<Rightarrow> if accepted result then c1 else set_delivery DeliveryRefused c1)"
  using dated_private [of now c peer body t rid] by (simp add: case_prod_beta)

lemma dated_fail_battery [simp]: "dated now c \<Longrightarrow> dated now (fail_battery_request b c)"
  by (simp add: dated_def fail_battery_request_def Let_def)

lemma dated_reset [simp]: "dated now (reset_session c)"
  by (simp add: dated_def reset_session_def clear_operation_def new_mesh_battery_def kMaxAckWait_def)

section \<open>Answers\<close>

lemma dated_self_info: "dated now c \<Longrightarrow> dated now (snd (on_self_info data t c))"
  using battery_self_info [of c data t] by (auto simp: poll_dropped_def dated_def same_text(1) [OF text_self_info])

lemma dated_fetched: "dated now c \<Longrightarrow> dated now (take_fetched_contact data c)"
proof -
  define d where "d = c\<lparr>mc_op := (mc_op c)\<lparr>op_awaiting_contact := False, op_contact_peer := new_mesh_peer_id,
      op_contact_text := replicate 129 0, op_contact_timestamp := 0\<rparr>\<rparr>"
  assume "dated now c"
  then have "dated now d" by (simp add: d_def dated_def)
  then show ?thesis unfolding take_fetched_contact_def Let_def d_def [symmetric] using dated_after_send by simp
qed

lemma dated_contact: "dated now c \<Longrightarrow> dated now (snd (on_contact data t c))"
  using dated_neutral [OF neutral_accept_contact, of now data c] by (simp add: on_contact_def Let_def dated_fetched)

lemma dated_battery: "dated now c \<Longrightarrow> dated now (snd (on_battery data t c))"
proof -
  have "bt_started (mc_battery (snd (on_battery data t c))) = bt_started (mc_battery c)"
    "bt_poll_now (mc_battery (snd (on_battery data t c))) = bt_poll_now (mc_battery c)"
    by (simp_all add: on_battery_def fail_battery_request_def count_malformed_def Let_def)
  then show "dated now c \<Longrightarrow> ?thesis" by (simp add: dated_def same_text(1) [OF text_battery_answer])
qed

lemma ack_wait_bound: "ack_wait e \<le> kMaxAckWait"
  by (auto simp: ack_wait_def kMinAckWait_def kMaxAckWait_def)

lemma dated_sent: "dated now c \<Longrightarrow> t \<le> now \<Longrightarrow> dated now (snd (on_sent data t c))"
  by (auto simp: on_sent_def Let_def ack_wait_bound) (simp_all add: dated_def set_delivery_def ack_wait_bound)

lemma dated_confirmed: "dated now c \<Longrightarrow> dated now (snd (on_send_confirmed data c))"
  by (auto simp: on_send_confirmed_def intro: dated_op)

lemma dated_login:
  "dated now c \<Longrightarrow> dated now (snd (on_login_success data c))" "dated now c \<Longrightarrow> dated now (snd (on_login_fail data c))"
proof -
  assume c: "dated now c"
  then have "dated now (c\<lparr>mc_op := (mc_op c)\<lparr>op_awaiting_login := False\<rparr>\<rparr>)" by (simp add: dated_def)
  from dated_private [OF this] c show "dated now (snd (on_login_success data c))"
    by (simp add: on_login_success_def Let_def case_prod_beta)
  from c show "dated now (snd (on_login_fail data c))" by (simp add: on_login_fail_def)
qed

lemma dated_error: "dated now c \<Longrightarrow> dated now (snd (on_error data t c))"
proof -
  define d where "d = c\<lparr>mc_drain := (mc_drain c)\<lparr>dr_draining := False\<rparr>\<rparr>"
  assume c: "dated now c"
  then have d: "dated now d" by (simp add: d_def)
  then have "dated now (settle_snapshot t (d\<lparr>mc_contacts := ct\<rparr>))" "dated now (d\<lparr>mc_places := pl\<rparr>)" for ct pl
    using dated_neutral [OF neutral_settle, of now t "d\<lparr>mc_contacts := ct\<rparr>"] by simp_all
  moreover have "dated now (e\<lparr>mc_battery := (mc_battery e)\<lparr>bt_reply_unaccounted := True\<rparr>\<rparr>)" if "dated now e" for e
    using that by (simp add: dated_def)
  ultimately show ?thesis
    unfolding on_error_def Let_def d_def [symmetric] using c d by simp
qed

lemma dated_messages:
  "dated now c \<Longrightarrow> dated now (drain_after b t (snd (accept_message data v3 t c)))"
  "dated now c \<Longrightarrow> dated now (drain_after b t (snd (accept_channel_message_v3 data c)))"
  using dated_neutral [OF neutral_trans [OF neutral_messages(1) neutral_drain(3)], of now b t data v3 t c]
    dated_neutral [OF neutral_trans [OF neutral_messages(2) neutral_drain(3)], of now b t data c] by simp_all

lemmas dated_answers = neutral_answers [THEN dated_neutral, THEN iffD2] neutral_waiting [THEN dated_neutral, THEN iffD2]
  neutral_contacts_start [THEN dated_neutral, THEN iffD2] neutral_contacts_end [THEN dated_neutral, THEN iffD2]
  dated_self_info dated_contact dated_battery dated_sent dated_confirmed dated_login dated_error dated_messages

lemma dated_dispatch: "dated now c \<Longrightarrow> t \<le> now \<Longrightarrow> dated now (snd (mesh_dispatch data t c))"
  by (simp add: mesh_dispatch_def Let_def case_prod_beta dated_answers)

lemma dated_receive: "dated now c \<Longrightarrow> t \<le> now \<Longrightarrow> dated now (snd (mesh_receive d t c))"
  using dated_dispatch [of now "snd (mesh_apply PeerData t NoReason c)" t "the d"]
  by (cases d) (simp_all add: mesh_receive_def case_prod_beta split: bool.split)

section \<open>The clock, the transport and the owner\<close>

lemma dated_tick: "dated now c \<Longrightarrow> t \<le> now \<Longrightarrow> dated now (mesh_tick t c)"
proof -
  assume c: "dated now c" and t: "t \<le> now"
  have "bt_started (mc_battery (tick_battery t c)) = bt_started (mc_battery c)" "bt_poll_now (mc_battery (tick_battery t c)) = t"
    by (simp_all add: tick_battery_def fail_battery_request_def Let_def)
  with c t have "dated now (tick_battery t c)" by (intro dated_text [OF c text_ticks(1)]) (simp_all add: dated_def)
  then have "dated now (tick_operation t (tick_battery t c))"
    using t by (auto simp: tick_operation_def) (simp_all add: dated_def)
  with dated_neutral [OF neutral_after_operation] show ?thesis by blast
qed

lemma dated_next_tx: "dated now c \<Longrightarrow> dated now (snd (next_tx c))"
  by (rule next_tx_keeps) (simp_all add: poll_battery_def Let_def enqueue_eq dated_def split: bool.split)

lemma dated_pins: "dated now c \<Longrightarrow> dated now (mesh_pin i c)" "dated now c \<Longrightarrow> dated now (snd (mesh_unpin c))"
  using battery_pins(1) [of c i] battery_pins(2) [of c]
  by (auto simp: poll_dropped_def dated_def same_text(1) [OF text_pins(1)] same_text(1) [OF text_pins(2)])

lemma dated_publish: "dated now (c\<lparr>mc_op := p\<rparr>) \<Longrightarrow> dated now (publish n (c\<lparr>mc_ring := r, mc_op := p\<rparr>))"
  by (simp add: dated_def publish_def)

lemma dated_sends: "dated now c \<Longrightarrow> dated now (snd (send_private peer body t c))" "dated now c \<Longrightarrow> dated now (snd (send_room room pw body t c))"
  by (auto simp: send_private_def send_room_def Let_def enqueue_eq next_publish case_prod_beta dated_private
      intro!: dated_publish dated_op split: bool.split)

lemma dated_step:
  assumes "dated now c" "\<And>t. call_time x = Some t \<Longrightarrow> t \<le> now"
  shows "dated now (mesh_step x c)"
  using assms dated_tick dated_receive dated_next_tx dated_pins dated_sends
  by (cases x) (simp_all add: mesh_begin_def mesh_peer_arriving_def mesh_connected_def mesh_disconnected_def mesh_fault_def
      drop_oversize_frame_def case_prod_beta Let_def)

lemma dated_timed: "dated (snd s) (fst s) \<Longrightarrow> dated (snd (timed_step x s)) (fst (timed_step x s))"
  by (auto simp: timed_step_def split: option.split intro: dated_step dated_later)

interpretation dated_mesh: guarded_ops timed_step "\<lambda>s. dated (snd s) (fst s)"
  by unfold_locales (rule dated_timed)

lemma new_dated: "dated 0 new_mesh_companion"
  by (simp add: dated_def new_mesh_companion_def new_mesh_operation_def new_mesh_battery_def kMaxAckWait_def)

text \<open>Every state that a history on one clock reaches is dated.\<close>

lemma dated_history: "run_ops timed_step calls (new_mesh_companion, 0) = (c, now) \<Longrightarrow> dated now c"
  using dated_mesh.run_inv [of "(new_mesh_companion, 0)" calls] new_dated by simp

end
