(* ===== verification/Mesh_Send.thy ===== *)
theory Mesh_Send
  imports Mesh_Delivery Mesh_Clock
begin

text \<open>
  What a request to send does, and that every text that was taken is over in bounded time.
\<close>

section \<open>All or nothing\<close>

definition known_id :: "mesh_peer_id \<Rightarrow> mesh_companion \<Rightarrow> bool" where
  "known_id peer c \<longleftrightarrow> (\<exists>p\<in>set (ct_peers (mc_contacts c)). mp_id p = peer)"

lemma enqueue_appends:
  assumes "mesh_ok c" "fst (ring_enqueue data (mc_ring c))"
  shows "ring_frames (snd (ring_enqueue data (mc_ring c))) = ring_frames (mc_ring c) @ [frame_of data]"
proof -
  obtain fs where fs: "ring_holds fs (mc_ring c)" using assms(1) by (auto simp: mesh_ok_def ok_ring_def)
  show ?thesis
  proof (cases "data \<noteq> [] \<and> length data \<le> kMeshCoreFrameBytes \<and> length fs < kTxDepth")
    case True
    with enqueue_holds [OF fs, of data] have "ring_holds (fs @ [frame_of data]) (snd (ring_enqueue data (mc_ring c)))" by blast
    from holds_frames [OF this] holds_frames [OF fs] show ?thesis by simp
  next
    case False
    from enqueue_full [OF fs False] assms(2) show ?thesis by simp
  qed
qed

lemma failed_enqueue: "\<not> fst (ring_enqueue data r) \<Longrightarrow> snd (ring_enqueue data r) = r"
  by (auto simp: ring_enqueue_def Let_def split: if_splits)

lemma next_id_nonzero: "fst (next_request_id c) \<noteq> 0"
  by (simp add: next_request_id_def Let_def)

lemma next_id_irrelevant [simp]:
  "fst (next_request_id (c\<lparr>mc_ring := r\<rparr>)) = fst (next_request_id c)"
  by (simp add: next_request_id_def Let_def)

text \<open>
  The frame a text takes: the text itself for a peer of the table, a question for the contact
  for any other, the login for a room.
\<close>

definition taken_as :: "bytes \<Rightarrow> mesh_send_result \<Rightarrow> mesh_companion \<Rightarrow> mesh_companion \<Rightarrow> bool" where
  "taken_as frame result c c' \<longleftrightarrow>
     (if accepted result
      then ring_frames (mc_ring c') = ring_frames (mc_ring c) @ [frame_of frame] \<and> told c' = Queued \<and>
        ms_request_id (mc_status c') = sr_request_id result \<and> sr_refusal result = NoRefusal \<and>
        \<not> send_busy c \<and> in_flight (mc_op c') = 1
      else c' = c \<and> sr_refusal result \<noteq> NoRefusal)"

lemma taken_refused: "r \<noteq> NoRefusal \<Longrightarrow> taken_as frame \<lparr>sr_request_id = 0, sr_refusal = r\<rparr> c c"
  by (simp add: taken_as_def accepted_def)

lemma taken_published:
  assumes "mesh_ok c" "fst (ring_enqueue frame (mc_ring c))" "in_flight (mc_op c) = 0" "in_flight p = 1" "n \<noteq> 0"
  shows "taken_as frame \<lparr>sr_request_id = n, sr_refusal = NoRefusal\<rparr> c
    (publish n (c\<lparr>mc_ring := snd (ring_enqueue frame (mc_ring c)), mc_op := p\<rparr>))"
  using assms by (simp add: taken_as_def accepted_def publish_def enqueue_appends in_flight_busy)

lemma flight_fields [simp]:
  "in_flight (p\<lparr>op_request_seq := q\<rparr>) = in_flight p" "in_flight (p\<lparr>op_seq := q\<rparr>) = in_flight p"
  "in_flight (p\<lparr>op_budget := m\<rparr>) = in_flight p" "in_flight (p\<lparr>op_answered := b\<rparr>) = in_flight p"
  by (simp_all add: in_flight_def)

lemma private_taken:
  assumes "mesh_ok c"
  shows "taken_as (text_frame peer body t) (fst (enqueue_private peer body t 0 c)) c (snd (enqueue_private peer body t 0 c))"
proof (cases "refuse_text body t c = NoRefusal \<and> fst (ring_enqueue (text_frame peer body t) (mc_ring c))")
  case True
  then have "in_flight (mc_op c) = 0" using idle_before_send by blast
  with True show ?thesis
    by (auto simp: enqueue_private_def Let_def enqueue_eq next_publish case_prod_beta next_id_nonzero in_flight_def
        intro!: taken_published assms)
next
  case False
  then show ?thesis
    by (auto simp: enqueue_private_def Let_def enqueue_eq failed_enqueue intro!: taken_refused)
qed

text \<open>C19. A request to send a text either is refused with a reason and changes nothing at all, or is
  taken: then exactly one frame is appended to the transmit queue - the text for a peer the watch knows,
  otherwise a question for that contact - the text is shown as queued under the non-zero identifier
  that was answered, and it is the one operation in flight.\<close>

theorem private_text_all_or_nothing:
  assumes "mesh_ok c"
  shows "taken_as (if known_id peer c then text_frame peer body t else fetch_frame peer)
    (fst (send_private peer body t c)) c (snd (send_private peer body t c))"
proof (cases "known_id peer c")
  case True
  then show ?thesis using private_taken [OF assms] by (simp add: send_private_def known_id_def)
next
  case unknown: False
  show ?thesis
  proof (cases "refuse_text body t c = NoRefusal \<and> fst (ring_enqueue (fetch_frame peer) (mc_ring c))")
    case True
    then have "in_flight (mc_op c) = 0" using idle_before_send by blast
    with True unknown show ?thesis
      by (simp add: send_private_def known_id_def Let_def enqueue_eq next_publish case_prod_beta)
        (auto simp: next_id_nonzero in_flight_def intro!: taken_published taken_refused assms)
  next
    case False
    with unknown show ?thesis
      by (auto simp: send_private_def known_id_def Let_def enqueue_eq failed_enqueue intro!: taken_refused)
  qed
qed

lemma private_text_all_or_nothing_witness:
  "accepted (fst (send_private the_pin [0x68, 0x69] 1000 ready_watch)) \<and>
   taken_as (if known_id the_pin ready_watch then text_frame the_pin [0x68, 0x69] 1000 else fetch_frame the_pin)
     (fst (send_private the_pin [0x68, 0x69] 1000 ready_watch)) ready_watch (snd (send_private the_pin [0x68, 0x69] 1000 ready_watch))"
proof
  show "accepted (fst (send_private the_pin [0x68, 0x69] 1000 ready_watch))" by code_simp
qed (rule private_text_all_or_nothing [OF ready_watch_ok])

text \<open>The same of a text for a room, which sends the login first.\<close>

lemma room_text_all_or_nothing:
  assumes "mesh_ok c"
  shows "taken_as (login_frame room pw) (fst (send_room room pw body t c)) c (snd (send_room room pw body t c))"
proof (cases "refuse_text body t c = NoRefusal \<and> pw \<noteq> [] \<and> length pw \<le> 15 \<and> fst (ring_enqueue (login_frame room pw) (mc_ring c))")
  case True
  then have "in_flight (mc_op c) = 0" using idle_before_send by blast
  with True show ?thesis
    by (simp add: send_room_def Let_def enqueue_eq next_publish case_prod_beta)
      (auto simp: next_id_nonzero in_flight_def intro!: taken_published assms)
next
  case False
  then show ?thesis
    by (auto simp: send_room_def Let_def enqueue_eq failed_enqueue intro!: taken_refused)
qed

section \<open>Every operation ends\<close>

text \<open>What a sender is told of an operation that ran out of time.\<close>

definition verdict_after :: "mesh_operation \<Rightarrow> mesh_delivery" where
  "verdict_after p = (if op_awaiting_confirm p then Unconfirmed else if op_awaiting_contact p then DeliveryRefused else DeliveryUnknown)"

text \<open>
  The calls that bring no answer to a text and no battery reply, and neither begin nor end a
  session: the clock, the transport asking for frames, the owner, and every other frame of the node.
\<close>

definition answer_codes :: "u8 set" where
  "answer_codes = {kResponseSent, kPushSendConfirmed, kPushLoginSuccess, kPushLoginFail, kResponseError, kResponseContact,
     kResponseBatteryAndStorage}"

fun unanswered :: "mesh_call \<Rightarrow> bool" where
  "unanswered (MReceive (Some d) t) \<longleftrightarrow> d = [] \<or> d ! 0 \<notin> answer_codes"
| "unanswered (MBegin t) \<longleftrightarrow> False"
| "unanswered (MConnected t) \<longleftrightarrow> False"
| "unanswered (MDisconnected t) \<longleftrightarrow> False"
| "unanswered (MFault t) \<longleftrightarrow> False"
| "unanswered _ \<longleftrightarrow> True"

subsection \<open>One call\<close>

text \<open>Between two ticks the operation stands still, and the battery poll moves in one of three ways.\<close>

definition poll_sent :: "mesh_battery \<Rightarrow> mesh_battery \<Rightarrow> bool" where
  "poll_sent b b' \<longleftrightarrow> bt_request b \<noteq> BatteryWaiting \<and> \<not> bt_identity_blocked b"

definition still :: "mesh_companion \<Rightarrow> mesh_companion \<Rightarrow> bool" where
  "still c c' \<longleftrightarrow> text_state c' = text_state c \<and>
     (poll_dropped (mc_battery c) (mc_battery c') \<or> poll_sent (mc_battery c) (mc_battery c'))"

lemma still_neutral: "neutral c c' \<Longrightarrow> still c c'"
  by (simp add: still_def neutral_def poll_dropped_def)

lemma still_refl [simp]: "still c c"
  by (rule still_neutral) simp

lemma still_cong: "neutral c d \<Longrightarrow> still d e \<Longrightarrow> still c e"
  by (simp add: still_def neutral_def)

lemma still_after: "still c d \<Longrightarrow> neutral d e \<Longrightarrow> still c e"
  by (simp add: still_def neutral_def)

lemma next_tx_blocked: "bt_identity_blocked (mc_battery c) \<Longrightarrow> mc_battery (snd (next_tx c)) = mc_battery c"
proof (induction c rule: next_tx.induct)
  case (1 c0)
  then have p: "poll_battery c0 = c0" by (simp add: poll_blocked)
  show ?case
    using 1 by (subst next_tx.simps) (simp add: p Let_def case_prod_beta ring_take_def)
qed

lemma still_next_tx: "still c (snd (next_tx c))"
  using next_tx_idle [of c] next_tx_blocked [of c] by (auto simp: still_def poll_sent_def poll_dropped_def)

lemma still_dispatch: "d ! 0 \<notin> answer_codes \<Longrightarrow> still c (snd (mesh_dispatch d t c))"
proof -
  have "still c (snd (on_self_info d t c))" using battery_self_info by (simp add: still_def)
  moreover have "neutral c (drain_after b t (snd (accept_message d v3 t c)))"
    "neutral c (drain_after b t (snd (accept_channel_message_v3 d c)))" for b v3
    by (rule neutral_trans, rule neutral_messages, rule neutral_drain)+
  moreover have "neutral c (mark_dirty c)" by (simp add: neutral_def)
  ultimately show "d ! 0 \<notin> answer_codes \<Longrightarrow> ?thesis"
    by (simp add: answer_codes_def mesh_dispatch_def Let_def case_prod_beta still_neutral)
qed

lemma still_receive: "d = [] \<or> d ! 0 \<notin> answer_codes \<Longrightarrow> still c (snd (mesh_receive (Some d) t c))"
proof (cases "d = []")
  case False
  have "neutral c (snd (mesh_apply PeerData t NoReason c))" by (simp add: neutral_def)
  from still_cong [OF this still_dispatch] False show "d = [] \<or> d ! 0 \<notin> answer_codes \<Longrightarrow> ?thesis"
    by (simp add: mesh_receive_def case_prod_beta still_neutral still_after [OF _ neutral_availability] split: bool.split)
qed (simp add: mesh_receive_def still_neutral)

lemma busy_refuses:
  assumes "send_busy c"
  shows "snd (send_private peer body t c) = c" and "snd (send_room room pw body t c) = c"
proof -
  have "refuse_text body t c \<noteq> NoRefusal" using assms by (simp add: refuse_text_def)
  then show "snd (send_private peer body t c) = c" "snd (send_room room pw body t c) = c"
    by (simp_all add: send_private_def enqueue_private_def send_room_def Let_def)
qed

lemma still_step:
  assumes "unanswered x" "send_busy c" "\<And>t. x \<noteq> MTick t"
  shows "still c (mesh_step x c)"
proof (cases x)
  case (MReceive d t)
  with assms(1) still_receive show ?thesis by (cases d) (simp_all add: mesh_receive_def still_neutral)
next
  case (MPin i)
  then show ?thesis using battery_pins(1) [of c i] by (simp add: still_def)
next
  case MUnpin
  then show ?thesis using battery_pins(2) [of c] by (simp add: still_def)
qed (use assms still_next_tx busy_refuses in \<open>simp_all add: mesh_peer_arriving_def drop_oversize_frame_def still_neutral neutral_def\<close>)

text \<open>A tick ends an operation that is due, arms one that is not, and otherwise waits.\<close>

lemma tick_request:
  "bt_request (mc_battery (tick_battery now c)) =
     (if bt_request (mc_battery c) = BatteryWaiting \<and> elapsed (bt_started (mc_battery c)) now \<ge> kBatteryReplyBudget
      then BatteryIdle else bt_request (mc_battery c))"
  "bt_started (mc_battery (tick_battery now c)) = bt_started (mc_battery c)"
  "bt_identity_blocked (mc_battery (tick_battery now c)) = bt_identity_blocked (mc_battery c)"
  by (simp_all add: tick_battery_def fail_battery_request_def Let_def)

lemma tick_keeps_battery: "mc_battery (mesh_tick now c) = mc_battery (tick_battery now c)"
proof -
  have "mc_battery (tick_operation now d) = mc_battery d" for d by (simp add: tick_operation_def)
  with neutral_after_operation [of now c] show ?thesis by (simp add: neutral_def)
qed

lemma cleared_idle [simp]: "in_flight (clear_operation p) = 0"
  by (simp add: in_flight_def clear_operation_def)

definition ended :: "mesh_operation \<Rightarrow> mesh_companion \<Rightarrow> bool" where
  "ended p c \<longleftrightarrow> \<not> send_busy c \<and> told c = verdict_after p"

lemma tick_cases:
  assumes "send_busy c"
  shows "if op_budget (mc_op c) \<noteq> 0 \<and> elapsed (op_since (mc_op c)) now \<ge> op_budget (mc_op c) then ended (mc_op c) (mesh_tick now c)
    else if op_budget (mc_op c) = 0 \<and> bt_request (mc_battery (mesh_tick now c)) \<noteq> BatteryWaiting
    then mc_op (mesh_tick now c) = (mc_op c)\<lparr>op_since := now, op_budget := kMaxAckWait\<rparr>
    else mc_op (mesh_tick now c) = mc_op c"
proof -
  define b where "b = tick_battery now c"
  have op: "mc_op b = mc_op c" unfolding b_def by (rule same_text(1)) simp
  have busy: "send_busy b" using assms op by (simp add: in_flight_busy)
  have t: "mc_op (mesh_tick now c) = mc_op (tick_operation now b)" "told (mesh_tick now c) = told (tick_operation now b)"
    using neutral_after_operation [of now c] unfolding neutral_def b_def by (blast dest: same_text)+
  have r: "mc_battery (mesh_tick now c) = mc_battery b" by (simp add: tick_keeps_battery b_def)
  let ?due = "op_budget (mc_op c) \<noteq> 0 \<and> elapsed (op_since (mc_op c)) now \<ge> op_budget (mc_op c)"
  let ?arm = "op_budget (mc_op c) = 0 \<and> bt_request (mc_battery b) \<noteq> BatteryWaiting"
  have "tick_operation now b =
      (if ?arm then b\<lparr>mc_op := (mc_op c)\<lparr>op_since := now, op_budget := kMaxAckWait\<rparr>\<rparr>
       else if ?due then end_operation (set_delivery (verdict_after (mc_op c)) b) else b)"
    unfolding tick_operation_def verdict_after_def op using busy by simp
  moreover have "in_flight (mc_op (end_operation (set_delivery v b))) = 0" "told (end_operation (set_delivery v b)) = v" for v
    by (simp_all add: end_operation_def set_delivery_def)
  ultimately show ?thesis
    unfolding ended_def in_flight_busy t r by (simp add: op)
qed

subsection \<open>Three stages\<close>

text \<open>
  A text in flight, at a time; then with its clock running, or held back by a battery request that was
  sent no later than the first tick, or about to run since that request was given up; then with its
  clock running since no later than the second tick.
\<close>

definition flags :: "mesh_operation \<Rightarrow> bool \<times> bool \<times> bool \<times> bool" where
  "flags p = (op_awaiting_send p, op_awaiting_confirm p, op_awaiting_login p, op_awaiting_contact p)"

definition pending :: "mesh_operation \<Rightarrow> monotonic \<Rightarrow> mesh_companion \<Rightarrow> bool" where
  "pending p now c \<longleftrightarrow> send_busy c \<and> flags (mc_op c) = flags p \<and> dated now c"

definition seen :: "mesh_operation \<Rightarrow> monotonic \<Rightarrow> monotonic \<Rightarrow> mesh_companion \<Rightarrow> bool" where
  "seen p u now c \<longleftrightarrow> pending p now c \<and> u \<le> now \<and>
     (op_budget (mc_op c) \<noteq> 0 \<or> (bt_request (mc_battery c) = BatteryWaiting \<and> bt_started (mc_battery c) \<le> u) \<or>
      (bt_request (mc_battery c) \<noteq> BatteryWaiting \<and> bt_identity_blocked (mc_battery c)))"

definition armed :: "mesh_operation \<Rightarrow> monotonic \<Rightarrow> monotonic \<Rightarrow> mesh_companion \<Rightarrow> bool" where
  "armed p u now c \<longleftrightarrow> pending p now c \<and> u \<le> now \<and> op_budget (mc_op c) \<noteq> 0 \<and> op_since (mc_op c) \<le> u"

lemma elapsed_from_earlier: "a \<le> b \<Longrightarrow> elapsed b t \<le> elapsed a t"
  by (simp add: word_le_unat unat_elapsed min_le_iff_disj) linarith

lemma flags_verdict: "flags p = flags q \<Longrightarrow> verdict_after p = verdict_after q"
  by (simp add: flags_def verdict_after_def)

lemma flags_busy: "send_busy c = (flags (mc_op c) \<noteq> (False, False, False, False))"
  by (auto simp: send_busy_def flags_def)

lemma flags_dates [simp]: "flags (p\<lparr>op_since := s\<rparr>) = flags p" "flags (p\<lparr>op_budget := b\<rparr>) = flags p"
  by (simp_all add: flags_def)

lemma kMaxAckWait_pos: "kMaxAckWait \<noteq> 0"
  by (simp add: kMaxAckWait_def)

text \<open>What every call does to a pending text, whatever the stage.\<close>

lemma pending_step:
  assumes "pending p now c" "unanswered x" "now \<le> later x now"
  shows "ended p (mesh_step x c) \<or> pending p (later x now) (mesh_step x c)"
proof -
  have d: "dated (later x now) (mesh_step x c)"
  proof (rule dated_step)
    show "dated (later x now) c" using assms dated_later by (auto simp: pending_def)
  qed (simp add: later_def)
  have busy: "send_busy c" and f: "flags (mc_op c) = flags p" using assms(1) by (simp_all add: pending_def)
  show ?thesis
  proof (cases "\<exists>t. x = MTick t")
    case True
    then obtain t where x: "x = MTick t" by blast
    have "ended p (mesh_tick t c) \<or> flags (mc_op (mesh_tick t c)) = flags p"
      using tick_cases [OF busy, of t] f flags_verdict [OF f] by (auto simp: ended_def split: if_splits)
    with d x f show ?thesis using busy by (auto simp: pending_def flags_busy)
  next
    case False
    with still_step [OF assms(2) busy] have "still c (mesh_step x c)" by blast
    then have "mc_op (mesh_step x c) = mc_op c" unfolding still_def by (blast dest: same_text)
    with d f busy show ?thesis by (simp add: pending_def flags_busy)
  qed
qed

lemma seen_step:
  assumes "seen p u now c" "unanswered x" "now \<le> later x now"
  shows "ended p (mesh_step x c) \<or> seen p u (later x now) (mesh_step x c)"
proof -
  have p: "pending p now c" and busy: "send_busy c" and u: "u \<le> later x now" using assms by (auto simp: seen_def pending_def)
  show ?thesis
  proof (cases "\<exists>t. x = MTick t")
    case True
    then obtain t where x: "x = MTick t" by blast
    have "ended p (mesh_tick t c) \<or> op_budget (mc_op (mesh_tick t c)) \<noteq> 0 \<or>
        (op_budget (mc_op c) = 0 \<and> bt_request (mc_battery (mesh_tick t c)) = BatteryWaiting \<and> bt_request (mc_battery c) = BatteryWaiting)"
      using tick_cases [OF busy, of t] p flags_verdict [of "mc_op c" p] kMaxAckWait_pos
      by (auto simp: ended_def pending_def tick_keeps_battery tick_request split: if_splits)
    with pending_step [OF p assms(2,3)] u assms(1) x show ?thesis
      by (auto simp: seen_def tick_keeps_battery tick_request)
  next
    case False
    with still_step [OF assms(2) busy] have s: "still c (mesh_step x c)" by blast
    then have "mc_op (mesh_step x c) = mc_op c" unfolding still_def by (blast dest: same_text)
    with s assms(1) pending_step [OF p assms(2,3)] u show ?thesis
      by (auto simp: seen_def still_def poll_dropped_def poll_sent_def)
  qed
qed

lemma armed_step:
  assumes "armed p u now c" "unanswered x" "now \<le> later x now"
  shows "ended p (mesh_step x c) \<or> armed p u (later x now) (mesh_step x c)"
proof -
  have p: "pending p now c" and busy: "send_busy c" and u: "u \<le> later x now" using assms by (auto simp: armed_def pending_def)
  have "ended p (mesh_step x c) \<or> mc_op (mesh_step x c) = mc_op c"
  proof (cases "\<exists>t. x = MTick t")
    case True
    then obtain t where x: "x = MTick t" by blast
    show ?thesis
      using tick_cases [OF busy, of t] p flags_verdict [of "mc_op c" p] assms(1) x
      by (auto simp: ended_def pending_def armed_def split: if_splits)
  next
    case False
    with still_step [OF assms(2) busy] have "still c (mesh_step x c)" by blast
    then show ?thesis unfolding still_def by (blast dest: same_text)
  qed
  with pending_step [OF p assms(2,3)] u assms(1) show ?thesis by (auto simp: armed_def)
qed

text \<open>The ticks that lead from one stage to the next.\<close>

lemma pending_seen:
  assumes "pending p now c" "now \<le> u"
  shows "ended p (mesh_tick u c) \<or> seen p u u (mesh_tick u c)"
proof -
  have busy: "send_busy c" using assms(1) by (simp add: pending_def)
  have "ended p (mesh_tick u c) \<or> op_budget (mc_op (mesh_tick u c)) \<noteq> 0 \<or>
      (bt_request (mc_battery (mesh_tick u c)) = BatteryWaiting \<and> bt_started (mc_battery c) \<le> u)"
    using tick_cases [OF busy, of u] assms flags_verdict [of "mc_op c" p] kMaxAckWait_pos
    by (auto simp: ended_def pending_def dated_def tick_keeps_battery split: if_splits)
  with pending_step [OF assms(1), of "MTick u"] assms(2) show ?thesis
    by (auto simp: seen_def later_def tick_keeps_battery tick_request)
qed

lemma seen_armed:
  assumes "seen p u0 now c" "now \<le> u" "elapsed u0 u \<ge> kBatteryReplyBudget"
  shows "ended p (mesh_tick u c) \<or> armed p u u (mesh_tick u c)"
proof -
  have p: "pending p now c" and busy: "send_busy c" using assms(1) by (auto simp: seen_def pending_def)
  have "bt_request (mc_battery (mesh_tick u c)) \<noteq> BatteryWaiting" if "op_budget (mc_op c) = 0"
  proof -
    have "elapsed (bt_started (mc_battery c)) u \<ge> kBatteryReplyBudget" if "bt_started (mc_battery c) \<le> u0"
      using order_trans [OF assms(3) elapsed_from_earlier [OF that]] .
    with that assms(1) show ?thesis by (auto simp: seen_def tick_keeps_battery tick_request)
  qed
  then have "ended p (mesh_tick u c) \<or> op_budget (mc_op (mesh_tick u c)) \<noteq> 0"
    using tick_cases [OF busy, of u] p flags_verdict [of "mc_op c" p] kMaxAckWait_pos
    by (auto simp: ended_def pending_def split: if_splits)
  with pending_step [OF p, of "MTick u"] assms(2) show ?thesis
    by (auto simp: armed_def later_def pending_def dated_def)
qed

lemma armed_ends:
  assumes "armed p u0 now c" "elapsed u0 u \<ge> kMaxAckWait"
  shows "ended p (mesh_tick u c)"
proof -
  have p: "pending p now c" and busy: "send_busy c" using assms(1) by (auto simp: armed_def pending_def)
  have "op_budget (mc_op c) \<le> elapsed u0 u" using p assms(2) by (auto simp: pending_def dated_def)
  also have "\<dots> \<le> elapsed (op_since (mc_op c)) u" using assms(1) by (intro elapsed_from_earlier) (simp add: armed_def)
  finally show ?thesis
    using tick_cases [OF busy, of u] p flags_verdict [of "mc_op c" p] assms(1) by (auto simp: ended_def pending_def armed_def)
qed

text \<open>Over some of the calls: a stage lasts, or the operation is over after a part of them.\<close>

definition over_within :: "mesh_operation \<Rightarrow> mesh_call list \<Rightarrow> mesh_companion \<Rightarrow> bool" where
  "over_within p calls c \<longleftrightarrow> (\<exists>done rest. calls = done @ rest \<and> ended p (run_ops mesh_step done c))"

lemma over_now: "ended p c \<Longrightarrow> over_within p calls c"
  unfolding over_within_def by (rule exI [of _ "[]"]) simp

lemma over_later: "over_within p ys (run_ops mesh_step xs c) \<Longrightarrow> over_within p (xs @ ys) c"
  unfolding over_within_def by (metis append_assoc run_ops_append)

lemma over_longer: "over_within p xs c \<Longrightarrow> over_within p (xs @ ys) c"
  unfolding over_within_def by (metis append_assoc)

lemma stage_lasts:
  assumes "\<And>x now c. P now c \<Longrightarrow> unanswered x \<Longrightarrow> now \<le> later x now \<Longrightarrow> ended p (mesh_step x c) \<or> P (later x now) (mesh_step x c)"
    and "P now c" "list_all unanswered calls" "timely now calls"
  shows "over_within p calls c \<or> P (fold later calls now) (run_ops mesh_step calls c)"
  using assms(2-)
proof (induction calls arbitrary: now c)
  case (Cons x calls)
  from Cons.prems have "ended p (mesh_step x c) \<or> P (later x now) (mesh_step x c)" by (intro assms(1)) simp_all
  then show ?case
  proof
    assume "ended p (mesh_step x c)"
    then show ?thesis using over_later [OF over_now, of p "[x]" c calls] by simp
  next
    assume "P (later x now) (mesh_step x c)"
    with Cons show ?thesis using over_later [of p calls "[x]" c] by auto
  qed
qed simp

text \<open>The operation is over by now, or has come to this stage: that is carried over calls and over a tick.\<close>

definition stage :: "mesh_operation \<Rightarrow> mesh_companion \<Rightarrow> (mesh_companion \<Rightarrow> bool) \<Rightarrow> mesh_call list \<Rightarrow> bool" where
  "stage p c P calls \<longleftrightarrow> over_within p calls c \<or> P (run_ops mesh_step calls c)"

lemma stage_over_calls:
  assumes "stage p c (P now) xs" "list_all unanswered ys" "timely now ys"
    and "\<And>x now c. P now c \<Longrightarrow> unanswered x \<Longrightarrow> now \<le> later x now \<Longrightarrow> ended p (mesh_step x c) \<or> P (later x now) (mesh_step x c)"
  shows "stage p c (P (fold later ys now)) (xs @ ys)"
proof (cases "over_within p xs c")
  case True
  then show ?thesis by (simp add: stage_def over_longer)
next
  case False
  with assms(1) have "P now (run_ops mesh_step xs c)" by (simp add: stage_def)
  from stage_lasts [where P = P, OF assms(4) this assms(2,3)] show ?thesis
    by (auto simp: stage_def run_ops_append intro: over_later)
qed

lemma stage_over_tick:
  assumes "stage p c P xs" "\<And>c. P c \<Longrightarrow> ended p (mesh_tick u c) \<or> Q (mesh_tick u c)"
  shows "stage p c Q (xs @ [MTick u])"
proof (cases "over_within p xs c")
  case True
  then show ?thesis by (simp add: stage_def over_longer)
next
  case False
  with assms have "ended p (mesh_tick u (run_ops mesh_step xs c)) \<or> Q (mesh_tick u (run_ops mesh_step xs c))" by (simp add: stage_def)
  then show ?thesis using over_later [OF over_now, of p "xs @ [MTick u]" c "[]"] by (auto simp: stage_def run_ops_append)
qed

text \<open>C17. Whatever the node leaves unsaid, a text ends. Take any text in flight - waiting to be taken, to be
  confirmed, for a login or for a contact - in a state whose dates lie in the past, as they do in every state
  a history on one clock reaches. Then let any calls follow in the order of the clock, none of which answers the
  text or the battery request or starts or ends a session: ticks as often as one likes, the transport asking for frames,
  pins, further requests to send, and every other frame of the node. If three ticks stand among them, the second at
  least 5 s after the first and the third at least 15 s after the second, then no later than the third the operation
  was over and the owner had been told the verdict that fits where it stood.\<close>

theorem every_text_ends:
  assumes "send_busy c" and "dated now c"
    and "calls = as @ [MTick u0] @ bs @ [MTick u1] @ ds @ [MTick u2]"
    and "list_all unanswered calls" and "timely now calls"
    and "elapsed u0 u1 \<ge> kBatteryReplyBudget" and "elapsed u1 u2 \<ge> kMaxAckWait"
  shows "\<exists>done rest. calls = done @ rest \<and> \<not> send_busy (run_ops mesh_step done c) \<and>
    told (run_ops mesh_step done c) = verdict_after (mc_op c)"
proof -
  let ?p = "mc_op c" and ?t = "\<lambda>xs. fold later xs now"
  have t: "timely now as" "?t as \<le> u0" "timely u0 bs" "fold later bs u0 \<le> u1" "timely u1 ds"
    and un: "list_all unanswered as" "list_all unanswered bs" "list_all unanswered ds"
    using assms(4,5) unfolding assms(3) by (simp_all add: timely_append later_def)
  have "stage ?p c (pending ?p now) []" using assms(1,2) by (simp add: stage_def pending_def)
  then have "stage ?p c (pending ?p (?t as)) ([] @ as)"
    by (rule stage_over_calls [OF _ un(1) t(1)]) (rule pending_step)
  then have "stage ?p c (seen ?p u0 u0) (([] @ as) @ [MTick u0])"
    by (rule stage_over_tick) (rule pending_seen [OF _ t(2)])
  then have "stage ?p c (seen ?p u0 (fold later bs u0)) ((([] @ as) @ [MTick u0]) @ bs)"
    by (rule stage_over_calls [OF _ un(2) t(3)]) (rule seen_step)
  then have "stage ?p c (armed ?p u1 u1) (((([] @ as) @ [MTick u0]) @ bs) @ [MTick u1])"
    by (rule stage_over_tick) (rule seen_armed [OF _ t(4) assms(6)])
  then have "stage ?p c (armed ?p u1 (fold later ds u1)) ((((([] @ as) @ [MTick u0]) @ bs) @ [MTick u1]) @ ds)"
    by (rule stage_over_calls [OF _ un(3) t(5)]) (rule armed_step)
  then have "stage ?p c (\<lambda>_. False) (((((([] @ as) @ [MTick u0]) @ bs) @ [MTick u1]) @ ds) @ [MTick u2])"
    by (rule stage_over_tick) (use armed_ends [OF _ assms(7)] in blast)
  then show ?thesis by (simp add: stage_def over_within_def ended_def assms(3))
qed

text \<open>A greeting on its way, and half a minute in which the node talks of everything else.\<close>

definition sent_greeting :: mesh_companion where
  "sent_greeting = snd (send_private the_pin [0x68, 0x69] 1000 friend_watch)"

definition deaf_half_minute :: "mesh_call list" where
  "deaf_half_minute =
     [MTick 500, MNextTx] @ [MTick 1000] @
     [MTick 2000, MReceive (Some [kPushMessageWaiting]) 2500, MNextTx, MTick 4000, MSendPrivate the_pin [0x68] 1000] @
     [MTick 6000] @ [MTick 9000, MReceive (Some [kPushAdvert]) 12000, MTick 15000, MUnpin, MTick 20000] @ [MTick 21000]"

lemma every_text_ends_witness:
  "send_busy sent_greeting \<and>
   (\<exists>done rest. deaf_half_minute = done @ rest \<and> \<not> send_busy (run_ops mesh_step done sent_greeting) \<and>
     told (run_ops mesh_step done sent_greeting) = verdict_after (mc_op sent_greeting))"
proof -
  have busy: "send_busy sent_greeting" using greeting_sent [OF sent_greeting_def] by (simp add: send_busy_def)
  have "dated 0 friend_watch"
    by (simp add: dated_def friend_watch_def ready_watch_def new_mesh_companion_def new_mesh_operation_def new_mesh_battery_def kMaxAckWait_def)
  then have dated: "dated 0 sent_greeting" unfolding sent_greeting_def by (rule dated_sends)
  have calls: "list_all unanswered deaf_half_minute" "timely 0 deaf_half_minute"
    by (simp_all add: deaf_half_minute_def answer_codes_def later_def)
  have wait: "elapsed 1000 6000 \<ge> kBatteryReplyBudget" "elapsed 6000 21000 \<ge> kMaxAckWait"
    by (simp_all add: elapsed_def clamp_u32_def kBatteryReplyBudget_def kMaxAckWait_def)
  show ?thesis
    using every_text_ends [OF busy dated deaf_half_minute_def calls wait] busy by blast
qed

end
