(* ===== verification/Mesh_Snapshot.thy ===== *)
theory Mesh_Snapshot
  imports Mesh_Histories
begin

text \<open>
  The peers the owner sees while the contact list is read a second time: they change with the frame
  that ends the re-read, all at once, or not at all.
\<close>

abbreviation shown_peers :: "mesh_companion \<Rightarrow> mesh_peer list" where "shown_peers c \<equiv> ct_peers (mc_contacts c)"

section \<open>Calls that leave the peers\<close>

lemma peers_small [simp]:
  "shown_peers (snd (enqueue data c)) = shown_peers c" "shown_peers (snd (malformed c)) = shown_peers c"
  "shown_peers (snd (ask data c)) = shown_peers c" "shown_peers (count_malformed c) = shown_peers c"
  "shown_peers (fail_battery_request b c) = shown_peers c" "shown_peers (invalidate_node_battery c) = shown_peers c"
  "shown_peers (update_availability c) = shown_peers c" "shown_peers (mark_dirty c) = shown_peers c"
  "shown_peers (clear_room c) = shown_peers c" "shown_peers (end_operation c) = shown_peers c"
  "shown_peers (set_delivery d c) = shown_peers c" "shown_peers (settle_snapshot now c) = shown_peers c"
  "mc_contacts (snd (mesh_apply e t r c)) = mc_contacts c"
  by (simp_all add: enqueue_eq malformed_def ask_def count_malformed_def fail_battery_request_def Let_def case_prod_beta
      invalidate_node_battery_def update_availability_def mesh_apply_def mark_dirty_def clear_room_def end_operation_def
      set_delivery_def settle_snapshot_def)

lemma peers_drain [simp]:
  "shown_peers (snd (request_next_message now c)) = shown_peers c" "shown_peers (snd (spend_pending_push now c)) = shown_peers c"
  "shown_peers (drain_after b now c) = shown_peers c" "shown_peers (snd (end_contacts now c)) = shown_peers c"
  by (simp_all add: request_next_message_def spend_pending_push_def drain_after_def end_contacts_def enqueue_eq Let_def
      split: bool.split)

lemma peers_messages [simp]:
  "shown_peers (adopt_remote_position s now c) = shown_peers c" "shown_peers (snd (accept_message data v3 now c)) = shown_peers c"
  "shown_peers (snd (accept_channel_message_v3 data c)) = shown_peers c" "shown_peers (accept_self_position data now c) = shown_peers c"
proof -
  show adopt: "shown_peers (adopt_remote_position s now c) = shown_peers c" for s c
    by (simp add: adopt_remote_position_def Let_def split: option.split)
  show "shown_peers (snd (accept_message data v3 now c)) = shown_peers c"
    by (simp add: accept_message_def Let_def adopt)
qed (simp_all add: accept_channel_message_v3_def accept_self_position_def Let_def)

lemma peers_sends [simp]:
  "shown_peers (snd (enqueue_private peer body t rid c)) = shown_peers c"
  "shown_peers (snd (send_private peer body t c)) = shown_peers c"
  "shown_peers (snd (send_room room pw body t c)) = shown_peers c"
proof -
  show e: "shown_peers (snd (enqueue_private peer body t rid c)) = shown_peers c" for rid
    by (cases rule: enqueue_private_cases [of peer body t rid c]) (simp_all add: publish_def)
  show "shown_peers (snd (send_private peer body t c)) = shown_peers c"
    "shown_peers (snd (send_room room pw body t c)) = shown_peers c"
    by (simp_all add: send_private_def send_room_def Let_def e enqueue_eq next_publish publish_def case_prod_beta split: bool.split)
qed

lemma peers_answers [simp]:
  "shown_peers (snd (on_device_info data c)) = shown_peers c" "shown_peers (snd (on_self_info data now c)) = shown_peers c"
  "shown_peers (snd (on_contact_deleted data c)) = shown_peers c" "shown_peers (snd (on_custom_vars data c)) = shown_peers c"
  "shown_peers (snd (on_battery data now c)) = shown_peers c" "shown_peers (snd (on_message_waiting now c)) = shown_peers c"
  "shown_peers (snd (on_no_more_messages data c)) = shown_peers c" "shown_peers (snd (on_sent data now c)) = shown_peers c"
  "shown_peers (snd (on_send_confirmed data c)) = shown_peers c" "shown_peers (snd (on_login_success data c)) = shown_peers c"
  "shown_peers (snd (on_login_fail data c)) = shown_peers c" "shown_peers (snd (on_error data now c)) = shown_peers c"
  "shown_peers (take_fetched_contact data c) = shown_peers c"
  by (simp_all add: on_device_info_def on_self_info_def on_contact_deleted_def on_custom_vars_def on_battery_def
      on_message_waiting_def on_no_more_messages_def on_sent_def on_send_confirmed_def on_login_success_def on_login_fail_def
      on_error_def take_fetched_contact_def accept_custom_vars_def Let_def case_prod_beta)

lemma peers_ticks:
  "shown_peers (mesh_tick now c) = shown_peers c"
proof -
  have "shown_peers (tick_battery now c) = shown_peers c" "shown_peers (tick_operation now c) = shown_peers c"
    "shown_peers (tick_vars now c) = shown_peers c" "shown_peers (tick_retry_deadline now c) = shown_peers c"
    "shown_peers (tick_retry_ask now c) = shown_peers c" "shown_peers (tick_quiet now c) = shown_peers c"
    "shown_peers (tick_retry_quiet now c) = shown_peers c" "shown_peers (tick_drain now c) = shown_peers c" for c
    by (simp_all add: tick_battery_def tick_operation_def tick_vars_def tick_retry_deadline_def tick_retry_ask_def
        tick_quiet_def tick_retry_quiet_def tick_drain_def finish_retry_def Let_def case_prod_beta enqueue_eq split: bool.split)
  then show ?thesis by (simp add: mesh_tick_def)
qed

lemma peers_next_tx: "shown_peers (snd (next_tx c)) = shown_peers c"
  by (rule next_tx_keeps [where P = "\<lambda>d. shown_peers d = shown_peers c"])
    (simp_all add: poll_battery_def Let_def enqueue_eq split: bool.split)

section \<open>The frames of a walk\<close>

lemma row_of_reread: "ct_retry_open (mc_contacts c) \<Longrightarrow> shown_peers (snd (on_contact data now c)) = shown_peers c"
  by (simp add: on_contact_def accept_contact_def Let_def)

lemma start_in_reread:
  "shown_peers (snd (on_contacts_start data now c)) = shown_peers c \<or>
   \<not> ct_retry_unanswered (mc_contacts c) \<and> shown_peers (snd (on_contacts_start data now c)) = []"
  by (simp add: on_contacts_start_def Let_def)

lemma end_of_reread:
  "ct_retry_open (mc_contacts c) \<Longrightarrow>
   shown_peers (snd (on_contacts_end data now c)) = shown_peers c \<or>
   (\<not> ct_dirty (mc_contacts c) \<or> ct_retries_left (mc_contacts c) = 0) \<and>
     shown_peers (snd (on_contacts_end data now c)) = ct_incoming_peers (mc_contacts c)"
  by (simp add: on_contacts_end_def finish_retry_def Let_def)

lemma dispatch_in_reread:
  assumes "ct_retry_open (mc_contacts c)"
  shows "shown_peers (snd (mesh_dispatch data now c)) = shown_peers c \<or>
    data ! 0 = kResponseContactsEnd \<and> (\<not> ct_dirty (mc_contacts c) \<or> ct_retries_left (mc_contacts c) = 0) \<and>
      shown_peers (snd (mesh_dispatch data now c)) = ct_incoming_peers (mc_contacts c) \<or>
    data ! 0 = kResponseContactsStart \<and> \<not> ct_retry_unanswered (mc_contacts c) \<and> shown_peers (snd (mesh_dispatch data now c)) = []"
  using row_of_reread [OF assms, of data now] start_in_reread [of data now c] end_of_reread [OF assms, of data now]
  by (simp add: mesh_dispatch_def Let_def case_prod_beta)

lemma receive_in_reread:
  assumes "ct_retry_open (mc_contacts c)"
  shows "shown_peers (snd (mesh_receive d t c)) = shown_peers c \<or>
    (\<exists>data. d = Some data \<and>
      (data ! 0 = kResponseContactsEnd \<and> (\<not> ct_dirty (mc_contacts c) \<or> ct_retries_left (mc_contacts c) = 0) \<and>
         shown_peers (snd (mesh_receive d t c)) = ct_incoming_peers (mc_contacts c) \<or>
       data ! 0 = kResponseContactsStart \<and> \<not> ct_retry_unanswered (mc_contacts c) \<and> shown_peers (snd (mesh_receive d t c)) = []))"
  using assms dispatch_in_reread [of "snd (mesh_apply PeerData t NoReason c)" "the d" t]
  by (cases d) (simp_all add: mesh_receive_def case_prod_beta split: bool.split)

text \<open>C18. While the contacts are being read again the owner keeps the list of the first reading: one call
  changes it only if it is the frame that ends the re-read, which replaces it by the whole new list and
  only when no contact changed meanwhile or no further re-read is left, or if it starts over - a new walk
  the watch had not asked for, or a new session - which empties it. Rows, deadlines, sends and every
  other frame leave it exactly as it was.\<close>

theorem reread_is_published_whole:
  assumes "ct_retry_open (mc_contacts c)" and "shown_peers (mesh_step call c) \<noteq> shown_peers c"
  shows "(\<exists>data t. call = MReceive (Some data) t \<and> data ! 0 = kResponseContactsEnd \<and>
           (\<not> ct_dirty (mc_contacts c) \<or> ct_retries_left (mc_contacts c) = 0) \<and>
           shown_peers (mesh_step call c) = ct_incoming_peers (mc_contacts c)) \<or>
         (\<exists>data t. call = MReceive (Some data) t \<and> data ! 0 = kResponseContactsStart \<and>
           \<not> ct_retry_unanswered (mc_contacts c) \<and> shown_peers (mesh_step call c) = []) \<or>
         (\<exists>t. call \<in> {MBegin t, MConnected t, MDisconnected t, MFault t} \<and> shown_peers (mesh_step call c) = [])"
proof (cases call)
  case (MReceive d t)
  with assms receive_in_reread [OF assms(1), of d t] show ?thesis by auto
qed (use assms in \<open>auto simp: mesh_begin_def mesh_peer_arriving_def mesh_connected_def mesh_disconnected_def mesh_fault_def
    mesh_pin_def mesh_unpin_def reset_session_def new_mesh_contacts_def drop_oversize_frame_def peers_ticks peers_next_tx
    Let_def case_prod_beta split: if_splits\<close>)

text \<open>A walk during which a contact changed, read again ten seconds later: the new row waits for the end.\<close>

definition contact_row :: bytes where
  "contact_row = kResponseContact # replicate 32 3 @ kAdvertTypeChat # replicate 66 0 @ [0x41] @ replicate 47 0"

definition rereading :: mesh_companion where
  "rereading = run_ops mesh_step [MReceive (Some [kResponseContactsStart, 0, 0, 0, 0]) 10, MReceive (Some [kPushAdvert]) 11,
     MReceive (Some [kResponseContactsEnd, 0, 0, 0, 0]) 12, MTick 10012, MReceive (Some [kResponseContactsStart, 1, 0, 0, 0]) 10013,
     MReceive (Some contact_row) 10014] ready_watch"

lemma reread_is_published_whole_witness:
  "let x = MReceive (Some [kResponseContactsEnd, 0, 0, 0, 0]) 10015 in
   length (ct_incoming_peers (mc_contacts rereading)) = 1 \<and> shown_peers rereading = [] \<and>
   shown_peers (mesh_step x rereading) = ct_incoming_peers (mc_contacts rereading)"
proof -
  let ?x = "MReceive (Some [kResponseContactsEnd, 0, 0, 0, 0]) 10015"
  have "ct_retry_open (mc_contacts rereading) \<and> length (ct_incoming_peers (mc_contacts rereading)) = 1 \<and>
      shown_peers rereading = [] \<and> length (shown_peers (mesh_step ?x rereading)) = 1"
    by code_simp
  then have h: "ct_retry_open (mc_contacts rereading)" "length (ct_incoming_peers (mc_contacts rereading)) = 1"
    "shown_peers rereading = []" "length (shown_peers (mesh_step ?x rereading)) = 1"
    by simp_all
  then have "shown_peers (mesh_step ?x rereading) \<noteq> shown_peers rereading" by auto
  from reread_is_published_whole [OF h(1) this] h show ?thesis by (auto simp: Let_def)
qed

end
