(* ===== verification/Mesh_Refusal.thy ===== *)
theory Mesh_Refusal
  imports Mesh_Histories "HOL-Library.Sublist"
begin

text \<open>
  A node that is not the pinned one. Once its public key has been read nothing it sends is acted
  on and nothing new is asked of it: what leaves the ring is a part of what was in it already.
\<close>

section \<open>What a refused session keeps\<close>

text \<open>What the owner sees of the node.\<close>

definition seen_of :: "mesh_companion \<Rightarrow> bool \<times> mesh_peer list \<times> bytes \<times> bytes" where
  "seen_of c = (mc_wrong_node c, ct_peers (mc_contacts c), ms_last_sender (mc_status c), ms_last_message (mc_status c))"

lemma seen_wrong: "seen_of c' = seen_of c \<Longrightarrow> mc_wrong_node c' = mc_wrong_node c"
  by (simp add: seen_of_def)

lemma seen_small [simp]:
  "seen_of (settle_snapshot now c) = seen_of c" "seen_of (end_operation c) = seen_of c" "seen_of (set_delivery d c) = seen_of c"
  "seen_of (fail_battery_request b c) = seen_of c" "seen_of (update_availability c) = seen_of c"
  "seen_of (finish_retry now False c) = seen_of c" "seen_of (count_malformed c) = seen_of c"
  by (simp_all add: seen_of_def settle_snapshot_def end_operation_def set_delivery_def fail_battery_request_def Let_def
      update_availability_def finish_retry_def count_malformed_def)

lemma seen_ticks [simp]:
  "seen_of (tick_battery now c) = seen_of c" "seen_of (tick_operation now c) = seen_of c" "seen_of (tick_vars now c) = seen_of c"
  "seen_of (tick_retry_deadline now c) = seen_of c" "seen_of (tick_retry_quiet now c) = seen_of c"
proof -
  show "seen_of (tick_battery now c) = seen_of c"
    by (simp add: tick_battery_def Let_def) (simp add: seen_of_def fail_battery_request_def Let_def)
  show "seen_of (tick_operation now c) = seen_of c"
    by (simp add: tick_operation_def) (simp add: seen_of_def)
  show "seen_of (tick_vars now c) = seen_of c"
    by (simp add: tick_vars_def seen_of_def)
  show "seen_of (tick_retry_deadline now c) = seen_of c"
    by (simp add: tick_retry_deadline_def) (simp add: seen_of_def)
  show "seen_of (tick_retry_quiet now c) = seen_of c"
    by (simp add: tick_retry_quiet_def)
qed

lemma ring_small [simp]:
  "mc_ring (settle_snapshot now c) = mc_ring c" "mc_ring (set_delivery d c) = mc_ring c"
  "mc_ring (fail_battery_request b c) = mc_ring c" "mc_ring (update_availability c) = mc_ring c"
  "mc_ring (finish_retry now b c) = mc_ring c" "mc_ring (count_malformed c) = mc_ring c"
  "mc_ring (end_operation c) = drop_operation_frames (mc_ring c)"
  by (simp_all add: settle_snapshot_def end_operation_def set_delivery_def fail_battery_request_def Let_def
      update_availability_def finish_retry_def count_malformed_def)

lemma ring_ticks [simp]:
  "mc_ring (tick_battery now c) = mc_ring c" "mc_ring (tick_vars now c) = mc_ring c"
  "mc_ring (tick_retry_deadline now c) = mc_ring c" "mc_ring (tick_retry_quiet now c) = mc_ring c"
  by (simp_all add: tick_battery_def Let_def tick_vars_def tick_retry_deadline_def tick_retry_quiet_def)

lemma ring_tick_operation: "mc_ring (tick_operation now c) \<in> {mc_ring c, drop_operation_frames (mc_ring c)}"
  by (simp add: tick_operation_def)

lemma tick_refused:
  assumes "mc_wrong_node c"
  shows "seen_of (mesh_tick now c) = seen_of c" and "mc_ring (mesh_tick now c) \<in> {mc_ring c, drop_operation_frames (mc_ring c)}"
proof -
  define c1 where "c1 = tick_retry_deadline now (tick_vars now (tick_operation now (tick_battery now c)))"
  have s1: "seen_of c1 = seen_of c" by (simp add: c1_def)
  have r1: "mc_ring c1 \<in> {mc_ring c, drop_operation_frames (mc_ring c)}"
    using ring_tick_operation [of now "tick_battery now c"] by (simp add: c1_def)
  have w1: "mc_wrong_node c1" using seen_wrong [OF s1] assms by simp
  have "tick_quiet now (tick_retry_ask now c1) = c1" using w1 by (simp add: tick_retry_ask_def tick_quiet_def Let_def)
  moreover define c2 where "c2 = tick_retry_quiet now c1"
  moreover have "mc_wrong_node c2" using seen_wrong [of c2 c1] w1 by (simp add: c2_def)
  then have "tick_drain now c2 \<in> {c2, c2\<lparr>mc_drain := (mc_drain c2)\<lparr>dr_draining := False\<rparr>\<rparr>}"
    by (simp add: tick_drain_def Let_def)
  moreover have "seen_of c2 = seen_of c" "mc_ring c2 = mc_ring c1" by (simp_all add: c2_def s1)
  moreover have "seen_of (c2\<lparr>mc_drain := x\<rparr>) = seen_of c2" for x by (simp add: seen_of_def)
  ultimately show "seen_of (mesh_tick now c) = seen_of c" "mc_ring (mesh_tick now c) \<in> {mc_ring c, drop_operation_frames (mc_ring c)}"
    using r1 unfolding mesh_tick_def c1_def [symmetric] by auto
qed

section \<open>What leaves the ring\<close>

definition sent_by :: "mesh_frame option \<Rightarrow> mesh_frame list" where
  "sent_by f = (case f of None \<Rightarrow> [] | Some f \<Rightarrow> [f])"

fun handed :: "mesh_call list \<Rightarrow> mesh_companion \<Rightarrow> mesh_frame list" where
  "handed [] c = []"
| "handed (x # xs) c = (if x = MNextTx then sent_by (fst (next_tx c)) else []) @ handed xs (mesh_step x c)"

lemma poll_refused: "mc_wrong_node c \<Longrightarrow> poll_battery c = c"
  by (simp add: poll_battery_def Let_def)

lemma next_tx_refused:
  "mc_wrong_node c \<Longrightarrow> ring_holds fs (mc_ring c) \<Longrightarrow>
   seen_of (snd (next_tx c)) = seen_of c \<and>
   (\<exists>gs. ring_holds gs (mc_ring (snd (next_tx c))) \<and> subseq (sent_by (fst (next_tx c)) @ gs) fs)"
proof (induction fs arbitrary: c)
  case Nil
  then have "next_tx c = (None, c)"
    using next_tx_idle next_tx_empty [of c] poll_refused [of c] by (cases "bt_request (mc_battery c) = BatteryWaiting") (auto simp: ring_holds_def)
  with Nil show ?case by (auto simp: sent_by_def)
next
  case (Cons f fs)
  show ?case
  proof (cases "bt_request (mc_battery c) = BatteryWaiting")
    case True
    with Cons.prems show ?thesis using next_tx_idle [of c] by (auto simp: sent_by_def)
  next
    case False
    define c1 where "c1 = c\<lparr>mc_ring := snd (ring_take (mc_ring c))\<rparr>"
    have pop: "fst (ring_take (mc_ring c)) = f" "ring_holds fs (mc_ring c1)"
      using pop_holds [OF Cons.prems(2)] by (simp_all add: c1_def)
    have w: "mc_wrong_node c1" "seen_of c1 = seen_of c" "seen_of (c1\<lparr>mc_battery := b\<rparr>) = seen_of c" for b
      using Cons.prems(1) by (simp_all add: c1_def seen_of_def)
    have eq: "next_tx c = (if fr_bytes f ! 0 = kGetBatteryAndStorage
        then (if bt_identity_blocked (mc_battery c) then next_tx c1
              else (Some f, c1\<lparr>mc_battery := (mc_battery c1)\<lparr>bt_request := BatteryWaiting,
                     bt_started := bt_poll_now (mc_battery c1), bt_polled := True, bt_due := False\<rparr>\<rparr>))
        else (Some f, c1))"
      using False Cons.prems pop
      by (subst next_tx.simps) (simp add: Let_def case_prod_beta poll_refused c1_def ring_holds_def)
    obtain gs where gs: "ring_holds gs (mc_ring (snd (next_tx c1)))" "subseq (sent_by (fst (next_tx c1)) @ gs) fs"
      and s1: "seen_of (snd (next_tx c1)) = seen_of c1"
      using Cons.IH [OF w(1) pop(2)] by blast
    have "subseq (sent_by (fst (next_tx c1)) @ gs) (f # fs)" using gs(2) by (rule list_emb_Cons)
    with gs(1) s1 w pop(2) show ?thesis unfolding eq by (auto simp: sent_by_def)
  qed
qed

text \<open>The calls that come from the clock, the node and the transport while the node is refused.\<close>

fun unasked :: "mesh_call \<Rightarrow> bool" where
  "unasked (MTick t) = True" | "unasked (MReceive d t) = True" | "unasked MNextTx = True" | "unasked MOversize = True"
| "unasked (MPin i) = True" | "unasked (MArriving t) = True" | "unasked _ = False"

lemma step_refused:
  assumes "mc_wrong_node c" "ring_holds fs (mc_ring c)" "unasked x"
  shows "seen_of (mesh_step x c) = seen_of c \<and>
   (\<exists>gs. ring_holds gs (mc_ring (mesh_step x c)) \<and> subseq (handed [x] c @ gs) fs)"
  using assms(3)
proof (cases x rule: unasked.cases)
  case (1 t)
  with tick_refused [OF assms(1), of t] assms(2) drop_holds [OF assms(2)] show ?thesis by (auto intro: subseq_filter_left)
next
  case (2 d t)
  have "mc_ring (snd (mesh_receive d t c)) = mc_ring c \<and> seen_of (snd (mesh_receive d t c)) = seen_of c"
    using assms(1) by (cases d) (simp_all add: mesh_receive_def malformed_def)
  with 2 assms(2) show ?thesis by auto
next
  case 3
  with next_tx_refused [OF assms(1,2)] show ?thesis by auto
next
  case 4
  with assms(2) show ?thesis by (auto simp: drop_oversize_frame_def seen_of_def)
next
  case (5 i)
  with assms(2) show ?thesis by (auto simp: mesh_pin_def Let_def invalidate_node_battery_def seen_of_def)
next
  case (6 t)
  with assms(2) show ?thesis
    by (auto simp: mesh_peer_arriving_def update_availability_def mesh_apply_def case_prod_beta seen_of_def)
qed simp_all

lemma run_refused:
  "mc_wrong_node c \<Longrightarrow> ring_holds fs (mc_ring c) \<Longrightarrow> list_all unasked calls \<Longrightarrow>
   subseq (handed calls c) fs \<and> seen_of (run_ops mesh_step calls c) = seen_of c"
proof (induction calls arbitrary: c fs)
  case Nil
  then show ?case by simp
next
  case (Cons x xs)
  from Cons.prems(3) have u: "unasked x" "list_all unasked xs" by simp_all
  from step_refused [OF Cons.prems(1,2) u(1)] obtain gs where s: "seen_of (mesh_step x c) = seen_of c" and gs: "ring_holds gs (mc_ring (mesh_step x c))"
    and sub: "subseq (handed [x] c @ gs) fs"
    by blast
  have w: "mc_wrong_node (mesh_step x c)" using seen_wrong [OF s] Cons.prems(1) by blast
  have r: "subseq (handed xs (mesh_step x c)) gs" "seen_of (run_ops mesh_step xs (mesh_step x c)) = seen_of (mesh_step x c)"
    using Cons.IH [OF w gs u(2)] by blast+
  have "subseq (handed [x] c @ handed xs (mesh_step x c)) (handed [x] c @ gs)"
    using r(1) by (intro list_emb_append_mono) simp_all
  then have "subseq (handed [x] c @ handed xs (mesh_step x c)) fs"
    using sub by (rule subseq_order.order_trans)
  then show ?case using r(2) s by simp
qed


text \<open>
  A watch bound to one node that is told of a message and then reads the key of another node: the
  question it had queued is still handed out, and what it is sent meanwhile is not acted on.
\<close>

definition met_another :: mesh_companion where
  "met_another = run_ops mesh_step [MReceive (Some [kPushMessageWaiting]) 5, MReceive (Some (self_info 9)) 6] ready_watch"

definition afterwards :: "mesh_call list" where
  "afterwards = [MTick 7, MNextTx, MReceive (Some [kPushMessageWaiting]) 8, MTick 20000, MNextTx]"

lemma met_another_ok: "mesh_ok met_another"
  unfolding met_another_def by (rule mesh.run_inv [OF ready_watch_ok])

lemma met_another_runs:
  "mc_wrong_node met_another \<and> list_all unasked afterwards \<and> map fr_size (handed afterwards met_another) = [1]"
  by code_simp


text \<open>
  The owner's own requests are not behind that guard: a watch whose node changed its key in the
  middle of a session shows the mesh as ready and takes a text for the node it has refused.
\<close>

lemma refused_node_is_sent_a_text:
  "mc_wrong_node met_another \<and> ms_availability (mc_status met_another) = AvReady \<and>
   (case send_private \<lparr>public_key = replicate 32 1\<rparr> [0x68, 0x69] 1000 met_another of
      (result, c) \<Rightarrow> accepted result \<and> length (ring_frames (mc_ring c)) = 2 \<and> send_busy c)"
  by code_simp

end
