(* ===== verification/Node_Position.thy ===== *)
theory Node_Position
  imports Mesh_Clock
begin

text \<open>
  \<open>link/include/attadipa/link/node_position_provider.h\<close> and \<open>link/src/node_position_provider.cpp\<close>:
  the node's coordinate as a position provider, and what is true of the coordinates the companion holds.
\<close>

definition node_provider_availability :: "mesh_companion \<Rightarrow> availability" where
  "node_provider_availability c =
     (let link = ms_availability (mc_status c) in
      if link = AvFailed then link else if node_position c \<noteq> None then AvReady else link)"

definition node_provider_sample :: "mesh_companion \<Rightarrow> position_sample option" where
  "node_provider_sample c =
     (case node_position c of
        None \<Rightarrow> None
      | Some (position, arrived) \<Rightarrow>
          Some (new_position_sample\<lparr>
            ps_observation := new_gnss_observation\<lparr>go_position := Some position, observed_at := arrived,
              fix_type := FixUnknown, go_source := NodeGnss\<rparr>,
            ps_receiver := pl_receiver (mc_places c),
            ps_origin := (case mesh_node_id c of None \<Rightarrow> new_mesh_peer_id | Some i \<Rightarrow> i),
            ps_has_origin := mesh_node_id c \<noteq> None\<rparr>))"

section \<open>The coordinates the companion holds\<close>

definition places_ok :: "monotonic \<Rightarrow> mesh_places \<Rightarrow> bool" where
  "places_ok now pl \<longleftrightarrow>
     (pl_has_node pl \<longrightarrow> in_range (pl_node_position pl) \<and> pl_node_at pl \<le> now) \<and>
     (pl_has_remote pl \<longrightarrow> remote_in_bounds (latitude_e7 (pl_remote_position pl)) (longitude_e7 (pl_remote_position pl)) \<and>
        pl_remote_at pl \<le> now)"

lemma places_later: "places_ok t pl \<Longrightarrow> t \<le> now \<Longrightarrow> places_ok now pl"
  by (auto simp: places_ok_def)

lemma places_vars [simp]:
  "places_ok now (pl\<lparr>pl_awaiting_vars := b\<rparr>) = places_ok now pl" "places_ok now (pl\<lparr>pl_receiver := r\<rparr>) = places_ok now pl"
  "places_ok now (pl\<lparr>pl_vars_requested := b\<rparr>) = places_ok now pl" "places_ok now (pl\<lparr>pl_vars_since := t\<rparr>) = places_ok now pl"
  "places_ok now (pl\<lparr>pl_vars_seq := n\<rparr>) = places_ok now pl"
  by (simp_all add: places_ok_def)

abbreviation spots_ok :: "monotonic \<Rightarrow> mesh_companion \<Rightarrow> bool" where "spots_ok now c \<equiv> places_ok now (mc_places c)"

subsection \<open>Calls that leave them\<close>

lemma places_next_id [simp]: "mc_places (snd (next_request_id c)) = mc_places c"
  by (simp add: next_request_id_def Let_def)

lemma places_small [simp]:
  "mc_places (snd (enqueue data c)) = mc_places c" "mc_places (snd (malformed c)) = mc_places c"
  "mc_places (snd (ask data c)) = mc_places c" "mc_places (count_malformed c) = mc_places c"
  "mc_places (fail_battery_request b c) = mc_places c" "mc_places (invalidate_node_battery c) = mc_places c"
  "mc_places (update_availability c) = mc_places c" "mc_places (mark_dirty c) = mc_places c"
  "mc_places (clear_room c) = mc_places c" "mc_places (end_operation c) = mc_places c"
  "mc_places (set_delivery d c) = mc_places c" "mc_places (settle_snapshot now c) = mc_places c"
  "mc_places (snd (mesh_apply e t r c)) = mc_places c" "mc_places (finish_retry now b c) = mc_places c"
  "mc_places (accept_contact data c) = mc_places c"
  by (simp_all add: enqueue_eq malformed_def ask_def count_malformed_def fail_battery_request_def Let_def case_prod_beta
      invalidate_node_battery_def update_availability_def mesh_apply_def mark_dirty_def clear_room_def end_operation_def
      set_delivery_def settle_snapshot_def finish_retry_def accept_contact_def)

lemma places_drain [simp]:
  "mc_places (snd (request_next_message now c)) = mc_places c" "mc_places (snd (spend_pending_push now c)) = mc_places c"
  "mc_places (drain_after b now c) = mc_places c" "mc_places (snd (accept_channel_message_v3 data c)) = mc_places c"
  by (simp_all add: request_next_message_def spend_pending_push_def drain_after_def accept_channel_message_v3_def enqueue_eq Let_def
      split: bool.split)

lemma spots_end_contacts [simp]: "spots_ok now (snd (end_contacts t c)) = spots_ok now c"
  by (simp add: end_contacts_def request_next_message_def enqueue_eq Let_def split: bool.split)

lemma places_sends [simp]:
  "mc_places (snd (enqueue_private peer body t rid c)) = mc_places c"
  "mc_places (snd (send_private peer body t c)) = mc_places c"
  "mc_places (snd (send_room room pw body t c)) = mc_places c"
proof -
  show e: "mc_places (snd (enqueue_private peer body t rid c)) = mc_places c" for rid
    by (cases rule: enqueue_private_cases [of peer body t rid c]) (simp_all add: publish_def)
  show "mc_places (snd (send_private peer body t c)) = mc_places c"
    "mc_places (snd (send_room room pw body t c)) = mc_places c"
    by (simp_all add: send_private_def send_room_def Let_def e enqueue_eq next_publish publish_def case_prod_beta split: bool.split)
qed

lemma places_answers [simp]:
  "mc_places (snd (on_device_info data c)) = mc_places c" "mc_places (snd (on_contacts_start data now c)) = mc_places c"
  "mc_places (take_fetched_contact data c) = mc_places c"
  "mc_places (snd (on_battery data now c)) = mc_places c" "mc_places (snd (on_message_waiting now c)) = mc_places c"
  "mc_places (snd (on_no_more_messages data c)) = mc_places c" "mc_places (snd (on_sent data now c)) = mc_places c"
  "mc_places (snd (on_send_confirmed data c)) = mc_places c" "mc_places (snd (on_login_success data c)) = mc_places c"
  "mc_places (snd (on_login_fail data c)) = mc_places c"
  by (simp_all add: on_device_info_def on_contacts_start_def on_battery_def take_fetched_contact_def
      on_message_waiting_def on_no_more_messages_def on_sent_def on_send_confirmed_def on_login_success_def on_login_fail_def
      Let_def case_prod_beta)

lemma places_contact [simp]: "mc_places (snd (on_contact data now c)) = mc_places c"
  by (simp add: on_contact_def Let_def)

lemma spots_contacts_end [simp]: "spots_ok now (snd (on_contacts_end data t c)) = spots_ok now c"
  by (simp add: on_contacts_end_def Let_def case_prod_beta split: bool.split)

lemma spots_custom_vars [simp]: "spots_ok now (snd (on_custom_vars data c)) = spots_ok now c"
  by (simp add: on_custom_vars_def accept_custom_vars_def Let_def)

lemma spots_error [simp]: "spots_ok now (snd (on_error data t c)) = spots_ok now c"
  by (simp add: on_error_def Let_def)

subsection \<open>Calls that move them\<close>

lemma spots_self_position: "spots_ok now c \<Longrightarrow> spots_ok now (accept_self_position data now c)"
  by (simp add: places_ok_def accept_self_position_def Let_def)

lemma spots_self_info:
  assumes "spots_ok now c"
  shows "spots_ok now (snd (on_self_info data now c))"
proof -
  define node where "node = \<lparr>public_key = take 32 (drop 4 data)\<rparr>"
  define c1 where "c1 = (if ms_has_node_id (mc_status c) \<and> ms_node_id (mc_status c) \<noteq> node then invalidate_node_battery c else c)"
  define c2 where "c2 = c1\<lparr>mc_status := (mc_status c1)\<lparr>ms_node_id := node, ms_has_node_id := True,
      ms_node_name := fst (copy_text (ms_node_name (mc_status c1)) (drop 58 data))\<rparr>\<rparr>"
  define c3 where "c3 = (if mc_pinned_set c2
      then c2\<lparr>mc_status := (mc_status c2)\<lparr>ms_refused_id := new_mesh_peer_id, ms_has_refused := False\<rparr>\<rparr> else c2)"
  have same: "mc_places c3 = mc_places c" "mc_places c2 = mc_places c" by (simp_all add: c3_def c2_def c1_def)
  have "spots_ok now (accept_self_position (drop 36 data) now c3)"
    using assms by (intro spots_self_position) (simp add: same)
  with assms same show ?thesis
    unfolding on_self_info_def Let_def node_def [symmetric] c1_def [symmetric] c2_def [symmetric] c3_def [symmetric]
    by simp
qed

lemma spots_adopt: "spots_ok now c \<Longrightarrow> spots_ok now (adopt_remote_position sender now c)"
  by (auto simp: adopt_remote_position_def places_ok_def Let_def parsed_in_bounds split: option.split)

lemma spots_message: "spots_ok now c \<Longrightarrow> spots_ok now (snd (accept_message data v3 now c))"
  by (simp add: accept_message_def Let_def spots_adopt)

lemma spots_deleted: "spots_ok now c \<Longrightarrow> spots_ok now (snd (on_contact_deleted data c))"
  by (simp add: on_contact_deleted_def Let_def) (simp add: places_ok_def)

lemma spots_dispatch: "spots_ok now c \<Longrightarrow> spots_ok now (snd (mesh_dispatch data now c))"
  by (simp add: mesh_dispatch_def Let_def case_prod_beta spots_self_info spots_deleted spots_message)

lemma spots_reset [simp]: "spots_ok now (reset_session c)"
  by (simp add: places_ok_def reset_session_def new_mesh_places_def)

lemma spots_receive: "spots_ok t c \<Longrightarrow> spots_ok t (snd (mesh_receive d t c))"
  using spots_dispatch [of t "snd (mesh_apply PeerData t NoReason c)" "the d"]
  by (cases d) (simp_all add: mesh_receive_def case_prod_beta split: bool.split)

lemma spots_tick [simp]: "spots_ok now (mesh_tick t c) = spots_ok now c"
proof -
  have p: "mc_places (tick_battery t c) = mc_places c" "mc_places (tick_operation t c) = mc_places c"
    "mc_places (tick_retry_deadline t c) = mc_places c" "mc_places (tick_retry_ask t c) = mc_places c"
    "mc_places (tick_retry_quiet t c) = mc_places c" "mc_places (tick_drain t c) = mc_places c" for c
    by (simp_all add: tick_battery_def tick_operation_def tick_retry_deadline_def tick_retry_ask_def
        tick_retry_quiet_def tick_drain_def Let_def case_prod_beta enqueue_eq split: bool.split)
  have "spots_ok now (tick_vars t c) = spots_ok now c" "spots_ok now (tick_quiet t c) = spots_ok now c" for c
    by (simp_all add: tick_vars_def tick_quiet_def case_prod_beta split: bool.split)
  then show ?thesis by (simp add: mesh_tick_def p)
qed

lemma places_next_tx [simp]: "mc_places (snd (next_tx c)) = mc_places c"
  by (rule next_tx_keeps [where P = "\<lambda>d. mc_places d = mc_places c"])
    (simp_all add: poll_battery_def Let_def enqueue_eq split: bool.split)

section \<open>Histories on one clock\<close>

lemma spots_step:
  assumes "spots_ok now c" "\<And>t. call_time x = Some t \<Longrightarrow> t = now"
  shows "spots_ok now (mesh_step x c)"
proof (cases x)
  case (MReceive d t)
  with assms show ?thesis by (simp add: spots_receive)
next
  case MUnpin
  with assms show ?thesis by (simp add: mesh_unpin_def Let_def places_ok_def)
qed (use assms in \<open>simp_all add: mesh_begin_def mesh_peer_arriving_def mesh_connected_def mesh_disconnected_def mesh_fault_def
    mesh_pin_def drop_oversize_frame_def Let_def case_prod_beta\<close>)

lemma spots_timed: "spots_ok (snd s) (fst s) \<Longrightarrow> spots_ok (snd (timed_step x s)) (fst (timed_step x s))"
  by (auto simp: timed_step_def split: option.split intro: spots_step places_later)

interpretation timed_mesh: guarded_ops timed_step "\<lambda>s. spots_ok (snd s) (fst s)"
  by unfold_locales (rule spots_timed)

lemma new_spots: "spots_ok 0 new_mesh_companion"
  by (simp add: places_ok_def new_mesh_companion_def new_mesh_places_def)

text \<open>The node as a provider of positions.\<close>

interpretation node_provider: position_provider "\<lambda>s. node_provider_availability (fst s)" "\<lambda>s. node_provider_sample (fst s)" snd
  "\<lambda>s. spots_ok (snd s) (fst s)"
proof
  fix s :: "mesh_companion \<times> monotonic" and h
  assume s: "spots_ok (snd s) (fst s)" and h: "node_provider_sample (fst s) = Some h"
  then show "observed_at (ps_observation h) \<le> snd s"
    by (auto simp: node_provider_sample_def node_position_def places_ok_def split: if_splits)
  assume "claims_fix (ps_observation h)"
  with h show "\<exists>pos. go_position (ps_observation h) = Some pos \<and> in_range pos"
    by (auto simp: node_provider_sample_def node_position_def claims_fix_def split: if_splits)
qed

text \<open>C20. Over any history on one clock, a coordinate offered for the node or for a peer lies on the globe,
  a peer's is not the null island, neither was heard later than now, nothing is offered of a refused node,
  and what the node's provider hands on claims the node as its source and never a fix, so it is never
  taken for a position that was checked.\<close>

theorem mesh_coordinates_are_honest:
  "let (c, now) = run_ops timed_step calls (new_mesh_companion, 0) in
    (case node_position c of None \<Rightarrow> node_provider_sample c = None
     | Some (p, t) \<Rightarrow> \<not> mc_wrong_node c \<and> in_range p \<and> t \<le> now \<and>
        (case node_provider_sample c of None \<Rightarrow> False
         | Some s \<Rightarrow> go_position (ps_observation s) = Some p \<and> observed_at (ps_observation s) = t \<and>
             go_source (ps_observation s) = NodeGnss \<and> classify (ps_observation s) now policy = NoFix)) \<and>
    (case remote_position c of None \<Rightarrow> True
     | Some (who, p, t) \<Rightarrow> \<not> mc_wrong_node c \<and> in_range p \<and> (latitude_e7 p, longitude_e7 p) \<noteq> (0, 0) \<and> t \<le> now)"
proof -
  obtain c now where r: "run_ops timed_step calls (new_mesh_companion, 0) = (c, now)" by fastforce
  have "spots_ok now c"
    using timed_mesh.run_inv [of "(new_mesh_companion, 0)" calls] new_spots by (simp add: r)
  then show ?thesis
    by (auto simp: r places_ok_def Let_def node_position_def remote_position_def node_provider_sample_def in_range_def
        remote_in_bounds_def classify_def new_gnss_observation_def split: option.split if_splits)
qed

end
