(* ===== verification/Spec2Isabelle.thy ===== *)
theory Spec2Isabelle
  imports Frame_Codec Frame_Queue Input_Events Clock Link_State Session_Owner Radio_Worker Node_Link_Lease Bridge_Transfer Trust_Evaluator Time_Service Gnss_Power Nmea_Lines Mesh_Send Mesh_Snapshot Mesh_Refusal Node_Position
begin

text \<open>
  A verification development for Attadipa, the operating system of a small outdoor wearable: a
  watch that knows where it is, carries a radio link to a MeshCore node, and says how far its
  own position may be trusted. The program is C++17 under \<open>src/\<close>; this library models its core
  logic, which is free of any platform, and leaves drivers, pictures and text to their own tests.

  \<^bold>\<open>How the program is put together.\<close> \<open>core/\<close> holds the data the whole watch agrees on (clocks,
  positions, trust, input, power), \<open>link/\<close> the radio link from bytes to sessions, \<open>debug/\<close> the
  debug channel over the same framing, \<open>gnss/\<close> the receiver, \<open>apps/\<close> the screens' logic, \<open>ui/\<close>,
  \<open>sim/\<close>, \<open>firmware/\<close> and \<open>platform/\<close> what draws, simulates and drives. A payload travels from
  bytes through the frame decoder into a queue; the radio worker drains it under the session
  record, whose epochs say which session a fact belongs to; an observation goes to the trust
  evaluator, which reports to the trust engine; the link's phase takes or returns a power lease,
  and the power owner sleeps only around what is leased. Input from a finger and from the debug
  bridge meet in one queue and one record of what is held.

  \<^bold>\<open>Conventions.\<close> A class is a record of its fields and a method a function from record to record,
  with its answer first in a tuple. Unsigned integers of a fixed width are words, so they wrap
  where the C++ wraps; \<open>size_t\<close> counts are naturals under bounds that are invariants; signed
  times are integers or words as the theory says. Fixed buffers are lists of a fixed length, and a
  guard the code has is the guard of every list access. What the code calls but does not contain
  (a board's power hardware, a screen, a bond store) is an argument with its documented behaviour
  as a named hypothesis, and each such hypothesis has an instance in the witness of the theorem.

  \<^bold>\<open>The library.\<close>
  \<^item> \<open>Attadipa_Prelude\<close>: word arithmetic, bytes and their little-endian integers, ring indices,
    shared list facts and the collection of invariant rules. \<open>Interfaces\<close>: the contracts several
    components share as locales (operations that keep an invariant, a bounded queue, a
    resynchronising parser), each interpreted on the code's own operations in the theory that
    provides them. \<open>Ring_Buffer\<close>: the ring behind both queues.
  \<^item> \<open>Frame_Codec\<close> (\<open>link/frame_codec\<close>): encoder, CRC and the incremental decoder. Decoding does not
    depend on how the stream was cut, recovers what was encoded across noise, reports only what
    was sent, and a single damaged byte is always caught. \<open>Frame_Queue\<close> (\<open>link/frame_queue.h\<close>):
    the decoded frames waiting for the worker, in order and fully counted.
  \<^item> \<open>Link_State\<close> (\<open>link/link_state\<close>): the six phases, their eleven events and the connection stamps.
    \<open>Session_Owner\<close> (\<open>link/session_owner\<close>): the mailbox and record by which tasks agree on which
    session is current; a consumer that catches up ends with the current session, and what belongs
    to an ended one changes nothing. \<open>Radio_Worker\<close>: one pass of the worker in
    \<open>firmware/main/meshcore_ble.cpp\<close> over that record.
  \<^item> \<open>Clock\<close> (\<open>core/clock\<close>): the two clocks and the proleptic calendar, both ways.
    \<open>Input_Events\<close> (\<open>core/input\<close>): the input queue, the record of what is held and by whom.
  \<^item> \<open>Power_State\<close>, \<open>Power_Leases\<close>, \<open>Power_Owner\<close> (\<open>core/power_state\<close>, \<open>power_leases.h\<close>,
    \<open>power_owner\<close>): wake sources and wake causes, the table of leases with its generations, and the
    sleep transaction with its journals. Over any board that reports honestly the owner always
    knows the board, and what it rests is what was planned and not leased.
    \<open>Power_Log\<close>: which calls a transaction can make at all, proved once for any board and any
    property its calls keep, and for a board that keeps the list of them.
    \<open>Node_Link_Lease\<close> (\<open>core/node_link_lease.h\<close>): the link's one lease; while it is held no
    transaction, however it ends, takes the node link down.
  \<^item> \<open>Position\<close>, \<open>Geo\<close> (\<open>core/position\<close>, \<open>core/motion\<close>, \<open>core/geo\<close>): observations, whose body they
    speak for, their validity, and the integer distance with its square root.
    \<open>Trust\<close>, \<open>Trust_Engine\<close>, \<open>Trust_Evaluator\<close> (\<open>core/trust\<close>): allegations with weights and expiry,
    hysteresis, the log of changes, and how observations become reports; trust falls at once and
    is earned back one level at a time.
  \<^item> \<open>Debug_Protocol\<close> (\<open>debug/protocol\<close>): envelope and bodies of the debug channel, both ways.
    \<open>Debug_Bridge\<close> (\<open>debug/bridge\<close>): the device end. \<open>Bridge_Replies\<close>: over any history every
    request is answered once. \<open>Bridge_Input\<close>: an injected event happens whole or not at all, and a
    hold is lifted when its client is gone. \<open>Bridge_Transfer\<close>: a screen transfer delivers the frame.
  \<^item> \<open>Hardware\<close> (\<open>platform/\<close> \<open>hardware_feature\<close>, \<open>radio_info\<close>, \<open>profile_inventory\<close>): what a board
    carries and the state of each part, with the inventory's contract as a locale.
    \<open>Capability_Registry\<close> (\<open>core/\<close> \<open>availability\<close>, \<open>capability\<close>, \<open>capability_registry\<close>): what the watch
    can do, from its own parts and from its node; the source named is the one nearest to working.
  \<^item> \<open>Time_Service\<close> (\<open>core/time_service\<close>): the wall clock, which only a valid sample starts and a
    later one moves within the limit; the time shown keeps its age and its zone.
    \<open>Gnss_Power\<close> (\<open>core/gnss_power\<close>): when the receiver acquires, tracks, rests or is off, as the
    requests, the link's own position and the power state ask.
  \<^item> \<open>Minmea\<close>, \<open>Nmea_Fields\<close>, \<open>Nmea_Receiver\<close>, \<open>Nmea_Lines\<close> (\<open>gnss/vendor/minmea\<close>,
    \<open>gnss/nmea_receiver\<close>): the sentence scanner, the fields and their guards, the epoch the receiver
    assembles, and the cutting of bytes into lines. A line is judged once, a coordinate is exact to
    its floor, a refused sentence spoils the epoch it belongs to, and what the receiver offers is
    within range and never dated ahead. \<open>Location_Service\<close> (\<open>core/location_service\<close>): the
    position the screens read; a provider that repeats a coordinate does not make it younger.
  \<^item> \<open>Mesh_Service\<close> (\<open>core/mesh_service\<close>): readiness, the sends offered and the cutting of text at a
    whole character. \<open>Mesh_Text\<close>, \<open>Mesh_Companion\<close> (\<open>link/meshcore_companion\<close>): the whole companion,
    every frame it reads and every call made into it, over its transmit ring, its peer tables, its
    contact list, its backlog and the one operation in flight.
    \<open>Mesh_Queue\<close>: the ring is a bounded queue that leaves no frame behind. \<open>Mesh_Invariant\<close>,
    \<open>Mesh_Histories\<close>: what holds after any history of calls. \<open>Mesh_Neutral\<close>, \<open>Mesh_Clock\<close>: what
    most calls leave alone, and the dates kept, on one clock. \<open>Mesh_Delivery\<close>: the sender is told
    \<open>Confirmed\<close> only by a frame that carries the bytes the node announced for that text.
    \<open>Mesh_Send\<close>: a text is taken whole or not at all, and is over once its budgets have passed,
    however often the clock ticks and whatever happens between. \<open>Mesh_Snapshot\<close>: a second reading of
    the contacts is shown whole or not at all. \<open>Mesh_Refusal\<close>: a node that is not the pinned one
    gets nothing new. \<open>Node_Position\<close> (\<open>link/node_position_provider\<close>): the node's own coordinates as
    the watch offers them.

  \<^bold>\<open>Interfaces.\<close> \<open>guarded_ops\<close> carries every invariant along every history: it is interpreted for the
  link, the sessions, the leases, the receiver, the companion, and the companion on a clock.
  \<open>bounded_fifo\<close> is met by both queues, \<open>stream_parser\<close> by the frame decoder,
  \<open>inventory_contract\<close> by the profile inventory, \<open>position_provider\<close> (what the location service
  relies on) by the receiver and by the node. \<open>board_property\<close> and \<open>board_map\<close> are what a sleep
  transaction keeps of its board, whatever that board answers.

  \<^bold>\<open>Bounds and fuel.\<close> No definition takes fuel. The decoder's loop and \<open>feed\<close> end by measures on the
  bytes buffered, a screen transfer by the bytes left, the sweep of the transmit ring by its size,
  the readers of text by the bytes ahead, the square root by its falling guess, the calendar by the
  structure of the dates. Capacities (payloads of 192 bytes, companion frames of 176, a ring of 4,
  16 peers, lines of 82 characters, queues of 4 and 64, eight leases, sixteen transitions, three
  buttons) are the code's constants.

  \<^bold>\<open>Faults.\<close> Where the code would divide by zero the model has no value: \<open>isqrt\<close> is \<open>None\<close> at the one
  input, the largest word, where the step of \<open>core/src/geo.cpp\<close> wraps to a zero divisor, and the
  distance is shown never to ask for it. A guard the code lacks is not added: the scale of a
  fraction in \<open>Minmea\<close> is an integer without bound where the C overflows, and the theory says so.

  \<^bold>\<open>Not modelled.\<close> \<open>core/geo\<close>'s bearing and great circle use floating point and libm, which no
  source fixes. Tasks and locks are modelled as explicit sequences of steps under the one mutex the
  code takes, not as a scheduler. Board drivers and the glue to NimBLE and FreeRTOS are calls into
  code outside the repository, and the LVGL faces and the simulator draw and drive what is modelled
  here. Fonts, backgrounds, icons and string tables are generated data. The screens' own logic in
  \<open>apps/\<close> and the header-only helpers of \<open>firmware/main\<close> are not modelled. \<open>PROJECT.json\<close> lists
  every part and its state.
\<close>

end
